(* ===== verification/Prelude.thy ===== *)
theory Prelude
  imports Complex_Main "HOL-Library.Word" "HOL-Library.Char_ord" "HOL-Library.List_Lexorder"
begin

text \<open>
  Shared vocabulary of the development: the JavaScript library operations that the source
  uses and every component needs (strings, arrays, insertion-ordered maps, sets), the generic
  lemmas about them, and the interface of a keyed store that the caches, histories and
  registries of the program rely on.

  Strings are lists of characters, and a character stands for one UTF-16 code unit below 256:
  case mapping and white space are exact on that range. Numbers that the source compares or
  scales without rounding questions (coordinates, scores) are \<open>real\<close>, counts and
  millisecond budgets are \<open>int\<close> or \<open>nat\<close>, and typed-array elements are words of
  their width.
\<close>

named_theorems js_simps \<open>unfolding rules for the array, map and string operations of the source\<close>

section \<open>Arrays\<close>

text \<open>\<open>[...new Set(xs)]\<close>: the first occurrence of each element, in order.\<close>

definition js_uniq :: "'a list \<Rightarrow> 'a list" where
  "js_uniq xs = rev (remdups (rev xs))"

lemma js_uniq_Nil [simp]: "js_uniq [] = []"
  by (simp add: js_uniq_def)

lemma set_js_uniq [simp]: "set (js_uniq xs) = set xs"
  by (simp add: js_uniq_def)

lemma distinct_js_uniq [simp]: "distinct (js_uniq xs)"
  by (simp add: js_uniq_def)

lemma js_uniq_snoc:
  "js_uniq (xs @ [x]) = (if x \<in> set xs then js_uniq xs else js_uniq xs @ [x])"
  by (simp add: js_uniq_def)

lemma js_uniq_distinct [simp]: "distinct xs \<Longrightarrow> js_uniq xs = xs"
  by (simp add: js_uniq_def distinct_remdups_id)

text \<open>\<open>xs[i]\<close> read with a number: out of range the result is \<open>undefined\<close>.\<close>

definition nth_opt :: "'a list \<Rightarrow> int \<Rightarrow> 'a option" where
  "nth_opt xs i = (if 0 \<le> i \<and> i < int (length xs) then Some (xs ! nat i) else None)"

lemma nth_opt_Some: "nth_opt xs i = Some x \<Longrightarrow> x \<in> set xs"
  by (auto simp: nth_opt_def split: if_splits)

definition last_opt :: "'a list \<Rightarrow> 'a option" where
  "last_opt xs = (if xs = [] then None else Some (last xs))"

lemma last_opt_Some: "last_opt xs = Some x \<Longrightarrow> x \<in> set xs"
  by (auto simp: last_opt_def split: if_splits)

lemma sum_list_le_bound:
  fixes f :: "'a \<Rightarrow> int"
  shows "(\<And>x. x \<in> set xs \<Longrightarrow> 0 \<le> f x) \<Longrightarrow> 0 \<le> sum_list (map f xs)"
  by (induction xs) auto

text \<open>A number from outside: \<open>Number.isFinite\<close> tells whether it is a real number at all.\<close>

datatype js_num = Finite real | NonFinite

section \<open>Strings\<close>

definition code_unit :: "char \<Rightarrow> int" where
  "code_unit c = of_char c"

definition lower_char :: "char \<Rightarrow> char" where
  "lower_char c =
     (let n = code_unit c
      in if 65 \<le> n \<and> n \<le> 90 \<or> 192 \<le> n \<and> n \<le> 222 \<and> n \<noteq> 215 then char_of (n + 32) else c)"

definition js_lower :: "string \<Rightarrow> string" where
  "js_lower s = map lower_char s"

definition is_space :: "char \<Rightarrow> bool" where
  "is_space c \<longleftrightarrow> (let n = code_unit c in 9 \<le> n \<and> n \<le> 13 \<or> n = 32 \<or> n = 160)"

definition js_trim :: "string \<Rightarrow> string" where
  "js_trim s = rev (dropWhile is_space (rev (dropWhile is_space s)))"

definition is_digit :: "char \<Rightarrow> bool" where
  "is_digit c \<longleftrightarrow> 48 \<le> code_unit c \<and> code_unit c \<le> 57"

definition is_letter :: "char \<Rightarrow> bool" where
  "is_letter c \<longleftrightarrow> (let n = code_unit c in 65 \<le> n \<and> n \<le> 90 \<or> 97 \<le> n \<and> n \<le> 122)"

text \<open>\<open>s.split(sep)\<close> for a one-character separator.\<close>

fun split_on :: "char \<Rightarrow> string \<Rightarrow> string list" where
  "split_on sep [] = [[]]"
| "split_on sep (c # cs) =
     (if c = sep then [] # split_on sep cs
      else (case split_on sep cs of [] \<Rightarrow> [[c]] | w # ws \<Rightarrow> (c # w) # ws))"

definition starts_with :: "string \<Rightarrow> string \<Rightarrow> bool" where
  "starts_with pre s \<longleftrightarrow> take (length pre) s = pre"

fun includes_str :: "string \<Rightarrow> string \<Rightarrow> bool" where
  "includes_str sub [] \<longleftrightarrow> sub = []"
| "includes_str sub (c # cs) \<longleftrightarrow> starts_with sub (c # cs) \<or> includes_str sub cs"

fun join_with :: "string \<Rightarrow> string list \<Rightarrow> string" where
  "join_with sep [] = []"
| "join_with sep [x] = x"
| "join_with sep (x # y # xs) = x @ sep @ join_with sep (y # xs)"

text \<open>The value of a string of decimal digits, and the decimal form of a natural number.\<close>

definition dec_val :: "string \<Rightarrow> int" where
  "dec_val s = foldl (\<lambda>n c. 10 * n + (code_unit c - 48)) 0 s"

definition digit_char :: "nat \<Rightarrow> char" where
  "digit_char d = char_of (48 + d)"

fun nat_str :: "nat \<Rightarrow> string" where
  "nat_str n = (if n < 10 then [digit_char n] else nat_str (n div 10) @ [digit_char (n mod 10)])"

declare nat_str.simps [simp del]

definition int_str :: "int \<Rightarrow> string" where
  "int_str i = (if i < 0 then ''-'' @ nat_str (nat (- i)) else nat_str (nat i))"

lemma code_unit_digit_char: "d < 10 \<Longrightarrow> code_unit (digit_char d) = 48 + int d"
proof -
  assume "d < 10"
  then have "of_char (digit_char d) = 48 + d" by (simp add: digit_char_def)
  then show ?thesis by (metis code_unit_def of_nat_add of_nat_numeral of_nat_of_char)
qed

lemma nat_str_not_Nil [simp]: "nat_str n \<noteq> []"
  by (subst nat_str.simps) simp

lemma nat_str_digits: "c \<in> set (nat_str n) \<Longrightarrow> is_digit c"
proof (induction n rule: nat_str.induct)
  case (1 n)
  then show ?case
    by (cases "n < 10")
      (auto simp: nat_str.simps [of n] is_digit_def code_unit_digit_char)
qed

lemma dec_val_snoc: "dec_val (s @ [c]) = 10 * dec_val s + (code_unit c - 48)"
  by (simp add: dec_val_def)

lemma dec_val_nat_str [simp]: "dec_val (nat_str n) = int n"
proof (induction n rule: nat_str.induct)
  case (1 n)
  show ?case
  proof (cases "n < 10")
    case True
    then show ?thesis by (simp add: nat_str.simps [of n] dec_val_def code_unit_digit_char)
  next
    case False
    have "int n = 10 * int (n div 10) + int (n mod 10)"
      by (metis mult_div_mod_eq of_nat_add of_nat_mult of_nat_numeral)
    with 1 False show ?thesis
      by (simp add: nat_str.simps [of n] dec_val_snoc code_unit_digit_char)
  qed
qed

lemma length_nat_str_byte: "n < 256 \<Longrightarrow> length (nat_str n) \<le> 3"
proof -
  assume n: "n < 256"
  have "nat_str m = [digit_char m]" if "m < 10" for m using that by (simp add: nat_str.simps [of m])
  moreover have "length (nat_str m) = 2" if "10 \<le> m" "m < 100" for m
    using that by (simp add: nat_str.simps [of m] nat_str.simps [of "m div 10"])
  ultimately show ?thesis
    using n nat_str.simps [of n] by (cases "n < 10"; cases "n < 100") auto
qed

lemma split_on_not_Nil [simp]: "split_on sep s \<noteq> []"
  by (induction s) (auto split: list.splits)

lemma split_on_none: "sep \<notin> set s \<Longrightarrow> split_on sep s = [s]"
  by (induction s) auto

lemma split_on_append:
  "sep \<notin> set s \<Longrightarrow> split_on sep (s @ sep # t) = s # split_on sep t"
  by (induction s) auto

lemma join_split_on: "join_with [sep] (split_on sep s) = s"
proof (induction s)
  case Nil
  then show ?case by simp
next
  case (Cons c cs)
  then show ?case
    by (cases "split_on sep cs"; cases "tl (split_on sep cs)") auto
qed

lemma split_on_join:
  "xs \<noteq> [] \<Longrightarrow> (\<And>x. x \<in> set xs \<Longrightarrow> sep \<notin> set x) \<Longrightarrow> split_on sep (join_with [sep] xs) = xs"
proof (induction "[sep]" xs rule: join_with.induct)
  case (3 x y xs)
  then have "split_on sep (x @ sep # join_with [sep] (y # xs))
      = x # split_on sep (join_with [sep] (y # xs))"
    by (intro split_on_append) simp
  with 3 show ?case by simp
qed (auto simp: split_on_none)

lemma append_sep_eq:
  "sep \<notin> set a \<Longrightarrow> sep \<notin> set b \<Longrightarrow> a @ sep # x = b @ sep # y \<longleftrightarrow> a = b \<and> x = y"
proof (induction a arbitrary: b)
  case Nil
  then show ?case by (cases b) auto
next
  case (Cons c a)
  then show ?case by (cases b) auto
qed

lemma js_lower_append [simp]: "js_lower (s @ t) = js_lower s @ js_lower t"
  by (simp add: js_lower_def)

lemma length_js_lower [simp]: "length (js_lower s) = length s"
  by (simp add: js_lower_def)

lemma code_unit_bounds: "0 \<le> code_unit c \<and> code_unit c < 256"
  unfolding code_unit_def by (metis of_char_of of_char_mod_256 of_nat_0_le_iff pos_mod_bound pos_mod_sign zero_less_numeral)

section \<open>Insertion-ordered maps\<close>

text \<open>
  A JavaScript \<open>Map\<close> iterates in insertion order and keeps the position of a key that is
  set again; \<open>omap\<close> is its list of entries.
\<close>

type_synonym ('k, 'v) omap = "('k \<times> 'v) list"

definition omap_get :: "('k, 'v) omap \<Rightarrow> 'k \<Rightarrow> 'v option" where
  "omap_get m k = map_of m k"

definition omap_has :: "('k, 'v) omap \<Rightarrow> 'k \<Rightarrow> bool" where
  "omap_has m k \<longleftrightarrow> k \<in> set (map fst m)"

definition omap_set :: "'k \<Rightarrow> 'v \<Rightarrow> ('k, 'v) omap \<Rightarrow> ('k, 'v) omap" where
  "omap_set k v m =
     (if omap_has m k then map (\<lambda>e. if fst e = k then (k, v) else e) m
      else m @ [(k, v)])"

definition omap_delete :: "'k \<Rightarrow> ('k, 'v) omap \<Rightarrow> ('k, 'v) omap" where
  "omap_delete k m = filter (\<lambda>(k', _). k' \<noteq> k) m"

definition omap_keys :: "('k, 'v) omap \<Rightarrow> 'k list" where
  "omap_keys m = map fst m"

definition omap_values :: "('k, 'v) omap \<Rightarrow> 'v list" where
  "omap_values m = map snd m"

text \<open>\<open>new Map(entries)\<close>.\<close>

definition omap_of :: "('k \<times> 'v) list \<Rightarrow> ('k, 'v) omap" where
  "omap_of es = foldl (\<lambda>m (k, v). omap_set k v m) [] es"

definition omap_inv :: "('k, 'v) omap \<Rightarrow> bool" where
  "omap_inv m \<longleftrightarrow> distinct (map fst m)"

lemma omap_has_iff: "omap_has m k \<longleftrightarrow> omap_get m k \<noteq> None"
  by (auto simp: omap_has_def omap_get_def map_of_eq_None_iff)

lemma omap_get_Nil [simp]: "omap_get [] k = None"
  by (simp add: omap_get_def)

lemma omap_inv_Nil [simp]: "omap_inv []"
  by (simp add: omap_inv_def)

lemma map_fst_omap_set:
  "map fst (omap_set k v m) = (if omap_has m k then map fst m else map fst m @ [k])"
  by (auto simp: omap_set_def intro!: map_cong)

lemma omap_inv_set [simp]: "omap_inv m \<Longrightarrow> omap_inv (omap_set k v m)"
  by (simp add: omap_inv_def map_fst_omap_set omap_has_def)

lemma omap_inv_delete [simp]: "omap_inv m \<Longrightarrow> omap_inv (omap_delete k m)"
  by (induction m) (auto simp: omap_inv_def omap_delete_def)

lemma map_of_update_value:
  "map_of (map (\<lambda>e. if fst e = k then (k, v) else e) m) j =
   (if j = k \<and> k \<in> fst ` set m then Some v else map_of m j)"
proof (induction m)
  case Nil
  show ?case by simp
next
  case (Cons e m)
  then show ?case by (cases e; cases "j = k") auto
qed

lemma omap_get_set [simp]: "omap_get (omap_set k v m) j = (if j = k then Some v else omap_get m j)"
proof (cases "omap_has m k")
  case True
  then show ?thesis
    by (simp add: omap_set_def omap_get_def omap_has_def map_of_update_value)
next
  case False
  then have "map_of m k = None"
    by (simp add: omap_has_def map_of_eq_None_iff)
  with False show ?thesis
    by (simp add: omap_set_def omap_get_def map_add_def split: option.split)
qed

lemma omap_get_delete [simp]:
  "omap_get (omap_delete k m) j = (if j = k then None else omap_get m j)"
  by (induction m) (auto simp: omap_get_def omap_delete_def)

lemma omap_values_get:
  "omap_inv m \<Longrightarrow> v \<in> set (omap_values m) \<longleftrightarrow> (\<exists>k. omap_get m k = Some v)"
  by (simp add: omap_values_def omap_get_def omap_inv_def image_iff) force

lemma omap_of_snoc: "omap_of (es @ [(k, v)]) = omap_set k v (omap_of es)"
  by (simp add: omap_of_def)

lemma omap_of_Nil [simp]: "omap_of [] = []"
  by (simp add: omap_of_def)

lemma omap_inv_of [simp]: "omap_inv (omap_of es)"
  by (induction es rule: rev_induct) (auto simp: omap_of_snoc split_paired_all)

text \<open>\<open>new Map\<close> keeps the last value given for a key.\<close>

lemma omap_get_of: "omap_get (omap_of es) k = map_of (rev es) k"
  by (induction es rule: rev_induct) (auto simp: omap_of_snoc split_paired_all)

lemma omap_get_of_in: "omap_get (omap_of es) k = Some v \<Longrightarrow> (k, v) \<in> set es"
  by (auto simp: omap_get_of dest: map_of_SomeD)

subsection \<open>The interface of a keyed store\<close>

text \<open>
  What the caches, histories and registries rely on: a lookup after a write sees the write and
  nothing else changes. The facts its clients use are proved once here.
\<close>

locale keyed_store =
  fixes empty :: 'm
    and get :: "'m \<Rightarrow> 'k \<Rightarrow> 'v option"
    and put :: "'k \<Rightarrow> 'v \<Rightarrow> 'm \<Rightarrow> 'm"
    and del :: "'k \<Rightarrow> 'm \<Rightarrow> 'm"
    and inv :: "'m \<Rightarrow> bool"
  assumes inv_empty: "inv empty"
    and inv_put: "inv m \<Longrightarrow> inv (put k v m)"
    and inv_del: "inv m \<Longrightarrow> inv (del k m)"
    and get_empty: "get empty k = None"
    and get_put: "inv m \<Longrightarrow> get (put k v m) j = (if j = k then Some v else get m j)"
    and get_del: "inv m \<Longrightarrow> get (del k m) j = (if j = k then None else get m j)"
begin

lemma store_puts_frame:
  "inv m \<Longrightarrow> k \<notin> fst ` set kvs \<Longrightarrow> get (foldl (\<lambda>m (k, v). put k v m) m kvs) k = get m k"
  by (induction kvs arbitrary: m) (auto simp: get_put inv_put)

lemma store_puts_inv: "inv m \<Longrightarrow> inv (foldl (\<lambda>m (k, v). put k v m) m kvs)"
  by (induction kvs arbitrary: m) (auto simp: inv_put)

lemma store_last_put_wins:
  "inv m \<Longrightarrow> get (foldl (\<lambda>m (k, v). put k v m) m (kvs @ [(k, v)])) k = Some v"
  by (simp add: get_put store_puts_inv)

lemma store_put_del: "inv m \<Longrightarrow> get (del k (put k v m)) j = get (del k m) j"
  by (simp add: get_put get_del inv_put)

end

interpretation js_map: keyed_store "[]" omap_get omap_set omap_delete omap_inv
  by unfold_locales auto

end
