(* ===== verification/Sha256.thy ===== *)
theory Sha256
  imports Prelude
begin

text \<open>
  The incremental SHA-256 of \<open>packages/domain/src/files/sha256.ts\<close>, which hashes an upload
  while it is streamed. The class \<open>Sha256\<close> is the record \<open>sha256\<close>; \<open>Uint32Array\<close> and
  \<open>Uint8Array\<close> elements are \<open>32 word\<close> and \<open>8 word\<close>; the signed 32-bit results of the
  JavaScript bit operators and of \<open>| 0\<close> are the same 32-bit patterns. The scratch array
  \<open>w\<close> is written before it is read in every call of \<open>compress\<close>, so it is local here.
  \<open>totalBytes\<close> is an integer: the source relies on it staying far below \<open>2 ^ 50\<close>.

  The second half states FIPS 180-4 on its own terms (message schedule, compression, padding)
  and proves that any sequence of \<open>update\<close> calls followed by \<open>hex\<close> computes that digest.
\<close>

unbundle bit_operations_syntax

type_synonym u8 = "8 word"
type_synonym u32 = "32 word"

section \<open>The code\<close>

text \<open>\<open>K\<close>: the round constants of the source, which writes them in hexadecimal, in decimal.\<close>

definition sha_K :: "u32 list" where
  "sha_K =
  [1116352408, 1899447441, 3049323471, 3921009573,
   961987163, 1508970993, 2453635748, 2870763221,
   3624381080, 310598401, 607225278, 1426881987,
   1925078388, 2162078206, 2614888103, 3248222580,
   3835390401, 4022224774, 264347078, 604807628,
   770255983, 1249150122, 1555081692, 1996064986,
   2554220882, 2821834349, 2952996808, 3210313671,
   3336571891, 3584528711, 113926993, 338241895,
   666307205, 773529912, 1294757372, 1396182291,
   1695183700, 1986661051, 2177026350, 2456956037,
   2730485921, 2820302411, 3259730800, 3345764771,
   3516065817, 3600352804, 4094571909, 275423344,
   430227734, 506948616, 659060556, 883997877,
   958139571, 1322822218, 1537002063, 1747873779,
   1955562222, 2024104815, 2227730452, 2361852424,
   2428436474, 2756734187, 3204031479, 3329325298]"

definition initial_state :: "u32 list" where
  "initial_state =
  [0x6a09e667, 0xbb67ae85, 0x3c6ef372, 0xa54ff53a,
   0x510e527f, 0x9b05688c, 0x1f83d9ab, 0x5be0cd19]"

definition rotr :: "u32 \<Rightarrow> nat \<Rightarrow> u32" where
  "rotr x n = drop_bit n x OR push_bit (32 - n) x"

record sha256 =
  sha_state :: "u32 list"
  sha_block :: "u8 list"
  blockLength :: nat
  totalBytes :: int
  sha_finished :: bool

datatype sha_error = UpdateAfterHex | RangeError

definition new_sha256 :: sha256 where
  "new_sha256 = \<lparr>sha_state = initial_state, sha_block = replicate 64 0, blockLength = 0,
     totalBytes = 0, sha_finished = False\<rparr>"

text \<open>\<open>input[j] ?? 0\<close>.\<close>

definition byte_at :: "u8 list \<Rightarrow> nat \<Rightarrow> u8" where
  "byte_at xs j = (if j < length xs then xs ! j else 0)"

definition load_word :: "u8 list \<Rightarrow> nat \<Rightarrow> u32" where
  "load_word input j =
     push_bit 24 (ucast (byte_at input j)) OR push_bit 16 (ucast (byte_at input (j + 1)))
     OR push_bit 8 (ucast (byte_at input (j + 2))) OR ucast (byte_at input (j + 3))"

definition schedule_word :: "u32 list \<Rightarrow> nat \<Rightarrow> u32" where
  "schedule_word w i =
     (let x = w ! (i - 15); y = w ! (i - 2);
          s0 = rotr x 7 XOR rotr x 18 XOR drop_bit 3 x;
          s1 = rotr y 17 XOR rotr y 19 XOR drop_bit 10 y
      in w ! (i - 16) + s0 + w ! (i - 7) + s1)"

definition fill_schedule :: "u8 list \<Rightarrow> nat \<Rightarrow> u32 list" where
  "fill_schedule input offset =
     fold (\<lambda>i w. w[i := schedule_word w i]) [16..<64]
       (fold (\<lambda>i w. w[i := load_word input (offset + i * 4)]) [0..<16] (replicate 64 0))"

type_synonym working = "u32 \<times> u32 \<times> u32 \<times> u32 \<times> u32 \<times> u32 \<times> u32 \<times> u32"

fun round_step :: "u32 list \<Rightarrow> nat \<Rightarrow> working \<Rightarrow> working" where
  "round_step w i (a, b, c, d, e, f, g, h) =
     (let s1 = rotr e 6 XOR rotr e 11 XOR rotr e 25;
          ch = (e AND f) XOR (NOT e AND g);
          temp1 = h + s1 + ch + sha_K ! i + w ! i;
          s0 = rotr a 2 XOR rotr a 13 XOR rotr a 22;
          maj = (a AND b) XOR (a AND c) XOR (b AND c);
          temp2 = s0 + maj
      in (temp1 + temp2, a, b, c, d + temp1, e, f, g))"

text \<open>\<open>state[i] ?? 0\<close>; the state always has eight entries.\<close>

definition word_at :: "u32 list \<Rightarrow> nat \<Rightarrow> u32" where
  "word_at xs j = (if j < length xs then xs ! j else 0)"

definition compress :: "u32 list \<Rightarrow> u8 list \<Rightarrow> nat \<Rightarrow> u32 list" where
  "compress st input offset =
     (let w = fill_schedule input offset;
          (a, b, c, d, e, f, g, h) = fold (round_step w) [0..<64]
            (word_at st 0, word_at st 1, word_at st 2, word_at st 3,
             word_at st 4, word_at st 5, word_at st 6, word_at st 7)
      in [word_at st 0 + a, word_at st 1 + b, word_at st 2 + c, word_at st 3 + d,
          word_at st 4 + e, word_at st 5 + f, word_at st 6 + g, word_at st 7 + h])"

text \<open>\<open>while (chunk.length - offset >= 64) { compress(chunk, offset); offset += 64 }\<close>.\<close>

function absorb_loop :: "('s \<Rightarrow> 'b list \<Rightarrow> nat \<Rightarrow> 's) \<Rightarrow> 's \<Rightarrow> 'b list \<Rightarrow> nat \<Rightarrow> 's \<times> nat" where
  "absorb_loop cf st chunk offset =
     (if offset + 64 \<le> length chunk
      then absorb_loop cf (cf st chunk offset) chunk (offset + 64)
      else (st, offset))"
  by pat_completeness auto
termination
  by (relation "measure (\<lambda>(cf, st, chunk, offset). length chunk - offset)") auto

declare absorb_loop.simps [simp del]

text \<open>\<open>TypedArray.set\<close>: copying past the end throws.\<close>

definition block_set :: "u8 list \<Rightarrow> u8 list \<Rightarrow> nat \<Rightarrow> u8 list option" where
  "block_set b xs off =
     (if off + length xs \<le> length b
      then Some (take off b @ xs @ drop (off + length xs) b) else None)"

text \<open>The part of \<open>update\<close> that first completes a partly filled block.\<close>

definition top_up :: "sha256 \<Rightarrow> u8 list \<Rightarrow> (sha256 \<times> nat) option" where
  "top_up s chunk =
     (if 0 < blockLength s then
        (let need = min (64 - blockLength s) (length chunk)
         in case block_set (sha_block s) (take need chunk) (blockLength s) of
              None \<Rightarrow> None
            | Some b \<Rightarrow>
                (let s1 = s\<lparr>sha_block := b, blockLength := blockLength s + need\<rparr>
                 in Some (if blockLength s1 = 64
                          then (s1\<lparr>sha_state := compress (sha_state s1) b 0, blockLength := 0\<rparr>, need)
                          else (s1, need))))
      else Some (s, 0))"

text \<open>The rest of \<open>update\<close>: whole blocks straight from the chunk, the remainder into the buffer.\<close>

definition absorb_part :: "sha256 \<Rightarrow> u8 list \<Rightarrow> nat \<Rightarrow> sha_error + sha256" where
  "absorb_part s1 chunk offset =
     (let (st, offset') = absorb_loop compress (sha_state s1) chunk offset;
          s2 = s1\<lparr>sha_state := st\<rparr>
      in if offset' < length chunk
         then (case block_set (sha_block s2) (drop offset' chunk) 0 of
                 None \<Rightarrow> Inl RangeError
               | Some b \<Rightarrow> Inr (s2\<lparr>sha_block := b, blockLength := length chunk - offset'\<rparr>))
         else Inr s2)"

definition sha_update :: "sha256 \<Rightarrow> u8 list \<Rightarrow> sha_error + sha256" where
  "sha_update s chunk =
     (if sha_finished s then Inl UpdateAfterHex
      else case top_up (s\<lparr>totalBytes := totalBytes s + int (length chunk)\<rparr>) chunk of
          None \<Rightarrow> Inl RangeError
        | Some (s1, offset) \<Rightarrow> absorb_part s1 chunk offset)"

text \<open>\<open>view.setUint32(pos, value, false)\<close>: four bytes, most significant first.\<close>

definition be32 :: "int \<Rightarrow> u8 list" where
  "be32 n = map (\<lambda>k. word_of_int (n div 256 ^ (3 - k))) [0..<4]"

definition put_at :: "u8 list \<Rightarrow> u8 list \<Rightarrow> nat \<Rightarrow> u8 list" where
  "put_at b xs off = take off b @ xs @ drop (off + length xs) b"

definition final_tail :: "sha256 \<Rightarrow> u8 list" where
  "final_tail s =
     (let bitLength = totalBytes s * 8;
          n = (if blockLength s < 56 then 64 else 128);
          tail0 = put_at (replicate n 0) (take (blockLength s) (sha_block s)) 0;
          tail1 = tail0[blockLength s := 0x80];
          tail2 = put_at tail1 (be32 (bitLength div 2 ^ 32)) (n - 8)
      in put_at tail2 (be32 (bitLength mod 2 ^ 32)) (n - 4))"

definition hex_digit :: "int \<Rightarrow> char" where
  "hex_digit d = (if d < 10 then char_of (48 + d) else char_of (87 + d))"

text \<open>\<open>x.toString(16).padStart(8, '0')\<close>: eight lower-case digits, most significant first.\<close>

definition hex8 :: "u32 \<Rightarrow> string" where
  "hex8 x = map (\<lambda>k. hex_digit (uint x div 16 ^ (7 - k) mod 16)) [0..<8]"

definition sha_hex :: "sha256 \<Rightarrow> string \<times> sha256" where
  "sha_hex s =
     (let s' = (if sha_finished s then s
                else s\<lparr>sha_state := fst (absorb_loop compress (sha_state s) (final_tail s) 0),
                       sha_finished := True, blockLength := 0\<rparr>)
      in (concat (map (\<lambda>i. hex8 (word_at (sha_state s') i)) [0..<8]), s'))"

definition sha256Hex :: "u8 list \<Rightarrow> sha_error + string" where
  "sha256Hex bytes = (case sha_update new_sha256 bytes of Inl e \<Rightarrow> Inl e | Inr s \<Rightarrow> Inr (fst (sha_hex s)))"

text \<open>The character class \<open>[a-f0-9]\<close>.\<close>

definition is_hex_char :: "char \<Rightarrow> bool" where
  "is_hex_char c \<longleftrightarrow> (let n = (of_char c :: int) in 97 \<le> n \<and> n \<le> 102 \<or> 48 \<le> n \<and> n \<le> 57)"

definition isSha256Hex :: "string \<Rightarrow> bool" where
  "isSha256Hex v \<longleftrightarrow> length v = 64 \<and> list_all is_hex_char v"

section \<open>Block streams\<close>

text \<open>The complete 64-byte blocks of a byte string.\<close>

function blocks64 :: "'b list \<Rightarrow> 'b list list" where
  "blocks64 xs = (if length xs < 64 then [] else take 64 xs # blocks64 (drop 64 xs))"
  by pat_completeness auto
termination
  by (relation "measure length") auto

declare blocks64.simps [simp del]

lemma blocks64_short [simp]: "length xs < 64 \<Longrightarrow> blocks64 xs = []"
  by (subst blocks64.simps) simp

lemma blocks64_long: "64 \<le> length xs \<Longrightarrow> blocks64 xs = take 64 xs # blocks64 (drop 64 xs)"
  by (subst blocks64.simps) simp

lemma blocks64_append:
  "64 dvd length xs \<Longrightarrow> blocks64 (xs @ ys) = blocks64 xs @ blocks64 ys"
proof (induction xs rule: blocks64.induct)
  case (1 xs)
  show ?case
  proof (cases "length xs < 64")
    case True
    with 1 have "xs = []" by (auto elim!: dvdE)
    then show ?thesis by simp
  next
    case False
    then have "64 dvd length (drop 64 xs)" using 1 by (auto intro: dvd_diff_nat)
    with 1 False have "blocks64 (drop 64 xs @ ys) = blocks64 (drop 64 xs) @ blocks64 ys"
      by blast
    with False show ?thesis
      by (simp add: blocks64_long)
  qed
qed

lemma blocks64_one [simp]: "length b = 64 \<Longrightarrow> blocks64 b = [b]"
  by (simp add: blocks64_long)

text \<open>
  What the streaming loop needs from the function it iterates: a call at an offset reads the
  64 bytes from there on and nothing else.
\<close>

locale block_stream =
  fixes cf :: "'s \<Rightarrow> 'b list \<Rightarrow> nat \<Rightarrow> 's"
  assumes window: "off + 64 \<le> length xs \<Longrightarrow> cf st xs off = cf st (take 64 (drop off xs)) 0"
begin

lemma absorb_loop_blocks:
  "off \<le> length xs \<Longrightarrow>
   absorb_loop cf st xs off =
     (foldl (\<lambda>s b. cf s b 0) st (blocks64 (drop off xs)),
      off + 64 * ((length xs - off) div 64))"
proof (induction "length xs - off" arbitrary: st off rule: less_induct)
  case less
  show ?case
  proof (cases "off + 64 \<le> length xs")
    case True
    then have "absorb_loop cf st xs off = absorb_loop cf (cf st xs off) xs (off + 64)"
      by (simp add: absorb_loop.simps [of cf st xs off])
    also have "\<dots> = (foldl (\<lambda>s b. cf s b 0) (cf st xs off) (blocks64 (drop (off + 64) xs)),
        off + 64 + 64 * ((length xs - (off + 64)) div 64))"
      using less.hyps [of "off + 64"] True by simp
    also have "(length xs - (off + 64)) div 64 = (length xs - off) div 64 - 1"
      using True by (simp add: le_div_geq)
    also have "off + 64 + 64 * ((length xs - off) div 64 - 1) = off + 64 * ((length xs - off) div 64)"
      using True by (simp add: le_div_geq)
    finally show ?thesis
      using True window [OF True, of st] by (simp add: blocks64_long [of "drop off xs"] add.commute)
  next
    case False
    with less.prems show ?thesis
      by (simp add: absorb_loop.simps [of cf st xs off])
  qed
qed

lemma absorb_loop_aligned:
  "64 dvd length xs \<Longrightarrow>
   fst (absorb_loop cf st xs 0) = foldl (\<lambda>s b. cf s b 0) st (blocks64 xs)"
  by (simp add: absorb_loop_blocks)

end

lemma byte_at_window: "off + 64 \<le> length xs \<Longrightarrow> j < 64 \<Longrightarrow>
    byte_at (take 64 (drop off xs)) j = byte_at xs (off + j)"
  by (simp add: byte_at_def)

lemma load_word_window:
  "off + 64 \<le> length xs \<Longrightarrow> i < 16 \<Longrightarrow>
   load_word (take 64 (drop off xs)) (i * 4) = load_word xs (off + i * 4)"
  by (simp add: load_word_def byte_at_window add.assoc)

lemma fill_schedule_window:
  "off + 64 \<le> length xs \<Longrightarrow> fill_schedule xs off = fill_schedule (take 64 (drop off xs)) 0"
  unfolding fill_schedule_def
  by (intro arg_cong [where f = "fold _ _"] fold_cong ext) (simp_all add: load_word_window)

interpretation sha_stream: block_stream compress
  by unfold_locales (simp only: compress_def fill_schedule_window)

section \<open>FIPS 180-4\<close>

lemma rotr_word_rotr:
  assumes "0 < n" "n < 32"
  shows "rotr x n = word_rotr n x"
proof (rule bit_word_eqI)
  fix i :: nat assume "i < LENGTH(32)"
  then have i: "i < 32" by simp
  have big: "\<not> bit x k" if "32 \<le> k" for k
    using that bit_imp_le_length [of x k] by auto
  have "bit (rotr x n) i \<longleftrightarrow> bit x (i + n) \<or> (32 - n \<le> i \<and> bit x (i - (32 - n)))"
    using i by (simp add: rotr_def bit_or_iff bit_drop_bit_eq bit_push_bit_iff add.commute)
  also have "\<dots> \<longleftrightarrow> bit x ((i + n) mod 32)"
  proof (cases "i + n < 32")
    case True
    then have "\<not> 32 - n \<le> i" by arith
    with True show ?thesis by simp
  next
    case False
    then have "(i + n) mod 32 = i + n - 32" "i - (32 - n) = i + n - 32" "32 - n \<le> i"
      using assms i by (simp_all add: mod_if)
    with False big show ?thesis by simp
  qed
  also have "\<dots> \<longleftrightarrow> bit (word_rotr n x) i"
    using i by (simp add: bit_word_rotr_iff)
  finally show "bit (rotr x n) i = bit (word_rotr n x) i" .
qed

definition fips_Sigma0 :: "u32 \<Rightarrow> u32" where
  "fips_Sigma0 x = word_rotr 2 x XOR word_rotr 13 x XOR word_rotr 22 x"

definition fips_Sigma1 :: "u32 \<Rightarrow> u32" where
  "fips_Sigma1 x = word_rotr 6 x XOR word_rotr 11 x XOR word_rotr 25 x"

definition fips_sigma0 :: "u32 \<Rightarrow> u32" where
  "fips_sigma0 x = word_rotr 7 x XOR word_rotr 18 x XOR drop_bit 3 x"

definition fips_sigma1 :: "u32 \<Rightarrow> u32" where
  "fips_sigma1 x = word_rotr 17 x XOR word_rotr 19 x XOR drop_bit 10 x"

definition fips_Ch :: "u32 \<Rightarrow> u32 \<Rightarrow> u32 \<Rightarrow> u32" where
  "fips_Ch x y z = (x AND y) XOR (NOT x AND z)"

definition fips_Maj :: "u32 \<Rightarrow> u32 \<Rightarrow> u32 \<Rightarrow> u32" where
  "fips_Maj x y z = (x AND y) XOR (x AND z) XOR (y AND z)"

text \<open>A message word is the big-endian value of four bytes.\<close>

definition fips_word :: "u8 list \<Rightarrow> nat \<Rightarrow> u32" where
  "fips_word b t = word_of_int (uint (b ! (4 * t)) * 2 ^ 24 + uint (b ! (4 * t + 1)) * 2 ^ 16
     + uint (b ! (4 * t + 2)) * 2 ^ 8 + uint (b ! (4 * t + 3)))"

text \<open>The message schedule, by the recurrence of section 6.2.2.\<close>

fun fips_W :: "u8 list \<Rightarrow> nat \<Rightarrow> u32" where
  "fips_W b t =
     (if t < 16 then fips_word b t
      else fips_sigma1 (fips_W b (t - 2)) + fips_W b (t - 7)
         + fips_sigma0 (fips_W b (t - 15)) + fips_W b (t - 16))"

declare fips_W.simps [simp del]

fun fips_round :: "u8 list \<Rightarrow> nat \<Rightarrow> working \<Rightarrow> working" where
  "fips_round m t (a, b, c, d, e, f, g, h) =
     (let T1 = h + fips_Sigma1 e + fips_Ch e f g + sha_K ! t + fips_W m t;
          T2 = fips_Sigma0 a + fips_Maj a b c
      in (T1 + T2, a, b, c, d + T1, e, f, g))"

fun working_list :: "working \<Rightarrow> u32 list" where
  "working_list (a, b, c, d, e, f, g, h) = [a, b, c, d, e, f, g, h]"

definition list_working :: "u32 list \<Rightarrow> working" where
  "list_working H = (H ! 0, H ! 1, H ! 2, H ! 3, H ! 4, H ! 5, H ! 6, H ! 7)"

definition fips_block :: "u32 list \<Rightarrow> u8 list \<Rightarrow> u32 list" where
  "fips_block H m = map2 (+) H (working_list (fold (fips_round m) [0..<64] (list_working H)))"

definition be64 :: "int \<Rightarrow> u8 list" where
  "be64 n = map (\<lambda>k. word_of_int (n div 256 ^ (7 - k))) [0..<8]"

text \<open>One bit, zeros up to 448 modulo 512, the length in bits on 64 bits.\<close>

definition fips_pad :: "u8 list \<Rightarrow> u8 list" where
  "fips_pad m = m @ [0x80] @ replicate (nat ((55 - int (length m)) mod 64)) 0
     @ be64 (8 * int (length m))"

definition fips_sha256 :: "u8 list \<Rightarrow> u32 list" where
  "fips_sha256 m = foldl fips_block initial_state (blocks64 (fips_pad m))"

definition fips_hex :: "u8 list \<Rightarrow> string" where
  "fips_hex m = concat (map hex8 (fips_sha256 m))"

section \<open>The compression function is the one of the standard\<close>

lemma or_disjoint_plus:
  fixes x y :: u32
  shows "(\<And>n. \<not> bit x n \<or> \<not> bit y n) \<Longrightarrow> x OR y = x + y"
  by (simp add: disjunctive_add)

lemma load_word_fips:
  assumes "length b = 64" "t < 16"
  shows "load_word b (t * 4) = fips_word b t"
proof -
  let ?c = "\<lambda>k. ucast (b ! (4 * t + k)) :: u32"
  have hi: "n < 8" if "bit (ucast c :: u32) n" for c :: u8 and n
    using that by (auto simp: bit_ucast_iff dest: bit_imp_le_length)
  have "load_word b (t * 4)
      = push_bit 24 (?c 0) OR (push_bit 16 (?c 1) OR (push_bit 8 (?c 2) OR ?c 3))"
    using assms by (simp add: load_word_def byte_at_def mult.commute or.assoc)
  also have "\<dots> = push_bit 24 (?c 0) + (push_bit 16 (?c 1) OR (push_bit 8 (?c 2) OR ?c 3))"
    by (rule or_disjoint_plus) (auto simp: bit_push_bit_iff bit_or_iff dest!: hi)
  also have "push_bit 16 (?c 1) OR (push_bit 8 (?c 2) OR ?c 3)
      = push_bit 16 (?c 1) + (push_bit 8 (?c 2) OR ?c 3)"
    by (rule or_disjoint_plus) (auto simp: bit_push_bit_iff bit_or_iff dest!: hi)
  also have "push_bit 8 (?c 2) OR ?c 3 = push_bit 8 (?c 2) + ?c 3"
    by (rule or_disjoint_plus) (auto simp: bit_push_bit_iff bit_or_iff dest!: hi)
  finally show ?thesis
    by (simp add: fips_word_def push_bit_eq_mult add.assoc)
qed

lemma load_schedule:
  "n \<le> 16 \<Longrightarrow> i < n \<Longrightarrow>
   fold (\<lambda>i w. w[i := load_word b (i * 4)]) [0..<n] (replicate 64 0) ! i = load_word b (i * 4)"
proof (induction n)
  case 0
  then show ?case by simp
next
  case (Suc n)
  have "length (fold (\<lambda>i w. w[i := load_word b (i * 4)]) xs w) = length w" for xs and w :: "u32 list"
    by (induction xs arbitrary: w) auto
  with Suc show ?case by (cases "i = n") auto
qed


lemma length_fold_update: "length (fold (\<lambda>i w. w[i := f w i]) is w) = length w"
  by (induction "is" arbitrary: w) auto

text \<open>Filling an array from left to right: entry \<open>i\<close> is written once, from the prefix before it.\<close>

lemma fold_update_prefix:
  assumes "j < m" "m \<le> n"
  shows "fold (\<lambda>i w. w[i := f w i]) [m..<n] w ! j = w ! j"
  using assms(2)
proof (induction n rule: dec_induct)
  case base
  show ?case by simp
next
  case (step k)
  with assms(1) show ?case by simp
qed

lemma schedule_word_fips:
  assumes "\<And>i. i < k \<Longrightarrow> w ! i = fips_W b i" "16 \<le> k"
  shows "schedule_word w k = fips_W b k"
  using assms
  by (simp add: schedule_word_def fips_W.simps [of b k] fips_sigma0_def fips_sigma1_def
      rotr_word_rotr Let_def ac_simps)

lemma schedule_fips:
  assumes "length b = 64" "16 \<le> n" "n \<le> 64" "i < n"
  shows "fold (\<lambda>i w. w[i := schedule_word w i]) [16..<n]
      (fold (\<lambda>i w. w[i := load_word b (0 + i * 4)]) [0..<16] (replicate 64 0)) ! i = fips_W b i"
  using assms(2,3,4)
proof (induction n arbitrary: i rule: dec_induct)
  case base
  then show ?case
    using load_schedule [of 16 i b] assms(1)
    by (simp add: fips_W.simps [of b i] load_word_fips)
next
  case (step k)
  let ?w = "fold (\<lambda>i w. w[i := schedule_word w i]) [16..<k]
      (fold (\<lambda>i w. w[i := load_word b (0 + i * 4)]) [0..<16] (replicate 64 0))"
  have "schedule_word ?w k = fips_W b k"
    using step by (intro schedule_word_fips) auto
  then show ?case
    using step by (cases "i = k") (simp_all add: length_fold_update)
qed

lemma fill_schedule_fips:
  "length b = 64 \<Longrightarrow> i < 64 \<Longrightarrow> fill_schedule b 0 ! i = fips_W b i"
  unfolding fill_schedule_def by (rule schedule_fips) auto

lemma round_step_fips:
  assumes "length b = 64" "i < 64"
  shows "round_step (fill_schedule b 0) i v = fips_round b i v"
proof -
  obtain x1 x2 x3 x4 x5 x6 x7 x8 where "v = (x1, x2, x3, x4, x5, x6, x7, x8)"
    by (metis surj_pair)
  with assms show ?thesis
    by (simp add: Let_def fill_schedule_fips fips_Sigma0_def fips_Sigma1_def fips_Ch_def
        fips_Maj_def rotr_word_rotr ac_simps)
qed

lemma compress_fips:
  assumes "length H = 8" "length b = 64"
  shows "compress H b 0 = fips_block H b"
proof -
  have "fold (round_step (fill_schedule b 0)) [0..<64] v = fold (fips_round b) [0..<64] v" for v
    by (intro fold_cong ext) (simp_all add: round_step_fips assms(2))
  moreover obtain h0 h1 h2 h3 h4 h5 h6 h7 where "H = [h0, h1, h2, h3, h4, h5, h6, h7]"
    using assms(1) by (auto simp: numeral_eq_Suc length_Suc_conv)
  ultimately show ?thesis
    by (simp add: compress_def fips_block_def Let_def word_at_def list_working_def
        split: prod.split)
qed

lemma length_compress [simp]: "length (compress H b off) = 8"
  by (simp add: compress_def Let_def split: prod.split)

lemma foldl_compress_fips:
  "length H = 8 \<Longrightarrow> \<forall>b \<in> set bs. length b = 64 \<Longrightarrow>
   foldl (\<lambda>s b. compress s b 0) H bs = foldl fips_block H bs"
proof (induction bs arbitrary: H)
  case Nil
  then show ?case by simp
next
  case (Cons b bs)
  then have "foldl (\<lambda>s b. compress s b 0) (compress H b 0) bs = foldl fips_block (compress H b 0) bs"
    by (intro Cons.IH) auto
  with Cons.prems show ?case by (simp add: compress_fips)
qed

lemma length_foldl_compress: "length H = 8 \<Longrightarrow> length (foldl (\<lambda>s b. compress s b 0) H bs) = 8"
  by (induction bs arbitrary: H) auto

lemma blocks64_length: "b \<in> set (blocks64 xs) \<Longrightarrow> length b = 64"
proof (induction xs rule: blocks64.induct)
  case (1 xs)
  then show ?case by (cases "length xs < 64") (auto simp: blocks64_long)
qed

section \<open>Streaming\<close>

text \<open>
  The state of the class after the bytes \<open>m\<close>: the complete blocks of \<open>m\<close> are compressed and
  the rest sits at the front of the block buffer.
\<close>

definition sha_repr :: "sha256 \<Rightarrow> u8 list \<Rightarrow> bool" where
  "sha_repr s m \<longleftrightarrow>
     (\<exists>q. m = q @ take (blockLength s) (sha_block s) \<and> 64 dvd length q
        \<and> sha_state s = foldl (\<lambda>st b. compress st b 0) initial_state (blocks64 q))
     \<and> length (sha_block s) = 64 \<and> blockLength s < 64
     \<and> totalBytes s = int (length m) \<and> \<not> sha_finished s"

lemma sha_repr_new: "sha_repr new_sha256 []"
  by (simp add: sha_repr_def new_sha256_def)


lemma block_set_full: "length xs + off \<le> length b \<Longrightarrow> block_set b xs off = Some (put_at b xs off)"
  by (simp add: block_set_def put_at_def add.commute)

lemma take_put_at: "off + length xs \<le> length b \<Longrightarrow> take (off + length xs) (put_at b xs off) = take off b @ xs"
  by (auto simp: put_at_def)

lemma length_put_at [simp]: "off + length xs \<le> length b \<Longrightarrow> length (put_at b xs off) = length b"
  by (simp add: put_at_def)

text \<open>What one call of \<open>update\<close> does to the loop's part: full blocks in, a short rest over.\<close>

lemma absorb_rest:
  assumes st: "st = foldl (\<lambda>st b. compress st b 0) initial_state (blocks64 q)" "64 dvd length q"
    and off: "off \<le> length c"
    and loop: "absorb_loop compress st c off = (st', off')"
  shows "off \<le> off'" "off' \<le> length c" "length c - off' < 64"
    and "64 dvd length (q @ take (off' - off) (drop off c))"
    and "st' = foldl (\<lambda>st b. compress st b 0) initial_state
          (blocks64 (q @ take (off' - off) (drop off c)))"
proof -
  let ?n = "(length c - off) div 64"
  have eqs: "off' = off + 64 * ?n"
      "st' = foldl (\<lambda>s b. compress s b 0) st (blocks64 (drop off c))"
    using sha_stream.absorb_loop_blocks [OF off, of st] loop by simp_all
  have len: "64 * ?n \<le> length c - off" by simp
  show "off \<le> off'" "off' \<le> length c" using eqs(1) off len by linarith+
  have "length c - off' = (length c - off) mod 64"
    using eqs(1) by (simp add: minus_mult_div_eq_mod [symmetric])
  then show short: "length c - off' < 64" by simp
  let ?a = "take (off' - off) (drop off c)"
  have la: "length ?a = 64 * ?n" using eqs(1) len by simp
  with st(2) show "64 dvd length (q @ ?a)" by simp
  have "drop off c = ?a @ drop off' c"
    using eqs(1) by (metis add_diff_cancel_left' append_take_drop_id drop_drop add.commute)
  then have "blocks64 (drop off c) = blocks64 ?a @ blocks64 (drop off' c)"
    using la by (metis blocks64_append dvd_triv_left)
  also have "blocks64 (drop off' c) = []" using short by simp
  finally show "st' = foldl (\<lambda>st b. compress st b 0) initial_state (blocks64 (q @ ?a))"
    using eqs(2) st by (simp add: blocks64_append)
qed

lemma absorb_part_repr:
  assumes st: "sha_state s1 = foldl (\<lambda>st b. compress st b 0) initial_state (blocks64 q)"
      "64 dvd length q"
    and off: "off \<le> length c"
    and s1: "length (sha_block s1) = 64" "blockLength s1 = 0" "\<not> sha_finished s1"
      "totalBytes s1 = int (length q + length c - off)"
  shows "\<exists>s'. absorb_part s1 c off = Inr s' \<and> sha_repr s' (q @ drop off c)"
proof -
  obtain st' off' where loop: "absorb_loop compress (sha_state s1) c off = (st', off')"
    by fastforce
  note rest = absorb_rest [OF st off loop]
  let ?q = "q @ take (off' - off) (drop off c)"
  have split: "q @ drop off c = ?q @ drop off' c"
    using rest(1) by (metis add_diff_inverse_nat append_take_drop_id append.assoc drop_drop
        linorder_not_less add.commute)
  show ?thesis
  proof (cases "off' < length c")
    case True
    let ?s = "s1\<lparr>sha_state := st', sha_block := put_at (sha_block s1) (drop off' c) 0,
      blockLength := length c - off'\<rparr>"
    have tk: "take (length c - off') (put_at (sha_block s1) (drop off' c) 0) = drop off' c"
      using take_put_at [of 0 "drop off' c" "sha_block s1"] rest(3) s1(1) by simp
    have "sha_repr ?s (q @ drop off c)"
      unfolding sha_repr_def split using rest s1 off tk
      by (auto intro!: exI [of _ ?q])
    moreover have "block_set (sha_block s1) (drop off' c) 0
        = Some (put_at (sha_block s1) (drop off' c) 0)"
      by (rule block_set_full) (use rest(3) s1(1) in simp)
    ultimately show ?thesis
      using loop True by (simp add: absorb_part_def)
  next
    case False
    let ?s = "s1\<lparr>sha_state := st'\<rparr>"
    have "drop off' c = []" using False by simp
    then have "sha_repr ?s (q @ drop off c)"
      unfolding sha_repr_def split using rest s1 off
      by (auto intro!: exI [of _ ?q])
    then show ?thesis
      using loop False by (simp add: absorb_part_def)
  qed
qed

lemma sha_update_repr:
  assumes "sha_repr s m"
  shows "\<exists>s'. sha_update s c = Inr s' \<and> sha_repr s' (m @ c)"
proof -
  let ?bl = "blockLength s" and ?b = "sha_block s"
  from assms obtain q where q: "m = q @ take ?bl ?b" "64 dvd length q"
      "sha_state s = foldl (\<lambda>st b. compress st b 0) initial_state (blocks64 q)"
    and s: "length ?b = 64" "?bl < 64" "totalBytes s = int (length m)" "\<not> sha_finished s"
    by (auto simp: sha_repr_def)
  define s0 where "s0 = s\<lparr>totalBytes := totalBytes s + int (length c)\<rparr>"
  consider (part) "0 < ?bl" "?bl + length c < 64" | (full) "0 < ?bl" "64 \<le> ?bl + length c"
    | (none) "?bl = 0" by linarith
  then show ?thesis
  proof cases
    case part
    then have need: "min (64 - ?bl) (length c) = length c" by linarith
    define s1 where "s1 = s0\<lparr>sha_block := put_at ?b c ?bl, blockLength := ?bl + length c\<rparr>"
    have "top_up s0 c = Some (s1, length c)"
      using part s by (simp add: top_up_def s0_def s1_def need block_set_full Let_def)
    then have "sha_update s c = Inr s1"
      using s(4) by (simp add: sha_update_def s0_def absorb_part_def absorb_loop.simps)
    moreover have "sha_repr s1 (m @ c)"
      using part q s by (auto simp: sha_repr_def s1_def s0_def take_put_at intro!: exI [of _ q])
    ultimately show ?thesis by blast
  next
    case full
    let ?n = "64 - ?bl"
    let ?b1 = "put_at ?b (take ?n c) ?bl"
    define s1 where "s1 = s0\<lparr>sha_block := ?b1, sha_state := compress (sha_state s) ?b1 0,
      blockLength := 0\<rparr>"
    have need: "min ?n (length c) = ?n" using full by linarith
    have b1: "?b1 = take ?bl ?b @ take ?n c" and lb1: "length ?b1 = 64"
      using full s by (simp_all add: put_at_def)
    have top: "top_up s0 c = Some (s1, ?n)"
      using full s by (simp add: top_up_def s0_def s1_def need block_set_full Let_def)
    have "\<exists>s'. absorb_part s1 c ?n = Inr s' \<and> sha_repr s' ((q @ ?b1) @ drop ?n c)"
      by (rule absorb_part_repr) (use full q s lb1 in \<open>auto simp: s1_def s0_def blocks64_append\<close>)
    moreover have "(q @ ?b1) @ drop ?n c = m @ c" using q(1) b1 by simp
    moreover have "sha_update s c = absorb_part s1 c ?n"
      using s(4) top by (simp add: sha_update_def s0_def)
    ultimately show ?thesis by metis
  next
    case none
    have "\<exists>s'. absorb_part s0 c 0 = Inr s' \<and> sha_repr s' (q @ drop 0 c)"
      by (rule absorb_part_repr) (use none q s in \<open>auto simp: s0_def\<close>)
    moreover have "sha_update s c = absorb_part s0 c 0"
      using s(4) none by (simp add: sha_update_def s0_def top_up_def)
    ultimately show ?thesis using q(1) none by simp
  qed
qed

section \<open>Padding and the digest\<close>

lemma put_at_middle:
  "length ys = length ws \<Longrightarrow> put_at (xs @ ys @ zs) ws (length xs) = xs @ ws @ zs"
  by (simp add: put_at_def)

lemma length_be32 [simp]: "length (be32 n) = 4"
  by (simp add: be32_def)

lemma byte_of_low_half:
  fixes n :: int
  assumes "j < 4"
  shows "(word_of_int (n mod 2 ^ 32 div 256 ^ j) :: u8) = word_of_int (n div 256 ^ j)"
proof (rule bit_word_eqI)
  fix i :: nat assume "i < LENGTH(8)"
  then have "i < 8" by simp
  moreover have "(256::int) ^ j = 2 ^ (8 * j)" by (simp add: power_mult)
  moreover have "n mod 2 ^ 32 = take_bit 32 n" by (simp only: take_bit_eq_mod)
  ultimately show "bit (word_of_int (n mod 2 ^ 32 div 256 ^ j) :: u8) i
      = bit (word_of_int (n div 256 ^ j) :: u8) i"
    using assms
    by (simp only: drop_bit_eq_div [symmetric])
      (simp add: bit_word_of_int_iff bit_drop_bit_eq bit_take_bit_iff)
qed

lemma be64_be32:
  fixes n :: int
  shows "be64 n = be32 (n div 2 ^ 32) @ be32 (n mod 2 ^ 32)"
proof -
  have "be32 (n mod 2 ^ 32) = map (\<lambda>k. word_of_int (n div 256 ^ (7 - k))) [4..<8]"
    by (rule nth_equalityI) (simp_all add: be32_def byte_of_low_half [simplified] del: upt_rec_numeral)
  moreover have "be32 (n div 2 ^ 32) = map (\<lambda>k. word_of_int (n div 256 ^ (7 - k))) [0..<4]"
  proof (rule nth_equalityI)
    fix i assume "i < length (be32 (n div 2 ^ 32))"
    then have i: "i < 4" by simp
    have "n div 2 ^ 32 div 256 ^ (3 - i) = n div (256 ^ 4 * 256 ^ (3 - i))"
      by (simp add: zdiv_zmult2_eq)
    also have "(256::int) ^ 4 * 256 ^ (3 - i) = 256 ^ (7 - i)"
      using i by (simp only: power_add [symmetric]) simp
    finally show "be32 (n div 2 ^ 32) ! i
        = map (\<lambda>k. word_of_int (n div 256 ^ (7 - k))) [0..<4] ! i"
      using i by (simp add: be32_def del: upt_rec_numeral)
  qed simp
  moreover have "[0..<8] = [0..<4] @ [4..<8::nat]"
    using upt_add_eq_append [of 0 4 "4::nat"] by (simp del: upt_rec_numeral)
  ultimately show ?thesis
    by (simp only: be64_def map_append)
qed

lemma final_tail_pad:
  assumes "blockLength s < 64" "length (sha_block s) = 64" "totalBytes s = int (length m)"
    and "length m mod 64 = blockLength s"
  shows "final_tail s = take (blockLength s) (sha_block s) @ [0x80]
     @ replicate (nat ((55 - int (length m)) mod 64)) 0 @ be64 (8 * int (length m))"
proof -
  let ?bl = "blockLength s"
  let ?p = "take ?bl (sha_block s)"
  define n where "n = (if ?bl < 56 then 64 else 128 :: nat)"
  define z where "z = n - 9 - ?bl"
  have lp: "length ?p = ?bl" using assms by simp
  have z: "n = ?bl + 1 + z + 8" using assms(1) by (simp add: n_def z_def)
  have zz: "nat ((55 - int (length m)) mod 64) = z"
  proof -
    have "int (length m) mod 64 = int ?bl" using assms(4) by (metis of_nat_mod of_nat_numeral)
    then have "(55 - int (length m)) mod 64 = (55 - int ?bl) mod 64"
      by (metis mod_diff_right_eq)
    also have "\<dots> = int z"
    proof (cases "?bl < 56")
      case True
      then show ?thesis by (simp add: z_def n_def)
    next
      case False
      then have b: "0 \<le> 119 - int ?bl" "119 - int ?bl < 64" using assms(1) by linarith+
      have "(55 - int ?bl) mod 64 = (55 - int ?bl + 64) mod 64" by (simp only: mod_add_self2)
      also have "\<dots> = 119 - int ?bl" using mod_pos_pos_trivial [OF b] by (simp add: algebra_simps)
      finally have "(55 - int ?bl) mod 64 = 119 - int ?bl" .
      then show ?thesis using False assms(1) by (simp add: z_def n_def)
    qed
    finally show ?thesis by simp
  qed
  have t0: "put_at (replicate n 0) ?p 0 = ?p @ replicate (n - ?bl) 0"
    using lp by (simp add: put_at_def)
  have t1: "(?p @ replicate (n - ?bl) 0)[?bl := 0x80] = (?p @ [0x80] @ replicate z 0) @ replicate 4 0 @ replicate 4 0"
  proof -
    have "replicate (n - ?bl) (0::u8) = 0 # replicate z 0 @ replicate 4 0 @ replicate 4 0"
      using z by (simp add: replicate_add [symmetric] flip: replicate_Suc)
    then show ?thesis using lp by (simp add: list_update_append)
  qed
  have len: "length (?p @ [0x80] @ replicate z 0) = n - 8" using lp z by simp
  have t2: "put_at ((?p @ [0x80] @ replicate z 0) @ replicate 4 0 @ replicate 4 0) b4 (n - 8)
      = (?p @ [0x80] @ replicate z 0) @ b4 @ replicate 4 0" if "length b4 = 4" for b4
    using put_at_middle [of "replicate 4 0" b4 "?p @ [0x80] @ replicate z 0" "replicate 4 0"] len that
    by simp
  have t3: "put_at ((?p @ [0x80] @ replicate z 0) @ b4 @ replicate 4 0) c4 (n - 4)
      = (?p @ [0x80] @ replicate z 0) @ b4 @ c4" if "length b4 = 4" "length c4 = 4" for b4 c4
  proof -
    have "n - 4 = length ((?p @ [0x80] @ replicate z 0) @ b4)" using len z that by simp
    then show ?thesis
      using put_at_middle [of "replicate 4 0" c4 "(?p @ [0x80] @ replicate z 0) @ b4" "[]"] that
      by (simp only: append.assoc append_Nil2 length_replicate)
  qed
  show ?thesis
    unfolding final_tail_def Let_def n_def [symmetric] t0 t1 zz
    using assms(3) by (simp add: t2 [simplified] t3 [simplified] be64_be32 mult.commute)
qed

fun sha_updates :: "sha256 \<Rightarrow> u8 list list \<Rightarrow> sha_error + sha256" where
  "sha_updates s [] = Inr s"
| "sha_updates s (c # cs) = (case sha_update s c of Inl e \<Rightarrow> Inl e | Inr s' \<Rightarrow> sha_updates s' cs)"

lemma sha_updates_repr:
  "sha_repr s m \<Longrightarrow> \<exists>s'. sha_updates s cs = Inr s' \<and> sha_repr s' (m @ concat cs)"
proof (induction cs arbitrary: s m)
  case Nil
  then show ?case by auto
next
  case (Cons c cs)
  from Cons.prems obtain s1 where "sha_update s c = Inr s1" "sha_repr s1 (m @ c)"
    using sha_update_repr by blast
  with Cons.IH [of s1 "m @ c"] show ?case by auto
qed

lemma sha_repr_hex:
  assumes "sha_repr s m"
  shows "fst (sha_hex s) = fips_hex m"
proof -
  let ?bl = "blockLength s" and ?b = "sha_block s"
  from assms obtain q where q: "m = q @ take ?bl ?b" "64 dvd length q"
      "sha_state s = foldl (\<lambda>st b. compress st b 0) initial_state (blocks64 q)"
    and s: "length ?b = 64" "?bl < 64" "totalBytes s = int (length m)" "\<not> sha_finished s"
    by (auto simp: sha_repr_def)
  have "length m mod 64 = ?bl" using q(1,2) s(1,2) by (auto elim!: dvdE)
  then have tail: "final_tail s = take ?bl ?b @ [0x80]
     @ replicate (nat ((55 - int (length m)) mod 64)) 0 @ be64 (8 * int (length m))"
    using s by (intro final_tail_pad)
  have pad: "fips_pad m = q @ final_tail s"
    unfolding fips_pad_def tail by (simp add: q(1))
  have aligned: "64 dvd length (final_tail s)"
    using s by (simp add: final_tail_def Let_def)
  have "foldl fips_block initial_state (blocks64 (fips_pad m))
      = foldl (\<lambda>st b. compress st b 0) initial_state (blocks64 (fips_pad m))"
    by (rule foldl_compress_fips [symmetric]) (auto simp: initial_state_def dest: blocks64_length)
  also have "\<dots> = fst (absorb_loop compress (sha_state s) (final_tail s) 0)"
    unfolding pad using q(2,3) sha_stream.absorb_loop_aligned [OF aligned]
    by (simp add: blocks64_append)
  finally have st: "fips_sha256 m = fst (absorb_loop compress (sha_state s) (final_tail s) 0)"
    by (simp add: fips_sha256_def)
  have len: "length (fips_sha256 m) = 8"
    unfolding fips_sha256_def
    by (subst foldl_compress_fips [symmetric])
      (auto simp: initial_state_def length_foldl_compress dest: blocks64_length)
  have "map (\<lambda>i. hex8 (word_at (fips_sha256 m) i)) [0..<8] = map hex8 (fips_sha256 m)"
    by (rule nth_equalityI) (simp_all add: len word_at_def del: upt_rec_numeral)
  then show ?thesis
    using s(4) by (simp add: sha_hex_def fips_hex_def st)
qed

section \<open>Properties\<close>

text \<open>C3. The digest of a stream is the digest of the bytes: however the input is cut into chunks
  (empty ones included), every \<open>update\<close> succeeds and \<open>hex\<close> returns the hexadecimal FIPS 180-4
  digest of the concatenated chunks.\<close>

theorem sha256_stream_is_fips:
  "\<exists>s. sha_updates new_sha256 cs = Inr s \<and> fst (sha_hex s) = fips_hex (concat cs)"
  using sha_updates_repr [OF sha_repr_new, of cs] sha_repr_hex by auto

text \<open>\<open>hex\<close> closes the object: reading the digest again gives the same string, the state does
  not change any more, and a further \<open>update\<close> is refused.\<close>

theorem sha256_hex_is_final:
  "sha_hex (snd (sha_hex s)) = (fst (sha_hex s), snd (sha_hex s))
   \<and> sha_update (snd (sha_hex s)) c = Inl UpdateAfterHex"
  by (simp add: sha_hex_def sha_update_def Let_def)

lemma hex_digit_is_hex:
  assumes "0 \<le> d" "d < 16"
  shows "is_hex_char (hex_digit d)"
  using assms by (auto simp: is_hex_char_def hex_digit_def Let_def)

lemma hex8_shape: "length (hex8 x) = 8 \<and> list_all is_hex_char (hex8 x)"
  by (simp add: hex8_def list_all_iff hex_digit_is_hex del: upt_rec_numeral)

text \<open>Every digest the class produces has the shape the API accepts: 64 lower-case
  hexadecimal characters.\<close>

theorem sha256_hex_shape: "isSha256Hex (fst (sha_hex s))"
proof -
  have "list_all is_hex_char (concat (map (\<lambda>i. hex8 (f i)) xs)) \<and>
      length (concat (map (\<lambda>i. hex8 (f i)) xs)) = 8 * length xs" for f :: "nat \<Rightarrow> u32" and xs
    using hex8_shape by (induction xs) auto
  then show ?thesis
    by (simp add: isSha256Hex_def sha_hex_def Let_def del: upt_rec_numeral)
qed

end
