(* ===== verification/NetPolicy.thy ===== *)
theory NetPolicy
  imports Prelude "HOL-Library.Multiset"
begin

text \<open>
  The outbound network policy of \<open>packages/domain/src/net\<close>: \<open>urlValidator.ts\<close> (what a URL may
  look like), \<open>dnsPin.ts\<close> (which addresses may be dialled) and \<open>safeFetch.ts\<close> (the redirect
  loop that applies both at every hop).

  Outside the model and passed as arguments: the WHATWG URL parser (\<open>string \<Rightarrow> js_url option\<close>,
  with the accessor strings the code reads as the fields of \<open>js_url\<close>), its relative resolution,
  the query serializer, the Unicode script tables of the regular expression engine, the DNS
  resolver, the HTTP transport, the UTF-8 decoder and the abort signal. The resolver and the
  transport answer per hop, so a name may resolve differently every time it is asked.
\<close>

section \<open>URL validation\<close>

datatype UrlErrorCode =
    Url_malformed | Scheme_not_allowed | Port_not_allowed | Userinfo_not_allowed
  | Host_missing | Host_mixed_script | Encoding_not_normalized | Address_blocked
  | Dns_failed | Too_many_redirects | Timeout | Body_too_large | Content_type_not_allowed
  | Http_error

record js_url =
  url_href :: string
  url_protocol :: string
  url_username :: string
  url_password :: string
  url_hostname :: string
  url_port :: string
  url_pathname :: string
  url_params :: "(string \<times> string) list"

record unicode =
  uc_latin :: "char \<Rightarrow> bool"
  uc_decimal :: "char \<Rightarrow> bool"
  uc_neutral :: "char \<Rightarrow> bool"

definition ALLOWED_SCHEMES :: "string list" where
  "ALLOWED_SCHEMES = [''http:'', ''https:'']"

definition ALLOWED_PORTS :: "int list" where
  "ALLOWED_PORTS = [80, 443, 8080, 8443]"

definition ALLOWED_CONTENT_TYPES :: "string list" where
  "ALLOWED_CONTENT_TYPES = [''text/html'', ''application/xhtml+xml'', ''text/plain'']"

text \<open>The tests \<open>LATIN\<close> and \<open>NON_LATIN_SCRIPT\<close>; \<open>uc_neutral\<close> is Common or Inherited.\<close>

definition latin_label :: "unicode \<Rightarrow> string \<Rightarrow> bool" where
  "latin_label uc l \<longleftrightarrow>
     l \<noteq> [] \<and> list_all (\<lambda>c. uc_latin uc c \<or> uc_decimal uc c \<or> c = CHR ''-'' \<or> c = CHR ''_'') l"

definition labelIsSingleScript :: "unicode \<Rightarrow> string \<Rightarrow> bool" where
  "labelIsSingleScript uc l \<longleftrightarrow>
     latin_label uc l
     \<or> \<not> (list_ex (\<lambda>c. \<not> uc_neutral uc c \<and> \<not> uc_latin uc c) l \<and> list_ex (uc_latin uc) l)"

definition scheme_char :: "char \<Rightarrow> bool" where
  "scheme_char c \<longleftrightarrow> is_letter c \<or> is_digit c \<or> c \<in> set ''+.-''"

text \<open>\<open>/^[a-z][a-z0-9+.-]*:\/\/([^/?#]*)/i\<close>: the authority, when the source has that shape.\<close>

definition match_authority :: "string \<Rightarrow> string option" where
  "match_authority source =
     (case source of
        [] \<Rightarrow> None
      | c # cs \<Rightarrow>
          (let rest = dropWhile scheme_char cs
           in if is_letter c \<and> starts_with ''://'' rest
              then Some (takeWhile (\<lambda>d. d \<notin> set ''/?#'') (drop 3 rest)) else None))"

definition hostLabels :: "string \<Rightarrow> string list" where
  "hostLabels source =
     (let authority = (case match_authority source of None \<Rightarrow> '''' | Some a \<Rightarrow> a);
          host = last (split_on (CHR ''@'') authority)
      in if starts_with ''['' host then []
         else filter (\<lambda>l. l \<noteq> '''') (split_on (CHR ''.'') host))"

definition isDoubleEncoded :: "string \<Rightarrow> bool" where
  "isDoubleEncoded part \<longleftrightarrow>
     includes_str ''%'' part
     \<and> (let p = js_lower part
        in includes_str ''%25'' p \<or> includes_str ''%2e%2e'' p \<or> includes_str ''%2f'' p)"

record validated =
  val_url :: js_url
  val_hostname :: string
  val_port :: int

definition url_port_number :: "js_url \<Rightarrow> int" where
  "url_port_number u =
     (if url_port u = '''' then (if url_protocol u = ''https:'' then 443 else 80)
      else dec_val (url_port u))"

definition validateUrl ::
  "unicode \<Rightarrow> (string \<Rightarrow> js_url option) \<Rightarrow> string \<Rightarrow> UrlErrorCode + validated" where
  "validateUrl uc parse input =
     (case parse input of
        None \<Rightarrow> Inl Url_malformed
      | Some url \<Rightarrow>
          if url_protocol url \<notin> set ALLOWED_SCHEMES then Inl Scheme_not_allowed
          else if url_username url \<noteq> '''' \<or> url_password url \<noteq> '''' then Inl Userinfo_not_allowed
          else if url_hostname url = '''' then Inl Host_missing
          else if url_port_number url \<notin> set ALLOWED_PORTS then Inl Port_not_allowed
          else if list_ex (\<lambda>l. \<not> labelIsSingleScript uc l) (hostLabels input)
          then Inl Host_mixed_script
          else if isDoubleEncoded input then Inl Encoding_not_normalized
          else Inr \<lparr>val_url = url, val_hostname = js_lower (url_hostname url),
                     val_port = url_port_number url\<rparr>)"

text \<open>\<open>/^(utm_|fbclid$|gclid$|ref$|ref_src$)/i\<close>.\<close>

definition is_tracking_key :: "string \<Rightarrow> bool" where
  "is_tracking_key key \<longleftrightarrow>
     (let k = js_lower key
      in starts_with ''utm_'' k \<or> k \<in> set [''fbclid'', ''gclid'', ''ref'', ''ref_src''])"

definition strip_slashes :: "string \<Rightarrow> string" where
  "strip_slashes p = rev (dropWhile (\<lambda>c. c = CHR ''/'') (rev p))"

definition normalizeUrl ::
  "unicode \<Rightarrow> (string \<Rightarrow> js_url option) \<Rightarrow> ((string \<times> string) list \<Rightarrow> string) \<Rightarrow> string
   \<Rightarrow> UrlErrorCode + string" where
  "normalizeUrl uc parse serialize input =
     (case validateUrl uc parse input of
        Inl e \<Rightarrow> Inl e
      | Inr v \<Rightarrow>
          (let url = val_url v;
               params = sort_key fst (filter (\<lambda>(k, _). \<not> is_tracking_key k) (url_params url));
               query = serialize params;
               path = (if url_pathname url = ''/'' then '''' else strip_slashes (url_pathname url));
               port = (if url_port url = '''' then '''' else '':'' @ url_port url)
           in Inr (url_protocol url @ ''//'' @ js_lower (url_hostname url) @ port @ path
                   @ (if query = '''' then '''' else ''?'' @ query))))"

section \<open>Address policy and pinning\<close>

definition is_octet_text :: "string \<Rightarrow> bool" where
  "is_octet_text p \<longleftrightarrow> list_all is_digit p \<and> 1 \<le> length p \<and> length p \<le> 3"

text \<open>The function \<open>v4\<close>: four groups of one to three digits, each at most 255.\<close>

definition v4 :: "string \<Rightarrow> int list option" where
  "v4 address =
     (let parts = split_on (CHR ''.'') address
      in if length parts \<noteq> 4 then None
         else (let octets = map (\<lambda>p. if is_octet_text p then dec_val p else -1) parts
               in if list_all (\<lambda>n. 0 \<le> n \<and> n \<le> 255) octets then Some octets else None))"

definition strip_brackets :: "string \<Rightarrow> string" where
  "strip_brackets address =
     (let a = (if starts_with ''['' address then tl address else address)
      in if a \<noteq> [] \<and> last a = CHR '']'' then butlast a else a)"

definition plain_address :: "string \<Rightarrow> string" where
  "plain_address address = hd (split_on (CHR ''%'') (strip_brackets address))"

text \<open>\<open>/^::ffff:(\d+\.\d+\.\d+\.\d+)$/i\<close>.\<close>

definition mapped_v4 :: "string \<Rightarrow> string option" where
  "mapped_v4 plain =
     (let rest = drop 7 plain; parts = split_on (CHR ''.'') rest
      in if starts_with ''::ffff:'' (js_lower plain) \<and> length parts = 4
            \<and> list_all (\<lambda>p. p \<noteq> [] \<and> list_all is_digit p) parts
         then Some rest else None)"

definition blocked_octets :: "int \<Rightarrow> int \<Rightarrow> bool" where
  "blocked_octets a b \<longleftrightarrow>
     a = 0 \<or> a = 10 \<or> a = 127
     \<or> (a = 169 \<and> b = 254)
     \<or> (a = 172 \<and> 16 \<le> b \<and> b \<le> 31)
     \<or> (a = 192 \<and> b = 168)
     \<or> (a = 100 \<and> 64 \<le> b \<and> b \<le> 127)
     \<or> (a = 192 \<and> b = 0)
     \<or> 224 \<le> a"

definition blocked_v6_text :: "string \<Rightarrow> bool" where
  "blocked_v6_text ipv6 \<longleftrightarrow>
     CHR '':'' \<in> set ipv6
     \<and> (ipv6 = ''::'' \<or> ipv6 = ''::1''
        \<or> list_ex (\<lambda>pre. starts_with pre ipv6)
            [''fc'', ''fd'', ''fe8'', ''fe9'', ''fea'', ''feb'', ''ff''])"

lemma length_strip_brackets: "length (strip_brackets a) \<le> length a"
  by (simp add: strip_brackets_def Let_def)

lemma length_plain_address: "length (plain_address a) \<le> length a"
proof -
  have "length (hd (split_on c s)) \<le> length s" for c s
    by (induction s) (auto split: list.splits)
  then show ?thesis
    unfolding plain_address_def using length_strip_brackets le_trans by blast
qed

lemma length_mapped_v4: "mapped_v4 p = Some m \<Longrightarrow> length m < length p"
proof -
  assume m: "mapped_v4 p = Some m"
  then have "starts_with ''::ffff:'' (js_lower p)" "m = drop 7 p"
    by (auto simp: mapped_v4_def Let_def split: if_splits)
  moreover from this(1) have "p \<noteq> []"
    by (auto simp: starts_with_def js_lower_def)
  ultimately show ?thesis by simp
qed

function isBlockedAddress :: "string \<Rightarrow> bool" where
  "isBlockedAddress address =
     (let plain = plain_address address
      in case mapped_v4 plain of
           Some m \<Rightarrow> isBlockedAddress m
         | None \<Rightarrow>
             (case v4 plain of
                Some octets \<Rightarrow> blocked_octets (octets ! 0) (octets ! 1)
              | None \<Rightarrow> blocked_v6_text (js_lower plain)))"
  by pat_completeness auto
termination
  by (relation "measure length")
    (auto dest!: length_mapped_v4 intro: less_le_trans length_plain_address)

declare isBlockedAddress.simps [simp del]

record pinned_host =
  pin_hostname :: string
  pin_address :: string

text \<open>\<open>pinHost\<close>; the resolver's answer is \<open>None\<close> where it throws.\<close>

definition pinHost :: "string \<Rightarrow> (string \<Rightarrow> string list option) \<Rightarrow> UrlErrorCode + pinned_host" where
  "pinHost hostname resolve =
     (if isBlockedAddress hostname then Inl Address_blocked
      else case resolve hostname of
             None \<Rightarrow> Inl Dns_failed
           | Some [] \<Rightarrow> Inl Dns_failed
           | Some (a # as) \<Rightarrow>
               if list_ex isBlockedAddress (a # as) then Inl Address_blocked
               else Inr \<lparr>pin_hostname = hostname, pin_address = a\<rparr>)"

section \<open>The fetch loop\<close>

type_synonym bytes = "8 word list"

record response =
  resp_status :: int
  resp_location :: "string option"
  resp_content_type :: "string option"
  resp_content_length :: "real option"
  resp_chunks :: "(bool \<times> bytes) list"

text \<open>
  \<open>resp_content_length\<close> is \<open>Number(...)\<close> of the header, \<open>None\<close> for \<open>NaN\<close>; a chunk carries
  whether the signal was aborted when it arrived. \<open>Thrown_type_error\<close> is the exception of
  \<open>new URL(location, url)\<close>, which nothing catches.
\<close>

datatype fetch_error = Rejected UrlErrorCode | Thrown_type_error

datatype transport_result =
    Responds response
  | Throws_rejection UrlErrorCode
  | Throws_other

record dial =
  dial_url :: js_url
  dial_pinned :: pinned_host
  dial_headers :: "(string, string) omap"

record fetch_env =
  env_unicode :: unicode
  env_parse :: "string \<Rightarrow> js_url option"
  env_relative :: "string \<Rightarrow> js_url \<Rightarrow> js_url option"
  env_resolve :: "nat \<Rightarrow> string \<Rightarrow> string list option"
  env_transport :: "nat \<Rightarrow> dial \<Rightarrow> transport_result"
  env_aborted :: "nat \<Rightarrow> bool"
  env_aborted_after :: "nat \<Rightarrow> bool"
  env_decode :: "bytes \<Rightarrow> string"

record fetch_options =
  opt_redirect_limit :: "nat option"
  opt_max_bytes :: "nat option"
  opt_content_types :: "string list option"
  opt_headers :: "(string \<times> string) list"

definition REDIRECT_LIMIT :: nat where "REDIRECT_LIMIT = 5"

definition MAX_BODY_BYTES :: int where "MAX_BODY_BYTES = 10 * 1024 * 1024"

record fetched =
  got_url :: string
  got_status :: int
  got_content_type :: string
  got_body :: string
  got_truncated :: bool

definition option_or :: "'a option \<Rightarrow> 'a \<Rightarrow> 'a" where
  "option_or x d = (case x of None \<Rightarrow> d | Some v \<Rightarrow> v)"

text \<open>The loop of \<open>readCapped\<close>: the kept bytes in order and whether the cap cut them.\<close>

fun read_loop :: "int \<Rightarrow> int \<Rightarrow> bytes \<Rightarrow> (bool \<times> bytes) list \<Rightarrow> UrlErrorCode + (bytes \<times> bool)" where
  "read_loop maxBytes n kept [] = Inr (kept, False)"
| "read_loop maxBytes n kept ((aborted, chunk) # rest) =
     (if aborted then Inl Timeout
      else (let n' = n + int (length chunk)
            in if maxBytes < n'
               then Inr (kept @ take (nat (int (length chunk) - (n' - maxBytes))) chunk, True)
               else read_loop maxBytes n' (kept @ chunk) rest))"

definition readCapped :: "response \<Rightarrow> int \<Rightarrow> UrlErrorCode + (bytes \<times> bool)" where
  "readCapped response maxBytes = read_loop maxBytes 0 [] (resp_chunks response)"

definition request_headers :: "fetch_options \<Rightarrow> (string, string) omap" where
  "request_headers opts =
     omap_of ([(''accept'', ''text/html,application/xhtml+xml''),
               (''user-agent'', ''RavenUnfurl/1.0'')] @ opt_headers opts)"

definition content_type_of :: "response \<Rightarrow> string" where
  "content_type_of r = js_trim (hd (split_on (CHR '';'') (option_or (resp_content_type r) '''')))"

text \<open>What the loop does with a response that is neither a redirect nor an error status.\<close>

definition accept_response ::
  "fetch_env \<Rightarrow> fetch_options \<Rightarrow> js_url \<Rightarrow> response \<Rightarrow> fetch_error + fetched" where
  "accept_response env opts url r =
     (let allowed = option_or (opt_content_types opts) ALLOWED_CONTENT_TYPES;
          maxBytes = (case opt_max_bytes opts of None \<Rightarrow> MAX_BODY_BYTES | Some n \<Rightarrow> int n);
          contentType = content_type_of r
      in if contentType \<notin> set allowed then Inl (Rejected Content_type_not_allowed)
         else if (case resp_content_length r of None \<Rightarrow> False | Some n \<Rightarrow> real_of_int MAX_BODY_BYTES < n)
         then Inl (Rejected Body_too_large)
         else case readCapped r maxBytes of
                Inl e \<Rightarrow> Inl (Rejected e)
              | Inr (body, truncated) \<Rightarrow>
                  Inr \<lparr>got_url = url_href url, got_status = resp_status r,
                       got_content_type = contentType, got_body = env_decode env body,
                       got_truncated = truncated\<rparr>)"

text \<open>One hop: either it dials (with what the transport answered) or it stops before dialling.\<close>

definition hop_target :: "fetch_env \<Rightarrow> fetch_options \<Rightarrow> nat \<Rightarrow> string \<Rightarrow> UrlErrorCode + dial" where
  "hop_target env opts hop target =
     (case validateUrl (env_unicode env) (env_parse env) target of
        Inl e \<Rightarrow> Inl e
      | Inr v \<Rightarrow>
          (case pinHost (url_hostname (val_url v)) (env_resolve env hop) of
             Inl e \<Rightarrow> Inl e
           | Inr pinned \<Rightarrow>
               if env_aborted env hop then Inl Timeout
               else Inr \<lparr>dial_url = val_url v, dial_pinned = pinned,
                         dial_headers = request_headers opts\<rparr>))"

text \<open>
  The loop \<open>for (hop = 0; hop <= limit; hop += 1)\<close>: the first argument counts the hops left.
  The result carries the connections that were made, in order.
\<close>

fun fetch_hops ::
  "nat \<Rightarrow> fetch_env \<Rightarrow> fetch_options \<Rightarrow> nat \<Rightarrow> string \<Rightarrow> dial list \<times> (fetch_error + fetched)" where
  "fetch_hops 0 env opts hop target = ([], Inl (Rejected Too_many_redirects))"
| "fetch_hops (Suc left) env opts hop target =
     (case hop_target env opts hop target of
        Inl e \<Rightarrow> ([], Inl (Rejected e))
      | Inr d \<Rightarrow>
          (case env_transport env hop d of
             Throws_rejection e \<Rightarrow>
               ([d], Inl (Rejected (if env_aborted_after env hop then Timeout else e)))
           | Throws_other \<Rightarrow>
               ([d], Inl (Rejected (if env_aborted_after env hop then Timeout else Http_error)))
           | Responds r \<Rightarrow>
               if 300 \<le> resp_status r \<and> resp_status r < 400
               then (case resp_location r of
                       None \<Rightarrow> ([d], Inl (Rejected Http_error))
                     | Some location \<Rightarrow>
                         (case env_relative env location (dial_url d) of
                            None \<Rightarrow> ([d], Inl Thrown_type_error)
                          | Some next_url \<Rightarrow>
                              (let (ds, result) =
                                     fetch_hops left env opts (Suc hop) (url_href next_url)
                               in (d # ds, result))))
               else if 400 \<le> resp_status r then ([d], Inl (Rejected Http_error))
               else ([d], accept_response env opts (dial_url d) r)))"

definition safeFetch ::
  "fetch_env \<Rightarrow> fetch_options \<Rightarrow> string \<Rightarrow> dial list \<times> (fetch_error + fetched)" where
  "safeFetch env opts input =
     fetch_hops (Suc (option_or (opt_redirect_limit opts) REDIRECT_LIMIT)) env opts 0 input"

section \<open>Blocked ranges\<close>

text \<open>The reference reading of the policy: an IPv4 address as a 32-bit word, a list of CIDR ranges.\<close>

definition ipv4_word :: "nat \<Rightarrow> nat \<Rightarrow> nat \<Rightarrow> nat \<Rightarrow> 32 word" where
  "ipv4_word a b c d = word_of_nat (a * 2 ^ 24 + b * 2 ^ 16 + c * 2 ^ 8 + d)"

definition in_cidr :: "32 word \<Rightarrow> 32 word \<Rightarrow> nat \<Rightarrow> bool" where
  "in_cidr w base len \<longleftrightarrow> drop_bit (32 - len) w = drop_bit (32 - len) base"

definition blocked_ranges :: "(32 word \<times> nat) list" where
  "blocked_ranges =
     [(ipv4_word 0 0 0 0, 8), (ipv4_word 10 0 0 0, 8), (ipv4_word 127 0 0 0, 8),
      (ipv4_word 169 254 0 0, 16), (ipv4_word 172 16 0 0, 12), (ipv4_word 192 168 0 0, 16),
      (ipv4_word 100 64 0 0, 10), (ipv4_word 192 0 0 0, 16), (ipv4_word 224 0 0 0, 3)]"

definition dotted :: "nat \<Rightarrow> nat \<Rightarrow> nat \<Rightarrow> nat \<Rightarrow> string" where
  "dotted a b c d = join_with ''.'' [nat_str a, nat_str b, nat_str c, nat_str d]"

lemma unat_ipv4_word:
  assumes "a < 256" "b < 256" "c < 256" "d < 256"
  shows "unat (ipv4_word a b c d) = a * 2 ^ 24 + b * 2 ^ 16 + c * 2 ^ 8 + d"
proof -
  have "a * 2 ^ 24 + b * 2 ^ 16 + c * 2 ^ 8 + d < 2 ^ LENGTH(32)" using assms by simp
  then show ?thesis by (simp only: ipv4_word_def unat_of_nat take_bit_nat_eq_self mod_less)
qed

lemma in_cidr_unat:
  "in_cidr w base len \<longleftrightarrow> unat w div 2 ^ (32 - len) = unat base div 2 ^ (32 - len)"
proof -
  have "in_cidr w base len \<longleftrightarrow> drop_bit (32 - len) (unat w) = drop_bit (32 - len) (unat base)"
    by (simp only: in_cidr_def word_unat_eq_iff unat_drop_bit_eq)
  then show ?thesis by (simp only: drop_bit_eq_div)
qed

lemma mixed_radix_eq: "b < n \<Longrightarrow> b' < n \<Longrightarrow> a * n + b = a' * n + b' \<longleftrightarrow> a = a' \<and> b = (b'::nat)"
proof
  assume "b < n" "b' < n" and e: "a * n + b = a' * n + b'"
  then have "(a * n + b) div n = (a' * n + b') div n" "(a * n + b) mod n = (a' * n + b') mod n"
    by simp_all
  with \<open>b < n\<close> \<open>b' < n\<close> show "a = a' \<and> b = b'" by simp
qed simp

lemma in_cidr_ipv4:
  assumes "a < 256" "b < 256" "c < 256" "d < 256" "a' < 256" "b' < 256"
  shows "in_cidr (ipv4_word a b c d) (ipv4_word a' 0 0 0) 8 \<longleftrightarrow> a = a'"
    and "in_cidr (ipv4_word a b c d) (ipv4_word a' b' 0 0) 16 \<longleftrightarrow> a = a' \<and> b = b'"
    and "in_cidr (ipv4_word a b c d) (ipv4_word a' b' 0 0) 12 \<longleftrightarrow> a = a' \<and> b div 16 = b' div 16"
    and "in_cidr (ipv4_word a b c d) (ipv4_word a' b' 0 0) 10 \<longleftrightarrow> a = a' \<and> b div 64 = b' div 64"
    and "in_cidr (ipv4_word a b c d) (ipv4_word a' 0 0 0) 3 \<longleftrightarrow> a div 32 = a' div 32"
proof -
  have div24: "(x * 2 ^ 24 + y * 2 ^ 16 + c * 2 ^ 8 + d) div 2 ^ 24 = x"
    and div16: "(x * 2 ^ 24 + y * 2 ^ 16 + c * 2 ^ 8 + d) div 2 ^ 16 = x * 256 + y"
    and div20: "(x * 2 ^ 24 + y * 2 ^ 16 + c * 2 ^ 8 + d) div 2 ^ 20 = x * 16 + y div 16"
    and div22: "(x * 2 ^ 24 + y * 2 ^ 16 + c * 2 ^ 8 + d) div 2 ^ 22 = x * 4 + y div 64"
    and div29: "(x * 2 ^ 24 + y * 2 ^ 16 + c * 2 ^ 8 + d) div 2 ^ 29 = x div 32"
    if "y < 256" "c < 256" "d < 256" for x y c d :: nat
    using that by auto
  have small: "b div 16 < 16" "b' div 16 < 16" "b div 64 < 4" "b' div 64 < 4" using assms by auto
  have zero: "(0::nat) < 256" by simp
  have word: "unat (ipv4_word a' b' 0 0) = a' * 2 ^ 24 + b' * 2 ^ 16 + 0 * 2 ^ 8 + 0"
    "unat (ipv4_word a' 0 0 0) = a' * 2 ^ 24 + 0 * 2 ^ 16 + 0 * 2 ^ 8 + 0"
    using assms zero by (simp_all only: unat_ipv4_word)
  note u = in_cidr_unat unat_ipv4_word [OF assms(1-4)] word
  have e: "(32::nat) - 8 = 24" "(32::nat) - 16 = 16" "(32::nat) - 12 = 20" "(32::nat) - 10 = 22"
    "(32::nat) - 3 = 29" by simp_all
  show "in_cidr (ipv4_word a b c d) (ipv4_word a' 0 0 0) 8 \<longleftrightarrow> a = a'"
    by (simp only: u e div24 [OF assms(2-4)] div24 [OF zero zero zero])
  show "in_cidr (ipv4_word a b c d) (ipv4_word a' b' 0 0) 16 \<longleftrightarrow> a = a' \<and> b = b'"
    by (simp only: u e div16 [OF assms(2-4)] div16 [OF assms(6) zero zero]
        mixed_radix_eq [OF assms(2,6)])
  show "in_cidr (ipv4_word a b c d) (ipv4_word a' b' 0 0) 12 \<longleftrightarrow> a = a' \<and> b div 16 = b' div 16"
    by (simp only: u e div20 [OF assms(2-4)] div20 [OF assms(6) zero zero]
        mixed_radix_eq [OF small(1,2)])
  show "in_cidr (ipv4_word a b c d) (ipv4_word a' b' 0 0) 10 \<longleftrightarrow> a = a' \<and> b div 64 = b' div 64"
    by (simp only: u e div22 [OF assms(2-4)] div22 [OF assms(6) zero zero]
        mixed_radix_eq [OF small(3,4)])
  show "in_cidr (ipv4_word a b c d) (ipv4_word a' 0 0 0) 3 \<longleftrightarrow> a div 32 = a' div 32"
    by (simp only: u e div29 [OF assms(2-4)] div29 [OF zero zero zero])
qed

lemma blocked_octets_ranges:
  assumes "a < 256" "b < 256" "c < 256" "d < 256"
  shows "blocked_octets (int a) (int b)
    \<longleftrightarrow> list_ex (\<lambda>(base, len). in_cidr (ipv4_word a b c d) base len) blocked_ranges"
proof -
  have "(16 \<le> b \<and> b \<le> 31) = (b div 16 = 1)" "(64 \<le> b \<and> b \<le> 127) = (b div 64 = 1)"
    "(224 \<le> a) = (a div 32 = 7)"
    using assms by linarith+
  moreover have "(int a = x) = (a = nat x)" "(int b = x) = (b = nat x)" if "0 \<le> x" for x
    using that by auto
  ultimately show ?thesis
    using assms by (simp add: blocked_ranges_def in_cidr_ipv4 blocked_octets_def)
qed

lemma digits_no_dot: "CHR ''.'' \<notin> set (nat_str n)" and digits_no_percent: "CHR ''%'' \<notin> set (nat_str n)"
  and digits_no_bracket: "CHR '']'' \<notin> set (nat_str n)" and digits_no_open: "CHR ''['' \<notin> set (nat_str n)"
  by (auto dest!: nat_str_digits simp: is_digit_def code_unit_def)

lemma dotted_eq: "dotted a b c d = nat_str a @ ''.'' @ nat_str b @ ''.'' @ nat_str c @ ''.'' @ nat_str d"
  by (simp add: dotted_def)

lemma set_dotted: "x \<in> set (dotted a b c d) \<Longrightarrow> is_digit x \<or> x = CHR ''.''"
  by (auto simp: dotted_eq dest: nat_str_digits)

lemma split_dotted: "split_on (CHR ''.'') (dotted a b c d) = [nat_str a, nat_str b, nat_str c, nat_str d]"
  unfolding dotted_def by (rule split_on_join) (auto simp: digits_no_dot)

lemma dotted_not_Nil [simp]: "dotted a b c d \<noteq> []"
  by (simp add: dotted_eq)

lemma plain_text: "s \<noteq> [] \<Longrightarrow> hd s \<noteq> CHR ''['' \<Longrightarrow> last s \<noteq> CHR '']'' \<Longrightarrow> CHR ''%'' \<notin> set s \<Longrightarrow> plain_address s = s"
  by (cases s) (auto simp: plain_address_def strip_brackets_def starts_with_def split_on_none)

lemma dotted_chars: "x \<in> set (dotted a b c d) \<Longrightarrow> x \<notin> {CHR ''['', CHR '']'', CHR ''%'', CHR '':''}"
  by (drule set_dotted) (auto simp: is_digit_def code_unit_def)

lemma dotted_ends:
  "hd (dotted a b c d) \<noteq> CHR ''[''" "last (dotted a b c d) \<noteq> CHR '']''"
  "hd (dotted a b c d) \<noteq> CHR '':''" "CHR ''%'' \<notin> set (dotted a b c d)"
  using dotted_chars [OF hd_in_set [OF dotted_not_Nil], of a b c d]
    dotted_chars [OF last_in_set [OF dotted_not_Nil], of a b c d] dotted_chars [of "CHR ''%''" a b c d] by auto

lemma plain_dotted: "plain_address (dotted a b c d) = dotted a b c d"
  by (rule plain_text) (simp_all add: dotted_ends)

lemma code_unit_lower:
  "code_unit (lower_char x) = (let n = code_unit x in
     if 65 \<le> n \<and> n \<le> 90 \<or> 192 \<le> n \<and> n \<le> 222 \<and> n \<noteq> 215 then n + 32 else n)"
  by (auto simp: lower_char_def code_unit_def Let_def)

lemma code_unit_inj: "code_unit x = code_unit y \<longleftrightarrow> x = y"
  by (simp add: code_unit_def of_char_eq_iff)

lemma lower_colon: "lower_char x = CHR '':'' \<Longrightarrow> x = CHR '':''"
proof -
  assume "lower_char x = CHR '':''"
  moreover have "code_unit (CHR '':'') = 58" by (simp add: code_unit_def)
  ultimately have "code_unit x = code_unit (CHR '':'')"
    by (auto simp: code_unit_lower Let_def dest!: arg_cong [where f = code_unit] split: if_splits)
  then show ?thesis by (simp only: code_unit_inj)
qed

lemma mapped_dotted: "mapped_v4 (dotted a b c d) = None"
proof -
  have "\<not> starts_with ''::ffff:'' (js_lower (dotted a b c d))"
    using dotted_ends(3) [of a b c d] lower_colon
    by (cases "dotted a b c d") (auto simp: starts_with_def js_lower_def)
  then show ?thesis by (simp add: mapped_v4_def)
qed

lemma v4_dotted:
  assumes "a < 256" "b < 256" "c < 256" "d < 256"
  shows "v4 (dotted a b c d) = Some [int a, int b, int c, int d]"
proof -
  have "is_octet_text (nat_str n)" if "n < 256" for n
    using that length_nat_str_byte [OF that]
    by (auto simp: is_octet_text_def list_all_iff Suc_le_eq dest: nat_str_digits)
  then show ?thesis
    using assms by (simp add: v4_def split_dotted)
qed

lemma blocked_dotted:
  assumes "a < 256" "b < 256" "c < 256" "d < 256"
  shows "isBlockedAddress (dotted a b c d) \<longleftrightarrow> blocked_octets (int a) (int b)"
  by (subst isBlockedAddress.simps) (simp add: plain_dotted mapped_dotted v4_dotted [OF assms])

lemma blocked_mapped:
  "isBlockedAddress (''::ffff:'' @ dotted a b c d) = isBlockedAddress (dotted a b c d)"
proof -
  have p: "plain_address (''::ffff:'' @ dotted a b c d) = ''::ffff:'' @ dotted a b c d"
    by (rule plain_text) (simp_all add: dotted_ends)
  have "list_all is_digit (nat_str n)" for n by (auto simp: list_all_iff dest: nat_str_digits)
  then have "mapped_v4 (''::ffff:'' @ dotted a b c d) = Some (dotted a b c d)"
    by (simp add: mapped_v4_def split_dotted) (simp add: starts_with_def js_lower_def lower_char_def code_unit_def)
  then show ?thesis
    by (subst isBlockedAddress.simps) (simp only: p Let_def option.simps)
qed
section \<open>Theorems\<close>


lemma dotted_examples:
  "dotted 100 127 0 1 = ''100.127.0.1''" "dotted 100 128 0 1 = ''100.128.0.1''"
  by code_simp+


lemma pinHost_Inr:
  "pinHost hostname resolve = Inr p \<longleftrightarrow>
     \<not> isBlockedAddress hostname
     \<and> (\<exists>addresses. resolve hostname = Some addresses \<and> addresses \<noteq> []
          \<and> list_all (\<lambda>a. \<not> isBlockedAddress a) addresses
          \<and> p = \<lparr>pin_hostname = hostname, pin_address = hd addresses\<rparr>)"
  by (auto simp: pinHost_def list_ex_iff list_all_iff split: option.splits list.splits if_splits)

lemma validateUrl_Inr:
  "validateUrl uc parse input = Inr v \<Longrightarrow>
     parse input = Some (val_url v) \<and> url_protocol (val_url v) \<in> set ALLOWED_SCHEMES
     \<and> url_username (val_url v) = '''' \<and> url_password (val_url v) = ''''
     \<and> url_hostname (val_url v) \<noteq> '''' \<and> url_port_number (val_url v) \<in> set ALLOWED_PORTS"
  by (auto simp: validateUrl_def Let_def split: option.splits if_splits)

text \<open>What must hold of every connection: the policy of the module, as a predicate on a dial.\<close>

definition dial_ok :: "fetch_env \<Rightarrow> dial \<Rightarrow> bool" where
  "dial_ok env d \<longleftrightarrow>
     (let u = dial_url d; p = dial_pinned d
      in url_protocol u \<in> set ALLOWED_SCHEMES \<and> url_port_number u \<in> set ALLOWED_PORTS
         \<and> url_username u = '''' \<and> url_password u = ''''
         \<and> pin_hostname p = url_hostname u
         \<and> \<not> isBlockedAddress (url_hostname u) \<and> \<not> isBlockedAddress (pin_address p)
         \<and> (\<exists>hop addresses. env_resolve env hop (url_hostname u) = Some addresses
               \<and> pin_address p \<in> set addresses
               \<and> list_all (\<lambda>a. \<not> isBlockedAddress a) addresses))"

lemma hop_target_ok:
  assumes "hop_target env opts hop target = Inr d"
  shows "dial_ok env d"
proof -
  from assms obtain v p where "validateUrl (env_unicode env) (env_parse env) target = Inr v"
    and p: "pinHost (url_hostname (val_url v)) (env_resolve env hop) = Inr p"
    and d: "dial_url d = val_url v" "dial_pinned d = p"
    by (auto simp: hop_target_def split: sum.splits if_splits)
  then show ?thesis
    using p unfolding pinHost_Inr
    by (force simp: dial_ok_def list_all_iff dest!: validateUrl_Inr)
qed

lemma fetch_hops_ok:
  "list_all (dial_ok env) (fst (fetch_hops left env opts hop target))
   \<and> length (fst (fetch_hops left env opts hop target)) \<le> left"
proof (induction left arbitrary: hop target)
  case 0
  show ?case by simp
next
  case (Suc left)
  show ?case
    using Suc.IH
    by (auto split: sum.splits transport_result.splits option.splits simp: Let_def split_beta
        dest: hop_target_ok)
qed

text \<open>C1. Whatever the resolver, the transport and the servers answer, every connection that
  \<open>safeFetch\<close> opens, redirects included, goes over http(s) on an allowed port without userinfo
  to an address that the resolver gave for the host name of that connection, none of whose
  addresses is blocked; and it opens at most \<open>redirectLimit + 1\<close> connections.\<close>

theorem safeFetch_dials_only_allowed:
  "list_all (dial_ok env) (fst (safeFetch env opts input))
   \<and> length (fst (safeFetch env opts input)) \<le> option_or (opt_redirect_limit opts) REDIRECT_LIMIT + 1"
  using fetch_hops_ok [of env "Suc (option_or (opt_redirect_limit opts) REDIRECT_LIMIT)" opts 0 input]
  by (simp only: safeFetch_def Suc_eq_plus1)

lemma read_loop_spec:
  "int (length kept) = n \<Longrightarrow> n \<le> int m \<Longrightarrow>
   (case read_loop (int m) n kept chunks of
      Inl e \<Rightarrow> e = Timeout \<and> list_ex fst chunks
    | Inr (body, truncated) \<Rightarrow>
        body = take m (kept @ concat (map snd chunks))
        \<and> truncated = (m < length (kept @ concat (map snd chunks))))"
proof (induction chunks arbitrary: n kept)
  case Nil
  then show ?case by simp
next
  case (Cons x chunks)
  obtain aborted chunk where x: "x = (aborted, chunk)" by force
  show ?case
  proof (cases "aborted \<or> int m < n + int (length chunk)")
    case True
    then show ?thesis using Cons.prems by (auto simp: x nat_diff_distrib')
  next
    case False
    with Cons.prems Cons.IH [of "kept @ chunk" "n + int (length chunk)"] show ?thesis
      by (auto simp: x split: sum.splits)
  qed
qed

text \<open>\<open>readCapped\<close> never returns more than its cap: unless the signal was aborted, the body
  is exactly the first \<open>m\<close> bytes of the stream, however it was chunked, and \<open>truncated\<close> is
  set iff there were more.\<close>

theorem readCapped_is_prefix:
  "case readCapped r (int m) of
     Inl e \<Rightarrow> e = Timeout \<and> list_ex fst (resp_chunks r)
   | Inr (body, truncated) \<Rightarrow>
       body = take m (concat (map snd (resp_chunks r)))
       \<and> truncated = (m < length (concat (map snd (resp_chunks r))))"
  using read_loop_spec [of "[]" 0 m "resp_chunks r"] by (simp only: readCapped_def append_Nil of_nat_0 list.size simp_thms le0 of_nat_0_le_iff)

lemma sort_key_mset_unique:
  assumes "distinct (map f xs)" "mset xs = mset ys"
  shows "sort_key f xs = sort_key f ys"
proof (rule properties_for_sort_key)
  show "mset (sort_key f ys) = mset xs" using assms by simp
  show "sorted (map f (sort_key f ys))" by simp
  show "filter (\<lambda>x. f k = f x) (sort_key f ys) = filter (\<lambda>x. f k = f x) xs"
    if k: "k \<in> set (sort_key f ys)" for k
  proof -
    have "mset (map f zs) = mset (map f xs)" if "mset zs = mset xs" for zs
      using that by simp
    then have d: "distinct (map f zs)" if "mset zs = mset xs" for zs
      using assms(1) that mset_eq_imp_distinct_iff by blast
    have "distinct (map f (sort_key f ys))" using d assms(2) by simp
    moreover have single: "filter (\<lambda>x. f k = f x) zs = [k]" if "distinct (map f zs)" "k \<in> set zs" for zs
      using that by (induction zs) (auto simp: filter_empty_conv image_iff)
    moreover have "k \<in> set xs" using k mset_eq_setD [OF assms(2)] by simp
    ultimately show ?thesis using k single [of "sort_key f ys"] single [OF assms(1)] by metis
  qed
qed

text \<open>The cache key ignores what should not matter: two inputs that parse to the same URL up
  to tracking parameters and the order of the remaining (distinct) ones normalise alike.\<close>

theorem normalizeUrl_ignores_tracking_and_order:
  assumes "validateUrl uc parse i = Inr v" "validateUrl uc parse j = Inr w"
    and "val_url w = (val_url v)\<lparr>url_href := href, url_params := params\<rparr>"
    and "mset (filter (\<lambda>(k, _). \<not> is_tracking_key k) params)
         = mset (filter (\<lambda>(k, _). \<not> is_tracking_key k) (url_params (val_url v)))"
    and "distinct (map fst (filter (\<lambda>(k, _). \<not> is_tracking_key k) params))"
  shows "normalizeUrl uc parse serialize i = normalizeUrl uc parse serialize j"
  using sort_key_mset_unique [OF assms(5,4)] assms(1-3) by (simp add: normalizeUrl_def Let_def)

definition sample_url :: js_url where
  "sample_url = \<lparr>url_href = ''https://Example.com/a/?b=1&utm_source=x&a=2'', url_protocol = ''https:'',
     url_username = [], url_password = [], url_hostname = ''example.com'', url_port = [],
     url_pathname = ''/a/'', url_params = [(''b'', ''1''), (''utm_source'', ''x''), (''a'', ''2'')]\<rparr>"

definition sample_parse :: "string \<Rightarrow> js_url option" where
  "sample_parse s =
     (if s = ''https://example.com/a?a=2&b=1''
      then Some (sample_url\<lparr>url_params := [(''a'', ''2''), (''b'', ''1'')]\<rparr>) else Some sample_url)"

definition ascii_unicode :: unicode where
  "ascii_unicode = \<lparr>uc_latin = is_letter, uc_decimal = is_digit, uc_neutral = (\<lambda>c. \<not> is_letter c)\<rparr>"

lemma sample_valid:
  "validateUrl ascii_unicode sample_parse (url_href sample_url)
     = Inr \<lparr>val_url = sample_url, val_hostname = ''example.com'', val_port = 443\<rparr>"
  "validateUrl ascii_unicode sample_parse ''https://example.com/a?a=2&b=1''
     = Inr \<lparr>val_url = sample_url\<lparr>url_params := [(''a'', ''2''), (''b'', ''1'')]\<rparr>,
            val_hostname = ''example.com'', val_port = 443\<rparr>"
  by code_simp+

theorem normalizeUrl_ignores_tracking_and_order_witness:
  "normalizeUrl ascii_unicode sample_parse (\<lambda>ps. concat (map fst ps)) (url_href sample_url)
   = normalizeUrl ascii_unicode sample_parse (\<lambda>ps. concat (map fst ps)) ''https://example.com/a?a=2&b=1''"
proof (rule normalizeUrl_ignores_tracking_and_order [OF sample_valid, where href = "url_href sample_url" and params = "[(''a'', ''2''), (''b'', ''1'')]"])
  have "\<not> is_tracking_key ''a''" "\<not> is_tracking_key ''b''" "is_tracking_key ''utm_source''"
    by code_simp+
  note keys = this
  show "mset (filter (\<lambda>(k, _). \<not> is_tracking_key k) [(''a'', ''2''), (''b'', ''1'')])
    = mset (filter (\<lambda>(k, _). \<not> is_tracking_key k)
        (url_params (val_url \<lparr>val_url = sample_url, val_hostname = ''example.com'', val_port = 443\<rparr>)))"
    by (simp add: sample_url_def keys add_mset_commute)
  show "distinct (map fst (filter (\<lambda>(k, _). \<not> is_tracking_key k) [(''a'', ''2''), (''b'', ''1'')]))"
    by (simp add: keys)
qed simp


end
