(* ===== verification/TransformTypes.thy ===== *)
theory TransformTypes
  imports Prelude
begin

text \<open>
  The vocabulary of the transform layer, \<open>packages/transforms/src/types.ts\<close>: entity kinds,
  manifests of transforms, engines and providers, budgets and plans. Union types of string
  literals are datatypes with one constructor per literal, interfaces are records, optional
  properties are options. Qualities and scores are \<open>real\<close>; counts and milliseconds are
  \<open>int\<close>, which is what the manifest schemas require of them.
\<close>

datatype EntityKind =
    K_domain | K_hostname | K_url | K_email | K_username | K_profile | K_ip | K_asn
  | K_dns_record | K_certificate | K_service | K_snapshot | K_scan | K_hash | K_verdict
  | K_reputation | K_file | K_metadata | K_device | K_phone | K_repo | K_language
  | K_dependency | K_release | K_person | K_organization | K_company | K_sanction | K_breach
  | K_crypto_address | K_transaction | K_place | K_coordinates | K_fact | K_note

datatype TransformCategory =
  Identity | Infrastructure | Web | Files | Repositories | Records | Analysis

datatype TransformPriority =
  P_core | P_recommended | P_optional | P_experimental | P_external | P_deprecated

datatype ExecutionClass = Fast | Standard | Deep | Optional

datatype DataFlow = Local | Network | External_api

datatype Permission =
  Perm_network | Perm_filesystem | Perm_subprocess | Perm_credentials | Perm_browser

datatype CredentialClass = CC_A | CC_B | CC_C | CC_D | CC_E | CC_F

datatype ProviderStatus =
    PS_configured | PS_not_configured | PS_invalid | PS_rate_limited | PS_disabled
  | PS_unavailable | PS_deprecated

datatype ManifestStatus = MS_stable | MS_beta | MS_unavailable | MS_deprecated

datatype ExecutionMode =
  Strict_local | Zero_credential | Free_tier | Configured | Maximum_coverage

datatype CredentialNeed = Cred_none | Cred_optional | Cred_required

datatype Pricing = Free | Free_tier_pricing | Paid | Local_pricing

datatype ExclusionReason =
    Blocked_by_mode | Requires_configuration | Paid_only | Provider_unavailable
  | Provider_rate_limited | Provider_deprecated | Engine_unavailable | Not_executable
  | Permission_denied | Budget_exhausted | Already_covered | No_engine

type_synonym ident = string

record QualitySignals =
  resultQuality :: real
  reliability :: real
  maintenance :: real

record TransformLimits =
  expectedRuntimeMs :: int
  maxResults :: int
  maxInputBatch :: int

record TransformManifest =
  t_id :: ident
  t_version :: string
  t_name :: string
  t_description :: string
  t_category :: TransformCategory
  t_capability :: ident
  t_inputs :: "EntityKind list"
  t_outputs :: "EntityKind list"
  t_engines :: "ident list"
  t_priority :: TransformPriority
  t_cost :: ExecutionClass
  t_limits :: TransformLimits
  t_cacheable :: bool
  t_cacheTtlSeconds :: "int option"
  t_documentation :: string
  t_status :: ManifestStatus

record EngineManifest =
  e_id :: ident
  e_version :: string
  e_capability :: ident
  e_provider :: ident
  e_integration :: "string option"
  e_dataFlow :: DataFlow
  e_permissions :: "Permission list"
  e_quality :: QualitySignals
  e_cost :: ExecutionClass
  e_terminal :: bool
  e_status :: ManifestStatus

record ProviderLimits =
  requestsPerMinute :: "int option"
  requestsPerDay :: "int option"
  limit_note :: "string option"

record ProviderManifest =
  p_id :: ident
  p_name :: string
  p_credentialClass :: CredentialClass
  p_credentials :: CredentialNeed
  p_pricing :: Pricing
  p_endpoint :: "string option"
  p_licence :: string
  p_dataLicence :: "string option"
  p_limits :: ProviderLimits
  p_attribution :: "string option"
  p_storeResults :: "bool option"
  p_lastVerified :: string
  p_status :: ProviderStatus
  p_alternatives :: "ident list"

record EngineAvailability =
  av_engine :: EngineManifest
  av_provider :: ProviderManifest
  av_usable :: bool
  av_reason :: "ExclusionReason option"
  av_score :: real

record Budget =
  maxNewNodes :: int
  maxDepth :: int
  maxRuntimeMs :: int
  maxParallel :: int
  maxTransforms :: int

record PlanStep =
  step_transform :: ident
  step_inputKind :: EntityKind
  step_dependsOn :: "ident list"
  step_depth :: int
  step_chain :: "ident list"
  step_runtimeMs :: int
  step_maxResults :: int

record PlanEstimate =
  est_runtimeMs :: int
  est_minEntities :: int
  est_maxEntities :: int

record PlanExclusion =
  ex_transform :: ident
  ex_reason :: ExclusionReason

record TransformPlan =
  plan_steps :: "PlanStep list"
  plan_estimate :: PlanEstimate
  plan_requiresNetwork :: bool
  plan_providersUsed :: "ident list"
  plan_credentialsNeeded :: "ident list"
  plan_excluded :: "PlanExclusion list"

datatype ManifestKind = Transform_manifest | Engine_manifest | Provider_manifest

record ManifestIssue =
  issue_kind :: ManifestKind
  issue_id :: ident
  issue_message :: string

end
