(* ===== verification/TransformRouting.thy ===== *)
theory TransformRouting
  imports TransformTypes "HOL-Library.Multiset" "HOL-Library.Product_Lexorder"
begin

text \<open>
  The registry of the transform layer and the capability router, \<open>packages/transforms/src\<close>:
  the schema conditions of \<open>manifest.ts\<close> on typed manifests, the mode policy \<open>modes.ts\<close>, the
  scores \<open>score.ts\<close>, the indices and the validation of \<open>registry.ts\<close>, and \<open>router.ts\<close>.
  The rest of the layer sees the registry through its interface, the record \<open>TransformRegistry\<close>
  of functions; the locale \<open>transform_registry\<close> states what its clients rely on, and the
  interpretation at the end shows that \<open>createTransformRegistry\<close> provides it.
\<close>

section \<open>Manifest schemas\<close>

text \<open>The conditions a parsed manifest satisfies beyond its type; \<open>is_url\<close> is zod's URL check.\<close>

definition lower_or_digit :: "char \<Rightarrow> bool" where
  "lower_or_digit c \<longleftrightarrow> is_digit c \<or> (97 \<le> code_unit c \<and> code_unit c \<le> 122)"

definition is_kebab :: "string \<Rightarrow> bool" where
  "is_kebab s \<longleftrightarrow> list_all (\<lambda>w. w \<noteq> [] \<and> list_all lower_or_digit w) (split_on (CHR ''-'') s)"

definition is_semver :: "string \<Rightarrow> bool" where
  "is_semver s \<longleftrightarrow>
     (let ws = split_on (CHR ''.'') s in length ws = 3 \<and> list_all (\<lambda>w. w \<noteq> [] \<and> list_all is_digit w) ws)"

definition is_iso_date :: "string \<Rightarrow> bool" where
  "is_iso_date s \<longleftrightarrow>
     (let ws = split_on (CHR ''-'') s in map length ws = [4, 2, 2] \<and> list_all (list_all is_digit) ws)"

definition in_unit :: "real \<Rightarrow> bool" where
  "in_unit r \<longleftrightarrow> 0 \<le> r \<and> r \<le> 1"

definition opt_all :: "('a \<Rightarrow> bool) \<Rightarrow> 'a option \<Rightarrow> bool" where
  "opt_all P x \<longleftrightarrow> (case x of None \<Rightarrow> True | Some v \<Rightarrow> P v)"

definition transform_schema :: "TransformManifest \<Rightarrow> bool" where
  "transform_schema t \<longleftrightarrow>
     is_kebab (t_id t) \<and> is_semver (t_version t) \<and> t_name t \<noteq> '''' \<and> t_description t \<noteq> ''''
     \<and> is_kebab (t_capability t) \<and> t_inputs t \<noteq> [] \<and> t_outputs t \<noteq> []
     \<and> t_engines t \<noteq> [] \<and> list_all is_kebab (t_engines t)
     \<and> 0 < expectedRuntimeMs (t_limits t) \<and> 0 < maxResults (t_limits t)
     \<and> 0 < maxInputBatch (t_limits t)
     \<and> opt_all (\<lambda>n. 0 < n) (t_cacheTtlSeconds t) \<and> t_documentation t \<noteq> ''''
     \<and> (t_cacheable t \<longrightarrow> t_cacheTtlSeconds t \<noteq> None)"

definition engine_schema :: "EngineManifest \<Rightarrow> bool" where
  "engine_schema e \<longleftrightarrow>
     is_kebab (e_id e) \<and> is_semver (e_version e) \<and> is_kebab (e_capability e)
     \<and> is_kebab (e_provider e) \<and> opt_all (\<lambda>s. s \<noteq> '''') (e_integration e)
     \<and> in_unit (resultQuality (e_quality e)) \<and> in_unit (reliability (e_quality e))
     \<and> in_unit (maintenance (e_quality e))
     \<and> (e_dataFlow e = Local \<or> Perm_network \<in> set (e_permissions e))"

definition provider_schema :: "(string \<Rightarrow> bool) \<Rightarrow> ProviderManifest \<Rightarrow> bool" where
  "provider_schema is_url p \<longleftrightarrow>
     is_kebab (p_id p) \<and> p_name p \<noteq> '''' \<and> opt_all is_url (p_endpoint p) \<and> p_licence p \<noteq> ''''
     \<and> opt_all (\<lambda>s. s \<noteq> '''') (p_dataLicence p)
     \<and> opt_all (\<lambda>n. 0 < n) (requestsPerMinute (p_limits p))
     \<and> opt_all (\<lambda>n. 0 < n) (requestsPerDay (p_limits p))
     \<and> opt_all (\<lambda>s. s \<noteq> '''') (limit_note (p_limits p))
     \<and> opt_all (\<lambda>s. s \<noteq> '''') (p_attribution p)
     \<and> is_iso_date (p_lastVerified p) \<and> list_all is_kebab (p_alternatives p)"

section \<open>Mode policy\<close>

record ModeContext =
  ctx_mode :: ExecutionMode
  ctx_configuredProviders :: "ident set"
  ctx_grantedPermissions :: "Permission set"

fun MODE_RANK :: "ExecutionMode \<Rightarrow> int" where
  "MODE_RANK Strict_local = 0"
| "MODE_RANK Zero_credential = 1"
| "MODE_RANK Free_tier = 2"
| "MODE_RANK Configured = 3"
| "MODE_RANK Maximum_coverage = 4"

definition engineExclusion ::
  "EngineManifest \<Rightarrow> ProviderManifest \<Rightarrow> ('a) ModeContext_scheme \<Rightarrow> ExclusionReason option" where
  "engineExclusion engine provider ctx =
     (if e_status engine = MS_unavailable then Some Engine_unavailable
      else if e_status engine = MS_deprecated \<or> p_status provider = PS_deprecated
      then Some Provider_deprecated
      else if p_credentialClass provider = CC_E \<or> p_credentialClass provider = CC_F
      then (if e_terminal engine then None else Some Not_executable)
      else if list_ex (\<lambda>p. p \<notin> ctx_grantedPermissions ctx) (e_permissions engine)
      then Some Permission_denied
      else (let rank = MODE_RANK (ctx_mode ctx); isLocal = (e_dataFlow engine = Local)
            in if rank = MODE_RANK Strict_local \<and> \<not> isLocal then Some Blocked_by_mode
               else if rank \<le> MODE_RANK Zero_credential \<and> \<not> isLocal
                 \<and> p_credentials provider = Cred_required then Some Blocked_by_mode
               else if rank \<le> MODE_RANK Free_tier \<and> p_pricing provider = Paid then Some Paid_only
               else if p_status provider = PS_disabled then Some Provider_unavailable
               else if p_status provider = PS_unavailable then Some Provider_unavailable
               else if p_status provider = PS_rate_limited then Some Provider_rate_limited
               else if p_status provider = PS_invalid then Some Requires_configuration
               else if p_credentials provider = Cred_required
                 \<and> p_id provider \<notin> ctx_configuredProviders ctx then Some Requires_configuration
               else None))"

section \<open>Scores\<close>

fun PRIVACY :: "DataFlow \<Rightarrow> real" where
  "PRIVACY Local = 1" | "PRIVACY Network = 6/10" | "PRIVACY External_api = 3/10"

fun AVAILABILITY :: "ProviderStatus \<Rightarrow> real" where
  "AVAILABILITY PS_configured = 1"
| "AVAILABILITY PS_not_configured = 5/10"
| "AVAILABILITY PS_invalid = 1/10"
| "AVAILABILITY PS_rate_limited = 2/10"
| "AVAILABILITY PS_disabled = 0"
| "AVAILABILITY PS_unavailable = 0"
| "AVAILABILITY PS_deprecated = 0"

fun SPEED :: "ExecutionClass \<Rightarrow> real" where
  "SPEED Fast = 1" | "SPEED Standard = 7/10" | "SPEED Deep = 3/10" | "SPEED Optional = 5/10"

fun PRIORITY_WEIGHT :: "TransformPriority \<Rightarrow> real" where
  "PRIORITY_WEIGHT P_core = 1"
| "PRIORITY_WEIGHT P_recommended = 9/10"
| "PRIORITY_WEIGHT P_optional = 7/10"
| "PRIORITY_WEIGHT P_experimental = 5/10"
| "PRIORITY_WEIGHT P_external = 3/10"
| "PRIORITY_WEIGHT P_deprecated = 0"

record ScoreBreakdown =
  sb_resultQuality :: real
  sb_reliability :: real
  sb_privacy :: real
  sb_availability :: real
  sb_speed :: real
  sb_maintenance :: real
  sb_total :: real

definition scoreEngine :: "EngineManifest \<Rightarrow> ProviderStatus \<Rightarrow> ScoreBreakdown" where
  "scoreEngine engine providerStatus =
     (let rq = 3/10 * resultQuality (e_quality engine);
          rl = 2/10 * reliability (e_quality engine);
          pr = 15/100 * PRIVACY (e_dataFlow engine);
          av = 15/100 * AVAILABILITY providerStatus;
          sp = 1/10 * SPEED (e_cost engine);
          mn = 1/10 * maintenance (e_quality engine)
      in \<lparr>sb_resultQuality = rq, sb_reliability = rl, sb_privacy = pr, sb_availability = av,
          sb_speed = sp, sb_maintenance = mn, sb_total = foldl (+) 0 [rq, rl, pr, av, sp, mn]\<rparr>)"

definition scoreTransform :: "TransformManifest \<Rightarrow> real \<Rightarrow> real" where
  "scoreTransform transform bestEngineScore = bestEngineScore * PRIORITY_WEIGHT (t_priority transform)"

section \<open>Registry\<close>

record TransformRegistry =
  reg_transforms :: "TransformManifest list"
  reg_engines :: "EngineManifest list"
  reg_providers :: "ProviderManifest list"
  reg_transform :: "ident \<Rightarrow> TransformManifest option"
  reg_engine :: "ident \<Rightarrow> EngineManifest option"
  reg_provider :: "ident \<Rightarrow> ProviderManifest option"
  reg_forInput :: "EntityKind \<Rightarrow> TransformManifest list"
  reg_forCapability :: "ident \<Rightarrow> TransformManifest list"
  reg_enginesFor :: "TransformManifest \<Rightarrow> EngineManifest list"
  reg_validate :: "ManifestIssue list"

definition index_by :: "('a \<Rightarrow> 'k) \<Rightarrow> 'a list \<Rightarrow> ('k, 'a) omap" where
  "index_by key items = omap_of (map (\<lambda>item. (key item, item)) items)"

definition push_bucket :: "'k \<Rightarrow> 'a \<Rightarrow> ('k, 'a list) omap \<Rightarrow> ('k, 'a list) omap" where
  "push_bucket key item m =
     (case omap_get m key of
        Some bucket \<Rightarrow> omap_set key (bucket @ [item]) m
      | None \<Rightarrow> omap_set key [item] m)"

definition groupBy :: "('a \<Rightarrow> 'k list) \<Rightarrow> 'a list \<Rightarrow> ('k, 'a list) omap" where
  "groupBy keys items =
     foldl (\<lambda>m item. foldl (\<lambda>m key. push_bucket key item m) m (keys item)) [] items"

definition bucket_of :: "('k, 'a list) omap \<Rightarrow> 'k \<Rightarrow> 'a list" where
  "bucket_of m key = (case omap_get m key of None \<Rightarrow> [] | Some bucket \<Rightarrow> bucket)"

definition enginesFor :: "EngineManifest list \<Rightarrow> TransformManifest \<Rightarrow> EngineManifest list" where
  "enginesFor engines transform = List.map_filter (omap_get (index_by e_id engines)) (t_engines transform)"

definition issue :: "ManifestKind \<Rightarrow> ident \<Rightarrow> string \<Rightarrow> ManifestIssue" where
  "issue kind i message = \<lparr>issue_kind = kind, issue_id = i, issue_message = message\<rparr>"

definition quote_str :: "string \<Rightarrow> string" where
  "quote_str s = [CHR 0x22] @ s @ [CHR 0x22]"

definition engine_issues :: "EngineManifest list \<Rightarrow> TransformManifest \<Rightarrow> ident \<Rightarrow> ManifestIssue list" where
  "engine_issues engines transform engineId =
     (case omap_get (index_by e_id engines) engineId of
        None \<Rightarrow> [issue Transform_manifest (t_id transform)
                   (''references unknown engine '' @ quote_str engineId)]
      | Some engine \<Rightarrow>
          if \<not> e_terminal engine \<and> e_capability engine \<noteq> t_capability transform
          then [issue Transform_manifest (t_id transform)
                  (''engine '' @ quote_str engineId @ '' implements ''
                   @ quote_str (e_capability engine) @ '', not '' @ quote_str (t_capability transform))]
          else [])"

definition transform_issues ::
  "EngineManifest list \<Rightarrow> ident list \<Rightarrow> TransformManifest \<Rightarrow> ManifestIssue list" where
  "transform_issues engines seen transform =
     (if t_id transform \<in> set seen
      then [issue Transform_manifest (t_id transform) ''duplicate transform id''] else [])
     @ concat (map (engine_issues engines transform) (t_engines transform))
     @ (let chain = enginesFor engines transform
        in if chain \<noteq> [] \<and> \<not> list_ex e_terminal chain
           then [issue Transform_manifest (t_id transform)
                   ''fallback chain has no terminal engine (external link or manual)'']
           else [])"

fun transforms_issues ::
  "EngineManifest list \<Rightarrow> ident list \<Rightarrow> TransformManifest list \<Rightarrow> ManifestIssue list" where
  "transforms_issues engines seen [] = []"
| "transforms_issues engines seen (t # ts) =
     transform_issues engines seen t @ transforms_issues engines (t_id t # seen) ts"

definition validate_registry ::
  "TransformManifest list \<Rightarrow> EngineManifest list \<Rightarrow> ProviderManifest list \<Rightarrow> ManifestIssue list" where
  "validate_registry transforms engines providers =
     (let byProviderId = index_by p_id providers
      in transforms_issues engines [] transforms
         @ concat (map (\<lambda>e. if omap_has byProviderId (e_provider e) then []
                            else [issue Engine_manifest (e_id e)
                                    (''references unknown provider '' @ quote_str (e_provider e))]) engines)
         @ concat (map (\<lambda>p. concat (map (\<lambda>a. if omap_has byProviderId a then []
                                             else [issue Provider_manifest (p_id p)
                                                     (''lists unknown alternative '' @ quote_str a)])
                                    (p_alternatives p))) providers))"

text \<open>\<open>None\<close> is the exception of a schema that refuses a manifest.\<close>

definition build_registry ::
  "TransformManifest list \<Rightarrow> EngineManifest list \<Rightarrow> ProviderManifest list \<Rightarrow> TransformRegistry" where
  "build_registry transforms engines providers =
     \<lparr>reg_transforms = transforms, reg_engines = engines, reg_providers = providers,
      reg_transform = omap_get (index_by t_id transforms),
      reg_engine = omap_get (index_by e_id engines),
      reg_provider = omap_get (index_by p_id providers),
      reg_forInput = bucket_of (groupBy t_inputs transforms),
      reg_forCapability = bucket_of (groupBy (\<lambda>t. [t_capability t]) transforms),
      reg_enginesFor = enginesFor engines,
      reg_validate = validate_registry transforms engines providers\<rparr>"

definition createTransformRegistry ::
  "(string \<Rightarrow> bool) \<Rightarrow> TransformManifest list \<Rightarrow> EngineManifest list \<Rightarrow> ProviderManifest list
   \<Rightarrow> TransformRegistry option" where
  "createTransformRegistry is_url transforms engines providers =
     (if list_all transform_schema transforms \<and> list_all engine_schema engines
        \<and> list_all (provider_schema is_url) providers
      then Some (build_registry transforms engines providers) else None)"

section \<open>Router\<close>

record RoutedTransform =
  rt_transform :: TransformManifest
  rt_chain :: "EngineAvailability list"
  rt_rejected :: "EngineAvailability list"
  rt_score :: real
  rt_reason :: "ExclusionReason option"

definition ACTIONABILITY :: "ExclusionReason list" where
  "ACTIONABILITY =
     [Requires_configuration, Paid_only, Blocked_by_mode, Provider_rate_limited,
      Provider_unavailable, Permission_denied, Provider_deprecated, Engine_unavailable,
      Not_executable]"

definition bestReason :: "EngineAvailability list \<Rightarrow> ExclusionReason" where
  "bestReason rejected =
     (case filter (\<lambda>r. list_ex (\<lambda>c. av_reason c = Some r) rejected) ACTIONABILITY of
        [] \<Rightarrow> No_engine
      | r # _ \<Rightarrow> r)"

definition availability ::
  "'a ModeContext_scheme \<Rightarrow> EngineManifest \<Rightarrow> ProviderManifest \<Rightarrow> EngineAvailability" where
  "availability ctx engine provider =
     (let reason = engineExclusion engine provider ctx
      in \<lparr>av_engine = engine, av_provider = provider, av_usable = (reason = None),
          av_reason = reason, av_score = sb_total (scoreEngine engine (p_status provider))\<rparr>)"

definition considered ::
  "TransformRegistry \<Rightarrow> TransformManifest \<Rightarrow> 'a ModeContext_scheme \<Rightarrow> EngineAvailability list" where
  "considered registry transform ctx =
     List.map_filter (\<lambda>engine. map_option (availability ctx engine)
                           (reg_provider registry (e_provider engine)))
       (reg_enginesFor registry transform)"

definition is_terminal :: "EngineAvailability \<Rightarrow> bool" where
  "is_terminal c \<longleftrightarrow> e_terminal (av_engine c)"

text \<open>The comparator of the chain: terminal engines last, then the higher score first.\<close>

definition chain_key :: "EngineAvailability \<Rightarrow> bool \<times> real" where
  "chain_key c = (is_terminal c, - av_score c)"

definition routeTransform ::
  "TransformRegistry \<Rightarrow> TransformManifest \<Rightarrow> 'a ModeContext_scheme \<Rightarrow> RoutedTransform" where
  "routeTransform registry transform ctx =
     (let entries = considered registry transform ctx;
          usable = filter (\<lambda>c. av_reason c = None) entries;
          rejected = filter (\<lambda>c. av_reason c \<noteq> None) entries;
          chain = sort_key chain_key usable;
          executable = filter (\<lambda>c. \<not> is_terminal c) chain
      in \<lparr>rt_transform = transform, rt_chain = chain, rt_rejected = rejected,
          rt_score = scoreTransform transform (case executable of [] \<Rightarrow> 0 | c # _ \<Rightarrow> av_score c),
          rt_reason = (if executable = [] then Some (bestReason rejected) else None)\<rparr>)"

definition routeForInput ::
  "TransformRegistry \<Rightarrow> EntityKind \<Rightarrow> 'a ModeContext_scheme \<Rightarrow> RoutedTransform list" where
  "routeForInput registry kind ctx =
     sort_key (\<lambda>r. - rt_score r)
       (map (\<lambda>t. routeTransform registry t ctx) (reg_forInput registry kind))"

section \<open>Facts about the indices\<close>

lemma index_by_Some: "omap_get (index_by key items) k = Some x \<Longrightarrow> x \<in> set items \<and> key x = k"
  by (auto simp: index_by_def dest!: omap_get_of_in)

lemma index_by_complete: "x \<in> set items \<Longrightarrow> \<exists>y. omap_get (index_by key items) (key x) = Some y"
  by (force simp: index_by_def omap_get_of map_of_eq_None_iff not_None_eq [symmetric]
      simp del: not_None_eq)

lemma index_by_has: "omap_has (index_by key items) k \<longleftrightarrow> k \<in> key ` set items"
  using index_by_complete [of _ items key] by (auto simp: omap_has_iff dest: index_by_Some)

lemma bucket_of_push:
  "bucket_of (push_bucket key item m) k = bucket_of m k @ (if k = key then [item] else [])"
  by (auto simp: bucket_of_def push_bucket_def split: option.split)

lemma bucket_of_pushes:
  "bucket_of (foldl (\<lambda>m key. push_bucket key item m) m ks) k
   = bucket_of m k @ replicate (count_list ks k) item"
  by (induction ks arbitrary: m) (auto simp: bucket_of_push replicate_append_same [symmetric])

lemma bucket_of_groupBy:
  "bucket_of (groupBy keys items) k = concat (map (\<lambda>x. replicate (count_list (keys x) k) x) items)"
proof -
  have "bucket_of (foldl (\<lambda>m item. foldl (\<lambda>m key. push_bucket key item m) m (keys item)) m items) k
      = bucket_of m k @ concat (map (\<lambda>x. replicate (count_list (keys x) k) x) items)" for m
    by (induction items arbitrary: m) (simp_all add: bucket_of_pushes)
  then show ?thesis by (simp add: groupBy_def bucket_of_def)
qed

lemma set_bucket_of_groupBy:
  "set (bucket_of (groupBy keys items) k) = {x \<in> set items. k \<in> set (keys x)}"
  by (auto simp: bucket_of_groupBy count_list_0_iff)

lemma set_map_filter: "set (List.map_filter f xs) = {y. \<exists>x\<in>set xs. f x = Some y}"
  by (force simp: map_filter_def)

section \<open>The registry interface\<close>

locale transform_registry =
  fixes registry :: TransformRegistry
  assumes transform_sound: "reg_transform registry i = Some t
      \<Longrightarrow> t \<in> set (reg_transforms registry) \<and> t_id t = i"
    and transform_complete: "t \<in> set (reg_transforms registry)
      \<Longrightarrow> \<exists>t'. reg_transform registry (t_id t) = Some t'"
    and provider_sound: "reg_provider registry i = Some p
      \<Longrightarrow> p \<in> set (reg_providers registry) \<and> p_id p = i"
    and engines_sound: "e \<in> set (reg_enginesFor registry t)
      \<Longrightarrow> e \<in> set (reg_engines registry) \<and> e_id e \<in> set (t_engines t)"
    and forInput_set: "set (reg_forInput registry kind)
      = {t \<in> set (reg_transforms registry). kind \<in> set (t_inputs t)}"
begin

lemma considered_in:
  assumes "c \<in> set (considered registry t ctx)"
  shows "av_engine c \<in> set (reg_engines registry) \<and> av_provider c \<in> set (reg_providers registry)
    \<and> p_id (av_provider c) = e_provider (av_engine c)
    \<and> av_reason c = engineExclusion (av_engine c) (av_provider c) ctx"
  using assms
  by (auto simp: considered_def set_map_filter availability_def Let_def
      dest: engines_sound provider_sound)

lemma chain_in:
  assumes "c \<in> set (rt_chain (routeTransform registry t ctx))"
  shows "av_engine c \<in> set (reg_engines registry) \<and> av_provider c \<in> set (reg_providers registry)
    \<and> p_id (av_provider c) = e_provider (av_engine c)
    \<and> engineExclusion (av_engine c) (av_provider c) ctx = None"
  using assms considered_in [of c t ctx] by (auto simp: routeTransform_def Let_def)

lemma routeForInput_in:
  assumes "r \<in> set (routeForInput registry kind ctx)"
  shows "rt_transform r \<in> set (reg_transforms registry) \<and> kind \<in> set (t_inputs (rt_transform r))
    \<and> r = routeTransform registry (rt_transform r) ctx"
  using assms by (auto simp: routeForInput_def forInput_set routeTransform_def Let_def)

lemma routeForInput_iff:
  "r \<in> set (routeForInput registry kind ctx) \<longleftrightarrow>
     (\<exists>t \<in> set (reg_transforms registry). kind \<in> set (t_inputs t) \<and> r = routeTransform registry t ctx)"
  by (auto simp: routeForInput_def forInput_set)

end

interpretation created: transform_registry "build_registry ts es ps" for ts es ps
  by unfold_locales
    (auto simp: build_registry_def set_bucket_of_groupBy enginesFor_def set_map_filter
      dest: index_by_Some intro: index_by_complete)

lemma createTransformRegistry_Some:
  "createTransformRegistry is_url ts es ps = Some reg \<longleftrightarrow>
     reg = build_registry ts es ps \<and> list_all transform_schema ts \<and> list_all engine_schema es
     \<and> list_all (provider_schema is_url) ps"
  by (auto simp: createTransformRegistry_def)

lemma head_is_Max:
  assumes "sorted (map chain_key cs)" "list_all (\<lambda>c. \<not> is_terminal c) cs"
  shows "(case cs of [] \<Rightarrow> 0 | c # _ \<Rightarrow> av_score c) = (if cs = [] then 0 else Max (av_score ` set cs))"
proof (cases cs)
  case (Cons c rest)
  have "chain_key c \<le> chain_key c'" if "c' \<in> set rest" for c'
    using assms(1) that by (simp add: Cons)
  then have "av_score c' \<le> av_score c" if "c' \<in> set cs" for c'
    using assms(2) that by (auto simp: Cons chain_key_def list_all_iff)
  then have "Max (av_score ` set cs) = av_score c"
    by (intro Max_eqI) (auto simp: Cons)
  then show ?thesis by (simp add: Cons)
qed simp

section \<open>Theorems\<close>

text \<open>The mode policy is monotone: an engine that may run in one context may run in every
  context with a less restrictive mode, more granted permissions and more configured providers.\<close>

theorem engineExclusion_monotone:
  assumes "engineExclusion engine provider ctx = None"
    and "MODE_RANK (ctx_mode ctx) \<le> MODE_RANK (ctx_mode ctx')"
    and "ctx_configuredProviders ctx \<subseteq> ctx_configuredProviders ctx'"
    and "ctx_grantedPermissions ctx \<subseteq> ctx_grantedPermissions ctx'"
  shows "engineExclusion engine provider ctx' = None"
proof -
  have perms: "\<not> list_ex (\<lambda>p. p \<notin> ctx_grantedPermissions ctx') (e_permissions engine)"
    if "\<not> list_ex (\<lambda>p. p \<notin> ctx_grantedPermissions ctx) (e_permissions engine)"
    using that assms(4) by (auto simp: list_ex_iff)
  have "0 \<le> MODE_RANK m" for m by (cases m) auto
  from this [of "ctx_mode ctx"] show ?thesis
    using assms(1-3) perms by (auto simp: engineExclusion_def Let_def split: if_splits)
qed

text \<open>Routing loses nothing and ranks correctly: chain and rejected engines partition the
  engines the transform declares, the chain is ordered with every terminal engine after every
  executable one and by descending score, and the transform is usable exactly when an executable
  engine is, with the score of the best of them.\<close>

theorem routeTransform_ranks:
  "let r = routeTransform registry transform ctx;
       best = filter (\<lambda>c. \<not> is_terminal c) (rt_chain r)
   in mset (rt_chain r) + mset (rt_rejected r) = mset (considered registry transform ctx)
      \<and> sorted (map chain_key (rt_chain r))
      \<and> (rt_reason r = None) = (best \<noteq> [])
      \<and> rt_score r = (if best = [] then 0 else Max (av_score ` set best)) * PRIORITY_WEIGHT (t_priority transform)"
proof -
  define entries where "entries = considered registry transform ctx"
  define chain where "chain = sort_key chain_key (filter (\<lambda>c. av_reason c = None) entries)"
  define best where "best = filter (\<lambda>c. \<not> is_terminal c) chain"
  have "sorted (map chain_key best)"
    unfolding best_def chain_def by (rule sorted_filter) simp
  then have "(case best of [] \<Rightarrow> 0 | c # _ \<Rightarrow> av_score c)
      = (if best = [] then 0 else Max (av_score ` set best))"
    by (rule head_is_Max) (simp add: best_def list_all_iff)
  moreover have "mset chain + mset (filter (\<lambda>c. av_reason c \<noteq> None) entries) = mset entries"
    by (simp add: chain_def)
  ultimately show ?thesis
    by (simp add: routeTransform_def Let_def scoreTransform_def entries_def [symmetric]
        chain_def [symmetric] best_def [symmetric]) (simp add: chain_def)
qed

lemma rt_transform_route [simp]: "rt_transform (routeTransform registry t ctx) = t"
  by (simp add: routeTransform_def Let_def)

lemma routed_transforms:
  "mset (map rt_transform (routeForInput registry kind ctx)) = mset (reg_forInput registry kind)"
  by (simp add: routeForInput_def multiset.map_comp comp_def)

text \<open>The indices answer as declared: \<open>forInput\<close> lists exactly the transforms that accept the
  kind (once per mention), in declaration order, and routing a kind ranks all of them by descending score.\<close>

theorem routeForInput_ranks_all:
  "let reg = build_registry ts es ps; routed = routeForInput reg kind ctx
   in reg_forInput reg kind = concat (map (\<lambda>t. replicate (count_list (t_inputs t) kind) t) ts)
      \<and> mset (map rt_transform routed) = mset (reg_forInput reg kind)
      \<and> sorted (map (\<lambda>r. - rt_score r) routed)"
  unfolding Let_def routed_transforms
  by (simp add: routeForInput_def) (simp add: build_registry_def bucket_of_groupBy)

text \<open>Scores are comparable: the weights sum to one, so the total of an engine whose manifest
  passes the schema lies between 0 and 1, and improving any quality signal never lowers it.\<close>

theorem scoreEngine_unit_and_monotone:
  assumes "engine_schema e" "engine_schema e'" "e' = e\<lparr>e_quality := q'\<rparr>"
    and "resultQuality (e_quality e) \<le> resultQuality q'" "reliability (e_quality e) \<le> reliability q'"
    and "maintenance (e_quality e) \<le> maintenance q'"
  shows "0 \<le> sb_total (scoreEngine e s) \<and> sb_total (scoreEngine e s) \<le> sb_total (scoreEngine e' s)
     \<and> sb_total (scoreEngine e' s) \<le> 1"
proof -
  have "0 \<le> PRIVACY (e_dataFlow e) \<and> PRIVACY (e_dataFlow e) \<le> 1" by (cases "e_dataFlow e") auto
  moreover have "0 \<le> AVAILABILITY s \<and> AVAILABILITY s \<le> 1" by (cases s) auto
  moreover have "0 \<le> SPEED (e_cost e) \<and> SPEED (e_cost e) \<le> 1" by (cases "e_cost e") auto
  ultimately show ?thesis
    using assms by (simp add: scoreEngine_def Let_def engine_schema_def in_unit_def)
qed

section \<open>Validation\<close>

lemma transforms_issues_Nil:
  assumes "transforms_issues engines seen ts = []"
  shows "distinct (map t_id ts) \<and> set (map t_id ts) \<inter> set seen = {}
    \<and> (\<forall>t\<in>set ts. \<exists>seen'. transform_issues engines seen' t = [])"
  using assms
proof (induction ts arbitrary: seen)
  case (Cons t ts)
  then have t: "transform_issues engines seen t = []"
    and ts: "transforms_issues engines (t_id t # seen) ts = []" by simp_all
  from t have "t_id t \<notin> set seen" by (auto simp: transform_issues_def split: if_splits)
  moreover have "distinct (map t_id ts) \<and> set (map t_id ts) \<inter> set (t_id t # seen) = {}
    \<and> (\<forall>t\<in>set ts. \<exists>seen'. transform_issues engines seen' t = [])"
    by (rule Cons.IH) (rule ts)
  ultimately show ?case using t by (auto simp del: set_map)
qed simp

lemma engines_resolved:
  assumes "\<forall>i\<in>set is. omap_get (index_by e_id engines) i \<noteq> None"
  shows "map e_id (List.map_filter (omap_get (index_by e_id engines)) is) = is"
  using assms by (induction "is") (auto simp: List.map_filter_simps dest: index_by_Some)

lemma transform_issues_Nil:
  assumes "transform_issues engines seen t = []"
  shows "map e_id (enginesFor engines t) = t_engines t
    \<and> (t_engines t \<noteq> [] \<longrightarrow> list_ex e_terminal (enginesFor engines t))"
proof -
  have "\<forall>i\<in>set (t_engines t). omap_get (index_by e_id engines) i \<noteq> None"
    using assms by (auto simp: transform_issues_def engine_issues_def split: option.splits)
  then have "map e_id (enginesFor engines t) = t_engines t"
    unfolding enginesFor_def by (rule engines_resolved)
  moreover have "enginesFor engines t = [] \<or> list_ex e_terminal (enginesFor engines t)"
    using assms by (auto simp: transform_issues_def Let_def split: if_splits)
  ultimately show ?thesis by force
qed

lemma index_by_unique:
  "distinct (map key items) \<Longrightarrow> x \<in> set items \<Longrightarrow> omap_get (index_by key items) (key x) = Some x"
proof -
  assume d: "distinct (map key items)" "x \<in> set items"
  then obtain y where y: "omap_get (index_by key items) (key x) = Some y"
    using index_by_complete by metis
  with index_by_Some [OF this] d have "y = x" by (auto simp: distinct_map dest: inj_onD)
  with y show ?thesis by simp
qed

lemma considered_all:
  assumes "\<forall>e\<in>set (reg_enginesFor reg t). reg_provider reg (e_provider e) \<noteq> None"
  shows "map av_engine (considered reg t ctx) = reg_enginesFor reg t"
proof -
  have "map av_engine (List.map_filter (\<lambda>e. map_option (availability ctx e) (reg_provider reg (e_provider e))) es) = es"
    if "\<forall>e\<in>set es. reg_provider reg (e_provider e) \<noteq> None" for es
    using that by (induction es) (auto simp: List.map_filter_simps availability_def Let_def)
  with assms show ?thesis by (simp add: considered_def)
qed

text \<open>C22. A registry that was created and validates without issues is safe to route: ids are
  unique so lookups return the transform itself, routing considers every engine a transform
  declares, in its order, and its list contains a terminal engine to end the chain.\<close>

theorem validated_registry_routes_everything:
  assumes "createTransformRegistry is_url ts es ps = Some reg" "reg_validate reg = []" "t \<in> set ts"
  shows "reg_transform reg (t_id t) = Some t
    \<and> map (e_id \<circ> av_engine) (considered reg t ctx) = t_engines t
    \<and> list_ex is_terminal (considered reg t ctx)"
proof -
  have reg: "reg = build_registry ts es ps" and t: "t_engines t \<noteq> []"
    using assms by (auto simp: createTransformRegistry_Some list_all_iff transform_schema_def)
  have issues: "transforms_issues es [] ts = []"
    and providers: "\<forall>e\<in>set es. omap_has (index_by p_id ps) (e_provider e)"
    using assms(2) by (auto simp: reg build_registry_def validate_registry_def Let_def split: if_splits)
  from issues assms(3) obtain seen where "transform_issues es seen t = []"
    using transforms_issues_Nil by blast
  then have e: "map e_id (enginesFor es t) = t_engines t" "list_ex e_terminal (enginesFor es t)"
    using transform_issues_Nil t by blast+
  have "\<forall>e\<in>set (reg_enginesFor reg t). reg_provider reg (e_provider e) \<noteq> None"
    using providers created.engines_sound [of _ ts es ps t]
    by (auto simp: reg build_registry_def omap_has_iff)
  then have c: "map av_engine (considered reg t ctx) = enginesFor es t"
    using considered_all [of reg t ctx] by (simp add: reg build_registry_def)
  have "reg_transform reg (t_id t) = Some t"
    using index_by_unique [of t_id ts t] transforms_issues_Nil [OF issues] assms(3)
    by (simp add: reg build_registry_def)
  moreover have "map (e_id \<circ> av_engine) (considered reg t ctx) = t_engines t"
    using c e(1) by (metis map_map)
  moreover have "list_ex is_terminal (considered reg t ctx)"
    using e(2) unfolding c [symmetric] by (auto simp: list_ex_iff is_terminal_def)
  ultimately show ?thesis by simp
qed

subsection \<open>A concrete catalogue\<close>

text \<open>A DNS lookup over the network, a local parser and the manual link, as the catalogue has them.\<close>

definition demo_limits :: TransformLimits where
  "demo_limits = \<lparr>expectedRuntimeMs = 40000, maxResults = 20, maxInputBatch = 1\<rparr>"

definition demo_engine :: EngineManifest where
  "demo_engine = \<lparr>e_id = ''dns-engine'', e_version = ''1.0.0'', e_capability = ''dns'',
     e_provider = ''resolver'', e_integration = None, e_dataFlow = Network,
     e_permissions = [Perm_network],
     e_quality = \<lparr>resultQuality = 9/10, reliability = 8/10, maintenance = 1\<rparr>,
     e_cost = Fast, e_terminal = False, e_status = MS_stable\<rparr>"

definition demo_local_engine :: EngineManifest where
  "demo_local_engine = demo_engine\<lparr>e_id := ''parse-engine'', e_dataFlow := Local, e_permissions := []\<rparr>"

definition demo_link :: EngineManifest where
  "demo_link = demo_engine\<lparr>e_id := ''link-out'', e_provider := ''manual'', e_terminal := True\<rparr>"

definition demo_provider :: ProviderManifest where
  "demo_provider = \<lparr>p_id = ''resolver'', p_name = ''Resolver'', p_credentialClass = CC_A,
     p_credentials = Cred_none, p_pricing = Free, p_endpoint = None, p_licence = ''MIT'',
     p_dataLicence = None,
     p_limits = \<lparr>requestsPerMinute = None, requestsPerDay = None, limit_note = None\<rparr>,
     p_attribution = None, p_storeResults = None, p_lastVerified = ''2025-01-01'',
     p_status = PS_configured, p_alternatives = []\<rparr>"

definition demo_manual :: ProviderManifest where
  "demo_manual = demo_provider\<lparr>p_id := ''manual'', p_credentialClass := CC_E\<rparr>"

definition demo_transform :: TransformManifest where
  "demo_transform = \<lparr>t_id = ''dns-lookup'', t_version = ''1.0.0'', t_name = ''DNS'',
     t_description = ''Resolve'', t_category = Infrastructure, t_capability = ''dns'',
     t_inputs = [K_domain], t_outputs = [K_ip], t_engines = [''dns-engine'', ''link-out''],
     t_priority = P_core, t_cost = Fast, t_limits = demo_limits, t_cacheable = False,
     t_cacheTtlSeconds = None, t_documentation = ''docs'', t_status = MS_stable\<rparr>"

definition demo_transform2 :: TransformManifest where
  "demo_transform2 = demo_transform\<lparr>t_id := ''dns-parse'', t_capability := ''parse'', t_engines := [''link-out'']\<rparr>"

definition demo_registry :: TransformRegistry where
  "demo_registry = build_registry [demo_transform] [demo_engine, demo_link] [demo_provider, demo_manual]"

definition demo_ctx :: ModeContext where
  "demo_ctx = \<lparr>ctx_mode = Zero_credential, ctx_configuredProviders = {},
             ctx_grantedPermissions = {Perm_network}\<rparr>"

lemma demo_registry_created:
  "createTransformRegistry (\<lambda>_. True) [demo_transform] [demo_engine, demo_link] [demo_provider, demo_manual]
     = Some demo_registry"
  "reg_validate demo_registry = []"
proof -
  have "transform_schema demo_transform" "engine_schema demo_engine" "engine_schema demo_link"
    "provider_schema (\<lambda>_. True) demo_provider" "provider_schema (\<lambda>_. True) demo_manual"
    by code_simp+
  then show "createTransformRegistry (\<lambda>_. True) [demo_transform] [demo_engine, demo_link]
      [demo_provider, demo_manual] = Some demo_registry"
    by (simp add: createTransformRegistry_def demo_registry_def)
  show "reg_validate demo_registry = []" by code_simp
qed

theorem validated_registry_routes_everything_witness:
  "reg_transform demo_registry ''dns-lookup'' = Some demo_transform
   \<and> map (e_id \<circ> av_engine) (considered demo_registry demo_transform demo_ctx) = [''dns-engine'', ''link-out'']
   \<and> list_ex is_terminal (considered demo_registry demo_transform demo_ctx)"
  using validated_registry_routes_everything [OF demo_registry_created, of demo_transform demo_ctx]
  by (simp add: demo_transform_def)

theorem engineExclusion_monotone_witness:
  "engineExclusion demo_engine demo_provider (demo_ctx\<lparr>ctx_mode := Maximum_coverage\<rparr>) = None"
  by (rule engineExclusion_monotone [of _ _ demo_ctx])
    (simp_all add: engineExclusion_def demo_engine_def demo_provider_def demo_ctx_def)

theorem scoreEngine_unit_and_monotone_witness:
  "let better = demo_engine\<lparr>e_quality := \<lparr>resultQuality = 1, reliability = 8/10, maintenance = 1\<rparr>\<rparr>;
       s = PS_rate_limited
   in 0 \<le> sb_total (scoreEngine demo_engine s)
      \<and> sb_total (scoreEngine demo_engine s) \<le> sb_total (scoreEngine better s)
      \<and> sb_total (scoreEngine better s) \<le> 1"
proof -
  have "engine_schema demo_engine" by code_simp
  moreover have "engine_schema (demo_engine\<lparr>e_quality := \<lparr>resultQuality = 1, reliability = 8/10, maintenance = 1\<rparr>\<rparr>)"
    by code_simp
  ultimately show ?thesis
    unfolding Let_def
    by (rule scoreEngine_unit_and_monotone [OF _ _ refl]) (simp_all add: demo_engine_def)
qed

end
