(* ===== verification/TransformPlanner.thy ===== *)
theory TransformPlanner
  imports TransformRouting
begin

text \<open>
  The contextual menu and the expand planner, \<open>packages/transforms/src/planner.ts\<close>. The loop of
  \<open>consider\<close> is a recursion over the candidates that threads the variables the closure captures
  (\<open>usedTransforms\<close>, \<open>covered\<close>, \<open>excluded\<close>, \<open>nodeBudget\<close>); \<open>steps.length\<close> and
  \<open>runtimeBudget\<close> do not change during one call and are arguments.
\<close>

section \<open>Model\<close>

definition MENU_LIMIT :: int where "MENU_LIMIT = 7"

definition DEFAULT_BUDGET :: Budget where
  "DEFAULT_BUDGET = \<lparr>maxNewNodes = 250, maxDepth = 2, maxRuntimeMs = 60000, maxParallel = 4,
                     maxTransforms = 12\<rparr>"

record PlannerContext = ModeContext +
  ctx_budget :: Budget
  ctx_covered :: "ident set option"

datatype ExpandDepth = Depth1 | Depth2 | Deep_expand

definition covered_set :: "'a PlannerContext_scheme \<Rightarrow> ident set" where
  "covered_set ctx = (case ctx_covered ctx of None \<Rightarrow> {} | Some s \<Rightarrow> s)"

definition capability_of :: "RoutedTransform \<Rightarrow> ident" where
  "capability_of r = t_capability (rt_transform r)"

definition menu_key :: "ident set \<Rightarrow> RoutedTransform \<Rightarrow> bool \<times> bool \<times> real" where
  "menu_key covered r = (capability_of r \<in> covered, rt_reason r \<noteq> None, - rt_score r)"

fun pick_actions :: "int \<Rightarrow> ident list \<Rightarrow> RoutedTransform list \<Rightarrow> RoutedTransform list \<Rightarrow> RoutedTransform list" where
  "pick_actions limit seen picked [] = picked"
| "pick_actions limit seen picked (r # rs) =
     (if limit \<le> int (length picked) then picked
      else if capability_of r \<in> set seen then pick_actions limit seen picked rs
      else if t_priority (rt_transform r) = P_deprecated then pick_actions limit seen picked rs
      else pick_actions limit (capability_of r # seen) (picked @ [r]) rs)"

definition actionsFor ::
  "TransformRegistry \<Rightarrow> EntityKind \<Rightarrow> 'a PlannerContext_scheme \<Rightarrow> int \<Rightarrow> RoutedTransform list" where
  "actionsFor registry kind ctx limit =
     pick_actions limit [] []
       (sort_key (menu_key (covered_set ctx)) (routeForInput registry kind ctx))"

text \<open>\<open>Math.ceil(n / max(1, p))\<close>, and the largest runtime of a layer.\<close>

definition layerRuntimeMs :: "PlanStep list \<Rightarrow> int \<Rightarrow> int" where
  "layerRuntimeMs steps parallel =
     (if steps = [] then 0
      else (let p = max 1 parallel; batches = (int (length steps) + p - 1) div p
            in batches * Max (set (map step_runtimeMs steps))))"

record Candidate =
  cand_routed :: RoutedTransform
  cand_inputKind :: EntityKind
  cand_dependsOn :: "ident list"
  cand_depth :: int

definition candidatesForKind ::
  "TransformRegistry \<Rightarrow> EntityKind \<Rightarrow> 'a PlannerContext_scheme \<Rightarrow> int \<Rightarrow> ident list \<Rightarrow> Candidate list" where
  "candidatesForKind registry kind ctx depth dependsOn =
     map (\<lambda>r. \<lparr>cand_routed = r, cand_inputKind = kind, cand_dependsOn = dependsOn, cand_depth = depth\<rparr>)
       (filter (\<lambda>r. t_priority (rt_transform r) \<noteq> P_deprecated) (routeForInput registry kind ctx))"

record PlanState =
  pl_used :: "ident list"
  pl_covered :: "ident list"
  pl_excluded :: "PlanExclusion list"
  pl_nodeBudget :: int

definition cand_transform :: "Candidate \<Rightarrow> TransformManifest" where
  "cand_transform c = rt_transform (cand_routed c)"

definition exclude :: "ident \<Rightarrow> ExclusionReason \<Rightarrow> PlanState \<Rightarrow> PlanState" where
  "exclude i reason s =
     s\<lparr>pl_used := i # pl_used s,
       pl_excluded := pl_excluded s @ [\<lparr>ex_transform = i, ex_reason = reason\<rparr>]\<rparr>"

definition plan_step :: "Candidate \<Rightarrow> int \<Rightarrow> PlanStep" where
  "plan_step c results =
     \<lparr>step_transform = t_id (cand_transform c), step_inputKind = cand_inputKind c,
      step_dependsOn = cand_dependsOn c, step_depth = cand_depth c,
      step_chain = map (e_id \<circ> av_engine) (rt_chain (cand_routed c)),
      step_runtimeMs = expectedRuntimeMs (t_limits (cand_transform c)), step_maxResults = results\<rparr>"

text \<open>\<open>covered\<close> starts as the caller's set; \<open>pl_covered\<close> holds what the plan adds to it.\<close>

fun consider_layer ::
  "Budget \<Rightarrow> ident set \<Rightarrow> int \<Rightarrow> int \<Rightarrow> Candidate list \<Rightarrow> PlanStep list \<Rightarrow> PlanState
   \<Rightarrow> PlanStep list \<times> PlanState" where
  "consider_layer budget cov nsteps runtimeBudget [] accepted s = (accepted, s)"
| "consider_layer budget cov nsteps runtimeBudget (c # cs) accepted s =
     (let t = cand_transform c; results = min (maxResults (t_limits t)) (pl_nodeBudget s)
      in if t_id t \<in> set (pl_used s) then consider_layer budget cov nsteps runtimeBudget cs accepted s
         else case rt_reason (cand_routed c) of
                Some reason \<Rightarrow>
                  consider_layer budget cov nsteps runtimeBudget cs accepted (exclude (t_id t) reason s)
              | None \<Rightarrow>
                  if t_capability t \<in> cov \<or> t_capability t \<in> set (pl_covered s)
                  then consider_layer budget cov nsteps runtimeBudget cs accepted
                         (exclude (t_id t) Already_covered s)
                  else if maxTransforms budget \<le> nsteps + int (length accepted)
                    \<or> results \<le> 0 \<or> runtimeBudget < expectedRuntimeMs (t_limits t)
                  then consider_layer budget cov nsteps runtimeBudget cs accepted
                         (exclude (t_id t) Budget_exhausted s)
                  else consider_layer budget cov nsteps runtimeBudget cs (accepted @ [plan_step c results])
                         (s\<lparr>pl_used := t_id t # pl_used s,
                            pl_covered := t_capability t # pl_covered s,
                            pl_nodeBudget := pl_nodeBudget s - results\<rparr>))"

definition producers_of :: "TransformRegistry \<Rightarrow> PlanStep list \<Rightarrow> (EntityKind, ident list) omap" where
  "producers_of registry firstLayer =
     foldl (\<lambda>m step.
        (case reg_transform registry (step_transform step) of
           None \<Rightarrow> m
         | Some manifest \<Rightarrow>
             foldl (\<lambda>m output. push_bucket output (t_id manifest) m) m (t_outputs manifest)))
       [] firstLayer"

text \<open>The engine a step would use first, when the plan is summarised.\<close>

definition primary_engine ::
  "TransformRegistry \<Rightarrow> 'a PlannerContext_scheme \<Rightarrow> PlanStep \<Rightarrow> EngineAvailability option" where
  "primary_engine registry ctx step =
     (case reg_transform registry (step_transform step) of
        None \<Rightarrow> None
      | Some manifest \<Rightarrow>
          (case filter (\<lambda>c. \<not> is_terminal c) (rt_chain (routeTransform registry manifest ctx)) of
             [] \<Rightarrow> None
           | c # _ \<Rightarrow> Some c))"

definition initial_plan_state :: "'a PlannerContext_scheme \<Rightarrow> PlanState" where
  "initial_plan_state ctx =
     \<lparr>pl_used = [], pl_covered = [], pl_excluded = [], pl_nodeBudget = maxNewNodes (ctx_budget ctx)\<rparr>"

definition max_depth_of :: "Budget \<Rightarrow> ExpandDepth \<Rightarrow> int" where
  "max_depth_of budget depth =
     (case depth of Deep_expand \<Rightarrow> maxDepth budget
                  | Depth1 \<Rightarrow> min 1 (maxDepth budget) | Depth2 \<Rightarrow> min 2 (maxDepth budget))"

definition first_layer ::
  "TransformRegistry \<Rightarrow> EntityKind \<Rightarrow> 'a PlannerContext_scheme \<Rightarrow> PlanStep list \<times> PlanState" where
  "first_layer registry kind ctx =
     consider_layer (ctx_budget ctx) (covered_set ctx) 0 (maxRuntimeMs (ctx_budget ctx))
       (candidatesForKind registry kind ctx 1 []) [] (initial_plan_state ctx)"

definition second_candidates ::
  "TransformRegistry \<Rightarrow> 'a PlannerContext_scheme \<Rightarrow> PlanStep list \<Rightarrow> Candidate list" where
  "second_candidates registry ctx firstLayer =
     concat (map (\<lambda>(outputKind, dependsOn). candidatesForKind registry outputKind ctx 2 dependsOn)
               (producers_of registry firstLayer))"

definition plan_layers ::
  "TransformRegistry \<Rightarrow> EntityKind \<Rightarrow> 'a PlannerContext_scheme \<Rightarrow> ExpandDepth
   \<Rightarrow> PlanStep list \<times> PlanState" where
  "plan_layers registry kind ctx depth =
     (let budget = ctx_budget ctx;
          (layer1, s1) = first_layer registry kind ctx;
          runtimeBudget = maxRuntimeMs budget - layerRuntimeMs layer1 (maxParallel budget)
      in if 2 \<le> max_depth_of budget depth \<and> 0 < runtimeBudget
         then (let (layer2, s2) =
                     consider_layer budget (covered_set ctx) (int (length layer1)) runtimeBudget
                       (second_candidates registry ctx layer1) [] s1
               in (layer1 @ layer2, s2))
         else (layer1, s1))"

definition plan_runtime :: "Budget \<Rightarrow> PlanStep list \<Rightarrow> int" where
  "plan_runtime budget steps =
     sum_list (map (\<lambda>layer. layerRuntimeMs layer (maxParallel budget))
                 (omap_values (groupBy (\<lambda>s. [step_depth s]) steps)))"

definition expand ::
  "TransformRegistry \<Rightarrow> EntityKind \<Rightarrow> 'a PlannerContext_scheme \<Rightarrow> ExpandDepth \<Rightarrow> TransformPlan" where
  "expand registry kind ctx depth =
     (let (steps, s) = plan_layers registry kind ctx depth;
          primaries = List.map_filter (primary_engine registry ctx) steps
      in \<lparr>plan_steps = steps,
          plan_estimate =
            \<lparr>est_runtimeMs = plan_runtime (ctx_budget ctx) steps,
             est_minEntities = int (length (filter (\<lambda>s. step_depth s = 1) steps)),
             est_maxEntities =
               min (sum_list (map step_maxResults steps)) (maxNewNodes (ctx_budget ctx))\<rparr>,
          plan_requiresNetwork = list_ex (\<lambda>c. e_dataFlow (av_engine c) \<noteq> Local) primaries,
          plan_providersUsed = js_uniq (map (p_id \<circ> av_provider) primaries),
          plan_credentialsNeeded =
            js_uniq (map (p_id \<circ> av_provider)
              (filter (\<lambda>c. p_credentials (av_provider c) = Cred_required) primaries)),
          plan_excluded = pl_excluded s\<rparr>)"

section \<open>The contextual menu\<close>

lemma pick_actions_inv:
  assumes "distinct (map capability_of picked)" "set seen = capability_of ` set picked"
    and "sorted (map f (picked @ rs))" "\<And>r. r \<in> set picked \<Longrightarrow> t_priority (rt_transform r) \<noteq> P_deprecated"
    and "int (length picked) \<le> max 0 limit"
  shows "let menu = pick_actions limit seen picked rs;
             live = filter (\<lambda>r. t_priority (rt_transform r) \<noteq> P_deprecated) (picked @ rs)
         in int (length menu) \<le> max 0 limit \<and> distinct (map capability_of menu)
            \<and> sorted (map f menu) \<and> set menu \<subseteq> set live
            \<and> (limit \<le> int (length menu) \<or> capability_of ` set menu = capability_of ` set live)"
  using assms
proof (induction rs arbitrary: seen picked)
  case Nil
  then show ?case by (auto simp: Let_def)
next
  case (Cons r rs)
  have sorted_skip: "sorted (map f (picked @ rs))"
    using Cons.prems(3) by (auto simp: sorted_append)
  consider (full) "limit \<le> int (length picked)"
    | (skip) "\<not> limit \<le> int (length picked)"
        "capability_of r \<in> set seen \<or> t_priority (rt_transform r) = P_deprecated"
    | (pick) "\<not> limit \<le> int (length picked)" "capability_of r \<notin> set seen"
        "t_priority (rt_transform r) \<noteq> P_deprecated" by blast
  then show ?case
  proof cases
    case full
    then show ?thesis using Cons.prems by (auto simp: Let_def sorted_append)
  next
    case skip
    let ?live = "\<lambda>rs. set (filter (\<lambda>r. t_priority (rt_transform r) \<noteq> P_deprecated) (picked @ rs))"
    have caps: "capability_of ` ?live (r # rs) = capability_of ` ?live rs"
    proof (cases "t_priority (rt_transform r) = P_deprecated")
      case False
      with skip Cons.prems(2) obtain q where "q \<in> set picked" "capability_of q = capability_of r" by auto
      with Cons.prems(4) have "q \<in> ?live rs" "capability_of r = capability_of q" by auto
      then have "capability_of r \<in> capability_of ` ?live rs" by (rule_tac image_eqI)
      with False show ?thesis by auto
    qed simp
    have sub: "?live rs \<subseteq> ?live (r # rs)" by auto
    have run: "pick_actions limit seen picked (r # rs) = pick_actions limit seen picked rs"
      using skip by auto
    show ?thesis
      using Cons.IH [OF Cons.prems(1,2) sorted_skip Cons.prems(4,5)] sub
      unfolding Let_def caps run by blast
  next
    case pick
    have "let menu = pick_actions limit (capability_of r # seen) (picked @ [r]) rs;
             live = filter (\<lambda>r. t_priority (rt_transform r) \<noteq> P_deprecated) ((picked @ [r]) @ rs)
         in int (length menu) \<le> max 0 limit \<and> distinct (map capability_of menu)
            \<and> sorted (map f menu) \<and> set menu \<subseteq> set live
            \<and> (limit \<le> int (length menu) \<or> capability_of ` set menu = capability_of ` set live)"
      using Cons.prems pick by (intro Cons.IH) auto
    with pick show ?thesis by (simp add: Let_def)
  qed
qed

text \<open>The contextual menu: at most \<open>limit\<close> entries, one per capability, none deprecated,
  ordered with uncovered before covered, usable before unusable and by descending score; and it is
  not needlessly short, because below the limit every capability on offer is listed.\<close>

theorem actionsFor_menu:
  "let menu = actionsFor registry kind ctx limit;
       live = filter (\<lambda>r. t_priority (rt_transform r) \<noteq> P_deprecated) (routeForInput registry kind ctx)
   in int (length menu) \<le> max 0 limit \<and> distinct (map capability_of menu)
      \<and> sorted (map (menu_key (covered_set ctx)) menu) \<and> set menu \<subseteq> set live
      \<and> (limit \<le> int (length menu) \<or> capability_of ` set menu = capability_of ` set live)"
  using pick_actions_inv [of "[]" "[]" "menu_key (covered_set ctx)"
      "sort_key (menu_key (covered_set ctx)) (routeForInput registry kind ctx)" limit]
  by (simp add: actionsFor_def Let_def)

section \<open>Accounting of a plan\<close>

text \<open>
  What the planner keeps true: \<open>picked\<close> are the accepted candidates with the results they were
  granted. Every id that was looked at is a step or an exclusion, once.
\<close>

definition granted_ok :: "Budget \<Rightarrow> Candidate \<times> int \<Rightarrow> bool" where
  "granted_ok budget cn \<longleftrightarrow>
     (case cn of (c, n) \<Rightarrow>
        rt_reason (cand_routed c) = None \<and> 0 < n \<and> n \<le> maxResults (t_limits (cand_transform c))
        \<and> expectedRuntimeMs (t_limits (cand_transform c)) \<le> maxRuntimeMs budget)"

definition cand_capability :: "Candidate \<times> int \<Rightarrow> ident" where
  "cand_capability cn = t_capability (cand_transform (fst cn))"

definition accounts ::
  "Budget \<Rightarrow> ident set \<Rightarrow> (Candidate \<times> int) list \<Rightarrow> PlanStep list \<Rightarrow> PlanState \<Rightarrow> bool" where
  "accounts budget cov picked steps s \<longleftrightarrow>
     steps = map (\<lambda>(c, n). plan_step c n) picked
     \<and> list_all (granted_ok budget) picked
     \<and> distinct (map cand_capability picked) \<and> set (map cand_capability picked) \<inter> cov = {}
     \<and> set (pl_covered s) = set (map cand_capability picked)
     \<and> sum_list (map snd picked) + pl_nodeBudget s = maxNewNodes budget
     \<and> sum_list (map snd picked) \<le> max 0 (maxNewNodes budget)
     \<and> int (length picked) \<le> max 0 (maxTransforms budget)
     \<and> distinct (pl_used s)
     \<and> mset (map (\<lambda>cn. t_id (cand_transform (fst cn))) picked @ map ex_transform (pl_excluded s)) = mset (pl_used s)"

lemma plan_step_sel [simp]:
  "step_transform (plan_step c n) = t_id (cand_transform c)" "step_depth (plan_step c n) = cand_depth c"
  "step_dependsOn (plan_step c n) = cand_dependsOn c" "step_maxResults (plan_step c n) = n"
  "step_inputKind (plan_step c n) = cand_inputKind c"
  by (simp_all add: plan_step_def)

lemma accounts_exclude:
  assumes "accounts budget cov picked steps s" "i \<notin> set (pl_used s)"
  shows "accounts budget cov picked steps (exclude i reason s)"
  using assms by (simp add: accounts_def exclude_def)

lemma accounts_accept:
  assumes "accounts budget cov picked steps s" "t_id (cand_transform c) \<notin> set (pl_used s)"
    and "granted_ok budget (c, n)" "n \<le> pl_nodeBudget s"
    and "t_capability (cand_transform c) \<notin> cov" "t_capability (cand_transform c) \<notin> set (pl_covered s)"
    and "int (length steps) < maxTransforms budget"
  shows "accounts budget cov (picked @ [(c, n)]) (steps @ [plan_step c n])
    (s\<lparr>pl_used := t_id (cand_transform c) # pl_used s,
       pl_covered := t_capability (cand_transform c) # pl_covered s,
       pl_nodeBudget := pl_nodeBudget s - n\<rparr>)"
  using assms by (simp add: accounts_def cand_capability_def) linarith

lemma consider_layer_accounts:
  assumes "accounts budget cov picked (steps0 @ accepted) s"
    and "nsteps = int (length steps0)" "runtimeBudget \<le> maxRuntimeMs budget"
    and "consider_layer budget cov nsteps runtimeBudget cs accepted s = (accepted', s')"
  shows "\<exists>new. accounts budget cov (picked @ new) (steps0 @ accepted') s'
       \<and> accepted' = accepted @ map (\<lambda>(c, n). plan_step c n) new
       \<and> set (map fst new) \<subseteq> set cs
       \<and> set (pl_used s') = set (pl_used s) \<union> set (map (t_id \<circ> cand_transform) cs)"
  using assms(1,4)
proof (induction cs arbitrary: picked accepted s)
  case Nil
  then show ?case by (auto intro!: exI [of _ "[]"])
next
  case (Cons c cs)
  let ?t = "cand_transform c"
  let ?n = "min (maxResults (t_limits ?t)) (pl_nodeBudget s)"
  let ?goal = "\<exists>new. accounts budget cov (picked @ new) (steps0 @ accepted') s'
       \<and> accepted' = accepted @ map (\<lambda>(c, n). plan_step c n) new
       \<and> set (map fst new) \<subseteq> set (c # cs)
       \<and> set (pl_used s') = set (pl_used s) \<union> set (map (t_id \<circ> cand_transform) (c # cs))"
  show ?case
  proof (cases "t_id ?t \<in> set (pl_used s)")
    case True
    with Cons.prems(2) have "consider_layer budget cov nsteps runtimeBudget cs accepted s = (accepted', s')"
      by (simp add: Let_def)
    from Cons.IH [OF Cons.prems(1) this] obtain new where
      "accounts budget cov (picked @ new) (steps0 @ accepted') s'"
      "accepted' = accepted @ map (\<lambda>(c, n). plan_step c n) new" "set (map fst new) \<subseteq> set cs"
      "set (pl_used s') = set (pl_used s) \<union> set (map (t_id \<circ> cand_transform) cs)" by blast
    with True show ?goal by (intro exI [of _ new]) auto
  next
    case new_id: False
    show ?goal
    proof (cases "\<exists>reason. consider_layer budget cov nsteps runtimeBudget cs accepted
                     (exclude (t_id ?t) reason s) = (accepted', s')")
      case True
      then obtain reason where run: "consider_layer budget cov nsteps runtimeBudget cs accepted
          (exclude (t_id ?t) reason s) = (accepted', s')" by blast
      from Cons.IH [OF accounts_exclude [OF Cons.prems(1) new_id] run] obtain new where
        "accounts budget cov (picked @ new) (steps0 @ accepted') s'"
        "accepted' = accepted @ map (\<lambda>(c, n). plan_step c n) new" "set (map fst new) \<subseteq> set cs"
        "set (pl_used s') = insert (t_id ?t) (set (pl_used s)) \<union> set (map (t_id \<circ> cand_transform) cs)"
        by (auto simp: exclude_def)
      then show ?goal by (intro exI [of _ new]) auto
    next
      case False
      let ?s = "s\<lparr>pl_used := t_id ?t # pl_used s, pl_covered := t_capability ?t # pl_covered s,
                   pl_nodeBudget := pl_nodeBudget s - ?n\<rparr>"
      have ok: "rt_reason (cand_routed c) = None" "t_capability ?t \<notin> cov"
        "t_capability ?t \<notin> set (pl_covered s)" "nsteps + int (length accepted) < maxTransforms budget"
        "0 < ?n" "expectedRuntimeMs (t_limits ?t) \<le> runtimeBudget"
        and run: "consider_layer budget cov nsteps runtimeBudget cs (accepted @ [plan_step c ?n]) ?s = (accepted', s')"
        using Cons.prems(2) False new_id
        by (simp_all only: consider_layer.simps Let_def if_False split: option.splits if_splits) force+
      have "granted_ok budget (c, ?n)" using ok assms(3) by (simp add: granted_ok_def)
      then have "accounts budget cov (picked @ [(c, ?n)]) (steps0 @ (accepted @ [plan_step c ?n])) ?s"
        unfolding append_assoc [symmetric]
        using Cons.prems(1) ok new_id assms(2) by (intro accounts_accept) auto
      from Cons.IH [OF this run] obtain new where
        "accounts budget cov ((picked @ [(c, ?n)]) @ new) (steps0 @ accepted') s'"
        "accepted' = (accepted @ [plan_step c ?n]) @ map (\<lambda>(c, n). plan_step c n) new"
        "set (map fst new) \<subseteq> set cs"
        "set (pl_used s') = insert (t_id ?t) (set (pl_used s)) \<union> set (map (t_id \<circ> cand_transform) cs)"
        by auto
      then show ?goal by (intro exI [of _ "(c, ?n) # new"]) auto
    qed
  qed
qed

section \<open>The layers of a plan\<close>

lemma push_bucket_entry:
  assumes "(k, b) \<in> set (push_bucket key item m)"
  shows "(k, b) \<in> set m \<or> (k = key \<and> (b = [item] \<or> (\<exists>b'. (key, b') \<in> set m \<and> b = b' @ [item])))"
  using assms
  by (auto simp: push_bucket_def omap_set_def omap_get_def
      split: option.splits if_splits dest: map_of_SomeD)

lemma producers_of_entry:
  assumes "(k, ids) \<in> set (producers_of reg steps)"
  shows "ids \<noteq> [] \<and> (\<forall>i\<in>set ids. \<exists>step\<in>set steps. \<exists>manifest.
    reg_transform reg (step_transform step) = Some manifest \<and> i = t_id manifest \<and> k \<in> set (t_outputs manifest))"
proof -
  define Q where "Q steps k ids \<longleftrightarrow> ids \<noteq> [] \<and> (\<forall>i\<in>set ids. \<exists>step\<in>set steps. \<exists>manifest.
    reg_transform reg (step_transform step) = Some manifest \<and> i = t_id manifest \<and> k \<in> set (t_outputs manifest))"
    for steps :: "PlanStep list" and k :: EntityKind and ids
  have inner: "\<forall>(k, ids)\<in>set (foldl (\<lambda>m output. push_bucket output (t_id manifest) m) m outs). Q S k ids"
    if "\<forall>(k, ids)\<in>set m. Q S k ids" "set outs \<subseteq> set (t_outputs manifest)" "step \<in> set S"
      "reg_transform reg (step_transform step) = Some manifest" for m outs S step manifest
    using that
  proof (induction outs arbitrary: m)
    case (Cons out outs)
    have "\<forall>(k, ids)\<in>set (push_bucket out (t_id manifest) m). Q S k ids"
    proof clarify
      fix k ids
      assume "(k, ids) \<in> set (push_bucket out (t_id manifest) m)"
      then show "Q S k ids"
        using Cons.prems by (drule_tac push_bucket_entry) (fastforce simp: Q_def)
    qed
    then show ?case using Cons.prems by (simp add: Cons.IH)
  qed simp
  have "\<forall>(k, ids)\<in>set (producers_of reg steps). Q steps k ids"
  proof -
    have "set pre \<subseteq> set steps \<Longrightarrow> \<forall>(k, ids)\<in>set (producers_of reg pre). Q steps k ids" for pre
    proof (induction pre rule: rev_induct)
      case (snoc step pre)
      then have IH: "\<forall>(k, ids)\<in>set (producers_of reg pre). Q steps k ids" and step: "step \<in> set steps"
        by simp_all
      show ?case
      proof (cases "reg_transform reg (step_transform step)")
        case None
        with IH show ?thesis by (simp add: producers_of_def)
      next
        case (Some manifest)
        from inner [OF IH order_refl step Some] Some show ?thesis by (simp add: producers_of_def)
      qed
    qed (simp add: producers_of_def)
    then show ?thesis by blast
  qed
  with assms show ?thesis by (auto simp: Q_def)
qed

lemma layerRuntimeMs_nonneg:
  assumes "list_all (\<lambda>s. 0 \<le> step_runtimeMs s) steps"
  shows "0 \<le> layerRuntimeMs steps p"
proof (cases steps)
  case (Cons s rest)
  then have "0 \<le> Max (set (map step_runtimeMs steps))"
    using assms by (subst Max_ge_iff) (auto simp: list_all_iff)
  moreover have "0 \<le> (int (length steps) + max 1 p - 1) div max 1 p"
    by (simp add: pos_imp_zdiv_nonneg_iff)
  ultimately show ?thesis by (simp add: layerRuntimeMs_def Let_def)
qed (simp add: layerRuntimeMs_def)

lemma candidatesForKind_in:
  assumes "c \<in> set (candidatesForKind reg kind ctx depth deps)"
  shows "cand_depth c = depth \<and> cand_dependsOn c = deps \<and> cand_inputKind c = kind
    \<and> cand_routed c \<in> set (routeForInput reg kind ctx) \<and> t_priority (cand_transform c) \<noteq> P_deprecated"
  using assms by (auto simp: candidatesForKind_def cand_transform_def)

lemma second_candidates_in:
  assumes "c \<in> set (second_candidates reg ctx layer1)"
  shows "\<exists>deps. (cand_inputKind c, deps) \<in> set (producers_of reg layer1)
    \<and> c \<in> set (candidatesForKind reg (cand_inputKind c) ctx 2 deps)"
  using assms by (auto simp: second_candidates_def dest: candidatesForKind_in)

text \<open>Every plan is the accepted steps of one or two layers, with the accounts kept through both.\<close>

lemma plan_layers_cases:
  assumes "plan_layers reg kind ctx depth = (steps, s)"
    and runtime: "list_all (\<lambda>t. 0 \<le> expectedRuntimeMs (t_limits t)) (reg_forInput reg kind)"
  shows "\<exists>new1 new2.
    accounts (ctx_budget ctx) (covered_set ctx) (new1 @ new2) steps s
    \<and> steps = map (\<lambda>(c, n). plan_step c n) new1 @ map (\<lambda>(c, n). plan_step c n) new2
    \<and> set (map fst new1) \<subseteq> set (candidatesForKind reg kind ctx 1 [])
    \<and> set (map fst new2) \<subseteq> set (second_candidates reg ctx (map (\<lambda>(c, n). plan_step c n) new1))
    \<and> (2 \<le> max_depth_of (ctx_budget ctx) depth \<or> new2 = [])
    \<and> set (map (t_id \<circ> cand_transform) (candidatesForKind reg kind ctx 1 [])) \<subseteq> set (pl_used s)"
proof -
  let ?b = "ctx_budget ctx" and ?cov = "covered_set ctx"
  obtain layer1 s1 where l1: "first_layer reg kind ctx = (layer1, s1)" by force
  have "accounts ?b ?cov [] ([] @ []) (initial_plan_state ctx)"
    by (simp add: accounts_def initial_plan_state_def)
  from consider_layer_accounts [OF this _ _ l1 [unfolded first_layer_def]] obtain new1 where
    a1: "accounts ?b ?cov new1 layer1 s1" and layer1: "layer1 = map (\<lambda>(c, n). plan_step c n) new1"
    and c1: "set (map fst new1) \<subseteq> set (candidatesForKind reg kind ctx 1 [])"
    and u1: "set (map (t_id \<circ> cand_transform) (candidatesForKind reg kind ctx 1 [])) \<subseteq> set (pl_used s1)"
    by auto
  have "list_all (\<lambda>s. 0 \<le> step_runtimeMs s) layer1"
  proof -
    have "0 \<le> step_runtimeMs (plan_step c n)" if "c \<in> set (candidatesForKind reg kind ctx 1 [])" for c n
      using that runtime
      by (auto simp: candidatesForKind_def plan_step_def cand_transform_def routeForInput_def list_all_iff)
    with c1 show ?thesis by (fastforce simp: layer1 list_all_iff)
  qed
  then have r: "maxRuntimeMs ?b - layerRuntimeMs layer1 (maxParallel ?b) \<le> maxRuntimeMs ?b"
    using layerRuntimeMs_nonneg by fastforce
  show ?thesis
  proof (cases "2 \<le> max_depth_of ?b depth \<and> 0 < maxRuntimeMs ?b - layerRuntimeMs layer1 (maxParallel ?b)")
    case True
    then obtain layer2 where l2: "consider_layer ?b ?cov (int (length layer1))
        (maxRuntimeMs ?b - layerRuntimeMs layer1 (maxParallel ?b))
        (second_candidates reg ctx layer1) [] s1 = (layer2, s)" and steps: "steps = layer1 @ layer2"
      using assms(1) by (auto simp: plan_layers_def l1 Let_def split: prod.splits)
    from consider_layer_accounts [OF _ refl r l2, of new1] a1 obtain new2 where
      "accounts ?b ?cov (new1 @ new2) (layer1 @ layer2) s"
      "layer2 = map (\<lambda>(c, n). plan_step c n) new2"
      "set (map fst new2) \<subseteq> set (second_candidates reg ctx layer1)"
      "set (pl_used s1) \<subseteq> set (pl_used s)" by auto
    with True c1 u1 steps layer1 show ?thesis by (intro exI [of _ new1] exI [of _ new2]) auto
  next
    case False
    then have "steps = layer1" "s = s1"
      using assms(1) by (auto simp: plan_layers_def l1 Let_def)
    with a1 c1 u1 layer1 show ?thesis by (intro exI [of _ new1] exI [of _ "[]"]) auto
  qed
qed

section \<open>Theorems\<close>

lemma expand_layers:
  "plan_layers registry kind ctx depth = (steps, s) \<Longrightarrow>
     plan_steps (expand registry kind ctx depth) = steps
     \<and> plan_excluded (expand registry kind ctx depth) = pl_excluded s"
  by (simp add: expand_def Let_def)

lemma reported_ids:
  assumes "accounts budget cov picked steps s"
  shows "distinct (map step_transform steps @ map ex_transform (pl_excluded s))"
    and "set (map step_transform steps @ map ex_transform (pl_excluded s)) = set (pl_used s)"
proof -
  have "map step_transform (map (\<lambda>(c, n). plan_step c n) picked)
      = map (\<lambda>cn. t_id (cand_transform (fst cn))) picked" by (induction picked) auto
  then have m: "mset (map step_transform steps @ map ex_transform (pl_excluded s)) = mset (pl_used s)"
    using assms by (simp add: accounts_def del: map_map)
  have d: "distinct (pl_used s)" using assms by (simp add: accounts_def)
  from m d show "distinct (map step_transform steps @ map ex_transform (pl_excluded s))"
    using mset_eq_imp_distinct_iff by blast
  from m show "set (map step_transform steps @ map ex_transform (pl_excluded s)) = set (pl_used s)"
    by (rule mset_eq_setD)
qed

text \<open>C19. A plan over a created registry stays inside its budget: at most \<open>maxTransforms\<close> steps,
  at most \<open>maxNewNodes\<close> results granted altogether, no step slower than \<open>maxRuntimeMs\<close>; the
  transforms it runs and the ones it excludes are all different, and every transform that accepts
  the entity and is not deprecated is reported as one or the other.\<close>

theorem expand_within_budget:
  assumes "createTransformRegistry is_url ts es ps = Some reg"
  shows "let p = expand reg kind ctx depth; budget = ctx_budget ctx;
             reported = map step_transform (plan_steps p) @ map ex_transform (plan_excluded p)
         in int (length (plan_steps p)) \<le> max 0 (maxTransforms budget)
            \<and> sum_list (map step_maxResults (plan_steps p)) \<le> max 0 (maxNewNodes budget)
            \<and> list_all (\<lambda>s. 0 < step_maxResults s \<and> step_runtimeMs s \<le> maxRuntimeMs budget) (plan_steps p)
            \<and> distinct reported
            \<and> set (map t_id (filter (\<lambda>t. t_priority t \<noteq> P_deprecated) (reg_forInput reg kind))) \<subseteq> set reported"
proof -
  obtain steps s where pl: "plan_layers reg kind ctx depth = (steps, s)" by force
  have reg: "reg = build_registry ts es ps" "list_all transform_schema ts"
    using assms by (auto simp: createTransformRegistry_Some)
  have runtime: "list_all (\<lambda>t. 0 \<le> expectedRuntimeMs (t_limits t)) (reg_forInput reg kind)"
    using reg created.forInput_set [of ts es ps kind]
    by (auto simp: list_all_iff transform_schema_def build_registry_def)
  from plan_layers_cases [OF pl runtime] obtain picked where
    acc: "accounts (ctx_budget ctx) (covered_set ctx) picked steps s"
    and first: "set (map (t_id \<circ> cand_transform) (candidatesForKind reg kind ctx 1 [])) \<subseteq> set (pl_used s)"
    by blast
  have steps: "steps = map (\<lambda>(c, n). plan_step c n) picked" using acc by (simp add: accounts_def)
  have sums: "map step_maxResults steps = map snd picked" unfolding steps by (induction picked) auto
  have each: "list_all (\<lambda>s. 0 < step_maxResults s \<and> step_runtimeMs s \<le> maxRuntimeMs (ctx_budget ctx)) steps"
    using acc by (auto simp: accounts_def list_all_iff granted_ok_def plan_step_def)
  have "set (map t_id (filter (\<lambda>t. t_priority t \<noteq> P_deprecated) (reg_forInput reg kind)))
      \<subseteq> set (map (t_id \<circ> cand_transform) (candidatesForKind reg kind ctx 1 []))"
    by (auto simp: candidatesForKind_def cand_transform_def routeForInput_def image_iff)
      (metis rt_transform_route)
  then have "set (map t_id (filter (\<lambda>t. t_priority t \<noteq> P_deprecated) (reg_forInput reg kind)))
      \<subseteq> set (map step_transform steps @ map ex_transform (pl_excluded s))"
    using first unfolding reported_ids(2) [OF acc] by (rule subset_trans)
  moreover have "int (length steps) \<le> max 0 (maxTransforms (ctx_budget ctx))"
    "sum_list (map step_maxResults steps) \<le> max 0 (maxNewNodes (ctx_budget ctx))"
    unfolding sums using acc by (simp_all add: accounts_def)
  ultimately show ?thesis
    unfolding Let_def expand_layers [OF pl, THEN conjunct1] expand_layers [OF pl, THEN conjunct2]
    using each reported_ids(1) [OF acc] by blast
qed


lemma primary_engine_in:
  assumes "primary_engine reg ctx step = Some c"
  shows "\<exists>m. c \<in> set (rt_chain (routeTransform reg m ctx)) \<and> \<not> is_terminal c"
proof -
  from assms obtain m cs where
    "filter (\<lambda>c. \<not> is_terminal c) (rt_chain (routeTransform reg m ctx)) = c # cs"
    by (auto simp: primary_engine_def split: option.splits list.splits)
  then have "c \<in> set (filter (\<lambda>c. \<not> is_terminal c) (rt_chain (routeTransform reg m ctx)))" by simp
  then show ?thesis by auto
qed

lemma primary_engine_ok:
  assumes "c \<in> set (List.map_filter (primary_engine (build_registry ts es ps) ctx) steps)"
  shows "engineExclusion (av_engine c) (av_provider c) ctx = None \<and> \<not> e_terminal (av_engine c)"
proof -
  from assms obtain step where "primary_engine (build_registry ts es ps) ctx step = Some c"
    by (auto simp: set_map_filter)
  from primary_engine_in [OF this] obtain m where
    m: "c \<in> set (rt_chain (routeTransform (build_registry ts es ps) m ctx))" and "\<not> is_terminal c" by auto
  with created.chain_in [OF m] show ?thesis by (simp add: is_terminal_def)
qed

text \<open>What a plan discloses follows the mode: in strict-local mode it never needs the network,
  and in every mode the credentials it asks for belong to providers the user configured.\<close>

theorem expand_respects_mode:
  "let p = expand (build_registry ts es ps) kind ctx depth
   in \<not> (ctx_mode ctx = Strict_local \<and> plan_requiresNetwork p)
      \<and> set (plan_credentialsNeeded p) \<subseteq> ctx_configuredProviders ctx
      \<and> set (plan_credentialsNeeded p) \<subseteq> set (plan_providersUsed p)"
proof -
  obtain steps s where pl: "plan_layers (build_registry ts es ps) kind ctx depth = (steps, s)" by force
  let ?prim = "List.map_filter (primary_engine (build_registry ts es ps) ctx) steps"
  have none: "(ctx_mode ctx = Strict_local \<longrightarrow> e_dataFlow (av_engine c) = Local)
     \<and> (p_credentials (av_provider c) = Cred_required \<longrightarrow> p_id (av_provider c) \<in> ctx_configuredProviders ctx)"
    if "c \<in> set ?prim" for c
    using primary_engine_ok [OF that] by (auto simp: engineExclusion_def Let_def split: if_splits)
  then have "\<not> (ctx_mode ctx = Strict_local \<and> list_ex (\<lambda>c. e_dataFlow (av_engine c) \<noteq> Local) ?prim)"
    by (auto simp: list_ex_iff)
  with none show ?thesis by (auto simp: expand_def pl Let_def)
qed


subsection \<open>Concrete plans\<close>

definition demo_planner_ctx :: PlannerContext where
  "demo_planner_ctx = \<lparr>ctx_mode = Zero_credential, ctx_configuredProviders = {},
     ctx_grantedPermissions = {Perm_network}, ctx_budget = DEFAULT_BUDGET, ctx_covered = None\<rparr>"

theorem expand_within_budget_witness:
  "let p = expand demo_registry K_domain demo_planner_ctx Depth1;
       reported = map step_transform (plan_steps p) @ map ex_transform (plan_excluded p)
   in sum_list (map step_maxResults (plan_steps p)) \<le> 250 \<and> distinct reported"
  using expand_within_budget [OF demo_registry_created(1), of K_domain demo_planner_ctx Depth1]
  unfolding Let_def by (simp add: demo_planner_ctx_def DEFAULT_BUDGET_def)


definition slow_transform :: "nat \<Rightarrow> TransformManifest" where
  "slow_transform n = demo_transform\<lparr>t_id := nat_str n, t_capability := nat_str n\<rparr>"

definition slow_registry :: TransformRegistry where
  "slow_registry = build_registry (map slow_transform [1, 2, 3, 4, 5]) [demo_engine, demo_link] [demo_provider, demo_manual]"

text \<open>The runtime budget bounds each step but not the layer: with the default budget of 60
  seconds and five transforms of 40 seconds each, all are accepted and the plan's own estimate is 80
  seconds, because four run in parallel and the fifth after them.\<close>

theorem expand_runtime_estimate_exceeds_budget:
  "let p = expand slow_registry K_domain demo_planner_ctx Depth1
   in length (plan_steps p) = 5 \<and> plan_excluded p = []
      \<and> est_runtimeMs (plan_estimate p) = 80000 \<and> maxRuntimeMs (ctx_budget demo_planner_ctx) = 60000"
  by code_simp

end
