(* ===== verification/TransformHistory.thy ===== *)
theory TransformHistory
  imports TransformRouting
begin

text \<open>
  The memory of the transform layer: the result cache of \<open>packages/transforms/src/cache.ts\<close>, keyed by
  everything that determines an answer and bounded in time, and the run history of
  \<open>packages/transforms/src/history.ts\<close> with replay and run comparison. Both are clients of the
  insertion-ordered map \<open>js_map\<close>. Times are integer milliseconds.
\<close>

section \<open>Runs\<close>

fun kind_str :: "EntityKind \<Rightarrow> string" where
  "kind_str K_domain = ''domain''"
| "kind_str K_hostname = ''hostname''"
| "kind_str K_url = ''url''"
| "kind_str K_email = ''email''"
| "kind_str K_username = ''username''"
| "kind_str K_profile = ''profile''"
| "kind_str K_ip = ''ip''"
| "kind_str K_asn = ''asn''"
| "kind_str K_dns_record = ''dns_record''"
| "kind_str K_certificate = ''certificate''"
| "kind_str K_service = ''service''"
| "kind_str K_snapshot = ''snapshot''"
| "kind_str K_scan = ''scan''"
| "kind_str K_hash = ''hash''"
| "kind_str K_verdict = ''verdict''"
| "kind_str K_reputation = ''reputation''"
| "kind_str K_file = ''file''"
| "kind_str K_metadata = ''metadata''"
| "kind_str K_device = ''device''"
| "kind_str K_phone = ''phone''"
| "kind_str K_repo = ''repo''"
| "kind_str K_language = ''language''"
| "kind_str K_dependency = ''dependency''"
| "kind_str K_release = ''release''"
| "kind_str K_person = ''person''"
| "kind_str K_organization = ''organization''"
| "kind_str K_company = ''company''"
| "kind_str K_sanction = ''sanction''"
| "kind_str K_breach = ''breach''"
| "kind_str K_crypto_address = ''crypto_address''"
| "kind_str K_transaction = ''transaction''"
| "kind_str K_place = ''place''"
| "kind_str K_coordinates = ''coordinates''"
| "kind_str K_fact = ''fact''"
| "kind_str K_note = ''note''"

definition ENTITY_KINDS :: "EntityKind list" where
  "ENTITY_KINDS =
     [K_domain, K_hostname, K_url, K_email, K_username, K_profile, K_ip,
      K_asn, K_dns_record, K_certificate, K_service, K_snapshot, K_scan, K_hash,
      K_verdict, K_reputation, K_file, K_metadata, K_device, K_phone, K_repo,
      K_language, K_dependency, K_release, K_person, K_organization, K_company, K_sanction,
      K_breach, K_crypto_address, K_transaction, K_place, K_coordinates, K_fact, K_note]"

datatype RunStatus = RS_queued | RS_running | RS_completed | RS_partial | RS_failed | RS_cancelled

record RunInput =
  in_kind :: EntityKind
  in_value :: string

record RunEntity =
  re_kind :: EntityKind
  re_value :: string
  re_confidence :: real
  re_evidence :: "string list"

record RunRecord =
  run_id :: string
  run_transform :: ident
  run_transformVersion :: string
  run_input :: RunInput
  run_engine :: ident
  run_engineVersion :: string
  run_provider :: ident
  run_mode :: ExecutionMode
  run_startedAt :: int
  run_finishedAt :: int
  run_status :: RunStatus
  run_results :: "RunEntity list"
  run_errors :: "string list"
  run_replayOf :: "string option"

definition runDurationMs :: "RunRecord \<Rightarrow> int" where
  "runDurationMs run = run_finishedAt run - run_startedAt run"

definition runResultCount :: "RunRecord \<Rightarrow> nat" where
  "runResultCount run = length (run_results run)"

section \<open>The result cache\<close>

record CacheSubject =
  cs_transform :: TransformManifest
  cs_engine :: EngineManifest
  cs_provider :: ProviderManifest
  cs_input :: RunInput

definition normalizeInput :: "RunInput \<Rightarrow> string" where
  "normalizeInput input = kind_str (in_kind input) @ '':'' @ js_lower (js_trim (in_value input))"

definition cacheKey :: "CacheSubject \<Rightarrow> string" where
  "cacheKey s = join_with ''|''
     [t_id (cs_transform s), t_version (cs_transform s), e_id (cs_engine s), e_version (cs_engine s),
      p_id (cs_provider s), normalizeInput (cs_input s)]"

definition isCacheable :: "TransformManifest \<Rightarrow> ProviderManifest \<Rightarrow> bool" where
  "isCacheable transform provider \<longleftrightarrow>
     t_cacheable transform \<and> t_cacheTtlSeconds transform \<noteq> None \<and> p_storeResults provider \<noteq> Some False"

record CacheEntry =
  ce_key :: string
  ce_results :: "RunEntity list"
  ce_runId :: string
  ce_storedAt :: int
  ce_expiresAt :: int

record CacheHit =
  hit_entry :: CacheEntry
  hit_ageMs :: int
  hit_ageLabel :: string

definition MINUTE :: int where "MINUTE = 60000"
definition HOUR :: int where "HOUR = 60 * MINUTE"
definition DAY :: int where "DAY = 24 * HOUR"

definition plural :: "int \<Rightarrow> string \<Rightarrow> string" where
  "plural value unit = int_str value @ '' '' @ unit @ (if value = 1 then '''' else ''s'') @ '' ago''"

definition ageLabel :: "int \<Rightarrow> string" where
  "ageLabel ageMs =
     (if ageMs < MINUTE then ''just now''
      else if ageMs < HOUR then plural (ageMs div MINUTE) ''minute''
      else if ageMs < DAY then plural (ageMs div HOUR) ''hour''
      else plural (ageMs div DAY) ''day'')"

type_synonym result_cache = "(string, CacheEntry) omap"

definition createResultCache :: result_cache where
  "createResultCache = []"

definition cache_get :: "CacheSubject \<Rightarrow> int \<Rightarrow> result_cache \<Rightarrow> CacheHit option \<times> result_cache" where
  "cache_get subject now entries =
     (let key = cacheKey subject
      in case omap_get entries key of
           None \<Rightarrow> (None, entries)
         | Some entry \<Rightarrow>
             (if ce_expiresAt entry \<le> now then (None, omap_delete key entries)
              else (let ageMs = now - ce_storedAt entry
                    in (Some \<lparr>hit_entry = entry, hit_ageMs = ageMs, hit_ageLabel = ageLabel ageMs\<rparr>, entries))))"

definition cache_set ::
  "CacheSubject \<Rightarrow> RunEntity list \<Rightarrow> string \<Rightarrow> int \<Rightarrow> result_cache \<Rightarrow> result_cache" where
  "cache_set subject results runId now entries =
     (if \<not> isCacheable (cs_transform subject) (cs_provider subject) then entries
      else (let key = cacheKey subject;
                ttl = (case t_cacheTtlSeconds (cs_transform subject) of None \<Rightarrow> 0 | Some s \<Rightarrow> s)
            in omap_set key \<lparr>ce_key = key, ce_results = results, ce_runId = runId, ce_storedAt = now,
                             ce_expiresAt = now + ttl * 1000\<rparr> entries))"

definition cache_delete :: "CacheSubject \<Rightarrow> result_cache \<Rightarrow> result_cache" where
  "cache_delete subject entries = omap_delete (cacheKey subject) entries"

definition cache_size :: "result_cache \<Rightarrow> nat" where
  "cache_size entries = length entries"

section \<open>Run history\<close>

type_synonym run_history = "(string, RunRecord) omap"

definition createRunHistory :: "RunRecord list \<Rightarrow> run_history" where
  "createRunHistory initial = omap_of (map (\<lambda>run. (run_id run, run)) initial)"

definition newestFirst :: "run_history \<Rightarrow> RunRecord list" where
  "newestFirst runs = sort_key (\<lambda>run. - run_startedAt run) (omap_values runs)"

definition history_record :: "RunRecord \<Rightarrow> run_history \<Rightarrow> run_history" where
  "history_record run runs = omap_set (run_id run) run runs"

definition history_get :: "run_history \<Rightarrow> string \<Rightarrow> RunRecord option" where
  "history_get runs i = omap_get runs i"

definition forTransform :: "run_history \<Rightarrow> ident \<Rightarrow> RunRecord list" where
  "forTransform runs i = filter (\<lambda>run. run_transform run = i) (newestFirst runs)"

definition history_forInput :: "run_history \<Rightarrow> RunInput \<Rightarrow> RunRecord list" where
  "history_forInput runs input =
     filter (\<lambda>run. in_kind (run_input run) = in_kind input \<and> in_value (run_input run) = in_value input)
       (newestFirst runs)"

subsection \<open>Replay\<close>

record ReplayRequest =
  rq_transform :: ident
  rq_input :: RunInput
  rq_chain :: "ident list"
  rq_replayOf :: string
  rq_engineChanged :: bool

record ReplayRefusal =
  rf_replayOf :: string
  rf_reason :: ExclusionReason

definition planReplay ::
  "TransformRegistry \<Rightarrow> RunRecord \<Rightarrow> 'a ModeContext_scheme \<Rightarrow> ReplayRefusal + ReplayRequest" where
  "planReplay registry run ctx =
     (case reg_transform registry (run_transform run) of
        None \<Rightarrow> Inl \<lparr>rf_replayOf = run_id run, rf_reason = Not_executable\<rparr>
      | Some manifest \<Rightarrow>
          (let routed = routeTransform registry manifest ctx;
               chain = map (\<lambda>c. e_id (av_engine c)) (rt_chain routed)
           in case rt_reason routed of
                Some reason \<Rightarrow> Inl \<lparr>rf_replayOf = run_id run, rf_reason = reason\<rparr>
              | None \<Rightarrow> Inr \<lparr>rq_transform = run_transform run, rq_input = run_input run, rq_chain = chain,
                             rq_replayOf = run_id run,
                             rq_engineChanged = (nth_opt chain 0 \<noteq> Some (run_engine run))\<rparr>))"

definition isReplayRefusal :: "ReplayRefusal + ReplayRequest \<Rightarrow> bool" where
  "isReplayRefusal result = (case result of Inl _ \<Rightarrow> True | Inr _ \<Rightarrow> False)"

subsection \<open>Comparison\<close>

record RunEntityChange =
  ch_before :: RunEntity
  ch_after :: RunEntity
  ch_newEvidence :: "string list"

record RunComparison =
  cmp_added :: "RunEntity list"
  cmp_removed :: "RunEntity list"
  cmp_changed :: "RunEntityChange list"
  cmp_unchanged :: "RunEntity list"

definition entityKey :: "RunEntity \<Rightarrow> string" where
  "entityKey entity = kind_str (re_kind entity) @ '':'' @ re_value entity"

definition compare_one ::
  "RunEntity \<Rightarrow> (string, RunEntity) omap \<times> RunComparison \<Rightarrow> (string, RunEntity) omap \<times> RunComparison" where
  "compare_one entity s =
     (let (beforeByKey, r) = s
      in case omap_get beforeByKey (entityKey entity) of
           None \<Rightarrow> (beforeByKey, r\<lparr>cmp_added := cmp_added r @ [entity]\<rparr>)
         | Some previous \<Rightarrow>
             (let rest = omap_delete (entityKey entity) beforeByKey;
                  newEvidence = filter (\<lambda>item. item \<notin> set (re_evidence previous)) (re_evidence entity)
              in if newEvidence \<noteq> [] \<or> re_confidence previous \<noteq> re_confidence entity
                 then (rest, r\<lparr>cmp_changed := cmp_changed r @
                         [\<lparr>ch_before = previous, ch_after = entity, ch_newEvidence = newEvidence\<rparr>]\<rparr>)
                 else (rest, r\<lparr>cmp_unchanged := cmp_unchanged r @ [entity]\<rparr>)))"

definition compareRuns :: "RunRecord \<Rightarrow> RunRecord \<Rightarrow> RunComparison" where
  "compareRuns before after =
     (let beforeByKey = omap_of (map (\<lambda>e. (entityKey e, e)) (run_results before));
          (rest, r) = fold compare_one (run_results after)
            (beforeByKey, \<lparr>cmp_added = [], cmp_removed = [], cmp_changed = [], cmp_unchanged = []\<rparr>)
      in r\<lparr>cmp_removed := omap_values rest\<rparr>)"

section \<open>Keys\<close>

lemma kind_str_inj [simp]: "kind_str a = kind_str b \<longleftrightarrow> a = b"
  by (cases a; cases b; simp)

lemma kind_str_no_colon: "CHR '':'' \<notin> set (kind_str k)"
  by (cases k) auto

lemma entityKey_eq: "entityKey a = entityKey b \<longleftrightarrow> re_kind a = re_kind b \<and> re_value a = re_value b"
  using append_sep_eq [OF kind_str_no_colon kind_str_no_colon, of "re_kind a" "re_value a" "re_kind b" "re_value b"]
  by (simp add: entityKey_def)

lemma normalizeInput_eq:
  "normalizeInput a = normalizeInput b
     \<longleftrightarrow> in_kind a = in_kind b \<and> js_lower (js_trim (in_value a)) = js_lower (js_trim (in_value b))"
  using append_sep_eq [OF kind_str_no_colon kind_str_no_colon, of "in_kind a" "js_lower (js_trim (in_value a))"
      "in_kind b" "js_lower (js_trim (in_value b))"]
  by (simp add: normalizeInput_def)

lemma in_split_on: "c \<in> set s \<Longrightarrow> c = sep \<or> (\<exists>w \<in> set (split_on sep s). c \<in> set w)"
  by (induction s) (auto split: list.splits)

lemma kebab_no_pipe: "is_kebab s \<Longrightarrow> CHR ''|'' \<notin> set s"
proof
  assume k: "is_kebab s" and "CHR ''|'' \<in> set s"
  then obtain w where "w \<in> set (split_on (CHR ''-'') s)" "CHR ''|'' \<in> set w" using in_split_on [of _ s "CHR ''-''"] by auto
  with k have "lower_or_digit (CHR ''|'')" by (auto simp: is_kebab_def list_all_iff)
  then show False by (simp add: lower_or_digit_def is_digit_def code_unit_def)
qed

lemma semver_no_pipe: "is_semver s \<Longrightarrow> CHR ''|'' \<notin> set s"
proof
  assume k: "is_semver s" and "CHR ''|'' \<in> set s"
  then obtain w where "w \<in> set (split_on (CHR ''.'') s)" "CHR ''|'' \<in> set w" using in_split_on [of _ s "CHR ''.''"] by auto
  with k have "is_digit (CHR ''|'')" by (auto simp: is_semver_def list_all_iff Let_def)
  then show False by (simp add: is_digit_def code_unit_def)
qed

definition subject_ok :: "(string \<Rightarrow> bool) \<Rightarrow> CacheSubject \<Rightarrow> bool" where
  "subject_ok is_url s \<longleftrightarrow>
     transform_schema (cs_transform s) \<and> engine_schema (cs_engine s) \<and> provider_schema is_url (cs_provider s)"

lemma cacheKey_eq:
  assumes "subject_ok is_url a" "subject_ok is_url b"
  shows "cacheKey a = cacheKey b \<longleftrightarrow>
    t_id (cs_transform a) = t_id (cs_transform b) \<and> t_version (cs_transform a) = t_version (cs_transform b)
    \<and> e_id (cs_engine a) = e_id (cs_engine b) \<and> e_version (cs_engine a) = e_version (cs_engine b)
    \<and> p_id (cs_provider a) = p_id (cs_provider b)
    \<and> in_kind (cs_input a) = in_kind (cs_input b)
    \<and> js_lower (js_trim (in_value (cs_input a))) = js_lower (js_trim (in_value (cs_input b)))"
proof -
  have "CHR ''|'' \<notin> set (t_id (cs_transform s)) \<and> CHR ''|'' \<notin> set (t_version (cs_transform s))
      \<and> CHR ''|'' \<notin> set (e_id (cs_engine s)) \<and> CHR ''|'' \<notin> set (e_version (cs_engine s))
      \<and> CHR ''|'' \<notin> set (p_id (cs_provider s))" if "subject_ok is_url s" for s
    using that by (auto simp: subject_ok_def transform_schema_def engine_schema_def provider_schema_def
        dest: kebab_no_pipe semver_no_pipe)
  from this [OF assms(1)] this [OF assms(2)] show ?thesis
    by (simp add: cacheKey_def append_sep_eq normalizeInput_eq)
qed

section \<open>The cache as a map with lifetimes\<close>

datatype cache_op =
    Cop_get CacheSubject
  | Cop_set CacheSubject "RunEntity list" string
  | Cop_delete CacheSubject

fun cache_run :: "(cache_op \<times> int) list \<Rightarrow> result_cache \<Rightarrow> CacheHit option list" where
  "cache_run [] c = []"
| "cache_run ((Cop_get s, now) # ops) c =
     (let (hit, c') = cache_get s now c in hit # cache_run ops c')"
| "cache_run ((Cop_set s results runId, now) # ops) c = cache_run ops (cache_set s results runId now c)"
| "cache_run ((Cop_delete s, now) # ops) c = cache_run ops (cache_delete s c)"

text \<open>The specification never deletes on a read: an entry is simply not visible once it expired.\<close>

definition ttl_lookup :: "int \<Rightarrow> CacheEntry option \<Rightarrow> CacheHit option" where
  "ttl_lookup now entry =
     (case entry of
        None \<Rightarrow> None
      | Some e \<Rightarrow> if now < ce_expiresAt e
          then Some \<lparr>hit_entry = e, hit_ageMs = now - ce_storedAt e, hit_ageLabel = ageLabel (now - ce_storedAt e)\<rparr>
          else None)"

fun ttl_run :: "(cache_op \<times> int) list \<Rightarrow> (string \<Rightarrow> CacheEntry option) \<Rightarrow> CacheHit option list" where
  "ttl_run [] m = []"
| "ttl_run ((Cop_get s, now) # ops) m = ttl_lookup now (m (cacheKey s)) # ttl_run ops m"
| "ttl_run ((Cop_set s results runId, now) # ops) m =
     (if isCacheable (cs_transform s) (cs_provider s)
      then ttl_run ops (m(cacheKey s \<mapsto>
             \<lparr>ce_key = cacheKey s, ce_results = results, ce_runId = runId, ce_storedAt = now,
              ce_expiresAt = now + 1000 * the (t_cacheTtlSeconds (cs_transform s))\<rparr>))
      else ttl_run ops m)"
| "ttl_run ((Cop_delete s, now) # ops) m = ttl_run ops (m(cacheKey s := None))"

definition cache_agrees :: "int \<Rightarrow> result_cache \<Rightarrow> (string \<Rightarrow> CacheEntry option) \<Rightarrow> bool" where
  "cache_agrees t c m \<longleftrightarrow>
     (\<forall>k. omap_get c k = m k \<or> omap_get c k = None \<and> (\<forall>e. m k = Some e \<longrightarrow> ce_expiresAt e \<le> t))"

lemma cache_agrees_later: "cache_agrees t c m \<Longrightarrow> t \<le> t' \<Longrightarrow> cache_agrees t' c m"
  by (fastforce simp: cache_agrees_def)

lemma cache_agrees_get:
  assumes "cache_agrees now c m"
  shows "fst (cache_get s now c) = ttl_lookup now (m (cacheKey s)) \<and> cache_agrees now (snd (cache_get s now c)) m"
proof -
  have "omap_get c (cacheKey s) = m (cacheKey s)
    \<or> omap_get c (cacheKey s) = None \<and> (\<forall>e. m (cacheKey s) = Some e \<longrightarrow> ce_expiresAt e \<le> now)"
    using assms by (simp add: cache_agrees_def)
  then show ?thesis
    using assms
    by (cases "m (cacheKey s)")
      (auto simp: cache_get_def ttl_lookup_def Let_def cache_agrees_def split: option.splits)
qed

lemma cache_agrees_put: "cache_agrees t c m \<Longrightarrow> cache_agrees t (omap_set k e c) (m(k \<mapsto> e))"
  by (auto simp: cache_agrees_def)

lemma cache_agrees_del: "cache_agrees t c m \<Longrightarrow> cache_agrees t (omap_delete k c) (m(k := None))"
  by (auto simp: cache_agrees_def)

lemma cache_run_agrees:
  "cache_agrees t c m \<Longrightarrow> sorted (map snd ops) \<Longrightarrow> (\<forall>now \<in> set (map snd ops). t \<le> now)
    \<Longrightarrow> cache_run ops c = ttl_run ops m"
proof (induction ops c arbitrary: t m rule: cache_run.induct)
  case (2 s now ops c)
  have here: "cache_agrees now c m" using 2(2,4) cache_agrees_later by simp
  obtain hit c' where g: "cache_get s now c = (hit, c')" by force
  have "cache_run ops c' = ttl_run ops m"
    using 2(1) [OF g [symmetric] refl, of now m] 2(3) cache_agrees_get [OF here, of s] g by simp
  then show ?case using cache_agrees_get [OF here, of s] g by simp
next
  case (3 s results runId now ops c)
  have here: "cache_agrees now c m" using 3(2,4) cache_agrees_later by simp
  show ?case
  proof (cases "isCacheable (cs_transform s) (cs_provider s)")
    case True
    then obtain ttl where ttl: "t_cacheTtlSeconds (cs_transform s) = Some ttl" by (auto simp: isCacheable_def)
    let ?e = "\<lparr>ce_key = cacheKey s, ce_results = results, ce_runId = runId, ce_storedAt = now,
              ce_expiresAt = now + 1000 * ttl\<rparr>"
    have set: "cache_set s results runId now c = omap_set (cacheKey s) ?e c"
      using True ttl by (simp add: cache_set_def Let_def mult.commute)
    have "cache_agrees now (cache_set s results runId now c) (m(cacheKey s \<mapsto> ?e))"
      unfolding set by (rule cache_agrees_put [OF here])
    then show ?thesis using 3(1) [of now "m(cacheKey s \<mapsto> ?e)"] 3(3) True ttl by (simp del: fun_upd_apply)
  next
    case False
    then show ?thesis using 3(1) [of now m] 3(3) here by (simp add: cache_set_def)
  qed
next
  case (4 s now ops c)
  have "cache_agrees now c m" using 4(2,4) cache_agrees_later by simp
  from cache_agrees_del [OF this] show ?case
    using 4(1) [of now "m(cacheKey s := None)"] 4(3) by (simp add: cache_delete_def del: fun_upd_apply)
qed simp


section \<open>Comparison as a difference of sets\<close>

text \<open>With distinct keys the loop sees each entity against the original older run.\<close>

definition is_change :: "RunEntity \<Rightarrow> RunEntity \<Rightarrow> bool" where
  "is_change p e \<longleftrightarrow> \<not> set (re_evidence e) \<subseteq> set (re_evidence p) \<or> re_confidence p \<noteq> re_confidence e"

definition change_of :: "RunEntity \<Rightarrow> RunEntity \<Rightarrow> RunEntityChange" where
  "change_of p e = \<lparr>ch_before = p, ch_after = e,
     ch_newEvidence = filter (\<lambda>item. item \<notin> set (re_evidence p)) (re_evidence e)\<rparr>"

lemma compare_one_frame:
  "compare_one e (m, r) =
     (omap_delete (entityKey e) m,
      case omap_get m (entityKey e) of
        None \<Rightarrow> r\<lparr>cmp_added := cmp_added r @ [e]\<rparr>
      | Some p \<Rightarrow>
          (if is_change p e then r\<lparr>cmp_changed := cmp_changed r @ [change_of p e]\<rparr>
           else r\<lparr>cmp_unchanged := cmp_unchanged r @ [e]\<rparr>))"
proof (cases "omap_get m (entityKey e)")
  case None
  then have "omap_delete (entityKey e) m = m"
    by (force simp: omap_delete_def omap_get_def map_of_eq_None_iff filter_id_conv)
  with None show ?thesis by (simp add: compare_one_def)
next
  case (Some p)
  have "filter (\<lambda>item. item \<notin> set (re_evidence p)) (re_evidence e) \<noteq> []
      \<longleftrightarrow> \<not> set (re_evidence e) \<subseteq> set (re_evidence p)"
    by (auto simp: filter_empty_conv)
  with Some show ?thesis
    unfolding compare_one_def Let_def is_change_def change_of_def by (simp only: option.case prod.case if_distrib) auto
qed

fun changes :: "(string \<Rightarrow> RunEntity option) \<Rightarrow> RunEntity list \<Rightarrow> RunEntityChange list" where
  "changes M [] = []"
| "changes M (e # es) =
     (case M (entityKey e) of
        Some p \<Rightarrow> if is_change p e then change_of p e # changes M es else changes M es
      | None \<Rightarrow> changes M es)"

definition stays :: "(string \<Rightarrow> RunEntity option) \<Rightarrow> RunEntity \<Rightarrow> bool" where
  "stays M e \<longleftrightarrow> (case M (entityKey e) of None \<Rightarrow> False | Some p \<Rightarrow> \<not> is_change p e)"

lemma changes_cong:
  "(\<And>e. e \<in> set es \<Longrightarrow> M (entityKey e) = M' (entityKey e)) \<Longrightarrow> changes M es = changes M' es"
  by (induction es) (auto split: option.split)

lemma compare_fold:
  "distinct (map entityKey es) \<Longrightarrow>
   fold compare_one es (m, r) =
     (filter (\<lambda>(k, _). k \<notin> entityKey ` set es) m,
      r\<lparr>cmp_added := cmp_added r @ filter (\<lambda>e. omap_get m (entityKey e) = None) es,
        cmp_changed := cmp_changed r @ changes (omap_get m) es,
        cmp_unchanged := cmp_unchanged r @ filter (stays (omap_get m)) es\<rparr>)"
proof (induction es arbitrary: m r)
  case Nil
  then show ?case by (simp add: filter_True)
next
  case (Cons e es)
  let ?m = "omap_delete (entityKey e) m"
  have other: "omap_get ?m (entityKey x) = omap_get m (entityKey x)" if "x \<in> set es" for x
    using Cons.prems that by (auto simp: image_iff)
  have f1: "filter (\<lambda>e. omap_get ?m (entityKey e) = None) es = filter (\<lambda>e. omap_get m (entityKey e) = None) es"
    by (rule filter_cong) (simp_all add: other del: omap_get_delete)
  have f2: "filter (stays (omap_get ?m)) es = filter (stays (omap_get m)) es"
    by (rule filter_cong) (simp_all add: other stays_def del: omap_get_delete)
  have f3: "changes (omap_get ?m) es = changes (omap_get m) es"
    by (rule changes_cong) (simp add: other del: omap_get_delete)
  have f4: "filter (\<lambda>(k, _). k \<notin> entityKey ` set es) ?m = filter (\<lambda>(k, _). k \<notin> entityKey ` set (e # es)) m"
    by (auto simp: omap_delete_def intro!: filter_cong)
  have d: "distinct (map entityKey es)" using Cons.prems by simp
  note IH = Cons.IH [OF d]
  show ?case
    unfolding fold.simps o_apply compare_one_frame IH f1 f2 f3 f4
    by (cases "omap_get m (entityKey e)") (simp_all add: stays_def [of _ e])
qed

lemma set_changes:
  "set (changes M es) = {change_of p e | p e. e \<in> set es \<and> M (entityKey e) = Some p \<and> is_change p e}"
  by (induction es) (auto split: option.split)

lemma stays_iff: "stays M e \<longleftrightarrow> (\<exists>p. M (entityKey e) = Some p \<and> \<not> is_change p e)"
  by (simp add: stays_def split: option.split)

section \<open>Theorems\<close>

text \<open>C31. The result cache is a map with lifetimes: for operations at non-decreasing times, every read
  answers what a map that never forgets would, hiding expired entries. So a hit is the last result
  stored under the subject's key, not deleted since and younger than its time to live, and dropping
  expired entries on a read is never observable.\<close>

theorem result_cache_is_ttl_map:
  assumes "sorted (map snd ops)"
  shows "cache_run ops createResultCache = ttl_run ops Map.empty"
proof (cases ops)
  case (Cons op rest)
  have "cache_agrees (snd op) createResultCache Map.empty"
    by (simp add: cache_agrees_def createResultCache_def)
  from cache_run_agrees [OF this assms] show ?thesis using assms Cons by simp
qed simp

definition sample_subject :: CacheSubject where
  "sample_subject =
     \<lparr>cs_transform = \<lparr>t_id = ''dns'', t_version = ''1.0.0'', t_name = ''n'', t_description = ''d'',
        t_category = Infrastructure, t_capability = ''dns'', t_inputs = [K_domain], t_outputs = [K_ip],
        t_engines = [''e''], t_priority = P_core, t_cost = Fast,
        t_limits = \<lparr>expectedRuntimeMs = 1, maxResults = 1, maxInputBatch = 1\<rparr>, t_cacheable = True,
        t_cacheTtlSeconds = Some 60, t_documentation = ''u'', t_status = MS_stable\<rparr>,
      cs_engine = \<lparr>e_id = ''e'', e_version = ''1.0.0'', e_capability = ''dns'', e_provider = ''p'',
        e_integration = None, e_dataFlow = Network, e_permissions = [Perm_network],
        e_quality = \<lparr>resultQuality = 1, reliability = 1, maintenance = 1\<rparr>, e_cost = Fast,
        e_terminal = False, e_status = MS_stable\<rparr>,
      cs_provider = \<lparr>p_id = ''p'', p_name = ''n'', p_credentialClass = CC_A, p_credentials = Cred_none,
        p_pricing = Free, p_endpoint = None, p_licence = ''l'', p_dataLicence = None,
        p_limits = \<lparr>requestsPerMinute = None, requestsPerDay = None, limit_note = None\<rparr>,
        p_attribution = None, p_storeResults = None, p_lastVerified = ''2026-01-01'',
        p_status = PS_configured, p_alternatives = []\<rparr>,
      cs_input = \<lparr>in_kind = K_domain, in_value = '' Example.org ''\<rparr>\<rparr>"

lemma sample_cacheable: "isCacheable (cs_transform sample_subject) (cs_provider sample_subject)"
  by (simp add: isCacheable_def sample_subject_def)

lemma sample_ttl: "t_cacheTtlSeconds (cs_transform sample_subject) = Some 60"
  by (simp add: sample_subject_def)

theorem result_cache_is_ttl_map_witness:
  "map (map_option hit_ageMs) (cache_run [(Cop_set sample_subject [] ''r1'', 0), (Cop_get sample_subject, 59999),
     (Cop_get sample_subject, 60000)] createResultCache) = [Some 59999, None]"
  by (subst result_cache_is_ttl_map) (simp_all add: sample_cacheable sample_ttl ttl_lookup_def)

text \<open>Nothing that determines an answer is missing from the cache key and nothing else is in it:
  for subjects whose manifests pass their schemas, two subjects share a key exactly when transform,
  engine (with their versions), provider, kind and the trimmed, case-folded value agree.\<close>

theorem cacheKey_identifies:
  assumes "subject_ok is_url a" "subject_ok is_url b"
  shows "cacheKey a = cacheKey b \<longleftrightarrow>
    t_id (cs_transform a) = t_id (cs_transform b) \<and> t_version (cs_transform a) = t_version (cs_transform b)
    \<and> e_id (cs_engine a) = e_id (cs_engine b) \<and> e_version (cs_engine a) = e_version (cs_engine b)
    \<and> p_id (cs_provider a) = p_id (cs_provider b)
    \<and> in_kind (cs_input a) = in_kind (cs_input b)
    \<and> js_lower (js_trim (in_value (cs_input a))) = js_lower (js_trim (in_value (cs_input b)))"
  by (rule cacheKey_eq [OF assms])

theorem cacheKey_identifies_witness:
  "cacheKey (sample_subject\<lparr>cs_input := \<lparr>in_kind = K_domain, in_value = ''EXAMPLE.org''\<rparr>\<rparr>) = cacheKey sample_subject"
proof -
  have s: "subject_ok (\<lambda>u. True) sample_subject"
    "subject_ok (\<lambda>u. True) (sample_subject\<lparr>cs_input := \<lparr>in_kind = K_domain, in_value = ''EXAMPLE.org''\<rparr>\<rparr>)"
    by (simp_all add: subject_ok_def sample_subject_def) code_simp+
  have "js_lower (js_trim ''EXAMPLE.org'') = js_lower (js_trim '' Example.org '')" by code_simp
  then show ?thesis
    by (subst cacheKey_identifies [OF s(2,1)]) (simp add: sample_subject_def)
qed

definition keys_of :: "RunRecord \<Rightarrow> string set" where
  "keys_of run = entityKey ` set (run_results run)"

text \<open>Comparing runs is set difference: when no run lists an entity twice, \<open>added\<close> and \<open>removed\<close>
  are the entities only the newer or only the older run has, in their order, \<open>changed\<close> pairs the two
  versions of a common entity that gained evidence or whose confidence moved, \<open>unchanged\<close> are the other
  common ones, every newer entity is reported exactly once, and swapping the runs swaps added and
  removed.\<close>

theorem compareRuns_is_difference:
  assumes "distinct (map entityKey (run_results before))" "distinct (map entityKey (run_results after))"
  shows "let r = compareRuns before after
         in cmp_added r = filter (\<lambda>e. entityKey e \<notin> keys_of before) (run_results after)
            \<and> cmp_removed r = filter (\<lambda>e. entityKey e \<notin> keys_of after) (run_results before)
            \<and> set (cmp_changed r) = {change_of p e | p e. p \<in> set (run_results before)
                 \<and> e \<in> set (run_results after) \<and> entityKey p = entityKey e \<and> is_change p e}
            \<and> set (cmp_unchanged r) = {e \<in> set (run_results after).
                 \<exists>p \<in> set (run_results before). entityKey p = entityKey e \<and> \<not> is_change p e}
            \<and> length (cmp_added r) + length (cmp_changed r) + length (cmp_unchanged r) = length (run_results after)
            \<and> cmp_added (compareRuns after before) = cmp_removed r"
proof -
  have index: "omap_of (map (\<lambda>e. (entityKey e, e)) es) = map (\<lambda>e. (entityKey e, e)) es"
    if "distinct (map entityKey es)" for es
    using that
  proof (induction es rule: rev_induct)
    case (snoc e es)
    then show ?case by (auto simp: omap_of_snoc omap_set_def omap_has_def)
  qed simp
  have get: "omap_get (map (\<lambda>e. (entityKey e, e)) es) k = Some p \<longleftrightarrow> p \<in> set es \<and> entityKey p = k"
    if "distinct (map entityKey es)" for es k p
    using that by (auto simp: omap_get_def map_of_eq_Some_iff o_def)
  have none: "omap_get (map (\<lambda>e. (entityKey e, e)) es) k = None \<longleftrightarrow> k \<notin> entityKey ` set es" for es k
    by (auto simp: omap_get_def map_of_eq_None_iff image_image)
  have eq: "compareRuns b a =
     \<lparr>cmp_added = filter (\<lambda>e. entityKey e \<notin> keys_of b) (run_results a),
      cmp_removed = filter (\<lambda>e. entityKey e \<notin> keys_of a) (run_results b),
      cmp_changed = changes (omap_get (map (\<lambda>e. (entityKey e, e)) (run_results b))) (run_results a),
      cmp_unchanged = filter (stays (omap_get (map (\<lambda>e. (entityKey e, e)) (run_results b)))) (run_results a)\<rparr>"
    if "distinct (map entityKey (run_results b))" "distinct (map entityKey (run_results a))" for b a
    unfolding compareRuns_def Let_def index [OF that(1)] compare_fold [OF that(2)]
    by (simp add: none keys_of_def omap_values_def filter_map o_def)
  let ?M = "omap_get (map (\<lambda>e. (entityKey e, e)) (run_results before))"
  have changed: "set (changes ?M es) = {change_of p e | p e. p \<in> set (run_results before)
      \<and> e \<in> set es \<and> entityKey p = entityKey e \<and> is_change p e}" for es
    unfolding set_changes get [OF assms(1)] by auto
  have kept: "stays ?M e \<longleftrightarrow> (\<exists>p \<in> set (run_results before). entityKey p = entityKey e \<and> \<not> is_change p e)" for e
    unfolding stays_iff get [OF assms(1)] by auto
  have count: "length (filter (\<lambda>e. ?M (entityKey e) = None) es) + length (changes ?M es)
      + length (filter (stays ?M) es) = length es" for es
    by (induction es) (auto simp: stays_def split: option.split)
  show ?thesis
    unfolding Let_def eq [OF assms] eq [OF assms(2,1)]
    using changed [of "run_results after"] count [of "run_results after"] by (auto simp: kept none keys_of_def)
qed

definition sample_run :: "RunEntity list \<Rightarrow> RunRecord" where
  "sample_run es = \<lparr>run_id = ''r'', run_transform = ''dns'', run_transformVersion = ''1.0.0'',
     run_input = \<lparr>in_kind = K_domain, in_value = ''a''\<rparr>, run_engine = ''e'', run_engineVersion = ''1.0.0'',
     run_provider = ''p'', run_mode = Configured, run_startedAt = 0, run_finishedAt = 1,
     run_status = RS_completed, run_results = es, run_errors = [], run_replayOf = None\<rparr>"

definition sample_entity :: "string \<Rightarrow> real \<Rightarrow> string list \<Rightarrow> RunEntity" where
  "sample_entity v c ev = \<lparr>re_kind = K_ip, re_value = v, re_confidence = c, re_evidence = ev\<rparr>"

theorem compareRuns_is_difference_witness:
  "map re_value (cmp_added (compareRuns (sample_run [sample_entity ''x'' 1 [], sample_entity ''y'' 1 []])
     (sample_run [sample_entity ''y'' 1 [''n''], sample_entity ''z'' 1 []]))) = [''z'']"
proof -
  have k: "entityKey (sample_entity v c ev) = ''ip:'' @ v" for v c ev by (simp add: entityKey_def sample_entity_def)
  show ?thesis
    using compareRuns_is_difference [of "sample_run [sample_entity ''x'' 1 [], sample_entity ''y'' 1 []]"
        "sample_run [sample_entity ''y'' 1 [''n''], sample_entity ''z'' 1 []]"]
    by (simp add: Let_def sample_run_def keys_of_def k) (simp add: sample_entity_def)
qed

text \<open>A replay uses today's engines: over a created registry \<open>planReplay\<close> refuses exactly when the
  transform is unknown or no non-terminal engine of it may run now, and otherwise its chain starts with
  such an engine, of the best score among them.\<close>

theorem planReplay_picks_allowed_engine:
  assumes "createTransformRegistry is_url ts es ps = Some reg"
  shows "case planReplay reg run ctx of
           Inl refusal \<Rightarrow> rf_replayOf refusal = run_id run
             \<and> (\<forall>t c. reg_transform reg (run_transform run) = Some t \<and> c \<in> set (considered reg t ctx)
                  \<longrightarrow> av_reason c \<noteq> None \<or> is_terminal c)
         | Inr req \<Rightarrow> rq_replayOf req = run_id run
             \<and> (\<exists>t c rest. reg_transform reg (run_transform run) = Some t \<and> rq_chain req = e_id (av_engine c) # rest
                  \<and> c \<in> set (considered reg t ctx) \<and> \<not> is_terminal c
                  \<and> engineExclusion (av_engine c) (av_provider c) ctx = None
                  \<and> rq_engineChanged req = (e_id (av_engine c) \<noteq> run_engine run)
                  \<and> (\<forall>d \<in> set (considered reg t ctx). av_reason d = None \<and> \<not> is_terminal d \<longrightarrow> av_score d \<le> av_score c))"
proof (cases "reg_transform reg (run_transform run)")
  case None
  then show ?thesis by (simp add: planReplay_def)
next
  case (Some t)
  define usable where "usable = filter (\<lambda>c. av_reason c = None) (considered reg t ctx)"
  define chain where "chain = sort_key chain_key usable"
  have reason: "rt_reason (routeTransform reg t ctx) = None \<longleftrightarrow> filter (\<lambda>c. \<not> is_terminal c) chain \<noteq> []"
    and routed: "rt_chain (routeTransform reg t ctx) = chain"
    by (simp_all add: routeTransform_def Let_def chain_def usable_def)
  have set: "set chain = set usable" by (simp add: chain_def)
  show ?thesis
  proof (cases "filter (\<lambda>c. \<not> is_terminal c) chain = []")
    case True
    then have "\<forall>c \<in> set usable. is_terminal c" by (simp add: filter_empty_conv set)
    then show ?thesis
      using True reason Some by (auto simp: planReplay_def Let_def usable_def split: option.split)
  next
    case False
    then obtain c rest where chain: "chain = c # rest" by (cases chain) auto
    have sorted: "\<forall>d \<in> set chain. chain_key c \<le> chain_key d"
      using sorted_sort_key [of chain_key usable] by (auto simp: chain_def [symmetric] chain)
    obtain d where d: "d \<in> set chain" "\<not> is_terminal d" using False by (auto simp: filter_empty_conv)
    have live: "\<not> is_terminal c" using sorted d by (auto simp: chain_key_def)
    have best: "av_score d \<le> av_score c" if "d \<in> set usable" "\<not> is_terminal d" for d
      using sorted that live by (auto simp: chain_key_def set)
    have c: "c \<in> set usable" using chain set by (metis list.set_intros(1))
    have "reg = build_registry ts es ps" using assms by (simp add: createTransformRegistry_Some)
    then have "engineExclusion (av_engine c) (av_provider c) ctx = None"
      using c created.considered_in [of c ts es ps t ctx] by (simp add: usable_def)
    then show ?thesis
      using Some False reason routed live best c
      by (auto simp: planReplay_def Let_def chain usable_def nth_opt_def)
  qed
qed

theorem planReplay_picks_allowed_engine_witness:
  "case planReplay demo_registry ((sample_run [])\<lparr>run_transform := ''dns-lookup''\<rparr>) demo_ctx of
     Inl refusal \<Rightarrow> rf_replayOf refusal = ''r''
   | Inr req \<Rightarrow> rq_replayOf req = ''r'' \<and> rq_chain req \<noteq> []"
  using planReplay_picks_allowed_engine [OF demo_registry_created(1),
      of "(sample_run [])\<lparr>run_transform := ''dns-lookup''\<rparr>" demo_ctx]
  by (auto simp: sample_run_def split: sum.splits)

end
