(* ===== verification/TransformRun.thy ===== *)
theory TransformRun
  imports TransformHistory
begin

text \<open>
  The host-side driver of one engine run, \<open>packages/transforms/src/sdk/run.ts\<close>, over the contract of
  \<open>sdk/types.ts\<close>. An engine is third-party code: it is the record \<open>engine\<close> of what its synchronous
  functions return or throw, and a trace of what happens while the driver awaits it (initialisation
  settles, chunks arrive, the engine fetches, finishes or throws, the deadline timer or the user
  fires, the race is lost to the abort). \<open>drive\<close> is the awaiting part of \<open>runEngine\<close>; \<open>None\<close> is a trace
  on which the driver is still waiting. A raw payload and the properties of an entity are opaque
  text, and the arrow in the messages about relationships is written \<open>->\<close>.
\<close>

section \<open>The contract\<close>

record TransformInput =
  ti_kind :: EntityKind
  ti_value :: string
  ti_entityId :: "string option"
  ti_props :: "string option"

record RawChunk =
  chunk_at :: string
  chunk_payload :: string
  chunk_exhaustive :: "bool option"

record ProposedEntity =
  pe_key :: string
  pe_kind :: string
  pe_value :: string
  pe_label :: "string option"
  pe_props :: "string option"
  pe_confidence :: js_num

definition INPUT_REF :: string where "INPUT_REF = ''$input''"

record ProposedRelationship =
  rel_from :: string
  rel_to :: string
  rel_kind :: string
  rel_confidence :: js_num

record Evidence =
  evd_entity :: string
  evd_observedAt :: string
  evd_excerpt :: "string option"
  evd_chunk :: "int option"

record EngineOutput =
  out_entities :: "ProposedEntity list"
  out_relationships :: "ProposedRelationship list"
  out_evidence :: "Evidence list"

record InputVerdict =
  verdict_ok :: bool
  verdict_reason :: "string option"
  verdict_normalizedValue :: "string option"

text \<open>What the driver may call; \<open>Inl\<close> is a synchronous throw with its message.\<close>

record engine =
  eng_validateInput :: "TransformInput \<Rightarrow> string + InputVerdict"
  eng_normalize :: "RawChunk list \<Rightarrow> TransformInput \<Rightarrow> string + EngineOutput"
  eng_permissions :: "string + Permission list"
  eng_cleanup :: "string option"

datatype EngineRunStatus = Run_completed | Run_partial | Run_failed | Run_cancelled

datatype FailureCode =
  Invalid_input | Run_timeout | Cancelled_by_user | Engine_error | Contract_violation

record RunFailure =
  fail_code :: FailureCode
  fail_message :: string
  fail_retryable :: bool

record RunOptions =
  ro_input :: TransformInput
  ro_mode :: ExecutionMode
  ro_maxResults :: int
  ro_deadlineMs :: int
  ro_aborted :: bool

record RunOutcome =
  oc_status :: EngineRunStatus
  oc_entities :: "ProposedEntity list"
  oc_relationships :: "ProposedRelationship list"
  oc_evidence :: "Evidence list"
  oc_chunks :: "RawChunk list"
  oc_exhaustive :: bool
  oc_truncated :: bool
  oc_durationMs :: int
  oc_failure :: "RunFailure option"
  oc_violations :: "string list"

section \<open>Checking the output\<close>

definition KINDS :: "string list" where "KINDS = map kind_str ENTITY_KINDS"

definition inRange :: "js_num \<Rightarrow> bool" where
  "inRange v = (case v of Finite r \<Rightarrow> 0 \<le> r \<and> r \<le> 1 | NonFinite \<Rightarrow> False)"

definition entity_issues :: "string list \<Rightarrow> ProposedEntity \<Rightarrow> string list" where
  "entity_issues keys e =
     (if pe_key e = '''' then [''entity with an empty key'']
      else if pe_key e \<in> set keys then [''duplicate entity key: '' @ pe_key e] else [])
     @ (if pe_value e = '''' then [''entity '' @ pe_key e @ '' has an empty value''] else [])
     @ (if pe_kind e \<notin> set KINDS then [''entity '' @ pe_key e @ '' has unknown kind''] else [])
     @ (if \<not> inRange (pe_confidence e) then [''entity '' @ pe_key e @ '' confidence out of 0..1''] else [])"

fun entities_issues :: "string list \<Rightarrow> ProposedEntity list \<Rightarrow> string list" where
  "entities_issues keys [] = []"
| "entities_issues keys (e # es) = entity_issues keys e @ entities_issues (keys @ [pe_key e]) es"

definition known_ref :: "ProposedEntity list \<Rightarrow> string \<Rightarrow> bool" where
  "known_ref es ref \<longleftrightarrow> ref = INPUT_REF \<or> ref \<in> pe_key ` set es"

definition rel_name :: "ProposedRelationship \<Rightarrow> string" where
  "rel_name rel = ''relationship '' @ rel_from rel @ ''->'' @ rel_to rel"

definition relationship_issues :: "ProposedEntity list \<Rightarrow> ProposedRelationship \<Rightarrow> string list" where
  "relationship_issues es rel =
     (if \<not> known_ref es (rel_from rel) \<or> \<not> known_ref es (rel_to rel)
      then [rel_name rel @ '' references an unknown entity''] else [])
     @ (if rel_kind rel = '''' then [rel_name rel @ '' has no kind''] else [])
     @ (if \<not> inRange (rel_confidence rel) then [rel_name rel @ '' confidence out of 0..1''] else [])"

definition validateOutput :: "EngineOutput \<Rightarrow> bool \<Rightarrow> bool \<Rightarrow> string list" where
  "validateOutput out usedNetwork declaredNetwork =
     (let es = out_entities out;
          keys = js_uniq (map pe_key es);
          supported = map evd_entity (out_evidence out)
      in entities_issues [] es
         @ concat (map (relationship_issues es) (out_relationships out))
         @ concat (map (\<lambda>item. if known_ref es (evd_entity item) then []
             else [''evidence references an unknown entity: '' @ evd_entity item]) (out_evidence out))
         @ concat (map (\<lambda>key. if key \<in> set supported then []
             else [''entity '' @ key @ '' has no evidence'']) keys)
         @ (if usedNetwork \<and> \<not> declaredNetwork
            then [''engine used the network without declaring the `network` permission''] else []))"

definition EMPTY_OUTPUT :: EngineOutput where
  "EMPTY_OUTPUT = \<lparr>out_entities = [], out_relationships = [], out_evidence = []\<rparr>"

text \<open>\<open>xs.slice(0, n)\<close>: a negative end counts from the back.\<close>

definition js_slice0 :: "int \<Rightarrow> 'a list \<Rightarrow> 'a list" where
  "js_slice0 n xs = (if 0 \<le> n then take (nat n) xs else take (length xs - nat (- n)) xs)"

definition truncate_output :: "EngineOutput \<Rightarrow> int \<Rightarrow> EngineOutput" where
  "truncate_output out limit =
     (if int (length (out_entities out)) \<le> limit then out
      else (let entities = js_slice0 limit (out_entities out);
                alive = known_ref entities
            in \<lparr>out_entities = entities,
                out_relationships =
                  filter (\<lambda>rel. alive (rel_from rel) \<and> alive (rel_to rel)) (out_relationships out),
                out_evidence = filter (\<lambda>item. alive (evd_entity item)) (out_evidence out)\<rparr>))"

section \<open>The driver\<close>

datatype run_event =
    Ev_ready
  | Ev_chunk RawChunk
  | Ev_fetch
  | Ev_done
  | Ev_throw string
  | Ev_timeout
  | Ev_user_abort
  | Ev_race_lost

record driver =
  dv_started :: bool
  dv_chunks :: "RawChunk list"
  dv_exhaustive :: bool
  dv_usedNetwork :: bool
  dv_timedOut :: bool
  dv_aborted :: bool
  dv_failure :: "RunFailure option"

definition new_driver :: "RunOptions \<Rightarrow> driver" where
  "new_driver options =
     \<lparr>dv_started = False, dv_chunks = [], dv_exhaustive = True, dv_usedNetwork = False,
      dv_timedOut = False, dv_aborted = ro_aborted options, dv_failure = None\<rparr>"

definition take_chunk :: "RawChunk \<Rightarrow> driver \<Rightarrow> driver" where
  "take_chunk c d =
     d\<lparr>dv_chunks := dv_chunks d @ [c],
       dv_exhaustive := (if chunk_exhaustive c = Some False then False else dv_exhaustive d)\<rparr>"

text \<open>The \<open>try\<close> block: initialise, then race the next chunk against the abort until something ends it.\<close>

fun drive :: "run_event list \<Rightarrow> driver \<Rightarrow> driver option" where
  "drive [] d = None"
| "drive (Ev_fetch # evs) d = drive evs (d\<lparr>dv_usedNetwork := True\<rparr>)"
| "drive (Ev_timeout # evs) d = drive evs (d\<lparr>dv_timedOut := True, dv_aborted := True\<rparr>)"
| "drive (Ev_user_abort # evs) d = drive evs (d\<lparr>dv_aborted := True\<rparr>)"
| "drive (Ev_ready # evs) d = (if dv_started d then None else drive evs (d\<lparr>dv_started := True\<rparr>))"
| "drive (Ev_chunk c # evs) d = (if dv_started d then drive evs (take_chunk c d) else None)"
| "drive (Ev_done # evs) d = (if dv_started d then Some d else None)"
| "drive (Ev_race_lost # evs) d = (if dv_started d \<and> dv_aborted d then Some d else None)"
| "drive (Ev_throw msg # evs) d =
     Some (if dv_aborted d then d
           else d\<lparr>dv_failure := Some \<lparr>fail_code = Engine_error, fail_message = msg, fail_retryable = True\<rparr>\<rparr>)"

definition finish ::
  "RunOptions \<Rightarrow> int \<Rightarrow> driver \<Rightarrow> EngineRunStatus \<Rightarrow> EngineOutput \<Rightarrow> string list \<Rightarrow> RunOutcome" where
  "finish options duration d status out violations =
     (let capped = truncate_output out (ro_maxResults options)
      in \<lparr>oc_status = status, oc_entities = out_entities capped,
          oc_relationships = out_relationships capped, oc_evidence = out_evidence capped,
          oc_chunks = dv_chunks d, oc_exhaustive = dv_exhaustive d,
          oc_truncated = (length (out_entities capped) < length (out_entities out)),
          oc_durationMs = duration, oc_failure = dv_failure d, oc_violations = violations\<rparr>)"

definition note_abort :: "RunOptions \<Rightarrow> driver \<Rightarrow> driver" where
  "note_abort options d =
     (if dv_aborted d
      then d\<lparr>dv_failure := Some
               (if dv_timedOut d
                then \<lparr>fail_code = Run_timeout,
                      fail_message = ''execute exceeded '' @ int_str (ro_deadlineMs options) @ '' ms'',
                      fail_retryable = True\<rparr>
                else \<lparr>fail_code = Cancelled_by_user, fail_message = ''cancelled by the user'',
                      fail_retryable = True\<rparr>),
             dv_exhaustive := False\<rparr>
      else d)"

text \<open>After the \<open>finally\<close> block: normalise, validate, and settle the status.\<close>

definition conclude ::
  "engine \<Rightarrow> RunOptions \<Rightarrow> int \<Rightarrow> TransformInput \<Rightarrow> driver \<Rightarrow> string + RunOutcome" where
  "conclude eng options duration input d0 =
     (let d = note_abort options d0
      in case eng_normalize eng (dv_chunks d) input of
           Inl msg \<Rightarrow>
             Inr (finish options duration
               (d\<lparr>dv_failure := Some \<lparr>fail_code = Contract_violation,
                    fail_message = ''normalize threw: '' @ msg, fail_retryable = False\<rparr>\<rparr>)
               Run_failed EMPTY_OUTPUT [''normalize threw''])
         | Inr out \<Rightarrow>
             (case eng_permissions eng of
                Inl msg \<Rightarrow> Inl msg
              | Inr permissions \<Rightarrow>
                  (let violations = validateOutput out (dv_usedNetwork d) (Perm_network \<in> set permissions)
                   in case violations of
                        v # vs \<Rightarrow>
                          Inr (finish options duration
                            (case dv_failure d of
                               Some f \<Rightarrow> d
                             | None \<Rightarrow> d\<lparr>dv_failure := Some \<lparr>fail_code = Contract_violation,
                                 fail_message = v, fail_retryable = False\<rparr>\<rparr>)
                            Run_failed EMPTY_OUTPUT violations)
                      | [] \<Rightarrow>
                          (case dv_failure d of
                             None \<Rightarrow> Inr (finish options duration d Run_completed out violations)
                           | Some f \<Rightarrow>
                               if fail_code f = Cancelled_by_user
                               then Inr (finish options duration d Run_cancelled out violations)
                               else Inr (finish options duration d
                                      (if dv_chunks d \<noteq> [] then Run_partial else Run_failed) out violations)))))"

definition effective_input :: "InputVerdict \<Rightarrow> TransformInput \<Rightarrow> TransformInput" where
  "effective_input verdict input =
     (case verdict_normalizedValue verdict of
        None \<Rightarrow> input
      | Some v \<Rightarrow> if v = '''' then input else input\<lparr>ti_value := v\<rparr>)"

definition runEngine ::
  "engine \<Rightarrow> RunOptions \<Rightarrow> int \<Rightarrow> run_event list \<Rightarrow> (string + RunOutcome) option" where
  "runEngine eng options duration evs =
     (case eng_validateInput eng (ro_input options) of
        Inl msg \<Rightarrow> Some (Inl msg)
      | Inr verdict \<Rightarrow>
          if \<not> verdict_ok verdict
          then Some (Inr (finish options duration
                 ((new_driver options)\<lparr>dv_failure := Some
                    \<lparr>fail_code = Invalid_input,
                     fail_message = (case verdict_reason verdict of
                                       None \<Rightarrow> ''the engine rejected the input'' | Some r \<Rightarrow> r),
                     fail_retryable = False\<rparr>\<rparr>)
                 Run_failed EMPTY_OUTPUT []))
          else (case drive evs (new_driver options) of
                  None \<Rightarrow> None
                | Some d \<Rightarrow>
                    (case eng_cleanup eng of
                       Some msg \<Rightarrow> Some (Inl msg)
                     | None \<Rightarrow> Some (conclude eng options duration
                                 (effective_input verdict (ro_input options)) d))))"

definition producedKinds :: "RunOutcome \<Rightarrow> string list" where
  "producedKinds oc = js_uniq (map pe_kind (oc_entities oc))"

section \<open>Truncation keeps the contract\<close>

lemma entities_issues_Nil:
  "entities_issues keys es = [] \<longleftrightarrow>
     distinct (map pe_key es) \<and> set keys \<inter> pe_key ` set es = {}
     \<and> list_all (\<lambda>e. pe_key e \<noteq> '''' \<and> pe_value e \<noteq> '''' \<and> pe_kind e \<in> set KINDS \<and> inRange (pe_confidence e)) es"
  by (induction keys es rule: entities_issues.induct) (auto simp: entity_issues_def)

lemma relationship_issues_Nil:
  "relationship_issues es rel = [] \<longleftrightarrow>
     known_ref es (rel_from rel) \<and> known_ref es (rel_to rel) \<and> rel_kind rel \<noteq> '''' \<and> inRange (rel_confidence rel)"
  by (auto simp: relationship_issues_def)

text \<open>The contract, declaratively.\<close>

definition honours_contract :: "EngineOutput \<Rightarrow> bool" where
  "honours_contract out \<longleftrightarrow>
     distinct (map pe_key (out_entities out))
     \<and> (\<forall>e \<in> set (out_entities out). pe_key e \<noteq> '''' \<and> pe_value e \<noteq> '''' \<and> pe_kind e \<in> set KINDS
           \<and> inRange (pe_confidence e) \<and> (\<exists>item \<in> set (out_evidence out). evd_entity item = pe_key e))
     \<and> (\<forall>rel \<in> set (out_relationships out). known_ref (out_entities out) (rel_from rel)
           \<and> known_ref (out_entities out) (rel_to rel) \<and> rel_kind rel \<noteq> '''' \<and> inRange (rel_confidence rel))
     \<and> (\<forall>item \<in> set (out_evidence out). known_ref (out_entities out) (evd_entity item))"

lemma validateOutput_Nil:
  "validateOutput out used declared = [] \<longleftrightarrow> honours_contract out \<and> (used \<longrightarrow> declared)"
proof -
  let ?es = "out_entities out"
  have "entities_issues [] ?es = [] \<longleftrightarrow> distinct (map pe_key ?es)
      \<and> (\<forall>e \<in> set ?es. pe_key e \<noteq> '''' \<and> pe_value e \<noteq> '''' \<and> pe_kind e \<in> set KINDS \<and> inRange (pe_confidence e))"
    by (simp add: entities_issues_Nil list_all_iff)
  moreover have "concat (map (relationship_issues ?es) rels) = [] \<longleftrightarrow> (\<forall>rel \<in> set rels. known_ref ?es (rel_from rel)
      \<and> known_ref ?es (rel_to rel) \<and> rel_kind rel \<noteq> '''' \<and> inRange (rel_confidence rel))" for rels
    by (simp add: relationship_issues_Nil)
  moreover have "concat (map (\<lambda>item. if known_ref ?es (evd_entity item) then [] else [m item]) items) = []
      \<longleftrightarrow> (\<forall>item \<in> set items. known_ref ?es (evd_entity item))" for m :: "Evidence \<Rightarrow> string" and items
    by (induction items) auto
  moreover have "concat (map (\<lambda>key. if key \<in> set (map evd_entity (out_evidence out)) then [] else [m key])
        (js_uniq (map pe_key ?es))) = []
      \<longleftrightarrow> (\<forall>e \<in> set ?es. \<exists>item \<in> set (out_evidence out). evd_entity item = pe_key e)" for m :: "string \<Rightarrow> string"
  proof -
    have "concat (map (\<lambda>key. if key \<in> S then [] else [m key]) ks) = [] \<longleftrightarrow> set ks \<subseteq> S" for S ks
      by (induction ks) auto
    then have "concat (map (\<lambda>key. if key \<in> set (map evd_entity (out_evidence out)) then [] else [m key])
        (js_uniq (map pe_key ?es))) = [] \<longleftrightarrow> pe_key ` set ?es \<subseteq> evd_entity ` set (out_evidence out)"
      by (simp only: set_js_uniq set_map)
    also have "\<dots> \<longleftrightarrow> (\<forall>e \<in> set ?es. \<exists>item \<in> set (out_evidence out). evd_entity item = pe_key e)"
      by (force simp: subset_iff image_iff)
    finally show ?thesis .
  qed
  ultimately show ?thesis
    unfolding validateOutput_def Let_def append_is_Nil_conv honours_contract_def by (simp only:) auto
qed

lemma js_slice0_prefix: "\<exists>k. js_slice0 n xs = take k xs"
  by (auto simp: js_slice0_def)

lemma truncate_honours:
  assumes "honours_contract out"
  shows "honours_contract (truncate_output out limit)"
proof (cases "int (length (out_entities out)) \<le> limit")
  case True
  then show ?thesis using assms by (simp add: truncate_output_def)
next
  case False
  obtain k where k: "js_slice0 limit (out_entities out) = take k (out_entities out)" using js_slice0_prefix by blast
  have sub: "set (take k (out_entities out)) \<subseteq> set (out_entities out)" by (rule set_take_subset)
  have "distinct (map pe_key (take k (out_entities out)))"
    using assms by (simp add: honours_contract_def take_map [symmetric])
  moreover have "\<exists>item \<in> set (filter (\<lambda>i. known_ref (take k (out_entities out)) (evd_entity i)) (out_evidence out)).
      evd_entity item = pe_key e" if "e \<in> set (take k (out_entities out))" for e
  proof -
    have "e \<in> set (out_entities out)" using that sub by blast
    with assms obtain item where "item \<in> set (out_evidence out)" "evd_entity item = pe_key e"
      by (auto simp: honours_contract_def)
    moreover have "known_ref (take k (out_entities out)) (pe_key e)" using that by (auto simp: known_ref_def)
    ultimately show ?thesis by auto
  qed
  ultimately show ?thesis
    using False assms sub unfolding honours_contract_def truncate_output_def k Let_def by auto
qed

lemma truncate_length: "0 \<le> limit \<Longrightarrow> int (length (out_entities (truncate_output out limit))) \<le> limit"
  by (auto simp: truncate_output_def js_slice0_def Let_def)

lemma truncate_EMPTY [simp]: "0 \<le> limit \<Longrightarrow> truncate_output EMPTY_OUTPUT limit = EMPTY_OUTPUT"
  by (simp add: truncate_output_def EMPTY_OUTPUT_def)

section \<open>The driving loop\<close>

fun chunks_of :: "run_event list \<Rightarrow> RawChunk list" where
  "chunks_of [] = []"
| "chunks_of (Ev_chunk c # evs) = c # chunks_of evs"
| "chunks_of (Ev_done # evs) = []"
| "chunks_of (Ev_throw msg # evs) = []"
| "chunks_of (Ev_race_lost # evs) = []"
| "chunks_of (_ # evs) = chunks_of evs"

text \<open>The events before the one that ends the loop.\<close>

fun before_end :: "run_event list \<Rightarrow> run_event list" where
  "before_end [] = []"
| "before_end (Ev_done # evs) = []"
| "before_end (Ev_throw msg # evs) = []"
| "before_end (Ev_race_lost # evs) = []"
| "before_end (ev # evs) = ev # before_end evs"

text \<open>The message of the throw that ends the loop, when one does.\<close>

fun thrown :: "run_event list \<Rightarrow> string option" where
  "thrown [] = None"
| "thrown (Ev_done # evs) = None"
| "thrown (Ev_throw msg # evs) = Some msg"
| "thrown (Ev_race_lost # evs) = None"
| "thrown (_ # evs) = thrown evs"

lemma drive_facts:
  "drive evs d = Some d' \<Longrightarrow>
     dv_chunks d' = dv_chunks d @ chunks_of evs
     \<and> dv_exhaustive d' = (dv_exhaustive d \<and> (\<forall>c \<in> set (chunks_of evs). chunk_exhaustive c \<noteq> Some False))
     \<and> dv_aborted d' = (dv_aborted d \<or> Ev_timeout \<in> set (before_end evs) \<or> Ev_user_abort \<in> set (before_end evs))
     \<and> dv_timedOut d' = (dv_timedOut d \<or> Ev_timeout \<in> set (before_end evs))
     \<and> dv_usedNetwork d' = (dv_usedNetwork d \<or> Ev_fetch \<in> set (before_end evs))
     \<and> dv_failure d' = (case thrown evs of
           None \<Rightarrow> dv_failure d
         | Some msg \<Rightarrow> if dv_aborted d' then dv_failure d
             else Some \<lparr>fail_code = Engine_error, fail_message = msg, fail_retryable = True\<rparr>)"
  by (induction evs d rule: drive.induct) (auto simp: take_chunk_def split: if_splits option.splits)

lemma note_abort_simps [simp]:
  "dv_chunks (note_abort options d) = dv_chunks d"
  "dv_usedNetwork (note_abort options d) = dv_usedNetwork d"
  "dv_exhaustive (note_abort options d) = (dv_exhaustive d \<and> \<not> dv_aborted d)"
  by (auto simp: note_abort_def)

lemma new_driver_simps [simp]:
  "dv_chunks (new_driver options) = []" "dv_exhaustive (new_driver options)"
  "\<not> dv_usedNetwork (new_driver options)" "\<not> dv_timedOut (new_driver options)"
  "dv_aborted (new_driver options) = ro_aborted options" "dv_failure (new_driver options) = None"
  "\<not> dv_started (new_driver options)"
  by (simp_all add: new_driver_def)

section \<open>The outcome\<close>

definition outcome_graph :: "RunOutcome \<Rightarrow> EngineOutput" where
  "outcome_graph oc =
     \<lparr>out_entities = oc_entities oc, out_relationships = oc_relationships oc, out_evidence = oc_evidence oc\<rparr>"

definition input_accepted :: "engine \<Rightarrow> RunOptions \<Rightarrow> bool" where
  "input_accepted eng options =
     (case eng_validateInput eng (ro_input options) of Inl msg \<Rightarrow> False | Inr verdict \<Rightarrow> verdict_ok verdict)"

definition sound_outcome :: "RunOptions \<Rightarrow> RawChunk list \<Rightarrow> RunOutcome \<Rightarrow> bool" where
  "sound_outcome options chunks oc \<longleftrightarrow>
     honours_contract (outcome_graph oc)
     \<and> int (length (oc_entities oc)) \<le> ro_maxResults options
     \<and> (oc_violations oc \<noteq> [] \<longrightarrow> oc_status oc = Run_failed \<and> outcome_graph oc = EMPTY_OUTPUT)
     \<and> (oc_status oc = Run_completed \<longleftrightarrow> oc_failure oc = None)
     \<and> oc_chunks oc = chunks"

lemma out_entities_EMPTY [simp]: "out_entities EMPTY_OUTPUT = []"
  by (simp add: EMPTY_OUTPUT_def)

lemma honours_EMPTY [simp]: "honours_contract EMPTY_OUTPUT"
  by (simp add: honours_contract_def EMPTY_OUTPUT_def)

lemma outcome_graph_finish [simp]:
  "outcome_graph (finish options duration d status out violations) = truncate_output out (ro_maxResults options)"
  by (simp add: outcome_graph_def finish_def Let_def)

lemma finish_simps [simp]:
  "oc_status (finish options duration d status out violations) = status"
  "oc_failure (finish options duration d status out violations) = dv_failure d"
  "oc_violations (finish options duration d status out violations) = violations"
  "oc_chunks (finish options duration d status out violations) = dv_chunks d"
  "oc_exhaustive (finish options duration d status out violations) = dv_exhaustive d"
  "oc_entities (finish options duration d status out violations) =
     out_entities (truncate_output out (ro_maxResults options))"
  by (simp_all add: finish_def Let_def)

lemma finish_sound:
  assumes "0 \<le> ro_maxResults options" "honours_contract out"
    and "violations \<noteq> [] \<longrightarrow> status = Run_failed \<and> out = EMPTY_OUTPUT"
    and "status = Run_completed \<longleftrightarrow> dv_failure d = None"
  shows "sound_outcome options (dv_chunks d) (finish options duration d status out violations)"
  using assms unfolding sound_outcome_def by (auto simp: truncate_honours truncate_length)

lemma conclude_sound:
  assumes "conclude eng options duration input d = Inr oc" "0 \<le> ro_maxResults options"
  shows "sound_outcome options (dv_chunks d) oc"
proof -
  let ?d = "note_abort options d"
  have bad: "sound_outcome options (dv_chunks d)
      (finish options duration (e\<lparr>dv_failure := Some f\<rparr>) Run_failed EMPTY_OUTPUT vs)" if "dv_chunks e = dv_chunks d" for e f vs
    using finish_sound [of options EMPTY_OUTPUT vs Run_failed "e\<lparr>dv_failure := Some f\<rparr>" duration] assms(2) that by simp
  have kept: "sound_outcome options chunks (finish options duration ?d status out [])"
    if "chunks = dv_chunks d" "validateOutput out used declared = []" "status = Run_completed \<longleftrightarrow> dv_failure ?d = None"
    for out used declared status chunks
    using finish_sound [of options out "[]" status ?d duration] assms(2) that by (simp add: validateOutput_Nil)
  have viol: "sound_outcome options (dv_chunks d) (finish options duration ?d Run_failed EMPTY_OUTPUT vs)"
    if "dv_failure ?d = Some f" for f vs
    using finish_sound [of options EMPTY_OUTPUT vs Run_failed ?d duration] assms(2) that by simp
  show ?thesis
    using assms(1) unfolding conclude_def Let_def
    by (auto split: sum.splits list.splits option.splits if_splits intro: bad kept viol)
qed

section \<open>Sample engines\<close>

definition sdk_demo_input :: TransformInput where
  "sdk_demo_input = \<lparr>ti_kind = K_domain, ti_value = ''example.org'', ti_entityId = None, ti_props = None\<rparr>"

definition sdk_demo_chunk :: RawChunk where
  "sdk_demo_chunk = \<lparr>chunk_at = ''t0'', chunk_payload = ''hosts'', chunk_exhaustive = Some True\<rparr>"

definition sdk_demo_host :: "string \<Rightarrow> ProposedEntity" where
  "sdk_demo_host k = \<lparr>pe_key = k, pe_kind = ''hostname'', pe_value = k @ ''.example.org'', pe_label = None,
     pe_props = None, pe_confidence = Finite (1 / 2)\<rparr>"

definition sdk_demo_evidence :: "string \<Rightarrow> Evidence" where
  "sdk_demo_evidence k = \<lparr>evd_entity = k, evd_observedAt = ''t0'', evd_excerpt = None, evd_chunk = Some 0\<rparr>"

definition sdk_demo_output :: EngineOutput where
  "sdk_demo_output =
     \<lparr>out_entities = [sdk_demo_host ''a'', sdk_demo_host ''b''],
      out_relationships =
        [\<lparr>rel_from = INPUT_REF, rel_to = ''b'', rel_kind = ''resolves'', rel_confidence = Finite 1\<rparr>],
      out_evidence = [sdk_demo_evidence ''a'', sdk_demo_evidence ''b'']\<rparr>"

definition sdk_demo_engine :: engine where
  "sdk_demo_engine =
     \<lparr>eng_validateInput = (\<lambda>i. Inr \<lparr>verdict_ok = True, verdict_reason = None, verdict_normalizedValue = None\<rparr>),
      eng_normalize = (\<lambda>chunks i. Inr (if chunks = [] then EMPTY_OUTPUT else sdk_demo_output)),
      eng_permissions = Inr [Perm_network],
      eng_cleanup = None\<rparr>"

definition sdk_demo_options :: RunOptions where
  "sdk_demo_options = \<lparr>ro_input = sdk_demo_input, ro_mode = Configured, ro_maxResults = 1, ro_deadlineMs = 500,
     ro_aborted = False\<rparr>"

lemmas sdk_demo_defs =
  sdk_demo_input_def sdk_demo_chunk_def sdk_demo_host_def sdk_demo_evidence_def sdk_demo_output_def sdk_demo_engine_def sdk_demo_options_def

lemma sdk_demo_output_valid: "validateOutput sdk_demo_output used True = []"
  by (simp add: validateOutput_def sdk_demo_defs KINDS_def ENTITY_KINDS_def inRange_def known_ref_def entity_issues_def
      relationship_issues_def INPUT_REF_def)

section \<open>Properties\<close>

text \<open>C14. Whatever the engine does, an outcome that \<open>runEngine\<close> returns respects the contract: its entities have distinct non-empty keys and values, a known kind, a confidence in 0..1 and evidence; its relationships and evidence refer only to the entities it kept or to the input; there are at most \<open>maxResults\<close> entities, truncation included; a violation fails the run and keeps nothing; the run is completed exactly when no failure is reported; and the raw chunks are the ones received, in order, until the run ended.\<close>

theorem runEngine_outcome_honours_contract:
  assumes "runEngine eng options duration evs = Some (Inr oc)"
    and "0 \<le> ro_maxResults options"
  shows "sound_outcome options (if input_accepted eng options then chunks_of evs else []) oc"
proof (cases "input_accepted eng options")
  case True
  then obtain verdict d where "drive evs (new_driver options) = Some d"
    and "conclude eng options duration (effective_input verdict (ro_input options)) d = Inr oc"
    using assms(1) by (auto simp: runEngine_def input_accepted_def split: option.splits sum.splits)
  then show ?thesis using conclude_sound [OF _ assms(2)] drive_facts True by fastforce
next
  case False
  then show ?thesis
    using assms by (auto simp: runEngine_def input_accepted_def sound_outcome_def split: sum.splits if_splits)
qed

theorem runEngine_outcome_honours_contract_witness:
  "\<exists>oc. runEngine sdk_demo_engine sdk_demo_options 40 [Ev_ready, Ev_fetch, Ev_chunk sdk_demo_chunk, Ev_done] = Some (Inr oc)
     \<and> sound_outcome sdk_demo_options [sdk_demo_chunk] oc \<and> oc_truncated oc \<and> oc_entities oc = [sdk_demo_host ''a'']
     \<and> oc_relationships oc = []"
proof -
  define oc where "oc = finish sdk_demo_options 40 (take_chunk sdk_demo_chunk
      ((new_driver sdk_demo_options)\<lparr>dv_started := True, dv_usedNetwork := True\<rparr>)) Run_completed sdk_demo_output []"
  have run: "runEngine sdk_demo_engine sdk_demo_options 40 [Ev_ready, Ev_fetch, Ev_chunk sdk_demo_chunk, Ev_done] = Some (Inr oc)"
    using sdk_demo_output_valid
    by (simp add: runEngine_def conclude_def oc_def sdk_demo_engine_def new_driver_def note_abort_def take_chunk_def
        effective_input_def sdk_demo_options_def)
  have "oc_truncated oc" "oc_entities oc = [sdk_demo_host ''a'']" "oc_relationships oc = []"
    by (simp_all add: oc_def finish_def truncate_output_def js_slice0_def known_ref_def Let_def INPUT_REF_def sdk_demo_defs)
  then show ?thesis
    using runEngine_outcome_honours_contract [OF run] run
    by (simp add: sdk_demo_options_def input_accepted_def sdk_demo_engine_def)
qed

text \<open>How the run ends decides its status: with usable output, a deadline makes it partial when something was collected and failed otherwise, a user cancellation makes it cancelled and keeps what was collected, an engine error counts like a deadline, and only an undisturbed run is completed and may be exhaustive; the failure is retryable, and the entities are a prefix of the engine's own.\<close>

theorem runEngine_status_follows_signal:
  assumes "eng_validateInput eng (ro_input options) = Inr verdict" "verdict_ok verdict"
    and "drive evs (new_driver options) \<noteq> None" "eng_cleanup eng = None"
    and "eng_normalize eng (chunks_of evs) (effective_input verdict (ro_input options)) = Inr out"
    and "eng_permissions eng = Inr permissions"
    and "validateOutput out (Ev_fetch \<in> set (before_end evs)) (Perm_network \<in> set permissions) = []"
  shows "\<exists>oc. runEngine eng options duration evs = Some (Inr oc)
     \<and> (let timedOut = Ev_timeout \<in> set (before_end evs);
            stopped = ro_aborted options \<or> timedOut \<or> Ev_user_abort \<in> set (before_end evs);
            incomplete = (if chunks_of evs \<noteq> [] then Run_partial else Run_failed)
        in oc_status oc = (if timedOut then incomplete else if stopped then Run_cancelled
                           else if thrown evs \<noteq> None then incomplete else Run_completed)
           \<and> map_option fail_code (oc_failure oc) =
               (if timedOut then Some Run_timeout else if stopped then Some Cancelled_by_user
                else if thrown evs \<noteq> None then Some Engine_error else None)
           \<and> (case oc_failure oc of None \<Rightarrow> True | Some f \<Rightarrow> fail_retryable f)
           \<and> oc_exhaustive oc = (\<not> stopped \<and> (\<forall>c \<in> set (chunks_of evs). chunk_exhaustive c \<noteq> Some False)))
     \<and> oc_chunks oc = chunks_of evs \<and> (\<exists>k. oc_entities oc = take k (out_entities out))"
proof -
  obtain d where d: "drive evs (new_driver options) = Some d" using assms(3) by blast
  note facts = drive_facts [OF d]
  have chunks: "dv_chunks d = chunks_of evs" using facts by simp
  have net: "dv_usedNetwork d = (Ev_fetch \<in> set (before_end evs))" using facts by simp
  have pre: "\<exists>k. out_entities (truncate_output out n) = take k (out_entities out)" for n
    using js_slice0_prefix by (auto simp: truncate_output_def Let_def intro: exI [of _ "length (out_entities out)"])
  show ?thesis
    using assms facts d pre
    by (auto simp: runEngine_def conclude_def Let_def chunks net note_abort_def split: option.splits)
qed

theorem runEngine_status_follows_signal_witness:
  "\<exists>oc. runEngine sdk_demo_engine sdk_demo_options 520 [Ev_ready, Ev_chunk sdk_demo_chunk, Ev_timeout, Ev_race_lost] = Some (Inr oc)
     \<and> oc_status oc = Run_partial \<and> map_option fail_code (oc_failure oc) = Some Run_timeout
     \<and> \<not> oc_exhaustive oc \<and> oc_chunks oc = [sdk_demo_chunk]"
proof -
  let ?evs = "[Ev_ready, Ev_chunk sdk_demo_chunk, Ev_timeout, Ev_race_lost]"
  have eng: "eng_validateInput sdk_demo_engine i = Inr \<lparr>verdict_ok = True, verdict_reason = None, verdict_normalizedValue = None\<rparr>"
    "eng_cleanup sdk_demo_engine = None" "eng_permissions sdk_demo_engine = Inr [Perm_network]"
    "eng_normalize sdk_demo_engine [sdk_demo_chunk] j = Inr sdk_demo_output" for i j
    by (simp_all add: sdk_demo_engine_def)
  show ?thesis
    using runEngine_status_follows_signal [of sdk_demo_engine sdk_demo_options _ ?evs sdk_demo_output "[Perm_network]" 520,
        OF eng(1) _ _ eng(2) _ eng(3)] sdk_demo_output_valid
    by (simp add: eng effective_input_def take_chunk_def Let_def) blast
qed

text \<open>The promise never to throw covers the awaited part of the engine and its \<open>normalize\<close>, not the rest: \<open>runEngine\<close> rejects exactly when the engine's \<open>validateInput\<close>, its synchronous \<open>cleanup\<close> or, after a successful \<open>normalize\<close>, its \<open>metadata\<close> throws.\<close>

theorem runEngine_rejects_iff:
  "(\<exists>msg. runEngine eng options duration evs = Some (Inl msg)) \<longleftrightarrow>
     (\<exists>msg. eng_validateInput eng (ro_input options) = Inl msg)
     \<or> (\<exists>verdict d. eng_validateInput eng (ro_input options) = Inr verdict \<and> verdict_ok verdict
          \<and> drive evs (new_driver options) = Some d
          \<and> ((\<exists>msg. eng_cleanup eng = Some msg)
             \<or> ((\<exists>out. eng_normalize eng (chunks_of evs) (effective_input verdict (ro_input options)) = Inr out)
                \<and> (\<exists>msg. eng_permissions eng = Inl msg))))"
proof -
  have chunks: "dv_chunks d = chunks_of evs" if "drive evs (new_driver options) = Some d" for d
    using drive_facts [OF that] by simp
  have rejects: "(\<exists>msg. conclude eng options duration input d = Inl msg) \<longleftrightarrow>
      (\<exists>out. eng_normalize eng (dv_chunks d) input = Inr out) \<and> (\<exists>msg. eng_permissions eng = Inl msg)" for input d
    by (auto simp: conclude_def Let_def split: sum.splits list.splits option.splits)
  show ?thesis
    using chunks rejects by (auto simp: runEngine_def split: sum.splits option.splits)
qed

definition waiting_event :: "run_event \<Rightarrow> bool" where
  "waiting_event ev = (case ev of Ev_fetch \<Rightarrow> True | Ev_timeout \<Rightarrow> True | Ev_user_abort \<Rightarrow> True
     | Ev_chunk c \<Rightarrow> True | _ \<Rightarrow> False)"

lemma drive_deadline:
  "list_all waiting_event evs \<Longrightarrow> dv_started d \<Longrightarrow> drive (evs @ [Ev_timeout, Ev_race_lost]) d \<noteq> None"
  by (induction evs d rule: drive.induct) (auto simp: waiting_event_def take_chunk_def)

lemma drive_stuck:
  "set evs \<subseteq> {Ev_fetch, Ev_timeout, Ev_user_abort} \<Longrightarrow> drive evs d = None"
  by (induction evs d rule: drive.induct) auto



end
