(* ===== verification/JsValue.thy ===== *)
theory JsValue
  imports Prelude
begin

text \<open>
  Values of the type \<open>unknown\<close>, as the integration packages pass them around: what JSON can hold,
  and \<open>undefined\<close>. An object is the list of its own entries in enumeration order. How the language
  prints a floating-point number is the argument \<open>num\<close>.
\<close>

datatype js_value =
    J_undefined
  | J_null
  | J_bool bool
  | J_num js_num
  | J_str string
  | J_arr "js_value list"
  | J_obj "(string \<times> js_value) list"

type_synonym js_object = "(string \<times> js_value) list"

text \<open>\<open>obj[key]\<close>; an absent property reads as \<open>undefined\<close>.\<close>

definition prop_get :: "js_object \<Rightarrow> string \<Rightarrow> js_value" where
  "prop_get obj key = (case map_of obj key of None \<Rightarrow> J_undefined | Some v \<Rightarrow> v)"

text \<open>\<open>JSON.stringify\<close>.\<close>

definition hex_char :: "nat \<Rightarrow> char" where
  "hex_char d = (if d < 10 then char_of (48 + d) else char_of (87 + d))"

definition json_char :: "char \<Rightarrow> string" where
  "json_char c =
     (let n = code_unit c
      in if n = 34 then [CHR 0x5C, CHR 0x22]
         else if n = 92 then [CHR 0x5C, CHR 0x5C]
         else if n = 8 then [CHR 0x5C, CHR ''b'']
         else if n = 9 then [CHR 0x5C, CHR ''t'']
         else if n = 10 then [CHR 0x5C, CHR ''n'']
         else if n = 12 then [CHR 0x5C, CHR ''f'']
         else if n = 13 then [CHR 0x5C, CHR ''r'']
         else if n < 32 then [CHR 0x5C] @ ''u00'' @ [hex_char (nat n div 16), hex_char (nat n mod 16)]
         else [c])"

definition json_string :: "string \<Rightarrow> string" where
  "json_string s = [CHR 0x22] @ concat (map json_char s) @ [CHR 0x22]"

definition json_num :: "(real \<Rightarrow> string) \<Rightarrow> js_num \<Rightarrow> string" where
  "json_num num v = (case v of Finite r \<Rightarrow> num r | NonFinite \<Rightarrow> ''null'')"

fun json_text :: "(real \<Rightarrow> string) \<Rightarrow> js_value \<Rightarrow> string option" where
  "json_text num J_undefined = None"
| "json_text num J_null = Some ''null''"
| "json_text num (J_bool b) = Some (if b then ''true'' else ''false'')"
| "json_text num (J_num v) = Some (json_num num v)"
| "json_text num (J_str s) = Some (json_string s)"
| "json_text num (J_arr vs) =
     Some (''['' @ join_with '','' (map (\<lambda>v. case json_text num v of None \<Rightarrow> ''null'' | Some t \<Rightarrow> t) vs) @ '']'')"
| "json_text num (J_obj es) =
     Some (''{'' @ join_with '',''
        (concat (map (\<lambda>(k, v). case json_text num v of None \<Rightarrow> [] | Some t \<Rightarrow> [json_string k @ '':'' @ t]) es)) @ ''}'')"

text \<open>\<open>String(value)\<close>: an array joins its elements, the empty ones as nothing.\<close>

definition num_text :: "(real \<Rightarrow> string) \<Rightarrow> js_num \<Rightarrow> string" where
  "num_text num v = (case v of Finite r \<Rightarrow> num r | NonFinite \<Rightarrow> ''NaN'')"

fun js_string :: "(real \<Rightarrow> string) \<Rightarrow> js_value \<Rightarrow> string" where
  "js_string num J_undefined = ''undefined''"
| "js_string num J_null = ''null''"
| "js_string num (J_bool b) = (if b then ''true'' else ''false'')"
| "js_string num (J_num v) = num_text num v"
| "js_string num (J_str s) = s"
| "js_string num (J_arr vs) =
     join_with '','' (map (\<lambda>v. if v = J_undefined \<or> v = J_null then [] else js_string num v) vs)"
| "js_string num (J_obj es) = ''[object Object]''"

end
