(* ===== verification/IntegrationErrors.thy ===== *)
theory IntegrationErrors
  imports JsValue
begin

text \<open>
  The error taxonomy of \<open>packages/integrations/src/errors.ts\<close>: codes, the copy table with its retry
  policies, payloads, and what happens to anything thrown. The long dash and the arrow of the copy are
  written \<open>-\<close> and \<open>>\<close>, so that its lengths are those of the source.
\<close>

datatype IntegrationErrorCode =
    INPUT_INVALID | MANIFEST_INVALID | MANIFEST_TEMPLATE_UNRESOLVED | INTEGRATION_DISABLED
   | PERMISSION_DENIED | CONSENT_REQUIRED | CONSENT_EXPIRED | TARGET_NOT_ALLOWED
   | QUOTA_EXCEEDED | RATE_LIMITED | CONCURRENCY_LIMIT | QUEUE_TIMEOUT | APPROVAL_REQUIRED
   | APPROVAL_DENIED | IMAGE_PULL_TIMEOUT | IMAGE_DIGEST_MISMATCH | IMAGE_REGISTRY_DENIED
   | START_TIMEOUT | TOOL_UNAVAILABLE | TOOL_EXIT_NONZERO | TIMEOUT | OOM_KILLED | CANCELLED
   | SANDBOX_VIOLATION | RUNNER_CRASHED | EGRESS_DENIED | EGRESS_THROTTLED
   | UPSTREAM_UNAVAILABLE | UPSTREAM_AUTH_FAILED | UPSTREAM_RATE_LIMITED | OUTPUT_MISSING
   | OUTPUT_TOO_LARGE | PARSE_TIMEOUT | PARSE_UNSUPPORTED_SHAPE | PARSE_EMPTY
   | PROPOSAL_EXPIRED | TARGET_MISSING | APPLY_CONFLICT | PROVENANCE_MISSING | INTERNAL

record IntegrationErrorPayload =
  pay_code :: IntegrationErrorCode
  pay_what :: string
  pay_why :: string
  pay_action :: string
  pay_retryable :: bool
  pay_retryAfterMs :: "int option"
  pay_detail :: "js_object option"
  pay_runId :: "string option"

datatype RetryMode = Retry_auto | Retry_manual | Retry_never

record CopyRow =
  cr_what :: string
  cr_why :: string
  cr_action :: string
  cr_retry :: RetryMode
  cr_maxAttempts :: "nat option"
  cr_backoffMs :: "int list option"

primrec copy_row :: "IntegrationErrorCode \<Rightarrow> CopyRow" where
  "copy_row INPUT_INVALID =
     \<lparr>cr_what = ''That input isn't valid.'',
      cr_why = ''One of the fields does not match what this tool accepts.'',
      cr_action = ''Fix the highlighted field.'',
      cr_retry = Retry_never, cr_maxAttempts = None, cr_backoffMs = None\<rparr>"
| "copy_row MANIFEST_INVALID =
     \<lparr>cr_what = ''This tool couldn't be loaded.'',
      cr_why = ''Its manifest does not match the integration schema, so it was not registered.'',
      cr_action = ''Report this to your administrator.'',
      cr_retry = Retry_never, cr_maxAttempts = None, cr_backoffMs = None\<rparr>"
| "copy_row MANIFEST_TEMPLATE_UNRESOLVED =
     \<lparr>cr_what = ''The tool couldn't be prepared.'',
      cr_why = ''Its command template references a value that this run does not provide.'',
      cr_action = ''Report this to your administrator.'',
      cr_retry = Retry_never, cr_maxAttempts = None, cr_backoffMs = None\<rparr>"
| "copy_row INTEGRATION_DISABLED =
     \<lparr>cr_what = ''This tool is switched off.'',
      cr_why = ''An administrator disabled it for your organization.'',
      cr_action = ''Ask an admin to enable it.'',
      cr_retry = Retry_never, cr_maxAttempts = None, cr_backoffMs = None\<rparr>"
| "copy_row PERMISSION_DENIED =
     \<lparr>cr_what = ''You can't run this tool.'',
      cr_why = ''Your role in this project does not allow starting runs.'',
      cr_action = ''Ask a project admin for editor access.'',
      cr_retry = Retry_never, cr_maxAttempts = None, cr_backoffMs = None\<rparr>"
| "copy_row CONSENT_REQUIRED =
     \<lparr>cr_what = ''Confirm authorization first.'',
      cr_why = ''This tool contacts third-party services on your behalf.'',
      cr_action = ''Tick the authorization box to continue.'',
      cr_retry = Retry_never, cr_maxAttempts = None, cr_backoffMs = None\<rparr>"
| "copy_row CONSENT_EXPIRED =
     \<lparr>cr_what = ''Your authorization expired.'',
      cr_why = ''Consent is scoped to a target set and a time window, both of which have moved on.'',
      cr_action = ''Confirm the authorization again.'',
      cr_retry = Retry_never, cr_maxAttempts = None, cr_backoffMs = None\<rparr>"
| "copy_row TARGET_NOT_ALLOWED =
     \<lparr>cr_what = ''This target isn't permitted.'',
      cr_why = ''Your organization restricts this tool to assets you own.'',
      cr_action = ''Add the domain to Verified assets, or ask an admin.'',
      cr_retry = Retry_never, cr_maxAttempts = None, cr_backoffMs = None\<rparr>"
| "copy_row QUOTA_EXCEEDED =
     \<lparr>cr_what = ''Hourly limit reached.'',
      cr_why = ''You've used every run this tool allows you this hour.'',
      cr_action = ''Try again later, or ask an admin to raise the limit.'',
      cr_retry = Retry_never, cr_maxAttempts = None, cr_backoffMs = None\<rparr>"
| "copy_row RATE_LIMITED =
     \<lparr>cr_what = ''Slow down for a moment.'',
      cr_why = ''The same input ran a moment ago; results rarely change that fast.'',
      cr_action = ''Open the previous result, or wait and retry.'',
      cr_retry = Retry_never, cr_maxAttempts = None, cr_backoffMs = None\<rparr>"
| "copy_row CONCURRENCY_LIMIT =
     \<lparr>cr_what = ''Too many runs at once.'',
      cr_why = ''Your organization allows a fixed number of concurrent runs and they are all active.'',
      cr_action = ''Wait for a run to finish, or cancel one.'',
      cr_retry = Retry_never, cr_maxAttempts = None, cr_backoffMs = None\<rparr>"
| "copy_row QUEUE_TIMEOUT =
     \<lparr>cr_what = ''The run never started.'',
      cr_why = ''It waited 15 minutes for a free runner slot.'',
      cr_action = ''Start the run again in a few minutes.'',
      cr_retry = Retry_auto, cr_maxAttempts = Some 2, cr_backoffMs = Some [5000, 30000]\<rparr>"
| "copy_row APPROVAL_REQUIRED =
     \<lparr>cr_what = ''Waiting for approval.'',
      cr_why = ''A project admin must approve runs of this tool.'',
      cr_action = ''We've notified your admins - you'll get a notification.'',
      cr_retry = Retry_never, cr_maxAttempts = None, cr_backoffMs = None\<rparr>"
| "copy_row APPROVAL_DENIED =
     \<lparr>cr_what = ''An admin declined this run.'',
      cr_why = ''A project admin reviewed the request and denied it.'',
      cr_action = ''Ask the admin who declined for the reason.'',
      cr_retry = Retry_never, cr_maxAttempts = None, cr_backoffMs = None\<rparr>"
| "copy_row IMAGE_PULL_TIMEOUT =
     \<lparr>cr_what = ''The tool image took too long to download.'',
      cr_why = ''The registry did not answer within 120 seconds.'',
      cr_action = ''Retry; if it persists, tell your administrator.'',
      cr_retry = Retry_auto, cr_maxAttempts = Some 2, cr_backoffMs = Some [5000, 30000]\<rparr>"
| "copy_row IMAGE_DIGEST_MISMATCH =
     \<lparr>cr_what = ''Tool image failed verification.'',
      cr_why = ''The downloaded image doesn't match the pinned digest.'',
      cr_action = ''Contact your administrator - do not retry.'',
      cr_retry = Retry_never, cr_maxAttempts = None, cr_backoffMs = None\<rparr>"
| "copy_row IMAGE_REGISTRY_DENIED =
     \<lparr>cr_what = ''That image registry is not allowed.'',
      cr_why = ''The tool's image comes from a registry your organization does not trust.'',
      cr_action = ''Ask an admin to allow the registry, or remove the tool.'',
      cr_retry = Retry_never, cr_maxAttempts = None, cr_backoffMs = None\<rparr>"
| "copy_row START_TIMEOUT =
     \<lparr>cr_what = ''The tool couldn't start in time.'',
      cr_why = ''The sandbox did not report a running container within 30 seconds.'',
      cr_action = ''Retry; if it persists, tell your administrator.'',
      cr_retry = Retry_auto, cr_maxAttempts = Some 2, cr_backoffMs = Some [5000, 30000]\<rparr>"
| "copy_row TOOL_UNAVAILABLE =
     \<lparr>cr_what = ''The tool couldn't start.'',
      cr_why = ''The container image isn't available on this server.'',
      cr_action = ''Ask an admin to pull the image, then retry.'',
      cr_retry = Retry_manual, cr_maxAttempts = None, cr_backoffMs = None\<rparr>"
| "copy_row TOOL_EXIT_NONZERO =
     \<lparr>cr_what = ''The tool stopped with an error.'',
      cr_why = ''It exited with a non-zero status code.'',
      cr_action = ''Open the run log to see the tool's own message.'',
      cr_retry = Retry_manual, cr_maxAttempts = None, cr_backoffMs = None\<rparr>"
| "copy_row TIMEOUT =
     \<lparr>cr_what = ''The run hit its time limit.'',
      cr_why = ''It ran for the maximum wall-clock time allowed for this tool.'',
      cr_action = ''Narrow the input, or import the partial results.'',
      cr_retry = Retry_manual, cr_maxAttempts = None, cr_backoffMs = None\<rparr>"
| "copy_row OOM_KILLED =
     \<lparr>cr_what = ''The run ran out of memory.'',
      cr_why = ''It exceeded the memory limit configured for this tool.'',
      cr_action = ''Reduce the scope, or ask an admin to raise the limit.'',
      cr_retry = Retry_manual, cr_maxAttempts = None, cr_backoffMs = None\<rparr>"
| "copy_row CANCELLED =
     \<lparr>cr_what = ''The run was cancelled.'',
      cr_why = ''Someone stopped it before it finished.'',
      cr_action = ''Start it again if you still need the result.'',
      cr_retry = Retry_manual, cr_maxAttempts = None, cr_backoffMs = None\<rparr>"
| "copy_row SANDBOX_VIOLATION =
     \<lparr>cr_what = ''The run was stopped for safety.'',
      cr_why = ''The tool attempted an operation the sandbox forbids.'',
      cr_action = ''Report this integration to your administrator.'',
      cr_retry = Retry_never, cr_maxAttempts = None, cr_backoffMs = None\<rparr>"
| "copy_row RUNNER_CRASHED =
     \<lparr>cr_what = ''The run stopped unexpectedly.'',
      cr_why = ''The runner process ended while the tool was still executing.'',
      cr_action = ''Retry; anything already collected is still available.'',
      cr_retry = Retry_manual, cr_maxAttempts = None, cr_backoffMs = None\<rparr>"
| "copy_row EGRESS_DENIED =
     \<lparr>cr_what = ''A network request was blocked.'',
      cr_why = ''The tool tried to reach a private address, which is never allowed.'',
      cr_action = ''Import what was collected, or report the tool.'',
      cr_retry = Retry_never, cr_maxAttempts = None, cr_backoffMs = None\<rparr>"
| "copy_row EGRESS_THROTTLED =
     \<lparr>cr_what = ''The tool was slowed down.'',
      cr_why = ''It exceeded the outbound request rate allowed for this run.'',
      cr_action = ''Import the results, or narrow the scope and retry.'',
      cr_retry = Retry_manual, cr_maxAttempts = None, cr_backoffMs = None\<rparr>"
| "copy_row UPSTREAM_UNAVAILABLE =
     \<lparr>cr_what = ''The service didn't answer.'',
      cr_why = ''The third-party service returned a server error.'',
      cr_action = ''We'll retry automatically - or run again later.'',
      cr_retry = Retry_auto, cr_maxAttempts = Some 3, cr_backoffMs = Some [2000, 8000, 32000]\<rparr>"
| "copy_row UPSTREAM_AUTH_FAILED =
     \<lparr>cr_what = ''The service rejected our credentials.'',
      cr_why = ''The stored token for this tool is invalid or expired.'',
      cr_action = ''Update the token in Settings > Secrets.'',
      cr_retry = Retry_never, cr_maxAttempts = None, cr_backoffMs = None\<rparr>"
| "copy_row UPSTREAM_RATE_LIMITED =
     \<lparr>cr_what = ''The service asked us to wait.'',
      cr_why = ''The third-party rate limit was reached.'',
      cr_action = ''We'll retry automatically - or run again later.'',
      cr_retry = Retry_auto, cr_maxAttempts = Some 2, cr_backoffMs = Some [5000, 30000]\<rparr>"
| "copy_row OUTPUT_MISSING =
     \<lparr>cr_what = ''The tool produced no output file.'',
      cr_why = ''It exited successfully but wrote nothing to its declared output.'',
      cr_action = ''Open the run log; this usually means no matches.'',
      cr_retry = Retry_manual, cr_maxAttempts = None, cr_backoffMs = None\<rparr>"
| "copy_row OUTPUT_TOO_LARGE =
     \<lparr>cr_what = ''Output was too large.'',
      cr_why = ''The tool wrote more than its output cap; we kept everything up to the cap.'',
      cr_action = ''Import the partial results, or narrow the scope.'',
      cr_retry = Retry_manual, cr_maxAttempts = None, cr_backoffMs = None\<rparr>"
| "copy_row PARSE_TIMEOUT =
     \<lparr>cr_what = ''Reading the output took too long.'',
      cr_why = ''Parsing exceeded 120 seconds; the raw artifacts were kept.'',
      cr_action = ''Download the raw output, or narrow the scope and retry.'',
      cr_retry = Retry_manual, cr_maxAttempts = None, cr_backoffMs = None\<rparr>"
| "copy_row PARSE_UNSUPPORTED_SHAPE =
     \<lparr>cr_what = ''We couldn't read the tool's output.'',
      cr_why = ''The format doesn't match the version this adapter targets.'',
      cr_action = ''Download the raw output and report this - no data was imported.'',
      cr_retry = Retry_manual, cr_maxAttempts = None, cr_backoffMs = None\<rparr>"
| "copy_row PARSE_EMPTY =
     \<lparr>cr_what = ''No results found.'',
      cr_why = ''The tool ran to completion and reported nothing for this input.'',
      cr_action = ''Try a different input, or another tool.'',
      cr_retry = Retry_manual, cr_maxAttempts = None, cr_backoffMs = None\<rparr>"
| "copy_row PROPOSAL_EXPIRED =
     \<lparr>cr_what = ''This result set expired.'',
      cr_why = ''Proposals are kept for 7 days so imports reflect current data.'',
      cr_action = ''Re-run the tool.'',
      cr_retry = Retry_manual, cr_maxAttempts = None, cr_backoffMs = None\<rparr>"
| "copy_row TARGET_MISSING =
     \<lparr>cr_what = ''Some items couldn't be applied.'',
      cr_why = ''Nodes they referenced were deleted while you reviewed.'',
      cr_action = ''Re-run to get a fresh proposal.'',
      cr_retry = Retry_manual, cr_maxAttempts = None, cr_backoffMs = None\<rparr>"
| "copy_row APPLY_CONFLICT =
     \<lparr>cr_what = ''Some fields need a decision.'',
      cr_why = ''The incoming values disagree with what is already on the board.'',
      cr_action = ''Resolve the highlighted conflicts, then apply.'',
      cr_retry = Retry_never, cr_maxAttempts = None, cr_backoffMs = None\<rparr>"
| "copy_row PROVENANCE_MISSING =
     \<lparr>cr_what = ''Something went wrong on our side.'',
      cr_why = ''A proposed item carried no provenance, so it was refused (N4).'',
      cr_action = ''Report this with the run reference.'',
      cr_retry = Retry_never, cr_maxAttempts = None, cr_backoffMs = None\<rparr>"
| "copy_row INTERNAL =
     \<lparr>cr_what = ''Something went wrong on our side.'',
      cr_why = ''The run failed before it produced results.'',
      cr_action = ''Retry; if it persists, send us the run reference.'',
      cr_retry = Retry_auto, cr_maxAttempts = Some 2, cr_backoffMs = Some [5000, 30000]\<rparr>"

definition INTEGRATION_ERROR_CODES :: "IntegrationErrorCode list" where
  "INTEGRATION_ERROR_CODES =
     [INPUT_INVALID, MANIFEST_INVALID, MANIFEST_TEMPLATE_UNRESOLVED, INTEGRATION_DISABLED, PERMISSION_DENIED,
      CONSENT_REQUIRED, CONSENT_EXPIRED, TARGET_NOT_ALLOWED, QUOTA_EXCEEDED, RATE_LIMITED,
      CONCURRENCY_LIMIT, QUEUE_TIMEOUT, APPROVAL_REQUIRED, APPROVAL_DENIED, IMAGE_PULL_TIMEOUT,
      IMAGE_DIGEST_MISMATCH, IMAGE_REGISTRY_DENIED, START_TIMEOUT, TOOL_UNAVAILABLE, TOOL_EXIT_NONZERO,
      TIMEOUT, OOM_KILLED, CANCELLED, SANDBOX_VIOLATION, RUNNER_CRASHED,
      EGRESS_DENIED, EGRESS_THROTTLED, UPSTREAM_UNAVAILABLE, UPSTREAM_AUTH_FAILED, UPSTREAM_RATE_LIMITED,
      OUTPUT_MISSING, OUTPUT_TOO_LARGE, PARSE_TIMEOUT, PARSE_UNSUPPORTED_SHAPE, PARSE_EMPTY,
      PROPOSAL_EXPIRED, TARGET_MISSING, APPLY_CONFLICT, PROVENANCE_MISSING, INTERNAL]"

primrec code_str :: "IntegrationErrorCode \<Rightarrow> string" where
  "code_str INPUT_INVALID = ''INPUT_INVALID''"
| "code_str MANIFEST_INVALID = ''MANIFEST_INVALID''"
| "code_str MANIFEST_TEMPLATE_UNRESOLVED = ''MANIFEST_TEMPLATE_UNRESOLVED''"
| "code_str INTEGRATION_DISABLED = ''INTEGRATION_DISABLED''"
| "code_str PERMISSION_DENIED = ''PERMISSION_DENIED''"
| "code_str CONSENT_REQUIRED = ''CONSENT_REQUIRED''"
| "code_str CONSENT_EXPIRED = ''CONSENT_EXPIRED''"
| "code_str TARGET_NOT_ALLOWED = ''TARGET_NOT_ALLOWED''"
| "code_str QUOTA_EXCEEDED = ''QUOTA_EXCEEDED''"
| "code_str RATE_LIMITED = ''RATE_LIMITED''"
| "code_str CONCURRENCY_LIMIT = ''CONCURRENCY_LIMIT''"
| "code_str QUEUE_TIMEOUT = ''QUEUE_TIMEOUT''"
| "code_str APPROVAL_REQUIRED = ''APPROVAL_REQUIRED''"
| "code_str APPROVAL_DENIED = ''APPROVAL_DENIED''"
| "code_str IMAGE_PULL_TIMEOUT = ''IMAGE_PULL_TIMEOUT''"
| "code_str IMAGE_DIGEST_MISMATCH = ''IMAGE_DIGEST_MISMATCH''"
| "code_str IMAGE_REGISTRY_DENIED = ''IMAGE_REGISTRY_DENIED''"
| "code_str START_TIMEOUT = ''START_TIMEOUT''"
| "code_str TOOL_UNAVAILABLE = ''TOOL_UNAVAILABLE''"
| "code_str TOOL_EXIT_NONZERO = ''TOOL_EXIT_NONZERO''"
| "code_str TIMEOUT = ''TIMEOUT''"
| "code_str OOM_KILLED = ''OOM_KILLED''"
| "code_str CANCELLED = ''CANCELLED''"
| "code_str SANDBOX_VIOLATION = ''SANDBOX_VIOLATION''"
| "code_str RUNNER_CRASHED = ''RUNNER_CRASHED''"
| "code_str EGRESS_DENIED = ''EGRESS_DENIED''"
| "code_str EGRESS_THROTTLED = ''EGRESS_THROTTLED''"
| "code_str UPSTREAM_UNAVAILABLE = ''UPSTREAM_UNAVAILABLE''"
| "code_str UPSTREAM_AUTH_FAILED = ''UPSTREAM_AUTH_FAILED''"
| "code_str UPSTREAM_RATE_LIMITED = ''UPSTREAM_RATE_LIMITED''"
| "code_str OUTPUT_MISSING = ''OUTPUT_MISSING''"
| "code_str OUTPUT_TOO_LARGE = ''OUTPUT_TOO_LARGE''"
| "code_str PARSE_TIMEOUT = ''PARSE_TIMEOUT''"
| "code_str PARSE_UNSUPPORTED_SHAPE = ''PARSE_UNSUPPORTED_SHAPE''"
| "code_str PARSE_EMPTY = ''PARSE_EMPTY''"
| "code_str PROPOSAL_EXPIRED = ''PROPOSAL_EXPIRED''"
| "code_str TARGET_MISSING = ''TARGET_MISSING''"
| "code_str APPLY_CONFLICT = ''APPLY_CONFLICT''"
| "code_str PROVENANCE_MISSING = ''PROVENANCE_MISSING''"
| "code_str INTERNAL = ''INTERNAL''"

record RetryPolicy =
  rp_mode :: RetryMode
  rp_maxAttempts :: int
  rp_delayMs :: "int list"

definition retryPolicy :: "IntegrationErrorCode \<Rightarrow> RetryPolicy" where
  "retryPolicy code =
     (let row = copy_row code
      in \<lparr>rp_mode = cr_retry row,
          rp_maxAttempts =
            (if cr_retry row = Retry_auto
             then (case cr_maxAttempts row of None \<Rightarrow> 2 | Some n \<Rightarrow> int n) else 1),
          rp_delayMs = (case cr_backoffMs row of None \<Rightarrow> [] | Some ds \<Rightarrow> ds)\<rparr>)"

text \<open>\<open>Math.round\<close>; the random number in the unit interval is an argument.\<close>

definition math_round :: "real \<Rightarrow> int" where
  "math_round x = \<lfloor>x + 1 / 2\<rfloor>"

definition retryDelayMs :: "IntegrationErrorCode \<Rightarrow> int \<Rightarrow> real \<Rightarrow> int option" where
  "retryDelayMs code attempt random =
     (let policy = retryPolicy code
      in if rp_mode policy \<noteq> Retry_auto \<or> rp_maxAttempts policy \<le> attempt then None
         else (let base = (case nth_opt (rp_delayMs policy) (attempt - 1) of
                             None \<Rightarrow> last_opt (rp_delayMs policy) | Some d \<Rightarrow> Some d)
               in case base of
                    None \<Rightarrow> None
                  | Some d \<Rightarrow> Some (math_round (of_int d * (8 / 10 + random * (4 / 10))))))"

definition shouldRetry :: "IntegrationErrorCode \<Rightarrow> int \<Rightarrow> bool" where
  "shouldRetry code attempt \<longleftrightarrow>
     rp_mode (retryPolicy code) = Retry_auto \<and> attempt < rp_maxAttempts (retryPolicy code)"

record PayloadOptions =
  po_why :: "string option"
  po_action :: "string option"
  po_detail :: "js_object option"
  po_runId :: "string option"
  po_retryAfterMs :: "int option"

definition no_options :: PayloadOptions where
  "no_options = \<lparr>po_why = None, po_action = None, po_detail = None, po_runId = None, po_retryAfterMs = None\<rparr>"

definition payloadFor :: "IntegrationErrorCode \<Rightarrow> PayloadOptions \<Rightarrow> IntegrationErrorPayload" where
  "payloadFor code options =
     (let row = copy_row code
      in \<lparr>pay_code = code, pay_what = cr_what row,
          pay_why = (case po_why options of None \<Rightarrow> cr_why row | Some w \<Rightarrow> w),
          pay_action = (case po_action options of None \<Rightarrow> cr_action row | Some a \<Rightarrow> a),
          pay_retryable = (rp_mode (retryPolicy code) \<noteq> Retry_never),
          pay_retryAfterMs = po_retryAfterMs options, pay_detail = po_detail options,
          pay_runId = po_runId options\<rparr>)"

text \<open>The one error class of the pipeline, as a value.\<close>

record IntegrationError =
  ie_code :: IntegrationErrorCode
  ie_payload :: IntegrationErrorPayload
  ie_message :: string

definition integration_error :: "IntegrationErrorCode \<Rightarrow> PayloadOptions \<Rightarrow> IntegrationError" where
  "integration_error code options =
     (let payload = payloadFor code options
      in \<lparr>ie_code = code, ie_payload = payload,
          ie_message = code_str code @ '': '' @ pay_what payload @ '' '' @ pay_why payload\<rparr>)"

text \<open>What a \<open>catch\<close> may see: the class above, another \<open>Error\<close> with its message, or any other value
  with the text \<open>String\<close> gives it.\<close>

datatype thrown = Thrown_integration IntegrationError | Thrown_error string | Thrown_other string

definition isIntegrationError :: "thrown \<Rightarrow> bool" where
  "isIntegrationError t = (case t of Thrown_integration e \<Rightarrow> True | _ \<Rightarrow> False)"

definition toErrorPayload :: "thrown \<Rightarrow> string option \<Rightarrow> IntegrationErrorPayload" where
  "toErrorPayload t runId =
     (let wrap = (\<lambda>message. payloadFor INTERNAL
                    (no_options\<lparr>po_runId := runId, po_detail := Some [(''message'', J_str message)]\<rparr>))
      in case t of
           Thrown_integration e \<Rightarrow>
             (case runId of None \<Rightarrow> ie_payload e | Some r \<Rightarrow> (ie_payload e)\<lparr>pay_runId := Some r\<rparr>)
         | Thrown_error message \<Rightarrow> wrap message
         | Thrown_other text \<Rightarrow> wrap text)"

section \<open>Facts about the table\<close>

lemma all_codes: "set INTEGRATION_ERROR_CODES = UNIV"
proof -
  have "code \<in> set INTEGRATION_ERROR_CODES" for code by (cases code) (simp_all add: INTEGRATION_ERROR_CODES_def)
  then show ?thesis by blast
qed

lemma retry_table:
  "rp_mode (retryPolicy code) = Retry_auto \<longleftrightarrow> cr_maxAttempts (copy_row code) \<noteq> None"
  "rp_maxAttempts (retryPolicy code) = int (length (rp_delayMs (retryPolicy code))) \<or>
   rp_maxAttempts (retryPolicy code) = 1 \<and> rp_delayMs (retryPolicy code) = []"
  "rp_maxAttempts (retryPolicy code) \<le> 3"
  "d \<in> set (rp_delayMs (retryPolicy code)) \<Longrightarrow> 2000 \<le> d \<and> d \<le> 32000"
  "sorted (rp_delayMs (retryPolicy code))"
  by (cases code; auto simp: retryPolicy_def)+

lemma auto_has_delays: "rp_mode (retryPolicy code) = Retry_auto \<Longrightarrow> rp_delayMs (retryPolicy code) \<noteq> []"
  by (cases code) (auto simp: retryPolicy_def)

lemma math_round_bounds: "x - 1 / 2 \<le> of_int (math_round x) \<and> of_int (math_round x) \<le> x + 1 / 2"
  unfolding math_round_def by linarith

lemma shouldRetry_delay:
  assumes "1 \<le> attempt" "shouldRetry code attempt"
  shows "attempt \<le> 2 \<and> attempt < int (length (rp_delayMs (retryPolicy code)))
     \<and> nth_opt (rp_delayMs (retryPolicy code)) (attempt - 1) = Some (rp_delayMs (retryPolicy code) ! nat (attempt - 1))"
proof -
  have "attempt \<le> 2" "attempt < int (length (rp_delayMs (retryPolicy code)))"
    using assms retry_table(2,3) [of code] by (auto simp: shouldRetry_def)
  then show ?thesis using assms(1) by (simp add: nth_opt_def)
qed

section \<open>Properties\<close>

text \<open>The retry schedule: after a failed attempt there is a delay exactly when the run may be retried, never after the third attempt, and with a random number of the unit interval the delay is the configured one of that attempt plus or minus a fifth, rounded, between 1.6 and 38.4 seconds. The last configured delay of a code is never used.\<close>

theorem retry_schedule:
  assumes "1 \<le> attempt" "0 \<le> random" "random < 1"
  shows "(retryDelayMs code attempt random \<noteq> None) = shouldRetry code attempt
     \<and> (case retryDelayMs code attempt random of
          None \<Rightarrow> True
        | Some d \<Rightarrow> attempt \<le> 2 \<and> attempt < int (length (rp_delayMs (retryPolicy code)))
            \<and> \<bar>of_int d - of_int (rp_delayMs (retryPolicy code) ! nat (attempt - 1))\<bar>
                \<le> (of_int (rp_delayMs (retryPolicy code) ! nat (attempt - 1)) / 5 + 1 / 2 :: real)
            \<and> 1600 \<le> d \<and> d \<le> 38400)"
proof (cases "shouldRetry code attempt")
  case False
  then have "retryDelayMs code attempt random = None" by (auto simp: retryDelayMs_def shouldRetry_def Let_def)
  then show ?thesis using False by simp
next
  case True
  let ?b = "rp_delayMs (retryPolicy code) ! nat (attempt - 1)"
  note n = shouldRetry_delay [OF assms(1) True]
  then have "?b \<in> set (rp_delayMs (retryPolicy code))" using assms(1) by (intro nth_mem) linarith
  then have b: "2000 \<le> ?b" "?b \<le> 32000" using retry_table(4) by auto
  define x where "x = (of_int ?b * (8 / 10 + random * (4 / 10)) :: real)"
  have d: "retryDelayMs code attempt random = Some (math_round x)"
    using True n by (simp add: retryDelayMs_def shouldRetry_def Let_def x_def)
  have "of_int ?b * (8 / 10) \<le> x"
    unfolding x_def using assms b by (intro mult_left_mono) auto
  moreover have "x \<le> of_int ?b * (12 / 10)"
    unfolding x_def using assms b by (intro mult_left_mono) auto
  ultimately show ?thesis
    unfolding d using True n b math_round_bounds [of x] by (auto; linarith)
qed

theorem retry_schedule_witness:
  "retryDelayMs UPSTREAM_UNAVAILABLE 2 (1 / 2) = Some 8000
     \<and> shouldRetry UPSTREAM_UNAVAILABLE 2 \<and> retryDelayMs UPSTREAM_UNAVAILABLE 3 (1 / 2) = None"
proof -
  have "retryDelayMs UPSTREAM_UNAVAILABLE 2 (1 / 2) = Some 8000"
    by (simp add: retryDelayMs_def retryPolicy_def nth_opt_def math_round_def Let_def)
  then show ?thesis
    using retry_schedule [of 2 "1 / 2" UPSTREAM_UNAVAILABLE] retry_schedule [of 3 "1 / 2" UPSTREAM_UNAVAILABLE]
    by (simp split: option.splits)
qed

lemma copy_fits:
  "length (cr_what (copy_row code)) \<le> 90"
  "length (cr_why (copy_row code)) \<le> 140"
  "length (cr_action (copy_row code)) \<le> 90"
  by (cases code; simp)+

text \<open>Whatever is thrown becomes a canonical payload: its first sentence is the one of the copy table for its code, in at most 90 characters, a reason and an action that nobody specialised are those of the table and have at most 140 and 90 characters, it is retryable exactly when the code is not marked never, a given run is recorded, and anything but an integration error has the code INTERNAL and carries its message.\<close>

theorem toErrorPayload_is_canonical:
  assumes "\<And>e. t = Thrown_integration e \<Longrightarrow> e = integration_error code options"
  shows "let payload = toErrorPayload t runId; row = copy_row (pay_code payload)
     in pay_what payload = cr_what row \<and> length (pay_what payload) \<le> 90
        \<and> pay_retryable payload = (cr_retry row \<noteq> Retry_never)
        \<and> (if isIntegrationError t
           then pay_code payload = code
             \<and> pay_why payload = (case po_why options of None \<Rightarrow> cr_why row | Some w \<Rightarrow> w)
             \<and> pay_action payload = (case po_action options of None \<Rightarrow> cr_action row | Some a \<Rightarrow> a)
           else pay_code payload = INTERNAL \<and> pay_why payload = cr_why row \<and> pay_action payload = cr_action row
             \<and> length (pay_why payload) \<le> 140 \<and> length (pay_action payload) \<le> 90
             \<and> pay_detail payload = Some [(''message'', J_str (case t of Thrown_other text \<Rightarrow> text | Thrown_error m \<Rightarrow> m))])
        \<and> (case runId of None \<Rightarrow> True | Some r \<Rightarrow> pay_runId payload = Some r)"
proof (cases t)
  case (Thrown_integration e)
  then have e: "t = Thrown_integration (integration_error code options)" using assms by simp
  show ?thesis
    unfolding e using copy_fits
    by (cases runId; cases "po_why options"; cases "po_action options")
      (simp_all add: toErrorPayload_def integration_error_def payloadFor_def retryPolicy_def isIntegrationError_def Let_def)
qed (use copy_fits [of INTERNAL] in
  \<open>auto simp: toErrorPayload_def payloadFor_def retryPolicy_def isIntegrationError_def no_options_def Let_def
     simp del: copy_row.simps split: option.split\<close>)

theorem toErrorPayload_is_canonical_witness:
  "pay_what (toErrorPayload (Thrown_integration (integration_error TIMEOUT no_options)) (Some ''r1'')) = cr_what (copy_row TIMEOUT)"
proof -
  have "pay_code (toErrorPayload (Thrown_integration (integration_error TIMEOUT no_options)) (Some ''r1'')) = TIMEOUT"
    by (simp add: toErrorPayload_def integration_error_def payloadFor_def Let_def)
  with toErrorPayload_is_canonical [of "Thrown_integration (integration_error TIMEOUT no_options)" TIMEOUT no_options "Some ''r1''"]
  show ?thesis by (simp add: Let_def del: copy_row.simps)
qed

end
