(* ===== verification/IntegrationNormalize.thy ===== *)
theory IntegrationNormalize
  imports NetPolicy JsValue
begin

text \<open>
  Canonical forms of extracted values, \<open>packages/integrations/src/extract/normalizers.ts\<close>, and the
  identity keys built from them, \<open>resolve/identity.ts\<close>. The WHATWG URL parser and its serializer are
  the argument \<open>url_api\<close>. Dashes outside Latin-1 do not occur in the model's strings, so the phone
  normalizer has none to strip.
\<close>

section \<open>Kinds and results\<close>

datatype ikind =
    IK_domain | IK_url | IK_email | IK_username | IK_ip | IK_hash | IK_phone | IK_handle | IK_repo
  | IK_person | IK_organization | IK_file | IK_note | IK_unknown

primrec ikind_str :: "ikind \<Rightarrow> string" where
  "ikind_str IK_domain = ''domain''"
| "ikind_str IK_url = ''url''"
| "ikind_str IK_email = ''email''"
| "ikind_str IK_username = ''username''"
| "ikind_str IK_ip = ''ip''"
| "ikind_str IK_hash = ''hash''"
| "ikind_str IK_phone = ''phone''"
| "ikind_str IK_handle = ''handle''"
| "ikind_str IK_repo = ''repo''"
| "ikind_str IK_person = ''person''"
| "ikind_str IK_organization = ''organization''"
| "ikind_str IK_file = ''file''"
| "ikind_str IK_note = ''note''"
| "ikind_str IK_unknown = ''unknown''"

record NormalizeResult =
  nr_ok :: bool
  nr_value :: "string option"
  nr_display :: "string option"
  nr_meta :: "js_object option"
  nr_reason :: "string option"

record url_api =
  ua_parse :: "string \<Rightarrow> js_url option"
  ua_render :: "js_url \<Rightarrow> string"

definition norm_fail :: "string \<Rightarrow> NormalizeResult" where
  "norm_fail reason =
     \<lparr>nr_ok = False, nr_value = None, nr_display = None, nr_meta = None, nr_reason = Some reason\<rparr>"

definition norm_ok :: "string \<Rightarrow> string \<Rightarrow> js_object option \<Rightarrow> NormalizeResult" where
  "norm_ok v display meta =
     \<lparr>nr_ok = True, nr_value = Some v, nr_display = Some display, nr_meta = meta, nr_reason = None\<rparr>"

definition is_control :: "char \<Rightarrow> bool" where
  "is_control c \<longleftrightarrow> code_unit c < 32 \<or> code_unit c = 127"

definition TRACKING_PARAMS :: "string list" where
  "TRACKING_PARAMS = [''fbclid'', ''gclid'', ''mc_eid'', ''igshid'', ''ref'', ''ref_src'']"

definition MULTI_LABEL_SUFFIXES :: "string list" where
  "MULTI_LABEL_SUFFIXES =
     [''co.uk'', ''org.uk'', ''ac.uk'', ''gov.uk'', ''co.jp'', ''ne.jp'', ''or.jp'', ''com.au'', ''net.au'',
      ''org.au'', ''com.br'', ''com.cn'', ''com.mx'', ''co.in'', ''co.nz'', ''co.za'', ''com.tr'', ''github.io'']"

definition TAG_SUPPORTING_DOMAINS :: "string list" where
  "TAG_SUPPORTING_DOMAINS = [''gmail.com'', ''googlemail.com'']"

definition HASH_ALGOS :: "nat \<Rightarrow> string option" where
  "HASH_ALGOS n =
     (if n = 32 then Some ''md5'' else if n = 40 then Some ''sha1''
      else if n = 64 then Some ''sha256'' else if n = 128 then Some ''sha512'' else None)"

definition is_hex_digit :: "char \<Rightarrow> bool" where
  "is_hex_digit c \<longleftrightarrow> is_digit c \<or> 97 \<le> code_unit c \<and> code_unit c \<le> 102"

definition no_space :: "string \<Rightarrow> bool" where
  "no_space s \<longleftrightarrow> s \<noteq> [] \<and> list_all (\<lambda>c. \<not> is_space c) s"

text \<open>\<open>EMAIL_RE\<close>.\<close>

definition email_shape :: "string \<Rightarrow> bool" where
  "email_shape s \<longleftrightarrow>
     (case split_on (CHR ''@'') s of
        [l, h] \<Rightarrow> no_space l \<and> 2 \<le> length (split_on (CHR ''.'') h) \<and> list_all no_space (split_on (CHR ''.'') h)
      | _ \<Rightarrow> False)"

definition toAscii :: "url_api \<Rightarrow> string \<Rightarrow> string option" where
  "toAscii api host =
     (case ua_parse api (''http://'' @ host) of
        None \<Rightarrow> None
      | Some u \<Rightarrow> if url_hostname u = '''' then None else Some (url_hostname u))"

section \<open>Addresses\<close>

definition isIpv4 :: "string \<Rightarrow> bool" where
  "isIpv4 v \<longleftrightarrow>
     (let parts = split_on (CHR ''.'') v
      in length parts = 4 \<and> list_all (\<lambda>p. is_octet_text p \<and> dec_val p \<le> 255) parts)"

definition canonical_octet :: "string \<Rightarrow> bool" where
  "canonical_octet p \<longleftrightarrow>
     is_octet_text p \<and> \<not> (1 < length p \<and> starts_with ''0'' p) \<and> dec_val p \<le> 255"

definition canonicalIpv4 :: "string \<Rightarrow> string option" where
  "canonicalIpv4 v =
     (let parts = split_on (CHR ''.'') v
      in if length parts = 4 \<and> list_all canonical_octet parts then Some (join_with ''.'' parts) else None)"

text \<open>\<open>parseInt(s, 16)\<close> of hexadecimal digits and \<open>n.toString(16)\<close>.\<close>

definition hex_digit_val :: "char \<Rightarrow> int" where
  "hex_digit_val c = (if is_digit c then code_unit c - 48 else code_unit c - 87)"

definition hex_val :: "string \<Rightarrow> int" where
  "hex_val s = foldl (\<lambda>n c. 16 * n + hex_digit_val c) 0 s"

function hex_str :: "int \<Rightarrow> string" where
  "hex_str n = (if n < 16 then [hex_char (nat n)] else hex_str (n div 16) @ [hex_char (nat (n mod 16))])"
  by pat_completeness auto
termination by (relation "measure nat") (auto simp: nat_less_eq_zless)

declare hex_str.simps [simp del]

text \<open>\<open>value.split('::')\<close>.\<close>

fun split_dcolon :: "string \<Rightarrow> string list" where
  "split_dcolon [] = [[]]"
| "split_dcolon [c] = [[c]]"
| "split_dcolon (c # d # cs) =
     (if c = CHR '':'' \<and> d = CHR '':'' then [] # split_dcolon cs
      else (case split_dcolon (d # cs) of [] \<Rightarrow> [[c]] | w # ws \<Rightarrow> (c # w) # ws))"

definition expand_piece :: "string \<Rightarrow> string list option" where
  "expand_piece piece =
     (if CHR ''.'' \<in> set piece
      then (case canonicalIpv4 piece of
              None \<Rightarrow> None
            | Some quad \<Rightarrow>
                (let o4 = map (\<lambda>p. dec_val p) (split_on (CHR ''.'') quad)
                 in Some [hex_str (256 * o4 ! 0 + o4 ! 1), hex_str (256 * o4 ! 2 + o4 ! 3)]))
      else if piece \<noteq> [] \<and> length piece \<le> 4 \<and> list_all is_hex_digit piece
      then Some [hex_str (hex_val piece)] else None)"

fun expand_pieces :: "string list \<Rightarrow> string list option" where
  "expand_pieces [] = Some []"
| "expand_pieces (p # ps) =
     (case expand_piece p of
        None \<Rightarrow> None
      | Some gs \<Rightarrow> (case expand_pieces ps of None \<Rightarrow> None | Some hs \<Rightarrow> Some (gs @ hs)))"

definition expand_half :: "string \<Rightarrow> string list option" where
  "expand_half part = (if part = '''' then Some [] else expand_pieces (split_on (CHR '':'') part))"

text \<open>The eight groups an address denotes.\<close>

definition ipv6_groups :: "string \<Rightarrow> string list option" where
  "ipv6_groups v =
     (let halves = split_dcolon v; two = (length halves = 2)
      in if 2 < length halves then None
         else (case (expand_half (halves ! 0), if two then expand_half (halves ! 1) else Some []) of
                 (Some head, Some tail) \<Rightarrow>
                   (let missing = 8 - int (length head) - int (length tail)
                    in if (if two then missing < 1 else missing \<noteq> 0) then None
                       else (let groups = head @ replicate (if two then nat missing else 0) ''0'' @ tail
                             in if length groups \<noteq> 8 then None else Some groups))
               | _ \<Rightarrow> None))"

text \<open>The loop that finds the longest run of zero groups: \<open>(bestStart, bestLen, start)\<close>, \<open>-1\<close> for none.\<close>

definition close_run :: "int \<Rightarrow> int \<times> int \<times> int \<Rightarrow> int \<times> int \<times> int" where
  "close_run i s =
     (case s of (bestStart, bestLen, start) \<Rightarrow>
        if start = -1 then s
        else (let len = i - start
              in if bestLen < len \<and> 2 \<le> len then (start, len, -1) else (bestStart, bestLen, -1)))"

fun zero_run :: "string list \<Rightarrow> int \<Rightarrow> int \<times> int \<times> int \<Rightarrow> int \<times> int \<times> int" where
  "zero_run [] i s = close_run i s"
| "zero_run (g # gs) i s =
     (if g = ''0''
      then zero_run gs (i + 1) (case s of (b, l, start) \<Rightarrow> (b, l, if start = -1 then i else start))
      else zero_run gs (i + 1) (close_run i s))"

definition ipv6_print :: "string list \<Rightarrow> string" where
  "ipv6_print groups =
     (case zero_run groups 0 (-1, 0, -1) of (bestStart, bestLen, start) \<Rightarrow>
        if bestStart = -1 then join_with '':'' groups
        else join_with '':'' (take (nat bestStart) groups) @ ''::''
             @ join_with '':'' (drop (nat (bestStart + bestLen)) groups))"

definition canonicalIpv6 :: "string \<Rightarrow> string option" where
  "canonicalIpv6 raw =
     (let v = js_lower raw
      in if list_all (\<lambda>c. is_hex_digit c \<or> c \<in> set '':.'') v \<and> CHR '':'' \<in> set v
         then map_option ipv6_print (ipv6_groups v) else None)"

definition RESERVED_IP_REASON :: string where
  "RESERVED_IP_REASON = ''reserved, loopback or link-local address''"

definition isReservedIp :: "string \<Rightarrow> bool" where
  "isReservedIp v =
     (if isIpv4 v
      then (let octets = map dec_val (split_on (CHR ''.'') v); a = octets ! 0; b = octets ! 1
            in a = 10 \<or> a = 127 \<or> a = 0 \<or> (a = 172 \<and> 16 \<le> b \<and> b \<le> 31) \<or> (a = 192 \<and> b = 168)
               \<or> (a = 169 \<and> b = 254) \<or> 224 \<le> a)
      else (let l = js_lower v
            in l = ''::'' \<or> l = ''::1''
               \<or> starts_with ''fc'' l \<or> starts_with ''fd'' l
               \<or> list_ex (\<lambda>pre. starts_with pre l) [''fe8'', ''fe9'', ''fea'', ''feb'']
               \<or> starts_with ''ff'' l))"

section \<open>The normalizers\<close>

definition strip_dots :: "string \<Rightarrow> string" where
  "strip_dots s = rev (dropWhile (\<lambda>c. c = CHR ''.'') (rev s))"

definition norm_domain :: "url_api \<Rightarrow> string \<Rightarrow> NormalizeResult" where
  "norm_domain api raw =
     (let trimmed = strip_dots (js_trim raw)
      in if trimmed = '''' \<or> list_ex is_control trimmed then norm_fail ''not a valid domain name''
         else if CHR ''/'' \<in> set trimmed \<or> CHR '' '' \<in> set trimmed then norm_fail ''not a valid domain name''
         else (case toAscii api (js_lower trimmed) of
                 None \<Rightarrow> norm_fail ''not a valid domain name''
               | Some ascii \<Rightarrow>
                   if starts_with ''['' ascii then norm_fail ''not a valid domain name''
                   else (let labels = split_on (CHR ''.'') ascii
                         in if length labels < 2 \<or> '''' \<in> set labels then norm_fail ''not a registrable domain name''
                            else if ascii \<in> set MULTI_LABEL_SUFFIXES then norm_fail ''is a bare public suffix''
                            else (let key = (if starts_with ''www.'' ascii then drop 4 ascii else ascii)
                                  in if length (split_on (CHR ''.'') key) < 2
                                     then norm_fail ''not a registrable domain name''
                                     else norm_ok key trimmed None))))"

text \<open>\<open>replace(/\/{2,}/g, '/')\<close>.\<close>

fun collapse_slashes :: "string \<Rightarrow> string" where
  "collapse_slashes (c # d # cs) =
     (if c = CHR ''/'' \<and> d = CHR ''/'' then collapse_slashes (d # cs) else c # collapse_slashes (d # cs))"
| "collapse_slashes s = s"

definition is_tracking_param :: "string \<Rightarrow> bool" where
  "is_tracking_param key \<longleftrightarrow> starts_with ''utm_'' (js_lower key) \<or> js_lower key \<in> set TRACKING_PARAMS"

definition norm_path :: "string \<Rightarrow> string" where
  "norm_path pathname =
     (let p = collapse_slashes pathname
      in if p \<noteq> ''/'' \<and> p \<noteq> [] \<and> last p = CHR ''/'' then strip_slashes p else p)"

definition norm_url :: "url_api \<Rightarrow> string \<Rightarrow> NormalizeResult" where
  "norm_url api raw =
     (let trimmed = js_trim raw
      in if trimmed = '''' \<or> list_ex is_control trimmed then norm_fail ''not a valid URL''
         else (case ua_parse api trimmed of
                 None \<Rightarrow> norm_fail ''not a valid URL''
               | Some u \<Rightarrow>
                   if url_protocol u \<noteq> ''http:'' \<and> url_protocol u \<noteq> ''https:''
                   then norm_fail ''only http and https URLs are supported''
                   else (let protocol = js_lower (url_protocol u);
                             port = (if protocol = ''http:'' \<and> url_port u = ''80''
                                        \<or> protocol = ''https:'' \<and> url_port u = ''443'' then '''' else url_port u);
                             parsed = u\<lparr>url_protocol := protocol, url_hostname := js_lower (url_hostname u),
                               url_port := port,
                               url_params := sort_key fst (filter (\<lambda>(k, _). \<not> is_tracking_param k) (url_params u)),
                               url_pathname := norm_path (url_pathname u)\<rparr>
                         in norm_ok (ua_render api parsed) trimmed (Some [(''host'', J_str (url_hostname parsed))]))))"

definition norm_email :: "string \<Rightarrow> NormalizeResult" where
  "norm_email raw =
     (let trimmed = js_trim raw
      in if 254 < length trimmed then norm_fail ''longer than 254 characters''
         else if \<not> email_shape trimmed then norm_fail ''not a valid email address''
         else (let lower = js_lower trimmed;
                   host = rev (takeWhile (\<lambda>c. c \<noteq> CHR ''@'') (rev lower));
                   loc = take (length lower - length host - 1) lower;
                   keyLocal = (if host \<in> set TAG_SUPPORTING_DOMAINS \<and> CHR ''+'' \<in> set loc
                               then takeWhile (\<lambda>c. c \<noteq> CHR ''+'') loc else loc)
               in norm_ok (keyLocal @ ''@'' @ host) trimmed (Some [(''domain'', J_str host)])))"

definition norm_username :: "string \<Rightarrow> NormalizeResult" where
  "norm_username raw =
     (let trimmed = dropWhile (\<lambda>c. c = CHR ''@'') (js_trim raw)
      in if length trimmed < 1 \<or> 64 < length trimmed
         then norm_fail ''username length must be 1-64 characters''
         else if list_ex is_space trimmed \<or> list_ex is_control trimmed
         then norm_fail ''username contains whitespace''
         else norm_ok (js_lower trimmed) trimmed None)"

definition KNOWN_HANDLE_PLATFORMS :: "string list" where
  "KNOWN_HANDLE_PLATFORMS =
     [''github'', ''gitlab'', ''x'', ''twitter'', ''mastodon'', ''reddit'', ''instagram'', ''telegram'',
      ''linkedin'', ''tiktok'', ''youtube'', ''keybase'']"

definition norm_handle :: "string \<Rightarrow> NormalizeResult" where
  "norm_handle raw =
     (let trimmed = js_trim raw;
          before_colon = takeWhile (\<lambda>c. c \<noteq> CHR '':'') trimmed;
          colon = (CHR '':'' \<in> set trimmed \<and> before_colon \<noteq> []);
          platform = (if colon then js_lower before_colon else '''');
          name = (if colon then drop (length before_colon + 1) trimmed else trimmed)
      in if platform = '''' \<or> platform \<notin> set KNOWN_HANDLE_PLATFORMS
         then (let downgraded = norm_username name
               in if nr_ok downgraded then downgraded\<lparr>nr_meta := Some [(''downgraded'', J_bool True)]\<rparr>
                  else downgraded)
         else (let inner = norm_username name
               in case (nr_ok inner, nr_value inner) of
                    (True, Some v) \<Rightarrow>
                      norm_ok (''handle:'' @ platform @ '':'' @ v) trimmed (Some [(''platform'', J_str platform)])
                  | _ \<Rightarrow> inner))"

definition norm_ip :: "string \<Rightarrow> NormalizeResult" where
  "norm_ip raw =
     (let trimmed = js_trim raw
      in case canonicalIpv4 trimmed of
           Some quad \<Rightarrow>
             if isReservedIp quad then norm_fail RESERVED_IP_REASON
             else norm_ok quad trimmed (Some [(''family'', J_num (Finite 4))])
         | None \<Rightarrow>
             (case canonicalIpv6 trimmed of
                Some hextets \<Rightarrow>
                  if isReservedIp hextets then norm_fail RESERVED_IP_REASON
                  else norm_ok hextets trimmed (Some [(''family'', J_num (Finite 6))])
              | None \<Rightarrow> norm_fail ''not a canonical IPv4 or IPv6 address''))"

definition norm_hash :: "string \<Rightarrow> NormalizeResult" where
  "norm_hash raw =
     (let trimmed = js_lower (js_trim raw)
      in if trimmed = '''' \<or> \<not> list_all is_hex_digit trimmed then norm_fail ''not a hexadecimal digest''
         else (case HASH_ALGOS (length trimmed) of
                 None \<Rightarrow> norm_fail ''unknown digest length''
               | Some algo \<Rightarrow> norm_ok trimmed (js_trim raw) (Some [(''hashAlgo'', J_str algo)])))"

definition CALLING_CODES :: "(string \<times> string) list" where
  "CALLING_CODES =
     [(''US'', ''1''), (''CA'', ''1''), (''GB'', ''44''), (''DE'', ''49''), (''FR'', ''33''), (''NL'', ''31''),
      (''ES'', ''34''), (''IT'', ''39''), (''PL'', ''48''), (''UA'', ''380''), (''RU'', ''7''), (''IN'', ''91''),
      (''AU'', ''61''), (''BR'', ''55'')]"

definition upper_char :: "char \<Rightarrow> char" where
  "upper_char c =
     (let n = code_unit c
      in if 97 \<le> n \<and> n \<le> 122 \<or> 224 \<le> n \<and> n \<le> 254 \<and> n \<noteq> 247 then char_of (n - 32) else c)"

definition phone_noise :: "char \<Rightarrow> bool" where
  "phone_noise c \<longleftrightarrow> is_space c \<or> c \<in> set ''().-''"

definition digits_between :: "nat \<Rightarrow> nat \<Rightarrow> string \<Rightarrow> bool" where
  "digits_between lo hi s \<longleftrightarrow> lo \<le> length s \<and> length s \<le> hi \<and> list_all is_digit s"

definition norm_phone :: "string \<Rightarrow> string option \<Rightarrow> NormalizeResult" where
  "norm_phone raw defaultRegion =
     (let digits = filter (\<lambda>c. \<not> phone_noise c) raw
      in if starts_with ''+'' digits \<and> digits_between 7 15 (tl digits)
         then norm_ok digits (js_trim raw) (Some [(''e164'', J_str digits)])
         else (let region = map upper_char (case defaultRegion of None \<Rightarrow> '''' | Some r \<Rightarrow> r)
               in case map_of CALLING_CODES region of
                    None \<Rightarrow> norm_fail ''not a parseable phone number''
                  | Some code \<Rightarrow>
                      (let national = dropWhile (\<lambda>c. c = CHR ''0'') digits;
                           e164 = ''+'' @ code @ national
                       in if digits_between 6 14 national \<and> length e164 \<le> 16
                          then norm_ok e164 (js_trim raw)
                            (Some [(''e164'', J_str e164), (''region'', J_str region), (''national'', J_str national)])
                          else norm_fail ''not a parseable phone number'')))"

definition REPO_PATH_KEYWORDS :: "string list" where
  "REPO_PATH_KEYWORDS = [''tree'', ''blob'', ''commit'', ''releases'', ''issues'', ''pull'']"

text \<open>\<open>parts.findIndex((part, i) => i > 0 && ...)\<close> followed by the cut.\<close>

definition cut_keywords :: "string list \<Rightarrow> string list" where
  "cut_keywords parts =
     take 1 parts @ takeWhile (\<lambda>p. js_lower p \<notin> set REPO_PATH_KEYWORDS) (drop 1 parts)"

text \<open>\<open>replace(/\.git$/i, '')\<close>.\<close>

definition strip_git :: "string \<Rightarrow> string" where
  "strip_git s =
     (if 4 \<le> length s \<and> js_lower (drop (length s - 4) s) = ''.git'' then take (length s - 4) s else s)"

definition norm_repo :: "url_api \<Rightarrow> string \<Rightarrow> NormalizeResult" where
  "norm_repo api raw =
     (let v0 = js_trim raw
      in if v0 = '''' then norm_fail ''not a repository reference''
         else (let v = (case ua_parse api v0 of None \<Rightarrow> v0 | Some u \<Rightarrow> url_hostname u @ url_pathname u);
                   parts0 = cut_keywords (filter (\<lambda>p. p \<noteq> '''') (split_on (CHR ''/'') v));
                   parts = (if parts0 = [] then [] else butlast parts0 @ [strip_git (last parts0)])
               in case parts of
                    [host, owner, name] \<Rightarrow>
                      if host \<noteq> [] \<and> list_all (\<lambda>c. is_letter c \<or> is_digit c \<or> c \<in> set ''.-'') host
                         \<and> owner \<noteq> '''' \<and> name \<noteq> ''''
                      then norm_ok (js_lower host @ ''/'' @ owner @ ''/'' @ name) v0
                        (Some [(''host'', J_str (js_lower host)), (''owner'', J_str owner), (''name'', J_str name)])
                      else norm_fail ''not in host/owner/name form''
                  | _ \<Rightarrow> norm_fail ''not in host/owner/name form''))"

text \<open>\<open>replace(/\s+/g, ' ')\<close>.\<close>

fun collapse_spaces :: "string \<Rightarrow> string" where
  "collapse_spaces [] = []"
| "collapse_spaces (c # cs) =
     (if is_space c
      then (case cs of
              d # ds \<Rightarrow> if is_space d then collapse_spaces cs else CHR '' '' # collapse_spaces cs
            | [] \<Rightarrow> [CHR '' ''])
      else c # collapse_spaces cs)"

definition freeText :: "nat \<Rightarrow> string \<Rightarrow> NormalizeResult" where
  "freeText maxLength raw =
     (let trimmed = collapse_spaces (js_trim raw)
      in if trimmed = '''' then norm_fail ''empty value''
         else if list_ex is_control trimmed then norm_fail ''contains control characters''
         else norm_ok (js_lower (take maxLength trimmed)) (take maxLength trimmed) None)"

primrec normalize :: "url_api \<Rightarrow> ikind \<Rightarrow> string \<Rightarrow> string option \<Rightarrow> NormalizeResult" where
  "normalize api IK_domain = (\<lambda>raw region. norm_domain api raw)"
| "normalize api IK_url = (\<lambda>raw region. norm_url api raw)"
| "normalize api IK_email = (\<lambda>raw region. norm_email raw)"
| "normalize api IK_username = (\<lambda>raw region. norm_username raw)"
| "normalize api IK_ip = (\<lambda>raw region. norm_ip raw)"
| "normalize api IK_hash = (\<lambda>raw region. norm_hash raw)"
| "normalize api IK_phone = norm_phone"
| "normalize api IK_handle = (\<lambda>raw region. norm_handle raw)"
| "normalize api IK_repo = (\<lambda>raw region. norm_repo api raw)"
| "normalize api IK_person = (\<lambda>raw region. freeText 200 raw)"
| "normalize api IK_organization = (\<lambda>raw region. freeText 200 raw)"
| "normalize api IK_file = (\<lambda>raw region. freeText 255 raw)"
| "normalize api IK_note = (\<lambda>raw region. freeText 400 raw)"
| "normalize api IK_unknown = (\<lambda>raw region. freeText 400 raw)"

section \<open>Identity keys\<close>

definition IDENTITY_KEY_PROP :: string where "IDENTITY_KEY_PROP = ''__identityKey''"
definition PROVENANCE_PROP :: string where "PROVENANCE_PROP = ''__provenance''"
definition MANUAL_EDIT_PROP :: string where "MANUAL_EDIT_PROP = ''__manual''"

definition identityKey :: "ikind \<Rightarrow> string \<Rightarrow> string" where
  "identityKey kind canonicalValue = ikind_str kind @ '':'' @ canonicalValue"

record IdentityResult =
  id_ok :: bool
  id_key :: "string option"
  id_value :: "string option"
  id_display :: "string option"
  id_meta :: "js_object option"
  id_reason :: "string option"

definition identityFor :: "url_api \<Rightarrow> ikind \<Rightarrow> string \<Rightarrow> string option \<Rightarrow> IdentityResult" where
  "identityFor api kind raw region =
     (let normalized = normalize api kind raw region
      in case (nr_ok normalized, nr_value normalized) of
           (True, Some v) \<Rightarrow>
             \<lparr>id_ok = True, id_key = Some (identityKey kind v), id_value = Some v,
              id_display = Some (case nr_display normalized of None \<Rightarrow> raw | Some d \<Rightarrow> d),
              id_meta = nr_meta normalized, id_reason = None\<rparr>
         | _ \<Rightarrow>
             \<lparr>id_ok = False, id_key = None, id_value = None, id_display = None, id_meta = None,
              id_reason = Some (case nr_reason normalized of None \<Rightarrow> ''could not be normalized'' | Some r \<Rightarrow> r)\<rparr>)"

definition parseIdentityKey :: "string \<Rightarrow> (string \<times> string) option" where
  "parseIdentityKey key =
     (let kind = takeWhile (\<lambda>c. c \<noteq> CHR '':'') key
      in if CHR '':'' \<notin> set key \<or> kind = [] then None
         else Some (kind, drop (length kind + 1) key))"

text \<open>FNV-1a over the code units, on 32 bits.\<close>

definition fnv_step :: "32 word \<Rightarrow> char \<Rightarrow> 32 word" where
  "fnv_step h c = (Bit_Operations.xor h (of_int (code_unit c))) * 0x01000193"

definition pad_start :: "nat \<Rightarrow> char \<Rightarrow> string \<Rightarrow> string" where
  "pad_start n c s = replicate (n - length s) c @ s"

definition fnv1a :: "string \<Rightarrow> string" where
  "fnv1a s = pad_start 8 (CHR ''0'') (hex_str (uint (foldl fnv_step 0x811c9dc5 s)))"

definition tempIdFor :: "char \<Rightarrow> string \<Rightarrow> string" where
  "tempIdFor prefix identity = [prefix] @ '':'' @ fnv1a identity"

section \<open>Characters\<close>

lemma code_unit_char_of [simp]: "code_unit (char_of (k :: int)) = k mod 256"
  by (simp add: code_unit_def)

lemmas char_eq_iff_code = code_unit_inj [symmetric]

lemma lower_classes [simp]:
  "is_space (lower_char c) = is_space c"
  "is_control (lower_char c) = is_control c"
  "is_digit (lower_char c) = is_digit c"
  "lower_char (lower_char c) = lower_char c"
  by (auto simp: is_space_def is_control_def is_digit_def char_eq_iff_code code_unit_lower Let_def split: if_splits)

lemma lower_fixed:
  "is_hex_digit c \<Longrightarrow> lower_char c = c"
  "is_digit c \<Longrightarrow> lower_char c = c"
  by (auto simp: is_hex_digit_def is_digit_def char_eq_iff_code code_unit_lower Let_def)

lemma lower_punct [simp]:
  "lower_char c = CHR ''@'' \<longleftrightarrow> c = CHR ''@''"
  "lower_char c = CHR ''.'' \<longleftrightarrow> c = CHR ''.''"
  "lower_char c = CHR ''+'' \<longleftrightarrow> c = CHR ''+''"
  "lower_char c = CHR '':'' \<longleftrightarrow> c = CHR '':''"
  by (auto simp: char_eq_iff_code code_unit_lower Let_def split: if_splits) (auto simp: code_unit_def)

lemma js_lower_idem [simp]: "js_lower (js_lower s) = js_lower s"
  by (simp add: js_lower_def)

lemma list_all_lower [simp]:
  "list_all is_space (js_lower s) = list_all is_space s"
  "list_ex is_space (js_lower s) = list_ex is_space s"
  "list_ex is_control (js_lower s) = list_ex is_control s"
  by (auto simp: js_lower_def list_all_iff list_ex_iff)

lemma dropWhile_hd_id: "\<not> P (hd xs) \<Longrightarrow> dropWhile P xs = xs"
  by (cases xs) auto

lemma js_trim_id: "s = [] \<or> \<not> is_space (hd s) \<and> \<not> is_space (last s) \<Longrightarrow> js_trim s = s"
  by (auto simp: js_trim_def dropWhile_hd_id hd_rev)

lemma js_trim_no_space: "\<not> list_ex is_space s \<Longrightarrow> js_trim s = s"
  by (rule js_trim_id) (auto simp: list_ex_iff)

lemma js_trim_ends:
  assumes "js_trim s \<noteq> []"
  shows "\<not> is_space (hd (js_trim s))" "\<not> is_space (last (js_trim s))"
proof -
  let ?a = "dropWhile is_space s"
  let ?b = "dropWhile is_space (rev ?a)"
  have b: "?b \<noteq> []" using assms by (simp add: js_trim_def)
  then have "\<not> is_space (hd ?b)" by (rule hd_dropWhile)
  with b show "\<not> is_space (last (js_trim s))" by (simp add: js_trim_def last_rev)
  have a: "?a \<noteq> []" using b by (metis dropWhile.simps(1) rev.simps(1))
  obtain w where "rev ?a = w @ ?b" by (metis takeWhile_dropWhile_id)
  then have "?a = rev ?b @ rev w" by (metis rev_append rev_rev_ident)
  then have "hd ?a = hd (rev ?b)" using b by (metis hd_append2 rev_is_Nil_conv)
  moreover have "\<not> is_space (hd ?a)" using a by (rule hd_dropWhile)
  ultimately show "\<not> is_space (hd (js_trim s))" by (simp add: js_trim_def)
qed

lemma is_hex_not_space: "is_hex_digit c \<Longrightarrow> \<not> is_space c"
  by (auto simp: is_hex_digit_def is_digit_def is_space_def Let_def)

lemma js_lower_fixed: "list_all is_hex_digit s \<Longrightarrow> js_lower s = s"
  by (induction s) (auto simp: js_lower_def lower_fixed)

section \<open>Hexadecimal groups\<close>

lemma code_unit_hex_char: "d < 16 \<Longrightarrow> code_unit (hex_char d) = (if d < 10 then 48 + int d else 87 + int d)"
proof -
  assume d: "d < 16"
  have "of_char (hex_char d) = (if d < 10 then 48 + d else 87 + d)" using d by (auto simp: hex_char_def)
  then show ?thesis
    by (metis (mono_tags, opaque_lifting) code_unit_def of_nat_add of_nat_numeral of_nat_of_char)
qed

lemma hex_char_digit: "d < 16 \<Longrightarrow> is_hex_digit (hex_char d) \<and> hex_digit_val (hex_char d) = int d"
  by (auto simp: is_hex_digit_def hex_digit_val_def is_digit_def code_unit_hex_char)

lemma hex_val_snoc: "hex_val (s @ [c]) = 16 * hex_val s + hex_digit_val c"
  by (simp add: hex_val_def)

lemma hex_val_Nil [simp]: "hex_val [] = 0"
  by (simp add: hex_val_def)

lemma hex_str_facts:
  "0 \<le> n \<Longrightarrow> hex_str n \<noteq> [] \<and> list_all is_hex_digit (hex_str n) \<and> hex_val (hex_str n) = n"
proof (induction n rule: hex_str.induct)
  case (1 n)
  show ?case
  proof (cases "n < 16")
    case True
    then show ?thesis
      using 1 hex_char_digit [of "nat n"] by (simp add: hex_str.simps [of n] hex_val_def)
  next
    case False
    then have "0 \<le> n div 16" "nat (n mod 16) < 16" using 1 by auto
    with 1 False show ?thesis
      using hex_char_digit [of "nat (n mod 16)"] by (simp add: hex_str.simps [of n] hex_val_snoc)
  qed
qed

lemma hex_str_length: "0 \<le> n \<Longrightarrow> n < 16 ^ k \<Longrightarrow> 0 < k \<Longrightarrow> length (hex_str n) \<le> k"
proof (induction k arbitrary: n)
  case (Suc k)
  show ?case
  proof (cases "n < 16")
    case True
    then show ?thesis by (simp add: hex_str.simps [of n])
  next
    case False
    then have "0 < k" using Suc.prems by (cases k) auto
    moreover have "n div 16 < 16 ^ k" using Suc.prems by (auto simp: div_less_iff_less_mult mult.commute)
    ultimately show ?thesis
      using Suc.IH [of "n div 16"] Suc.prems False by (simp add: hex_str.simps [of n])
  qed
qed simp

lemma hex_val_bound: "list_all is_hex_digit s \<Longrightarrow> 0 \<le> hex_val s \<and> hex_val s < 16 ^ length s"
proof (induction s rule: rev_induct)
  case (snoc c s)
  then have "0 \<le> hex_digit_val c \<and> hex_digit_val c < 16"
    by (auto simp: is_hex_digit_def hex_digit_val_def is_digit_def)
  with snoc show ?case by (auto simp: hex_val_snoc)
qed simp

definition is_group :: "string \<Rightarrow> bool" where
  "is_group g \<longleftrightarrow> (\<exists>n. 0 \<le> n \<and> n < 65536 \<and> g = hex_str n)"

lemma is_groupI: "0 \<le> n \<Longrightarrow> n < 65536 \<Longrightarrow> is_group (hex_str n)"
  by (auto simp: is_group_def)

lemma is_group_chars: "is_group g \<Longrightarrow> g \<noteq> [] \<and> list_all is_hex_digit g \<and> length g \<le> 4"
  using hex_str_facts hex_str_length [of _ 4] by (auto simp: is_group_def)

lemma hex_digit_not_sep: "is_hex_digit c \<Longrightarrow> c \<noteq> CHR '':'' \<and> c \<noteq> CHR ''.''"
  by (auto simp: is_hex_digit_def is_digit_def code_unit_def)

lemma is_group_no_sep: "is_group g \<Longrightarrow> CHR '':'' \<notin> set g \<and> CHR ''.'' \<notin> set g"
  using is_group_chars hex_digit_not_sep by (fastforce simp: list_all_iff)

lemma is_group_zero [simp]: "is_group ''0''"
  unfolding is_group_def
  by (rule exI [of _ 0]) (simp add: hex_str.simps char_eq_iff_code code_unit_hex_char, simp add: code_unit_def)

lemma expand_piece_group: "is_group g \<Longrightarrow> expand_piece g = Some [g]"
  using is_group_chars [of g] is_group_no_sep [of g] hex_str_facts
  by (auto simp: expand_piece_def is_group_def)

lemma octet_bound: "is_octet_text p \<Longrightarrow> 0 \<le> dec_val p"
proof -
  have "list_all is_digit q \<Longrightarrow> 0 \<le> dec_val q" for q
    by (induction q rule: rev_induct) (auto simp: dec_val_snoc is_digit_def dec_val_def)
  then show "is_octet_text p \<Longrightarrow> 0 \<le> dec_val p" by (simp add: is_octet_text_def)
qed

lemma expand_piece_groups: "expand_piece p = Some gs \<Longrightarrow> list_all is_group gs"
proof (cases "CHR ''.'' \<in> set p")
  case True
  assume e: "expand_piece p = Some gs"
  then obtain quad where q: "canonicalIpv4 p = Some quad"
    using True by (auto simp: expand_piece_def split: option.splits)
  then have parts: "length (split_on (CHR ''.'') p) = 4" "list_all canonical_octet (split_on (CHR ''.'') p)"
    and "quad = p"
    by (auto simp: canonicalIpv4_def Let_def join_split_on split: if_splits)
  then obtain a b c d where s: "split_on (CHR ''.'') p = [a, b, c, d]"
    by (auto simp: numeral_eq_Suc length_Suc_conv)
  with parts have "canonical_octet a" "canonical_octet b" "canonical_octet c" "canonical_octet d" by simp_all
  then have "0 \<le> dec_val a" "dec_val a \<le> 255" "0 \<le> dec_val b" "dec_val b \<le> 255"
    "0 \<le> dec_val c" "dec_val c \<le> 255" "0 \<le> dec_val d" "dec_val d \<le> 255"
    using octet_bound by (simp_all add: canonical_octet_def)
  then have "is_group (hex_str (256 * dec_val a + dec_val b))" "is_group (hex_str (256 * dec_val c + dec_val d))"
    by (auto intro!: is_groupI)
  with e q True s \<open>quad = p\<close> show ?thesis by (auto simp: expand_piece_def)
next
  case False
  assume e: "expand_piece p = Some gs"
  then have p: "list_all is_hex_digit p" "length p \<le> 4" "gs = [hex_str (hex_val p)]"
    using False by (auto simp: expand_piece_def split: if_splits)
  then have "0 \<le> hex_val p" "hex_val p < 16 ^ length p" using hex_val_bound by auto
  moreover have "(16 :: int) ^ length p \<le> 16 ^ 4" using p(2) by (intro power_increasing) auto
  ultimately show ?thesis using p(3) by (auto simp: is_group_def)
qed

lemma expand_pieces_groups: "expand_pieces ps = Some gs \<Longrightarrow> list_all is_group gs"
  by (induction ps arbitrary: gs) (auto split: option.splits dest: expand_piece_groups)

lemma expand_half_groups: "expand_half s = Some gs \<Longrightarrow> list_all is_group gs"
  by (auto simp: expand_half_def dest: expand_pieces_groups split: if_splits)

lemma expand_pieces_id: "list_all is_group gs \<Longrightarrow> expand_pieces gs = Some gs"
  by (induction gs) (auto simp: expand_piece_group)

lemma expand_half_join: "list_all is_group gs \<Longrightarrow> expand_half (join_with '':'' gs) = Some gs"
proof (cases "gs = []")
  case False
  assume gs: "list_all is_group gs"
  then have "split_on (CHR '':'') (join_with '':'' gs) = gs"
    using False is_group_no_sep by (intro split_on_join) (auto simp: list_all_iff)
  moreover have "join_with '':'' gs \<noteq> []"
    using gs False is_group_chars by (cases gs rule: remdups_adj.cases) auto
  ultimately show ?thesis using gs by (simp add: expand_half_def expand_pieces_id)
qed (simp add: expand_half_def)

lemma ipv6_groups_valid: "ipv6_groups v = Some gs \<Longrightarrow> length gs = 8 \<and> list_all is_group gs"
  by (auto simp: ipv6_groups_def Let_def list_all_append list_all_iff split: if_splits option.splits
      dest!: expand_half_groups)

section \<open>Compressing and expanding\<close>

lemma split_dcolon_not_Nil [simp]: "split_dcolon s \<noteq> []"
  by (induction s rule: split_dcolon.induct) (auto split: list.split)

lemma split_dcolon_cons:
  "c \<noteq> CHR '':'' \<or> (s \<noteq> [] \<and> hd s \<noteq> CHR '':'') \<Longrightarrow>
     split_dcolon (c # s) = (c # hd (split_dcolon s)) # tl (split_dcolon s)"
  by (cases s) (auto split: list.split)

lemma split_dcolon_word:
  "CHR '':'' \<notin> set w \<Longrightarrow> split_dcolon (w @ s) = (w @ hd (split_dcolon s)) # tl (split_dcolon s)"
  by (induction w) (auto simp: split_dcolon_cons)

lemma split_dcolon_join:
  assumes "list_all is_group gs"
  shows "split_dcolon (join_with '':'' gs) = [join_with '':'' gs]"
    and "split_dcolon (join_with '':'' gs @ ''::'' @ t) = join_with '':'' gs # split_dcolon t"
proof -
  have hd: "join_with '':'' (y # ys) @ r \<noteq> [] \<and> hd (join_with '':'' (y # ys) @ r) \<noteq> CHR '':''"
    if "is_group y" for y ys r
  proof -
    from that have "y \<noteq> []" "hd y \<noteq> CHR '':''"
      by (metis is_group_chars, metis hd_in_set is_group_chars is_group_no_sep)
    then show ?thesis by (cases ys) auto
  qed
  have step: "split_dcolon (join_with '':'' (x # y # ys) @ r)
      = (x @ CHR '':'' # hd (split_dcolon (join_with '':'' (y # ys) @ r))) # tl (split_dcolon (join_with '':'' (y # ys) @ r))"
    if "is_group x" "is_group y" for x y ys r
    using that hd [of y ys r] is_group_no_sep [of x] by (simp add: split_dcolon_word split_dcolon_cons)
  have "split_dcolon (join_with '':'' gs @ r) = (join_with '':'' gs @ hd (split_dcolon r)) # tl (split_dcolon r)"
    if "r = [] \<or> hd r = CHR '':''" "gs \<noteq> []" for r
    using assms that(2)
  proof (induction gs rule: induct_list012)
    case (2 x)
    then show ?case using is_group_no_sep by (simp add: split_dcolon_word)
  next
    case (3 x y zs)
    then show ?case using step [of x y zs r] by simp
  qed simp
  then show "split_dcolon (join_with '':'' gs) = [join_with '':'' gs]"
    and "split_dcolon (join_with '':'' gs @ ''::'' @ t) = join_with '':'' gs # split_dcolon t"
    by (metis (no_types) append_Nil2 join_with.simps(1) list.sel split_dcolon.simps(1), cases "gs = []") auto
qed


definition run_ok :: "string list \<Rightarrow> int \<times> int \<times> int \<Rightarrow> bool" where
  "run_ok pre s \<longleftrightarrow>
     (case s of (b, l, start) \<Rightarrow>
        (b = -1 \<or> 0 \<le> b \<and> 2 \<le> l \<and> b + l \<le> int (length pre) \<and> (\<forall>i. b \<le> int i \<and> int i < b + l \<longrightarrow> pre ! i = ''0''))
        \<and> (start = -1 \<or> 0 \<le> start \<and> start \<le> int (length pre)
             \<and> (\<forall>i. start \<le> int i \<and> i < length pre \<longrightarrow> pre ! i = ''0'')))"

lemma close_run_ok: "run_ok pre s \<Longrightarrow> run_ok pre (close_run (int (length pre)) s)"
  by (cases s) (auto simp: run_ok_def close_run_def Let_def)

lemma close_run_start: "snd (snd (close_run i s)) = -1"
  by (cases s) (auto simp: close_run_def Let_def)

lemma run_ok_snoc:
  "run_ok pre (b, l, -1) \<Longrightarrow> run_ok (pre @ [g]) (b, l, -1)"
  "run_ok pre (b, l, start) \<Longrightarrow>
     run_ok (pre @ [''0'']) (b, l, if start = -1 then int (length pre) else start)"
  by (auto simp: run_ok_def nth_append)

lemma zero_run_ok: "run_ok pre s \<Longrightarrow> run_ok (pre @ gs) (zero_run gs (int (length pre)) s)"
proof (induction gs arbitrary: pre s)
  case Nil
  then show ?case by (simp add: close_run_ok)
next
  case (Cons g gs)
  obtain b l start where s: "s = (b, l, start)" by (cases s)
  show ?case
  proof (cases "g = ''0''")
    case True
    then show ?thesis
      using Cons.IH [OF run_ok_snoc(2) [OF Cons.prems [unfolded s]]] by (simp add: s add.commute)
  next
    case False
    obtain b' l' where c: "close_run (int (length pre)) s = (b', l', -1)"
      using close_run_start [of "int (length pre)" s] by (metis prod.collapse)
    then have "run_ok (pre @ [g]) (b', l', -1)"
      using close_run_ok [OF Cons.prems] run_ok_snoc(1) by simp
    from Cons.IH [OF this] show ?thesis using False c by (simp add: add.commute)
  qed
qed

lemma zero_run_splits:
  assumes "zero_run gs 0 (-1, 0, -1) = (b, l, start)" "b \<noteq> -1"
  shows "gs = take (nat b) gs @ replicate (nat l) ''0'' @ drop (nat (b + l)) gs \<and> 2 \<le> l \<and> 0 \<le> b \<and> b + l \<le> int (length gs)"
proof -
  have "run_ok gs (b, l, start)"
    using zero_run_ok [of "[]" "(-1, 0, -1)" gs] assms by (simp add: run_ok_def)
  then have r: "0 \<le> b" "2 \<le> l" "b + l \<le> int (length gs)" "\<And>i. b \<le> int i \<Longrightarrow> int i < b + l \<Longrightarrow> gs ! i = ''0''"
    using assms(2) by (auto simp: run_ok_def)
  have "take (nat l) (drop (nat b) gs) = replicate (nat l) ''0''"
  proof (rule nth_equalityI)
    show "length (take (nat l) (drop (nat b) gs)) = length (replicate (nat l) ''0'')" using r by simp
    fix i assume i: "i < length (take (nat l) (drop (nat b) gs))"
    then have "gs ! (nat b + i) = ''0''" using r(1) by (intro r(4)) auto
    then show "take (nat l) (drop (nat b) gs) ! i = replicate (nat l) ''0'' ! i" using i r by simp
  qed
  then have "drop (nat b) gs = replicate (nat l) ''0'' @ drop (nat (b + l)) gs"
    using r by (metis append_take_drop_id drop_drop nat_add_distrib add.commute order_trans zero_le_numeral)
  then show ?thesis using r by (metis append_take_drop_id)
qed

lemma ipv6_groups_print:
  assumes "length gs = 8" "list_all is_group gs"
  shows "ipv6_groups (ipv6_print gs) = Some gs"
proof -
  obtain b l start where z: "zero_run gs 0 (-1, 0, -1) = (b, l, start)" by (cases "zero_run gs 0 (-1, 0, -1)")
  show ?thesis
  proof (cases "b = -1")
    case True
    then show ?thesis
      using assms by (simp add: ipv6_groups_def ipv6_print_def z split_dcolon_join expand_half_join)
  next
    case False
    let ?h = "take (nat b) gs" and ?t = "drop (nat (b + l)) gs"
    note sp = zero_run_splits [OF z False]
    have ht: "list_all is_group ?h" "list_all is_group ?t"
      using assms(2) by (metis append_take_drop_id list_all_append)+
    have len: "int (length ?h) = b" "int (length ?t) = 8 - (b + l)" using sp assms(1) by auto
    have "split_dcolon (ipv6_print gs) = [join_with '':'' ?h, join_with '':'' ?t]"
      using False split_dcolon_join(2) [OF ht(1), of "join_with '':'' ?t"] split_dcolon_join(1) [OF ht(2)]
      by (simp add: ipv6_print_def z)
    then show ?thesis
      using ht len sp assms(1) by (simp add: ipv6_groups_def Let_def expand_half_join)
  qed
qed

lemma join_chars: "c \<in> set (join_with sep gs) \<Longrightarrow> c \<in> set sep \<or> (\<exists>g \<in> set gs. c \<in> set g)"
  by (induction sep gs rule: join_with.induct) auto

lemma ipv6_print_chars:
  assumes "length gs = 8" "list_all is_group gs"
  shows "(\<forall>c \<in> set (ipv6_print gs). is_hex_digit c \<or> c = CHR '':'') \<and> CHR '':'' \<in> set (ipv6_print gs)"
proof -
  obtain b l start where z: "zero_run gs 0 (-1, 0, -1) = (b, l, start)" by (cases "zero_run gs 0 (-1, 0, -1)")
  have g: "is_hex_digit c" if "g \<in> set gs" "c \<in> set g" for g c
    using that assms(2) is_group_chars by (auto simp: list_all_iff)
  obtain x y zs where "gs = x # y # zs" using assms(1) by (cases gs rule: remdups_adj.cases) auto
  then have "CHR '':'' \<in> set (join_with '':'' gs)" by simp
  then show ?thesis
    by (auto simp: ipv6_print_def z dest!: join_chars intro: g dest: in_set_takeD in_set_dropD)
qed

lemma is_hex_digit_lower: "list_all (\<lambda>c. is_hex_digit c \<or> c = CHR '':'') s \<Longrightarrow> js_lower s = s"
  by (induction s) (auto simp: js_lower_def lower_fixed)

lemma canonicalIpv6_Some:
  assumes "canonicalIpv6 s = Some c"
  obtains gs where "ipv6_groups (js_lower s) = Some gs" "c = ipv6_print gs" "length gs = 8" "list_all is_group gs"
  using assms ipv6_groups_valid by (auto simp: canonicalIpv6_def Let_def split: if_splits)

lemma canonicalIpv6_fixed:
  assumes "canonicalIpv6 s = Some c"
  shows "canonicalIpv6 c = Some c"
proof -
  from assms obtain gs where gs: "c = ipv6_print gs" "length gs = 8" "list_all is_group gs" by (rule canonicalIpv6_Some)
  note ch = ipv6_print_chars [OF gs(2,3)]
  then have "js_lower c = c" unfolding gs(1) by (intro is_hex_digit_lower) (auto simp: list_all_iff)
  then show ?thesis
    using ch ipv6_groups_print [OF gs(2,3)] by (auto simp: canonicalIpv6_def Let_def list_all_iff gs(1))
qed

text \<open>C17. Canonical IPv6 text: two texts get the same canonical form exactly when they denote the same eight groups, and the canonical form is a fixed point.\<close>

theorem canonicalIpv6_is_canonical:
  assumes "canonicalIpv6 s = Some c" "canonicalIpv6 t = Some d"
  shows "(c = d) = (ipv6_groups (js_lower s) = ipv6_groups (js_lower t)) \<and> canonicalIpv6 c = Some c
    \<and> ipv6_groups c = ipv6_groups (js_lower s)"
proof -
  from assms(1) obtain gs where g: "ipv6_groups (js_lower s) = Some gs" "c = ipv6_print gs" "length gs = 8" "list_all is_group gs"
    by (rule canonicalIpv6_Some)
  from assms(2) obtain hs where h: "ipv6_groups (js_lower t) = Some hs" "d = ipv6_print hs" "length hs = 8" "list_all is_group hs"
    by (rule canonicalIpv6_Some)
  have "c = d \<longleftrightarrow> gs = hs"
    using ipv6_groups_print g h by (metis option.inject)
  then show ?thesis using g h canonicalIpv6_fixed [OF assms(1)] ipv6_groups_print by simp
qed

theorem canonicalIpv6_is_canonical_witness:
  "canonicalIpv6 ''2001:DB8:0:0:0:0:0:1'' = Some ''2001:db8::1'' \<and> canonicalIpv6 ''2001:db8::0:1'' = Some ''2001:db8::1''
     \<and> ipv6_groups (js_lower ''2001:DB8:0:0:0:0:0:1'') = ipv6_groups (js_lower ''2001:db8::0:1'')"
proof -
  have "canonicalIpv6 ''2001:DB8:0:0:0:0:0:1'' = Some ''2001:db8::1''" by code_simp
  moreover have "canonicalIpv6 ''2001:db8::0:1'' = Some ''2001:db8::1''" by code_simp
  ultimately show ?thesis using canonicalIpv6_is_canonical by blast
qed


section \<open>Normalising twice\<close>

definition settled :: "NormalizeResult \<Rightarrow> string \<Rightarrow> bool" where
  "settled r v \<longleftrightarrow> nr_ok r \<and> nr_value r = Some v"

lemma settled_ok [simp]: "settled (norm_ok v d m) w \<longleftrightarrow> v = w"
  and settled_fail [simp]: "\<not> settled (norm_fail reason) w"
  by (auto simp: settled_def norm_ok_def norm_fail_def)

lemma settled_if [simp]: "settled (if b then r else s) v \<longleftrightarrow> (if b then settled r v else settled s v)"
  by simp

lemma username_settled:
  assumes "settled (norm_username raw) v"
  shows "settled (norm_username v) v"
proof -
  define t where "t = dropWhile (\<lambda>c. c = CHR ''@'') (js_trim raw)"
  have t: "1 \<le> length t" "length t \<le> 64" "\<not> list_ex is_space t" "\<not> list_ex is_control t" "v = js_lower t"
    using assms by (auto simp: norm_username_def t_def [symmetric] Let_def not_less Suc_le_eq split: if_splits)
  have "t \<noteq> []" using t by auto
  then have "hd t \<noteq> CHR ''@''" unfolding t_def by (rule hd_dropWhile)
  then have "dropWhile (\<lambda>c. c = CHR ''@'') v = v"
    using \<open>t \<noteq> []\<close> by (intro dropWhile_hd_id) (simp add: t(5) js_lower_def hd_map)
  moreover have "js_trim v = v" using t by (intro js_trim_no_space) simp
  ultimately show ?thesis using t by (simp add: norm_username_def Let_def) (simp add: js_lower_def Suc_le_eq)
qed

lemma ipv4_fixed: "canonicalIpv4 s = Some c \<Longrightarrow> c = s"
  by (auto simp: canonicalIpv4_def Let_def join_split_on split: if_splits)

lemma ipv4_no_colon: "canonicalIpv4 s = Some c \<Longrightarrow> CHR '':'' \<notin> set s"
proof -
  assume "canonicalIpv4 s = Some c"
  then have "list_all canonical_octet (split_on (CHR ''.'') s)"
    by (auto simp: canonicalIpv4_def Let_def split: if_splits)
  then have d: "is_digit x" if "w \<in> set (split_on (CHR ''.'') s)" "x \<in> set w" for w x
    using that by (auto simp: list_all_iff canonical_octet_def is_octet_text_def)
  show ?thesis
  proof
    assume "CHR '':'' \<in> set s"
    then have "CHR '':'' \<in> set (join_with ''.'' (split_on (CHR ''.'') s))" by (simp add: join_split_on)
    then obtain w where "w \<in> set (split_on (CHR ''.'') s)" "CHR '':'' \<in> set w" by (auto dest!: join_chars)
    from d [OF this] show False by (simp add: is_digit_def code_unit_def)
  qed
qed

lemma ipv6_no_space: "canonicalIpv6 s = Some c \<Longrightarrow> \<not> list_ex is_space c \<and> CHR '':'' \<in> set c"
proof -
  assume "canonicalIpv6 s = Some c"
  then obtain gs where "c = ipv6_print gs" "length gs = 8" "list_all is_group gs" by (rule canonicalIpv6_Some)
  then show ?thesis
    using ipv6_print_chars [of gs] is_hex_not_space by (fastforce simp: list_ex_iff is_space_def code_unit_def)
qed

lemma ip_settled:
  assumes "settled (norm_ip raw) v"
  shows "settled (norm_ip v) v"
proof (cases "canonicalIpv4 (js_trim raw)")
  case (Some c)
  then have "c = js_trim raw" by (rule ipv4_fixed)
  moreover from this have "js_trim c = c"
    using js_trim_ends [of raw] by (intro js_trim_id) auto
  ultimately show ?thesis using assms Some by (auto simp: norm_ip_def Let_def split: if_splits)
next
  case None
  then obtain c where c: "canonicalIpv6 (js_trim raw) = Some c" "\<not> isReservedIp c" "v = c"
    using assms by (auto simp: norm_ip_def Let_def split: if_splits option.splits)
  have "js_trim c = c" using ipv6_no_space [OF c(1)] by (intro js_trim_no_space) simp
  moreover have "canonicalIpv4 c = None" using ipv6_no_space [OF c(1)] ipv4_no_colon by fastforce
  ultimately show ?thesis using c canonicalIpv6_fixed [OF c(1)] by (simp add: norm_ip_def Let_def)
qed

lemma hash_settled:
  assumes "settled (norm_hash raw) v"
  shows "settled (norm_hash v) v"
proof -
  have v: "v = js_lower (js_trim raw)" "v \<noteq> []" "list_all is_hex_digit v" "HASH_ALGOS (length v) \<noteq> None"
    using assms by (auto simp: norm_hash_def Let_def split: if_splits option.splits)
  have "js_trim v = v" using v(3) is_hex_not_space by (intro js_trim_no_space) (auto simp: list_ex_iff list_all_iff)
  then show ?thesis using v by (auto simp: norm_hash_def Let_def split: option.split)
qed

lemma digit_not_noise: "is_digit c \<Longrightarrow> \<not> phone_noise c"
  by (auto simp: phone_noise_def is_digit_def is_space_def Let_def code_unit_def)

lemma e164_settled:
  assumes "v = CHR ''+'' # ds" "digits_between 7 15 ds"
  shows "settled (norm_phone v region) v"
proof -
  have "filter (\<lambda>c. \<not> phone_noise c) v = v"
    using assms digit_not_noise
    by (auto simp: filter_id_conv digits_between_def list_all_iff phone_noise_def is_space_def code_unit_def)
  then show ?thesis using assms by (simp add: norm_phone_def starts_with_def Let_def)
qed

lemma calling_code_digits: "map_of CALLING_CODES r = Some code \<Longrightarrow> list_all is_digit code \<and> 1 \<le> length code"
  by (auto simp: CALLING_CODES_def is_digit_def code_unit_def split: if_splits)

lemma phone_settled:
  assumes "settled (norm_phone raw region) v"
  shows "settled (norm_phone v region) v"
proof -
  define digits where "digits = filter (\<lambda>c. \<not> phone_noise c) raw"
  show ?thesis
  proof (cases "starts_with ''+'' digits \<and> digits_between 7 15 (tl digits)")
    case True
    then obtain ds where ds: "digits = CHR ''+'' # ds" by (cases digits) (auto simp: starts_with_def)
    have "norm_phone raw region = norm_ok digits (js_trim raw) (Some [(''e164'', J_str digits)])"
      unfolding norm_phone_def Let_def digits_def [symmetric] using True by (rule if_P)
    then have "v = CHR ''+'' # tl digits" using assms ds by auto
    then show ?thesis using True e164_settled by blast
  next
    case False
    then obtain code national where n: "v = ''+'' @ code @ national" "list_all is_digit code" "1 \<le> length code"
      "digits_between 6 14 national" "length v \<le> 16"
      using assms False calling_code_digits unfolding norm_phone_def Let_def digits_def [symmetric]
      by (auto split: option.splits if_splits)
    then show ?thesis by (intro e164_settled [of _ "code @ national"]) (auto simp: digits_between_def)
  qed
qed

lemma split_on_parts: "w \<in> set (split_on sep s) \<Longrightarrow> sep \<notin> set w"
proof (induction s arbitrary: w)
  case (Cons c cs)
  then show ?case by (cases "split_on sep cs") (auto split: if_splits)
qed simp

lemma split_on_lower:
  assumes "\<And>c. lower_char c = sep \<longleftrightarrow> c = sep"
  shows "split_on sep (js_lower s) = map js_lower (split_on sep s)"
proof (induction s)
  case (Cons c cs)
  then show ?case
    using assms by (cases "split_on sep cs") (auto simp: js_lower_def)
qed (simp add: js_lower_def)

lemma no_space_lower [simp]: "no_space (js_lower s) = no_space s"
  by (auto simp: no_space_def js_lower_def list_all_iff)

definition email_key :: "string \<Rightarrow> string \<Rightarrow> string" where
  "email_key l h =
     (if js_lower h \<in> set TAG_SUPPORTING_DOMAINS \<and> CHR ''+'' \<in> set l
      then takeWhile (\<lambda>c. c \<noteq> CHR ''+'') (js_lower l) else js_lower l)"

lemma mem_lower:
  assumes "\<And>c. lower_char c = x \<longleftrightarrow> c = x"
  shows "x \<in> set (js_lower l) \<longleftrightarrow> x \<in> set l"
proof -
  have "x = lower_char c \<longleftrightarrow> c = x" for c using assms by metis
  then show ?thesis by (auto simp: js_lower_def image_iff)
qed

lemma mem_lower_punct [simp]:
  "CHR ''+'' \<in> set (js_lower l) \<longleftrightarrow> CHR ''+'' \<in> set l"
  "CHR ''@'' \<in> set (js_lower l) \<longleftrightarrow> CHR ''@'' \<in> set l"
  by (rule mem_lower, simp)+

lemma email_parts:
  assumes "js_trim raw = l @ CHR ''@'' # h" "CHR ''@'' \<notin> set l" "CHR ''@'' \<notin> set h"
    "length (js_trim raw) \<le> 254" "email_shape (js_trim raw)"
  shows "norm_email raw = norm_ok (email_key l h @ ''@'' @ js_lower h) (js_trim raw) (Some [(''domain'', J_str (js_lower h))])"
proof -
  have "CHR ''@'' \<notin> set (js_lower h)" using assms(3) by simp
  moreover have "js_lower (js_trim raw) = js_lower l @ CHR ''@'' # js_lower h"
    unfolding assms(1) by (simp add: js_lower_def)
  ultimately have
    "rev (takeWhile (\<lambda>c. c \<noteq> CHR ''@'') (rev (js_lower (js_trim raw)))) = js_lower h"
    "take (length (js_lower (js_trim raw)) - length (js_lower h) - 1) (js_lower (js_trim raw)) = js_lower l"
    by (simp_all add: takeWhile_append)
  then show ?thesis
    using assms(4,5) unfolding norm_email_def Let_def email_key_def by (simp del: length_js_lower)
qed

lemma email_shape_parts:
  assumes "email_shape s"
  obtains l h where "s = l @ CHR ''@'' # h" "CHR ''@'' \<notin> set l" "CHR ''@'' \<notin> set h" "no_space l"
    "2 \<le> length (split_on (CHR ''.'') h)" "list_all no_space (split_on (CHR ''.'') h)"
proof -
  obtain l h where lh: "split_on (CHR ''@'') s = [l, h]" "no_space l"
    "2 \<le> length (split_on (CHR ''.'') h)" "list_all no_space (split_on (CHR ''.'') h)"
    using assms by (auto simp: email_shape_def split: list.splits)
  have "s = l @ CHR ''@'' # h" using join_split_on [of "CHR ''@''" s] by (simp add: lh(1))
  moreover have "CHR ''@'' \<notin> set l" "CHR ''@'' \<notin> set h" using split_on_parts [of _ "CHR ''@''" s] lh(1) by auto
  ultimately show thesis using that lh by blast
qed

lemma email_settled:
  assumes "settled (norm_email raw) v" "hd v \<noteq> CHR ''@''"
  shows "settled (norm_email v) v"
proof -
  have r: "length (js_trim raw) \<le> 254" "email_shape (js_trim raw)"
    using assms(1) by (auto simp: norm_email_def Let_def split: if_splits)
  from r(2) obtain l h where lh: "js_trim raw = l @ CHR ''@'' # h" "CHR ''@'' \<notin> set l" "CHR ''@'' \<notin> set h"
    "no_space l" "2 \<le> length (split_on (CHR ''.'') h)" "list_all no_space (split_on (CHR ''.'') h)"
    by (rule email_shape_parts)
  define k where "k = email_key l h"
  have v: "v = k @ CHR ''@'' # js_lower h" using assms(1) email_parts [OF lh(1-3) r] by (simp add: k_def)
  have k: "k \<noteq> []" using assms(2) by (auto simp: v)
  have sub: "set k \<subseteq> set (js_lower l)" "length k \<le> length l"
    unfolding k_def email_key_def
    by (auto dest: set_takeWhileD) (metis length_js_lower length_takeWhile_le)
  have low: "js_lower k = k"
    by (auto simp: k_def email_key_def js_lower_def takeWhile_map o_def)
  have ns: "no_space k"
    using sub(1) lh(4) k no_space_lower [of l] by (auto simp: no_space_def list_all_iff)
  have at: "CHR ''@'' \<notin> set k" "CHR ''@'' \<notin> set (js_lower h)"
    using sub(1) lh(2,3) by auto
  have sp: "split_on (CHR ''.'') (js_lower h) = map js_lower (split_on (CHR ''.'') h)" by (rule split_on_lower) simp
  have hsp: "\<not> list_ex is_space (js_lower h)"
  proof -
    have "\<not> is_space c" if "c \<in> set h" for c
      using that lh(6) join_split_on [of "CHR ''.''" h] join_chars [of c "''.''" "split_on (CHR ''.'') h"]
      by (auto simp: list_all_iff no_space_def is_space_def code_unit_def)
    then show ?thesis unfolding list_all_lower by (auto simp: list_ex_iff)
  qed
  have trim: "js_trim v = v"
    using ns hsp by (intro js_trim_no_space) (auto simp: v list_ex_iff no_space_def list_all_iff is_space_def code_unit_def)
  have shape: "email_shape v"
    using at ns sp lh(5,6) by (simp add: email_shape_def v split_on_append split_on_none list_all_iff)
  have "length v \<le> 254" using r(1) sub(2) by (simp add: v lh(1))
  note parts = email_parts [of v k "js_lower h", unfolded trim, OF v at this shape]
  have "email_key k (js_lower h) = k"
  proof (cases "js_lower h \<in> set TAG_SUPPORTING_DOMAINS \<and> CHR ''+'' \<in> set l")
    case True
    then have "CHR ''+'' \<notin> set k" using set_takeWhileD by (fastforce simp: k_def email_key_def)
    then show ?thesis by (simp add: email_key_def low)
  next
    case False
    then have "k = js_lower l" by (simp only: k_def email_key_def if_False)
    then show ?thesis
      using False by (cases "js_lower h \<in> set TAG_SUPPORTING_DOMAINS") (simp_all add: email_key_def)
  qed
  then show ?thesis unfolding parts by (simp add: v)
qed

text \<open>Free text.\<close>

fun collapsed :: "string \<Rightarrow> bool" where
  "collapsed [] = True"
| "collapsed [c] = (is_space c \<longrightarrow> c = CHR '' '')"
| "collapsed (c # d # cs) = ((is_space c \<longrightarrow> c = CHR '' '' \<and> \<not> is_space d) \<and> collapsed (d # cs))"

lemma collapsed_Cons: "\<not> is_space c \<Longrightarrow> collapsed (c # cs) = collapsed cs"
  by (cases cs) auto

lemma collapse_spaces_hd: "s \<noteq> [] \<Longrightarrow> \<not> is_space (hd s) \<Longrightarrow> collapse_spaces s \<noteq> [] \<and> hd (collapse_spaces s) = hd s"
  by (cases s) auto

lemma is_space_blank [simp]: "is_space CHR '' ''"
  by (simp add: is_space_def code_unit_def)

lemma collapse_collapsed: "collapsed (collapse_spaces s)"
proof (induction s)
  case (Cons c cs)
  show ?case
  proof (cases "is_space c \<and> cs \<noteq> [] \<and> \<not> is_space (hd cs)")
    case True
    then obtain d ds where cs: "cs = d # ds" "\<not> is_space d" by (cases cs) auto
    then obtain ys where "collapse_spaces cs = d # ys" by auto
    then show ?thesis using True Cons cs by auto
  next
    case False
    then show ?thesis
      using Cons by (auto simp: collapsed_Cons split: list.split)
  qed
qed simp

lemma collapsed_take: "collapsed s \<Longrightarrow> collapsed (take n s)"
proof (induction s arbitrary: n rule: collapsed.induct)
  case (3 c d cs)
  show ?case
  proof (cases "n \<le> 1")
    case True
    then show ?thesis using 3 by (cases n) auto
  next
    case False
    then obtain m where "n = Suc (Suc m)" by (metis One_nat_def not_less_eq_eq old.nat.exhaust zero_le)
    then show ?thesis using 3(1) [of "Suc m"] 3(2) by simp
  qed
qed (auto simp: take_Cons')

lemma space_lower [simp]: "lower_char c = CHR '' '' \<longleftrightarrow> c = CHR '' ''"
  by (auto simp: char_eq_iff_code code_unit_lower Let_def split: if_splits) (auto simp: code_unit_def)

lemma collapsed_lower: "collapsed (js_lower s) = collapsed s"
  by (induction s rule: collapsed.induct) (auto simp: js_lower_def)

lemma collapsed_id: "collapsed s \<Longrightarrow> collapse_spaces s = s"
  by (induction s rule: collapsed.induct) (auto split: list.split)

lemma free_text_settled:
  assumes "settled (freeText n raw) v" "\<not> is_space (last v)" "0 < n"
  shows "settled (freeText n v) v"
proof -
  define t where "t = collapse_spaces (js_trim raw)"
  have t: "t \<noteq> []" "\<not> list_ex is_control t" "v = js_lower (take n t)"
    using assms(1) by (auto simp: freeText_def Let_def t_def [symmetric] split: if_splits)
  have "js_trim raw \<noteq> []" using t(1) by (auto simp: t_def)
  then have h: "\<not> is_space (hd t)"
    using js_trim_ends collapse_spaces_hd [of "js_trim raw"] by (simp add: t_def)
  have "v \<noteq> []" using t(1,3) assms(3) by (simp add: js_lower_def)
  moreover have "\<not> is_space (hd v)" using h t(1) assms(3) by (simp add: t(3) js_lower_def hd_map)
  ultimately have "js_trim v = v" using assms(2) by (intro js_trim_id) simp
  moreover have "collapse_spaces v = v"
    using collapse_collapsed by (intro collapsed_id) (simp add: t(3) collapsed_lower collapsed_take t_def)
  moreover have "\<not> list_ex is_control v" unfolding t(3) list_all_lower using t(2) by (auto simp: list_ex_iff dest: in_set_takeD)
  ultimately show ?thesis
    using \<open>v \<noteq> []\<close> t(3) by (simp add: freeText_def Let_def)
qed


definition no_urls :: url_api where
  "no_urls = \<lparr>ua_parse = (\<lambda>s. None), ua_render = (\<lambda>u. [])\<rparr>"


text \<open>Inputs on which normalising is not stable: an address that is only a tag loses its whole local part, so all such addresses share a key that is itself refused; a text cut at a space, and a repository name ending twice in \<open>.git\<close>, change again. And a mapped IPv4 loopback is accepted as an address, although the dotted form it denotes is reserved.\<close>

theorem normalize_unstable:
  "nr_value (norm_email ''+a@gmail.com'') = Some ''@gmail.com'' \<and> nr_value (norm_email ''+b@gmail.com'') = Some ''@gmail.com''
     \<and> \<not> nr_ok (norm_email ''@gmail.com'')
   \<and> nr_value (freeText 4 ''abc de'') = Some ''abc '' \<and> nr_value (freeText 4 ''abc '') = Some ''abc''
   \<and> nr_value (norm_repo no_urls ''h.io/o/n.git.git'') = Some ''h.io/o/n.git''
     \<and> nr_value (norm_repo no_urls ''h.io/o/n.git'') = Some ''h.io/o/n''
   \<and> nr_value (norm_ip ''::ffff:127.0.0.1'') = Some ''::ffff:7f00:1'' \<and> isReservedIp ''127.0.0.1''"
proof (intro conjI)
  show "nr_value (norm_email ''+a@gmail.com'') = Some ''@gmail.com''" by code_simp
  show "nr_value (norm_email ''+b@gmail.com'') = Some ''@gmail.com''" by code_simp
  show "\<not> nr_ok (norm_email ''@gmail.com'')" by code_simp
  show "nr_value (freeText 4 ''abc de'') = Some ''abc ''" by code_simp
  show "nr_value (freeText 4 ''abc '') = Some ''abc''" by code_simp
  show "nr_value (norm_repo no_urls ''h.io/o/n.git.git'') = Some ''h.io/o/n.git''" by code_simp
  show "nr_value (norm_repo no_urls ''h.io/o/n.git'') = Some ''h.io/o/n''" by code_simp
  show "nr_value (norm_ip ''::ffff:127.0.0.1'') = Some ''::ffff:7f00:1''" by code_simp
  show "isReservedIp ''127.0.0.1''" by code_simp
qed

section \<open>Keys\<close>

lemma ikind_str_plain: "ikind_str kind \<noteq> [] \<and> CHR '':'' \<notin> set (ikind_str kind)"
  by (cases kind) auto

lemma ikind_str_inj: "ikind_str k = ikind_str l \<longleftrightarrow> k = l"
  by (cases k; cases l) auto

text \<open>Identity keys can be read back: parsing a key returns the kind and the canonical value it was built from, whatever the value holds, so different kinds or values never share a key; a successful \<open>identityFor\<close> returns such a key for its value.\<close>

theorem identityKey_roundtrip:
  "parseIdentityKey (identityKey kind v) = Some (ikind_str kind, v)
   \<and> (identityKey kind v = identityKey kind' v') = (kind = kind' \<and> v = v')
   \<and> (let r = identityFor api kind raw region
      in if id_ok r then id_key r = map_option (identityKey kind) (id_value r) \<and> id_value r \<noteq> None \<and> id_display r \<noteq> None
         else id_key r = None \<and> id_reason r \<noteq> None)"
proof -
  have tk: "takeWhile (\<lambda>c. c \<noteq> CHR '':'') (ikind_str k @ CHR '':'' # w) = ikind_str k" for k w
    using ikind_str_plain [of k] by (subst takeWhile_append2) auto
  have parse: "parseIdentityKey (identityKey k w) = Some (ikind_str k, w)" for k w
    using ikind_str_plain [of k] by (simp add: parseIdentityKey_def identityKey_def tk Let_def)
  have "(identityKey kind v = identityKey kind' v') = (kind = kind' \<and> v = v')"
    using parse [of kind v] parse [of kind' v'] ikind_str_inj by (metis option.inject prod.inject)
  with parse show ?thesis
    by (auto simp: identityFor_def Let_def split: bool.splits option.splits)
qed

lemma fnv1a_shape: "length (fnv1a s) = 8 \<and> list_all is_hex_digit (fnv1a s)"
proof -
  let ?h = "uint (foldl fnv_step 0x811c9dc5 s)"
  have "0 \<le> ?h" "?h < 16 ^ 8" using uint_bounded [of "foldl fnv_step 0x811c9dc5 s"] by simp_all
  then have "length (hex_str ?h) \<le> 8" "list_all is_hex_digit (hex_str ?h)"
    using hex_str_length [of ?h 8] hex_str_facts [of ?h] by auto
  then show ?thesis
    by (auto simp: fnv1a_def pad_start_def list_all_iff is_hex_digit_def is_digit_def code_unit_def)
qed

end
