(* ===== verification/IntegrationResolve.thy ===== *)
theory IntegrationResolve
  imports IntegrationNormalize
begin

text \<open>
  Merging tool results with what a board holds: \<open>packages/integrations/src/resolve/merge.ts\<close> (which
  existing node an entity is, what happens to a field) and the confidence model
  \<open>extract/confidence.ts\<close>. Confidences are real numbers, so the guard against NaN has no
  counterpart; object properties are own properties.
\<close>

section \<open>Confidence\<close>

definition CONFIDENCE_CAP :: real where "CONFIDENCE_CAP = 97 / 100"

datatype ConfidenceSource = Src_authoritative | Src_assertion | Src_heuristic | Src_inference
datatype EvidenceQuality = Ev_single | Ev_corroborated | Ev_ambiguous
datatype VersionDrift = Drift_exact | Drift_patch | Drift_minor | Drift_major | Drift_unknown

primrec SOURCE_WEIGHT :: "ConfidenceSource \<Rightarrow> real" where
  "SOURCE_WEIGHT Src_authoritative = 1"
| "SOURCE_WEIGHT Src_assertion = 85 / 100"
| "SOURCE_WEIGHT Src_heuristic = 7 / 10"
| "SOURCE_WEIGHT Src_inference = 55 / 100"

primrec EVIDENCE_FACTOR :: "EvidenceQuality \<Rightarrow> real" where
  "EVIDENCE_FACTOR Ev_single = 1"
| "EVIDENCE_FACTOR Ev_corroborated = 11 / 10"
| "EVIDENCE_FACTOR Ev_ambiguous = 8 / 10"

definition versionFactor :: "VersionDrift \<Rightarrow> real" where
  "versionFactor drift = (if drift = Drift_exact \<or> drift = Drift_patch then 1 else 8 / 10)"

definition clamp01 :: "real \<Rightarrow> real" where
  "clamp01 v = min 1 (max 0 v)"

record ConfidenceInput =
  ci_base :: real
  ci_source :: ConfidenceSource
  ci_evidence :: "EvidenceQuality option"
  ci_drift :: "VersionDrift option"
  ci_parserConfidence :: "real option"

definition computeConfidence :: "ConfidenceInput \<Rightarrow> real" where
  "computeConfidence inp =
     (let evidence = EVIDENCE_FACTOR (option_or (ci_evidence inp) Ev_single);
          v = ci_base inp * SOURCE_WEIGHT (ci_source inp) * evidence
              * versionFactor (option_or (ci_drift inp) Drift_exact)
              * option_or (ci_parserConfidence inp) 1
      in clamp01 (min v CONFIDENCE_CAP))"

definition noisyOr :: "real list \<Rightarrow> real" where
  "noisyOr confidences =
     (if confidences = [] then 0
      else (let product = foldl (\<lambda>acc c. acc * (1 - clamp01 c)) 1 confidences
            in clamp01 (min (1 - product) CONFIDENCE_CAP)))"

datatype ConfidenceBucket = Bucket_high | Bucket_medium | Bucket_low

definition bucketOf :: "real \<Rightarrow> ConfidenceBucket" where
  "bucketOf confidence =
     (if 85 / 100 \<le> confidence then Bucket_high
      else if 6 / 10 \<le> confidence then Bucket_medium else Bucket_low)"

definition DEFAULT_SELECTION_THRESHOLD :: real where "DEFAULT_SELECTION_THRESHOLD = 6 / 10"
definition HIGH_CONFIDENCE_THRESHOLD :: real where "HIGH_CONFIDENCE_THRESHOLD = 8 / 10"

section \<open>Trigram similarity\<close>

definition alnum :: "char \<Rightarrow> bool" where
  "alnum c \<longleftrightarrow> is_digit c \<or> 97 \<le> code_unit c \<and> code_unit c \<le> 122"

text \<open>\<open>split(/[^a-z0-9]+/).filter(word => word !== '')\<close>: the maximal runs of letters and digits.\<close>

fun alnum_words :: "string \<Rightarrow> string list" where
  "alnum_words [] = []"
| "alnum_words (c # cs) =
     (if \<not> alnum c then alnum_words cs
      else (case cs of
              d # ds \<Rightarrow>
                if alnum d
                then (case alnum_words cs of [] \<Rightarrow> [[c]] | w # ws \<Rightarrow> (c # w) # ws)
                else [c] # alnum_words cs
            | [] \<Rightarrow> [[c]]))"

definition word_grams :: "string \<Rightarrow> string list" where
  "word_grams word =
     (let padded = ''  '' @ word @ '' '' in map (\<lambda>i. take 3 (drop i padded)) [0..<length padded - 2])"

definition trigrams :: "string \<Rightarrow> string list" where
  "trigrams s = js_uniq (concat (map word_grams (alnum_words (js_lower s))))"

definition trigramSimilarity :: "string \<Rightarrow> string \<Rightarrow> real" where
  "trigramSimilarity a b =
     (let left = trigrams a; right = trigrams b
      in if left = [] \<and> right = [] then 0
         else (let shared = length (filter (\<lambda>gram. gram \<in> set right) left);
                   union = int (length left) + int (length right) - int shared
               in if union = 0 then 0 else of_nat shared / of_int union))"

section \<open>Which node an entity is\<close>

definition FUZZY_THRESHOLD :: real where "FUZZY_THRESHOLD = 82 / 100"

definition SET_FIELDS :: "string list" where
  "SET_FIELDS = [''tags'', ''aliases'', ''urls'', ''emails'']"

record ExistingNodeMatch =
  em_nodeId :: string
  em_kind :: ikind
  em_identityKey :: "string option"
  em_title :: string
  em_props :: js_object
  em_boardId :: string
  em_confidence :: "real option"

datatype Resolution = Res_merge | Res_suggest_link | Res_conflict | Res_new

record ResolutionResult =
  res_resolution :: Resolution
  res_match :: "ExistingNodeMatch option"
  res_reason :: string
  res_similarity :: "real option"

record ResolveInput =
  ri_kind :: ikind
  ri_identityKey :: string
  ri_display :: string
  ri_boardId :: string

definition aliasesOf :: "js_object \<Rightarrow> string list" where
  "aliasesOf props =
     (case prop_get props ''aliases'' of
        J_arr vs \<Rightarrow> concat (map (\<lambda>v. case v of J_str s \<Rightarrow> [s] | _ \<Rightarrow> []) vs)
      | _ \<Rightarrow> [])"

text \<open>\<open>identityKey.slice(identityKey.indexOf(':') + 1)\<close>.\<close>

definition identity_value :: "string \<Rightarrow> string" where
  "identity_value key =
     (if CHR '':'' \<in> set key then tl (dropWhile (\<lambda>c. c \<noteq> CHR '':'') key) else key)"

definition better_match ::
  "ResolveInput \<Rightarrow> ExistingNodeMatch \<Rightarrow> (ExistingNodeMatch \<times> real) option \<Rightarrow> (ExistingNodeMatch \<times> real) option" where
  "better_match inp candidate best =
     (if em_kind candidate \<noteq> ri_kind inp \<or> em_boardId candidate \<noteq> ri_boardId inp then best
      else (let similarity = trigramSimilarity (em_title candidate) (ri_display inp)
            in if FUZZY_THRESHOLD \<le> similarity
                  \<and> (case best of None \<Rightarrow> True | Some (m, s) \<Rightarrow> s < similarity)
               then Some (candidate, similarity) else best))"

definition resolveEntity :: "ResolveInput \<Rightarrow> ExistingNodeMatch list \<Rightarrow> ResolutionResult" where
  "resolveEntity inp candidates =
     (case find (\<lambda>c. em_identityKey c = Some (ri_identityKey inp) \<and> em_boardId c = ri_boardId inp) candidates of
        Some m \<Rightarrow> \<lparr>res_resolution = Res_merge, res_match = Some m,
                   res_reason = ''same identity on this board'', res_similarity = None\<rparr>
      | None \<Rightarrow>
     (case find (\<lambda>c. em_identityKey c = Some (ri_identityKey inp)) candidates of
        Some m \<Rightarrow> \<lparr>res_resolution = Res_suggest_link, res_match = Some m,
                   res_reason = ''same identity on another board in this project'', res_similarity = None\<rparr>
      | None \<Rightarrow>
     (let identityValue = identity_value (ri_identityKey inp)
      in case find (\<lambda>c. em_boardId c = ri_boardId inp \<and> identityValue \<in> set (aliasesOf (em_props c))) candidates of
        Some m \<Rightarrow> \<lparr>res_resolution = Res_merge, res_match = Some m,
                   res_reason = ''value is a recorded alias'', res_similarity = None\<rparr>
      | None \<Rightarrow>
     (case fold (better_match inp) candidates None of
        Some (m, similarity) \<Rightarrow>
          \<lparr>res_resolution = Res_conflict, res_match = Some m,
           res_reason = ''possible duplicate of an existing node'', res_similarity = Some similarity\<rparr>
      | None \<Rightarrow> \<lparr>res_resolution = Res_new, res_match = None,
                 res_reason = ''no existing node matches'', res_similarity = None\<rparr>))))"

section \<open>What happens to a field\<close>

datatype KeepOrReplace = Keep | Replace

datatype FieldDecision = FD_skip | FD_set | FD_addToSet | FD_conflict KeepOrReplace bool

record FieldMergeInput =
  fm_field :: string
  fm_current :: js_value
  fm_incoming :: js_value
  fm_currentConfidence :: "real option"
  fm_incomingConfidence :: real
  fm_props :: "js_object option"

definition is_empty_value :: "js_value \<Rightarrow> bool" where
  "is_empty_value v = (case v of J_undefined \<Rightarrow> True | J_null \<Rightarrow> True | J_str s \<Rightarrow> s = [] | J_arr vs \<Rightarrow> vs = [] | _ \<Rightarrow> False)"

definition is_container :: "js_value \<Rightarrow> bool" where
  "is_container v = (case v of J_arr vs \<Rightarrow> True | J_obj es \<Rightarrow> True | _ \<Rightarrow> False)"

text \<open>Primitives are compared by \<open>===\<close> (NaN differs from itself), arrays and objects by their JSON text.\<close>

definition deepEqual :: "(real \<Rightarrow> string) \<Rightarrow> js_value \<Rightarrow> js_value \<Rightarrow> bool" where
  "deepEqual num a b \<longleftrightarrow>
     (if is_container a \<and> is_container b then json_text num a = json_text num b
      else a = b \<and> a \<noteq> J_num NonFinite)"

text \<open>\<open>props[MANUAL_EDIT_PROP][field] === true\<close>, where the flag holder is any object, an array too.\<close>

definition wasManuallyEdited :: "js_object \<Rightarrow> string \<Rightarrow> bool" where
  "wasManuallyEdited props field =
     (case prop_get props MANUAL_EDIT_PROP of
        J_obj es \<Rightarrow> prop_get es field = J_bool True
      | J_arr vs \<Rightarrow> list_ex (\<lambda>i. nat_str i = field \<and> vs ! i = J_bool True) [0..<length vs]
      | _ \<Rightarrow> False)"

definition decideField :: "(real \<Rightarrow> string) \<Rightarrow> FieldMergeInput \<Rightarrow> FieldDecision" where
  "decideField num inp =
     (let current = fm_current inp; incoming = fm_incoming inp
      in if is_empty_value current then FD_set
         else if deepEqual num current incoming then FD_skip
         else if fm_field inp \<in> set SET_FIELDS then FD_addToSet
         else if wasManuallyEdited (option_or (fm_props inp) []) (fm_field inp) then FD_conflict Keep True
         else (let currentConfidence = option_or (fm_currentConfidence inp) 0
               in FD_conflict (if currentConfidence + 2 / 10 \<le> fm_incomingConfidence inp then Replace else Keep) False))"

section \<open>Facts about confidence\<close>

lemma clamp01_bounds [simp]: "0 \<le> clamp01 v" "clamp01 v \<le> 1"
  by (simp_all add: clamp01_def)

lemma clamp01_mono: "v \<le> w \<Longrightarrow> clamp01 v \<le> clamp01 w"
  by (auto simp: clamp01_def min_def max_def)

lemma clamp01_cap: "clamp01 (min v CONFIDENCE_CAP) = max 0 (min v CONFIDENCE_CAP)"
  by (auto simp: clamp01_def CONFIDENCE_CAP_def min_def max_def)

definition doubt :: "real list \<Rightarrow> real" where
  "doubt cs = prod_list (map (\<lambda>c. 1 - clamp01 c) cs)"

lemma doubt_fold: "foldl (\<lambda>acc c. acc * (1 - clamp01 c)) a cs = a * doubt cs"
  by (induction cs arbitrary: a) (simp_all add: doubt_def)

lemma doubt_bounds: "0 \<le> doubt cs \<and> doubt cs \<le> 1"
proof (induction cs)
  case (Cons c cs)
  have "0 \<le> 1 - clamp01 c" "1 - clamp01 c \<le> 1" by simp_all
  with Cons show ?case
    by (auto simp: doubt_def intro: mult_nonneg_nonneg mult_le_one)
qed (simp add: doubt_def)

lemma noisyOr_doubt: "noisyOr cs = min (1 - doubt cs) CONFIDENCE_CAP"
  using doubt_bounds [of cs]
  by (auto simp: noisyOr_def doubt_fold clamp01_cap Let_def) (auto simp: doubt_def CONFIDENCE_CAP_def)

text \<open>The confidence model: a derived confidence is between 0 and the cap of 0.97; corroboration does not depend on the order of the observations, never lowers the confidence, reaches at least every single (capped) observation and never exceeds the cap, and two observations \<open>a\<close> and \<open>b\<close> combine to \<open>a + b - a b\<close> below it.\<close>

theorem noisyOr_corroborates:
  assumes "mset cs = mset ds"
  shows "noisyOr cs = noisyOr ds \<and> noisyOr cs \<le> noisyOr (c # cs) \<and> min (clamp01 c) CONFIDENCE_CAP \<le> noisyOr (c # cs)
    \<and> 0 \<le> noisyOr cs \<and> noisyOr cs \<le> CONFIDENCE_CAP
    \<and> noisyOr [a, b] = min (clamp01 a + clamp01 b - clamp01 a * clamp01 b) CONFIDENCE_CAP
    \<and> 0 \<le> computeConfidence inp \<and> computeConfidence inp \<le> CONFIDENCE_CAP"
proof -
  have "mset (map f cs) = mset (map f ds)" for f :: "real \<Rightarrow> real" using assms by simp
  then have "doubt cs = doubt ds" unfolding doubt_def by (metis prod_mset_prod_list)
  moreover have "doubt (c # cs) \<le> doubt cs" "doubt (c # cs) \<le> 1 - clamp01 c"
  proof -
    have d: "doubt (c # cs) = (1 - clamp01 c) * doubt cs" by (simp add: doubt_def)
    show "doubt (c # cs) \<le> doubt cs" using doubt_bounds [of cs] mult_right_le_one_le [of "doubt cs" "1 - clamp01 c"]
      by (simp add: d mult.commute)
    show "doubt (c # cs) \<le> 1 - clamp01 c" using doubt_bounds [of cs] mult_right_le_one_le [of "1 - clamp01 c" "doubt cs"]
      by (simp add: d)
  qed
  moreover have "doubt [a, b] = 1 - (clamp01 a + clamp01 b - clamp01 a * clamp01 b)"
    by (simp add: doubt_def algebra_simps)
  moreover have "0 \<le> computeConfidence inp" "computeConfidence inp \<le> CONFIDENCE_CAP"
    by (simp_all add: computeConfidence_def Let_def clamp01_cap) (simp add: CONFIDENCE_CAP_def)
  ultimately show ?thesis
    using doubt_bounds [of cs] by (simp add: noisyOr_doubt min_def CONFIDENCE_CAP_def)
qed

theorem noisyOr_corroborates_witness:
  "noisyOr [7 / 10, 7 / 10] = 91 / 100 \<and> noisyOr [9 / 10, 7 / 10] = noisyOr [7 / 10, 9 / 10]"
proof -
  have "mset [9 / 10, 7 / 10 :: real] = mset [7 / 10, 9 / 10]" by simp
  from noisyOr_corroborates [OF this, of 1 "7 / 10" "7 / 10"] show ?thesis
    by (simp add: clamp01_def CONFIDENCE_CAP_def min_def max_def)
qed

section \<open>Facts about similarity\<close>

definition gram_set :: "string \<Rightarrow> string set" where
  "gram_set s = {take 3 (drop i (''  '' @ w @ '' '')) | w i. w \<in> set (alnum_words (js_lower s)) \<and> i < length w + 1}"

lemma set_word_grams: "set (word_grams w) = (\<lambda>i. take 3 (drop i (''  '' @ w @ '' ''))) ` {..<length w + 1}"
proof -
  have "length (''  '' @ w @ '' '') - 2 = length w + 1" by simp
  then show ?thesis unfolding word_grams_def Let_def by (simp only: set_map set_upt atLeast0LessThan)
qed

lemma trigrams_facts: "distinct (trigrams s)" "set (trigrams s) = gram_set s"
proof -
  have "set (trigrams s) = (\<Union>w \<in> set (alnum_words (js_lower s)). set (word_grams w))" by (simp add: trigrams_def)
  then show "set (trigrams s) = gram_set s" unfolding set_word_grams gram_set_def by blast
qed (simp add: trigrams_def)

lemma alnum_words_set: "w \<in> set (alnum_words s) \<Longrightarrow> w \<noteq> [] \<and> list_all alnum w"
proof (induction s arbitrary: w)
  case (Cons c cs)
  then show ?case
    by (cases cs; cases "alnum_words cs") (auto split: if_splits)
qed simp

lemma gram_set_lower: "gram_set (js_lower s) = gram_set s"
  by (simp add: gram_set_def)

text \<open>\<open>trigramSimilarity\<close> is the Jaccard index of the two sets of trigrams of the padded words: it lies between 0 and 1, is symmetric and blind to case, is 1 exactly for equal non-empty sets and 0 exactly for disjoint ones.\<close>

theorem trigramSimilarity_is_jaccard:
  "trigramSimilarity a b = of_nat (card (gram_set a \<inter> gram_set b)) / of_nat (card (gram_set a \<union> gram_set b))
   \<and> 0 \<le> trigramSimilarity a b \<and> trigramSimilarity a b \<le> 1
   \<and> trigramSimilarity a b = trigramSimilarity b a \<and> trigramSimilarity (js_lower a) b = trigramSimilarity a b
   \<and> (trigramSimilarity a b = 1) = (gram_set a = gram_set b \<and> gram_set a \<noteq> {})
   \<and> (trigramSimilarity a b = 0) = (gram_set a \<inter> gram_set b = {})"
proof -
  have fin: "finite (gram_set s)" for s by (metis List.finite_set trigrams_facts(2))
  have len: "length (trigrams s) = card (gram_set s)" for s by (metis distinct_card trigrams_facts)
  have shared: "length (filter (\<lambda>g. g \<in> set (trigrams y)) (trigrams x)) = card (gram_set x \<inter> gram_set y)" for x y
    using distinct_length_filter [of "trigrams x" "\<lambda>g. g \<in> set (trigrams y)"] trigrams_facts
    by (simp add: Int_def conj_commute)
  have jac: "trigramSimilarity x y = of_nat (card (gram_set x \<inter> gram_set y)) / of_nat (card (gram_set x \<union> gram_set y))" for x y
  proof -
    have un: "int (card (gram_set x)) + int (card (gram_set y)) - int (card (gram_set x \<inter> gram_set y)) = int (card (gram_set x \<union> gram_set y))"
      using card_Un_Int [OF fin [of x] fin [of y]] by linarith
    have nil: "(trigrams x = [] \<and> trigrams y = []) = (gram_set x \<union> gram_set y = {})"
      using trigrams_facts(2) by (metis Un_empty set_empty)
    show ?thesis
      unfolding trigramSimilarity_def Let_def shared len un nil using fin by (auto simp: card_eq_0_iff)
  qed
  let ?i = "card (gram_set a \<inter> gram_set b)" and ?u = "card (gram_set a \<union> gram_set b)"
  have le: "?i \<le> ?u" using fin by (intro card_mono) auto
  have one: "(?i = ?u \<and> ?u \<noteq> 0) = (gram_set a = gram_set b \<and> gram_set a \<noteq> {})"
  proof
    assume iu: "?i = ?u \<and> ?u \<noteq> 0"
    then have "gram_set a \<inter> gram_set b = gram_set a \<union> gram_set b" using fin by (intro card_subset_eq) auto
    then show "gram_set a = gram_set b \<and> gram_set a \<noteq> {}" using iu by auto
  qed (use fin in auto)
  have "trigramSimilarity a b = 1 \<longleftrightarrow> ?i = ?u \<and> ?u \<noteq> 0"
    unfolding jac by (auto simp: divide_eq_1_iff)
  moreover have "trigramSimilarity a b = 0 \<longleftrightarrow> gram_set a \<inter> gram_set b = {}"
    unfolding jac using fin by (auto simp: card_eq_0_iff)
  ultimately show ?thesis
    using le one jac [of a b] jac [of b a] jac [of "js_lower a" b]
    by (simp add: gram_set_lower Int_commute Un_commute divide_le_eq_1) linarith
qed

section \<open>Facts about resolution\<close>

definition fuzzy :: "ResolveInput \<Rightarrow> ExistingNodeMatch \<Rightarrow> bool" where
  "fuzzy inp c \<longleftrightarrow> em_kind c = ri_kind inp \<and> em_boardId c = ri_boardId inp
     \<and> FUZZY_THRESHOLD \<le> trigramSimilarity (em_title c) (ri_display inp)"

lemma better_match_step:
  "better_match inp c best =
     (if fuzzy inp c \<and> (case best of None \<Rightarrow> True | Some (m, s) \<Rightarrow> s < trigramSimilarity (em_title c) (ri_display inp))
      then Some (c, trigramSimilarity (em_title c) (ri_display inp)) else best)"
  by (auto simp: better_match_def fuzzy_def Let_def)

lemma better_match_fold:
  assumes "fold (better_match inp) cs best = r"
    and "\<And>m s. best = Some (m, s) \<Longrightarrow> m \<in> M \<and> fuzzy inp m \<and> s = trigramSimilarity (em_title m) (ri_display inp)"
  shows "(r = None) = (best = None \<and> (\<forall>c \<in> set cs. \<not> fuzzy inp c))
    \<and> (case r of None \<Rightarrow> True
       | Some (m, s) \<Rightarrow> m \<in> M \<union> set cs \<and> fuzzy inp m \<and> s = trigramSimilarity (em_title m) (ri_display inp)
           \<and> (\<forall>c \<in> set cs. fuzzy inp c \<longrightarrow> trigramSimilarity (em_title c) (ri_display inp) \<le> s)
           \<and> (case best of None \<Rightarrow> True | Some (m', s') \<Rightarrow> s' \<le> s))"
  using assms
proof (induction cs arbitrary: best M)
  case Nil
  then show ?case by (auto split: option.splits)
next
  case (Cons c cs)
  let ?b = "better_match inp c best"
  have b: "m \<in> insert c M \<and> fuzzy inp m \<and> s = trigramSimilarity (em_title m) (ri_display inp)" if "?b = Some (m, s)" for m s
    using that Cons.prems(2) by (auto simp: better_match_step split: if_splits)
  have "fold (better_match inp) cs ?b = r" using Cons.prems(1) by simp
  note IH = Cons.IH [OF this b]
  have n: "?b = None \<longleftrightarrow> best = None \<and> \<not> fuzzy inp c" by (auto simp: better_match_step split: option.splits)
  show ?case
  proof (cases r)
    case None
    then show ?thesis using IH n by auto
  next
    case (Some p)
    then obtain m s where p: "r = Some (m, s)" by (cases p) auto
    then show ?thesis using IH n by (auto simp: better_match_step split: if_splits option.splits)
  qed
qed

lemma find_split:
  "find P xs = None \<longleftrightarrow> (\<forall>x \<in> set xs. \<not> P x)"
  "find P xs = Some x \<Longrightarrow> x \<in> set xs \<and> P x"
  by (auto simp: find_None_iff find_Some_iff)


definition sample_node :: "string \<Rightarrow> string \<Rightarrow> ExistingNodeMatch" where
  "sample_node key title = \<lparr>em_nodeId = ''n1'', em_kind = IK_person, em_identityKey = Some key, em_title = title,
     em_props = [(''aliases'', J_arr [J_str ''annie''])], em_boardId = ''b1'', em_confidence = Some (7 / 10)\<rparr>"


end
