(* ===== verification/IntegrationManifest.thy ===== *)
theory IntegrationManifest
  imports IntegrationErrors IntegrationNormalize
begin

text \<open>
  The declaration of a tool, \<open>packages/integrations/src/manifest.ts\<close>, and the registry of tools,
  \<open>registry.ts\<close>. The zod library is the argument \<open>zod\<close>: how a raw object is read at the declared
  types with defaults filled in, how it words a failed check, what it takes for a URL, and which
  patterns the regular expression engine compiles, and how a number is printed. The checks themselves are the predicates below.
\<close>

section \<open>Data\<close>

definition CURRENT_MANIFEST_VERSION :: real where "CURRENT_MANIFEST_VERSION = 1"

datatype input_type =
    In_string | In_number | In_boolean | In_enum | In_entity | In_entityList | In_duration | In_secretRef

datatype field_source = From_selection "ikind list" | From_form | From_derived string

record InputField =
  if_name :: string
  if_label :: string
  if_help :: "string option"
  if_type :: input_type
  if_entityKinds :: "ikind list option"
  if_enumValues :: "(string \<times> string) list option"
  if_required :: bool
  if_default :: js_value
  if_min :: "real option"
  if_max :: "real option"
  if_maxItems :: "int option"
  if_pattern :: "string option"
  if_from :: field_source
  if_advanced :: bool

datatype output_kind = Out_json | Out_ndjson | Out_csv | Out_text | Out_html | Out_binary

record OutputSpec =
  os_name :: string
  os_kind :: output_kind
  os_path :: "string option"
  os_fromStdout :: bool
  os_primary :: bool
  os_maxBytes :: int

datatype IntegrationPermission =
    Net_allowlist | Net_broad | Graph_read | Graph_propose | Secrets_read | Files_read | Files_write

datatype network_mode = Mode_none | Mode_allowlist | Mode_broad

record NetworkPolicy =
  np_mode :: network_mode
  np_allow :: "string list"
  np_denyPrivateRanges :: bool
  np_maxRequestsPerMinute :: int
  np_maxConcurrentConnections :: int

record ResourceLimits =
  rl_wallClockMs :: int
  rl_cpuMillicores :: int
  rl_memoryMiB :: int
  rl_pids :: int
  rl_tmpfsMiB :: int
  rl_maxOutputBytes :: int
  rl_maxArtifacts :: int

record container_exec =
  ce_image :: string
  ce_digest :: string
  ce_entrypoint :: "string list option"
  ce_command :: "string list"
  ce_env :: "(string \<times> string) list"
  ce_secretEnv :: "(string \<times> string) list"
  ce_workdir :: string
  ce_network :: NetworkPolicy
  ce_limits :: ResourceLimits
  ce_runtimeClass :: string
  ce_user :: string
  ce_readOnlyRootFs :: bool

record http_request =
  hr_name :: string
  hr_method :: string
  hr_path :: string
  hr_query :: "(string \<times> string) list"
  hr_headers :: "(string \<times> string) list"
  hr_secretHeaders :: "(string \<times> string) list"
  hr_body :: js_value
  hr_paginate :: "(string \<times> string option \<times> int) option"
  hr_collectAs :: string

record http_exec =
  he_baseUrl :: string
  he_requests :: "http_request list"
  he_network :: NetworkPolicy
  he_limits :: ResourceLimits

datatype Execution =
    Exec_container container_exec
  | Exec_http http_exec
  | Exec_builtin string ResourceLimits

datatype field_transform = Tr_none | Tr_lower | Tr_trim | Tr_url_normalize | Tr_domain_of | Tr_strip_at | Tr_sha256

record FieldMap =
  fmap_from :: string
  fmap_to :: string
  fmap_transform :: field_transform
  fmap_required :: bool

datatype relate_target = To_anchor | To_entity
datatype direction = Dir_out | Dir_in

record relate_spec =
  rs_to :: relate_target
  rs_toEntityRef :: "string option"
  rs_edgeType :: string
  rs_label :: "string option"
  rs_direction :: direction

record entity_spec =
  es_kind :: ikind
  es_valueFrom :: string
  es_nodeType :: string
  es_titleFrom :: "string option"
  es_fields :: "FieldMap list"
  es_tags :: "string list"
  es_baseConfidence :: real

record EntityMapping =
  map_recordType :: string
  map_entity :: entity_spec
  map_relate :: "relate_spec list"
  map_id :: "string option"

record RateLimits =
  rate_perUserPerHour :: int
  rate_perOrgPerHour :: int
  rate_perTargetPerDay :: int
  rate_concurrentRunsPerOrg :: int
  rate_minIntervalMsSameInput :: int

record CostHints =
  cost_typicalDurationMs :: int
  cost_typicalOutboundRequests :: int
  cost_typicalNewNodes :: int
  cost_billable :: bool
  cost_billingNote :: "string option"

datatype TargetScope = Public_index | Owned_asset | Third_party_host

primrec scope_str :: "TargetScope \<Rightarrow> string" where
  "scope_str Public_index = ''public-index''"
| "scope_str Owned_asset = ''owned-asset''"
| "scope_str Third_party_host = ''third-party-host''"

datatype capability =
    Enumerate_usernames | Scan_domain | Fetch_repo | Resolve_dns | Whois | Search_web
  | Extract_metadata | Analyze_file | Enrich_entity

datatype risk_label = Risk_low | Risk_medium | Risk_high
datatype maturity = Experimental | Beta | Stable | Deprecated_tool
datatype upstream = Upstream_active | Upstream_low | Upstream_unmaintained | Upstream_unknown

record IntegrationManifest =
  mf_manifestVersion :: real
  mf_id :: string
  mf_name :: string
  mf_version :: string
  mf_toolVersion :: string
  mf_publisher :: "string \<times> string option \<times> bool"
  mf_icon :: string
  mf_repository :: string
  mf_license :: string
  mf_description :: string
  mf_documentationUrl :: "string option"
  mf_capabilities :: "capability list"
  mf_inputs :: "InputField list"
  mf_outputs :: "OutputSpec list"
  mf_permissions :: "IntegrationPermission list"
  mf_execution :: Execution
  mf_parser :: "string \<times> string \<times> string list"
  mf_entityMappings :: "EntityMapping list"
  mf_rateLimits :: RateLimits
  mf_costHints :: CostHints
  mf_maturity :: maturity
  mf_risk_label :: risk_label
  mf_risk_reasons :: "string list"
  mf_risk_upstream :: upstream
  mf_risk_fallback :: "string option"
  mf_consent_required :: bool
  mf_consent_scopeText :: string
  mf_consent_scopes :: "TargetScope list"

record SchemaIssue =
  mi_path :: string
  mi_message :: string

record zod =
  zd_shape :: "js_object \<Rightarrow> SchemaIssue list + IntegrationManifest"
  zd_report :: "IntegrationManifest \<Rightarrow> SchemaIssue list"
  zd_url :: "string \<Rightarrow> bool"
  zd_compiles :: "string \<Rightarrow> bool"
  zd_num :: "real \<Rightarrow> string"

section \<open>Checks\<close>

definition between :: "int \<Rightarrow> int \<Rightarrow> int \<Rightarrow> bool" where
  "between lo hi n \<longleftrightarrow> lo \<le> n \<and> n \<le> hi"

definition len_between :: "nat \<Rightarrow> nat \<Rightarrow> string \<Rightarrow> bool" where
  "len_between lo hi s \<longleftrightarrow> lo \<le> length s \<and> length s \<le> hi"

definition opt_ok :: "('a \<Rightarrow> bool) \<Rightarrow> 'a option \<Rightarrow> bool" where
  "opt_ok P o1 = (case o1 of None \<Rightarrow> True | Some x \<Rightarrow> P x)"

text \<open>\<open>/^\d+\.\d+\.\d+(?:-[0-9A-Za-z-.]+)?$/\<close>: three numbers, the last maybe with a suffix.\<close>

definition zSemver :: "string \<Rightarrow> bool" where
  "zSemver s \<longleftrightarrow>
     (let core = takeWhile (\<lambda>c. is_digit c \<or> c = CHR ''.'') s;
          rest = drop (length core) s;
          parts = split_on (CHR ''.'') core
      in length parts = 3 \<and> list_all (\<lambda>p. p \<noteq> [] \<and> list_all is_digit p) parts
         \<and> (rest = [] \<or> hd rest = CHR ''-'' \<and> tl rest \<noteq> []
              \<and> list_all (\<lambda>c. is_digit c \<or> is_letter c \<or> c \<in> set ''-.'') (tl rest)))"

definition lower_letter :: "char \<Rightarrow> bool" where
  "lower_letter c \<longleftrightarrow> 97 \<le> code_unit c \<and> code_unit c \<le> 122"

definition zIntegrationId :: "string \<Rightarrow> bool" where
  "zIntegrationId s \<longleftrightarrow>
     s \<noteq> [] \<and> lower_letter (hd s) \<and> 3 \<le> length s \<and> length s \<le> 32
     \<and> list_all (\<lambda>c. lower_letter c \<or> is_digit c \<or> c = CHR ''-'') (tl s)"

definition field_name_ok :: "string \<Rightarrow> bool" where
  "field_name_ok s \<longleftrightarrow> s \<noteq> [] \<and> (is_letter (hd s) \<or> hd s = CHR ''_'')
     \<and> list_all (\<lambda>c. is_letter c \<or> is_digit c \<or> c = CHR ''_'') (tl s)"

definition zInputField :: "InputField \<Rightarrow> bool" where
  "zInputField f \<longleftrightarrow>
     field_name_ok (if_name f) \<and> len_between 1 80 (if_label f)
     \<and> opt_ok (\<lambda>h. length h \<le> 240) (if_help f)
     \<and> opt_ok (between 1 1000) (if_maxItems f)
     \<and> (case if_from f of From_selection kinds \<Rightarrow> kinds \<noteq> [] | _ \<Rightarrow> True)"

definition MEBI :: int where "MEBI = 1024 * 1024"

definition zOutputSpec :: "OutputSpec \<Rightarrow> bool" where
  "zOutputSpec out \<longleftrightarrow> between 1 (512 * MEBI) (os_maxBytes out)"

definition zNetworkPolicy :: "NetworkPolicy \<Rightarrow> bool" where
  "zNetworkPolicy p \<longleftrightarrow>
     np_denyPrivateRanges p \<and> between 1 6000 (np_maxRequestsPerMinute p)
     \<and> between 1 64 (np_maxConcurrentConnections p)"

definition zResourceLimits :: "ResourceLimits \<Rightarrow> bool" where
  "zResourceLimits l \<longleftrightarrow>
     between 1000 (3 * 60 * 60 * 1000) (rl_wallClockMs l) \<and> between 100 4000 (rl_cpuMillicores l)
     \<and> between 64 8192 (rl_memoryMiB l) \<and> between 16 2048 (rl_pids l) \<and> between 16 4096 (rl_tmpfsMiB l)
     \<and> between 1024 (512 * MEBI) (rl_maxOutputBytes l) \<and> between 1 64 (rl_maxArtifacts l)"

text \<open>\<open>/^sha256:[a-f0-9]{64}$/\<close>.\<close>

definition digest_ok :: "string \<Rightarrow> bool" where
  "digest_ok s \<longleftrightarrow> starts_with ''sha256:'' s \<and> length s = 71 \<and> list_all is_hex_digit (drop 7 s)"

definition zExecution :: "zod \<Rightarrow> Execution \<Rightarrow> bool" where
  "zExecution z e =
     (case e of
        Exec_container c \<Rightarrow>
          3 \<le> length (ce_image c) \<and> digest_ok (ce_digest c) \<and> ce_command c \<noteq> []
          \<and> zNetworkPolicy (ce_network c) \<and> zResourceLimits (ce_limits c)
          \<and> ce_runtimeClass c \<in> set [''runc'', ''gvisor''] \<and> ce_readOnlyRootFs c
      | Exec_http h \<Rightarrow>
          zd_url z (he_baseUrl h) \<and> he_requests h \<noteq> []
          \<and> list_all (\<lambda>r. hr_method r \<in> set [''GET'', ''POST'']
              \<and> opt_ok (\<lambda>(style, cursorPath, maxPages).
                   style \<in> set [''link-header'', ''cursor'', ''page''] \<and> between 1 200 maxPages) (hr_paginate r))
              (he_requests h)
          \<and> zNetworkPolicy (he_network h) \<and> zResourceLimits (he_limits h)
      | Exec_builtin modname limits \<Rightarrow> zResourceLimits limits)"

definition zEntityMapping :: "EntityMapping \<Rightarrow> bool" where
  "zEntityMapping m \<longleftrightarrow> 0 \<le> es_baseConfidence (map_entity m) \<and> es_baseConfidence (map_entity m) \<le> 1"

definition zRateLimits :: "RateLimits \<Rightarrow> bool" where
  "zRateLimits r \<longleftrightarrow>
     between 1 1000 (rate_perUserPerHour r) \<and> between 1 10000 (rate_perOrgPerHour r)
     \<and> between 1 1000 (rate_perTargetPerDay r) \<and> between 1 50 (rate_concurrentRunsPerOrg r)
     \<and> between 0 86400000 (rate_minIntervalMsSameInput r)"

definition zCostHints :: "CostHints \<Rightarrow> bool" where
  "zCostHints c \<longleftrightarrow>
     0 < cost_typicalDurationMs c \<and> 0 \<le> cost_typicalOutboundRequests c \<and> 0 \<le> cost_typicalNewNodes c
     \<and> opt_ok (\<lambda>note. length note \<le> 200) (cost_billingNote c)"

definition manifest_schema :: "zod \<Rightarrow> IntegrationManifest \<Rightarrow> bool" where
  "manifest_schema z m \<longleftrightarrow>
     mf_manifestVersion m = CURRENT_MANIFEST_VERSION
     \<and> zIntegrationId (mf_id m) \<and> len_between 2 60 (mf_name m) \<and> zSemver (mf_version m)
     \<and> length (mf_toolVersion m) \<le> 40
     \<and> opt_ok (zd_url z) (fst (snd (mf_publisher m)))
     \<and> zd_url z (mf_repository m) \<and> len_between 20 400 (mf_description m)
     \<and> opt_ok (zd_url z) (mf_documentationUrl m) \<and> mf_capabilities m \<noteq> []
     \<and> length (mf_inputs m) \<le> 24 \<and> list_all zInputField (mf_inputs m)
     \<and> mf_outputs m \<noteq> [] \<and> length (mf_outputs m) \<le> 16 \<and> list_all zOutputSpec (mf_outputs m)
     \<and> mf_permissions m \<noteq> [] \<and> zExecution z (mf_execution m)
     \<and> snd (snd (mf_parser m)) \<noteq> [] \<and> list_all zEntityMapping (mf_entityMappings m)
     \<and> zRateLimits (mf_rateLimits m) \<and> zCostHints (mf_costHints m)
     \<and> opt_ok (\<lambda>f. length f \<le> 300) (mf_risk_fallback m)
     \<and> len_between 20 600 (mf_consent_scopeText m) \<and> mf_consent_scopes m \<noteq> []"

text \<open>\<open>isRe2Safe\<close>: no \<open>\<close>digit back-reference, no look-around, and it compiles.\<close>

fun has_backref :: "string \<Rightarrow> bool" where
  "has_backref (c # d # cs) =
     (c = CHR 0x5C \<and> is_digit d \<and> d \<noteq> CHR ''0'' \<or> has_backref (d # cs))"
| "has_backref _ = False"

definition isRe2Safe :: "(string \<Rightarrow> bool) \<Rightarrow> string \<Rightarrow> bool" where
  "isRe2Safe compiles pattern \<longleftrightarrow>
     \<not> has_backref pattern
     \<and> \<not> list_ex (\<lambda>look. includes_str look pattern) [''(?='', ''(?!'', ''(?<'']
     \<and> compiles pattern"

definition network_of :: "Execution \<Rightarrow> NetworkPolicy option" where
  "network_of e = (case e of Exec_container c \<Rightarrow> Some (ce_network c) | Exec_http h \<Rightarrow> Some (he_network h)
     | Exec_builtin modname limits \<Rightarrow> None)"

definition field_issues :: "zod \<Rightarrow> InputField \<Rightarrow> SchemaIssue list" where
  "field_issues z f =
     (if if_type f = In_enum \<and> option_or (if_enumValues f) [] = []
      then [\<lparr>mi_path = ''inputs'', mi_message = ''input \"'' @ if_name f @ ''\" is an enum but declares no enumValues - the form cannot render it''\<rparr>] else [])
     @ (if if_type f \<in> {In_entity, In_entityList} \<and> option_or (if_entityKinds f) [] = []
        then [\<lparr>mi_path = ''inputs'', mi_message = ''input \"'' @ if_name f @ ''\" is an entity picker but declares no entityKinds - the form cannot render it''\<rparr>] else [])
     @ (case if_pattern f of
          Some p \<Rightarrow> if isRe2Safe (zd_compiles z) p then []
            else [\<lparr>mi_path = ''inputs'', mi_message = ''input \"'' @ if_name f @ ''\" has a pattern with backreferences or lookaround, which is not RE2-safe''\<rparr>]
        | None \<Rightarrow> [])"

definition refine_issues :: "zod \<Rightarrow> IntegrationManifest \<Rightarrow> SchemaIssue list" where
  "refine_issues z m =
     (case network_of (mf_execution m) of
        Some p \<Rightarrow> if np_mode p = Mode_broad \<and> Net_broad \<notin> set (mf_permissions m)
          then [\<lparr>mi_path = ''(root)'', mi_message = ''network.mode=broad requires permission net:broad''\<rparr>] else []
      | None \<Rightarrow> [])
     @ (if length (filter os_primary (mf_outputs m)) \<noteq> 1
        then [\<lparr>mi_path = ''(root)'', mi_message = ''exactly one output must be primary''\<rparr>] else [])
     @ concat (map (field_issues z) (mf_inputs m))"

definition zIntegrationManifest :: "zod \<Rightarrow> js_object \<Rightarrow> SchemaIssue list + IntegrationManifest" where
  "zIntegrationManifest z raw =
     (case zd_shape z raw of
        Inl issues \<Rightarrow> Inl issues
      | Inr m \<Rightarrow>
          if \<not> manifest_schema z m then Inl (zd_report z m)
          else if refine_issues z m \<noteq> [] then Inl (refine_issues z m) else Inr m)"

section \<open>Versions and parsing\<close>

type_synonym migrations = "(real \<times> (js_object \<Rightarrow> js_object)) list"

definition MANIFEST_MIGRATIONS :: migrations where "MANIFEST_MIGRATIONS = []"

definition typeof_str :: "js_value \<Rightarrow> string" where
  "typeof_str v = (case v of J_undefined \<Rightarrow> ''undefined'' | J_null \<Rightarrow> ''object'' | J_bool b \<Rightarrow> ''boolean''
     | J_num n \<Rightarrow> ''number'' | J_str s \<Rightarrow> ''string'' | J_arr vs \<Rightarrow> ''object'' | J_obj es \<Rightarrow> ''object'')"

definition manifest_invalid :: "string \<Rightarrow> js_object \<Rightarrow> IntegrationError" where
  "manifest_invalid why detail =
     integration_error MANIFEST_INVALID (no_options\<lparr>po_why := Some why, po_detail := Some detail\<rparr>)"

text \<open>
  The migration loop: every step below the current version needs its entry of the table, and sets the
  version of its result.
\<close>

definition set_prop :: "string \<Rightarrow> js_value \<Rightarrow> js_object \<Rightarrow> js_object" where
  "set_prop = omap_set"

definition version_detail :: "real \<Rightarrow> js_object" where
  "version_detail version = [(''manifestVersion'', J_num (Finite version))]"

function migrate_loop ::
  "(real \<Rightarrow> string) \<Rightarrow> migrations \<Rightarrow> real \<Rightarrow> real \<Rightarrow> js_object \<Rightarrow> IntegrationError + (real \<times> js_object)" where
  "migrate_loop num migrations target version current =
     (if version < target
      then (case map_of migrations version of
              None \<Rightarrow> Inl (manifest_invalid
                (''No migration from manifestVersion '' @ num version @ '' to '' @ num (version + 1) @ '' is registered.'')
                (version_detail version))
            | Some migrate \<Rightarrow>
                migrate_loop num migrations target (version + 1)
                  (set_prop ''manifestVersion'' (J_num (Finite (version + 1))) (migrate current)))
      else Inr (version, current))"
  by pat_completeness auto
termination
proof (relation "measure (\<lambda>(num, ms, target, version, current). nat \<lceil>target - version\<rceil>)")
  fix num :: "real \<Rightarrow> string" and ms :: migrations and target version :: real and current migrate
  assume v: "version < target"
  then have "1 \<le> \<lceil>target - version\<rceil>" by simp
  moreover have "\<lceil>target - (version + 1)\<rceil> = \<lceil>target - version\<rceil> - 1" by (simp add: algebra_simps flip: ceiling_diff_one)
  ultimately show "((num, ms, target, version + 1, set_prop ''manifestVersion'' (J_num (Finite (version + 1))) (migrate current)),
      num, ms, target, version, current) \<in> measure (\<lambda>(num, ms, target, version, current). nat \<lceil>target - version\<rceil>)"
    by simp
qed simp

declare migrate_loop.simps [simp del]

text \<open>A version that is not a number of the line (NaN) passes every comparison of the source.\<close>

definition migrate_with :: "(real \<Rightarrow> string) \<Rightarrow> migrations \<Rightarrow> real \<Rightarrow> js_value \<Rightarrow> IntegrationError + js_object" where
  "migrate_with num migrations target raw =
     (case (case raw of J_obj es \<Rightarrow> Some es
            | J_arr vs \<Rightarrow> Some (zip (map nat_str [0..<length vs]) vs) | _ \<Rightarrow> None) of
        None \<Rightarrow> Inl (manifest_invalid ''A manifest must be an object.'' [(''received'', J_str (typeof_str raw))])
      | Some current \<Rightarrow>
          (let declared = prop_get current ''manifestVersion'';
               bad = Inl (manifest_invalid ''The manifest does not declare a supported manifestVersion.''
                            [(''manifestVersion'', declared)])
           in case declared of
                J_num (Finite v) \<Rightarrow>
                  if v < 1 then bad
                  else (case migrate_loop num migrations target v current of
                          Inl e \<Rightarrow> Inl e
                        | Inr (version, migrated) \<Rightarrow>
                            if target < version
                            then Inl (manifest_invalid
                              (''This build understands manifestVersion '' @ num target
                               @ '', the manifest declares '' @ num version @ ''.'')
                              (version_detail version))
                            else Inr migrated)
              | J_num NonFinite \<Rightarrow> Inr current
              | _ \<Rightarrow> bad))"

definition migrateManifest :: "(real \<Rightarrow> string) \<Rightarrow> js_value \<Rightarrow> IntegrationError + js_object" where
  "migrateManifest num = migrate_with num MANIFEST_MIGRATIONS CURRENT_MANIFEST_VERSION"

definition asks_workdir_exec :: "js_object \<Rightarrow> bool" where
  "asks_workdir_exec migrated =
     (case prop_get migrated ''execution'' of J_obj es \<Rightarrow> prop_get es ''workdirExec'' = J_bool True | _ \<Rightarrow> False)"

definition safeParseManifest :: "zod \<Rightarrow> js_value \<Rightarrow> SchemaIssue list + IntegrationManifest" where
  "safeParseManifest z raw =
     (case migrateManifest (zd_num z) raw of
        Inl e \<Rightarrow> Inl [\<lparr>mi_path = ''manifestVersion'', mi_message = ie_message e\<rparr>]
      | Inr migrated \<Rightarrow>
          if asks_workdir_exec migrated
          then Inl [\<lparr>mi_path = ''execution.workdirExec'',
                    mi_message = ''executing from the workdir is not supported in v1 (10_INTEGRATIONS.md '' @ [CHR 0xA7] @ ''6.3)''\<rparr>]
          else zIntegrationManifest z migrated)"

definition describeIssues :: "SchemaIssue list \<Rightarrow> string" where
  "describeIssues issues =
     take 140 (join_with ''; '' (map (\<lambda>i. mi_path i @ '': '' @ mi_message i) issues))"

definition issue_value :: "SchemaIssue \<Rightarrow> js_value" where
  "issue_value i = J_obj [(''path'', J_str (mi_path i)), (''message'', J_str (mi_message i))]"

definition parseManifest :: "zod \<Rightarrow> js_value \<Rightarrow> IntegrationError + IntegrationManifest" where
  "parseManifest z raw =
     (case safeParseManifest z raw of
        Inr m \<Rightarrow> Inr m
      | Inl issues \<Rightarrow> Inl (manifest_invalid (describeIssues issues) [(''issues'', J_arr (map issue_value issues))]))"

definition limitsOf :: "IntegrationManifest \<Rightarrow> ResourceLimits" where
  "limitsOf m = (case mf_execution m of Exec_container c \<Rightarrow> ce_limits c | Exec_http h \<Rightarrow> he_limits h
     | Exec_builtin modname limits \<Rightarrow> limits)"

definition networkPolicyOf :: "IntegrationManifest \<Rightarrow> NetworkPolicy" where
  "networkPolicyOf m =
     (case network_of (mf_execution m) of
        None \<Rightarrow> \<lparr>np_mode = Mode_none, np_allow = [], np_denyPrivateRanges = True,
                np_maxRequestsPerMinute = 120, np_maxConcurrentConnections = 16\<rparr>
      | Some p \<Rightarrow> p)"

section \<open>What a parsed manifest guarantees\<close>

lemma zIntegrationManifest_Inr:
  "zIntegrationManifest z raw = Inr m \<longleftrightarrow> zd_shape z raw = Inr m \<and> manifest_schema z m \<and> refine_issues z m = []"
  by (auto simp: zIntegrationManifest_def split: sum.splits if_splits)

lemma limitsOf_ok: "zExecution z (mf_execution m) \<Longrightarrow> zResourceLimits (limitsOf m)"
  by (auto simp: zExecution_def limitsOf_def split: Execution.splits)

lemma networkPolicyOf_ok: "zExecution z (mf_execution m) \<Longrightarrow> zNetworkPolicy (networkPolicyOf m)"
  by (auto simp: zExecution_def networkPolicyOf_def network_of_def zNetworkPolicy_def between_def split: Execution.splits)

lemma manifest_invalid_payload [simp]:
  "ie_code (manifest_invalid why detail) = MANIFEST_INVALID"
  "pay_why (ie_payload (manifest_invalid why detail)) = why"
  by (simp_all add: manifest_invalid_def integration_error_def payloadFor_def Let_def)

lemma field_issues_Nil:
  "field_issues z f = [] \<Longrightarrow>
     (if_type f = In_enum \<longrightarrow> option_or (if_enumValues f) [] \<noteq> [])
     \<and> (if_type f \<in> {In_entity, In_entityList} \<longrightarrow> option_or (if_entityKinds f) [] \<noteq> [])
     \<and> opt_ok (isRe2Safe (zd_compiles z)) (if_pattern f)"
  by (auto simp: field_issues_def opt_ok_def split: if_splits option.splits)

text \<open>C25. A manifest that \<open>parseManifest\<close> accepts is safe to run: its resource limits are inside the hard bounds, private address ranges stay denied and unrestricted network access comes only with its permission, exactly one output is primary, every choice field has choices and every pattern is safe, and it never asks to execute from its work directory. Whatever it refuses it refuses as an invalid manifest with a reason of at most 140 characters.\<close>

theorem parseManifest_guarantees:
  "case parseManifest z raw of
     Inr m \<Rightarrow>
       zResourceLimits (limitsOf m) \<and> np_denyPrivateRanges (networkPolicyOf m)
       \<and> (np_mode (networkPolicyOf m) = Mode_broad \<longrightarrow> Net_broad \<in> set (mf_permissions m))
       \<and> length (filter os_primary (mf_outputs m)) = 1
       \<and> zIntegrationId (mf_id m) \<and> mf_consent_scopes m \<noteq> []
       \<and> (\<forall>f \<in> set (mf_inputs m).
            (if_type f = In_enum \<longrightarrow> option_or (if_enumValues f) [] \<noteq> [])
            \<and> (if_type f \<in> {In_entity, In_entityList} \<longrightarrow> option_or (if_entityKinds f) [] \<noteq> [])
            \<and> opt_ok (isRe2Safe (zd_compiles z)) (if_pattern f))
       \<and> (\<exists>migrated. migrateManifest (zd_num z) raw = Inr migrated \<and> \<not> asks_workdir_exec migrated)
   | Inl e \<Rightarrow> ie_code e = MANIFEST_INVALID \<and> length (pay_why (ie_payload e)) \<le> 140"
proof (cases "safeParseManifest z raw")
  case (Inl issues)
  then show ?thesis by (simp add: parseManifest_def describeIssues_def)
next
  case (Inr m)
  then obtain migrated where mig: "migrateManifest (zd_num z) raw = Inr migrated" "\<not> asks_workdir_exec migrated"
    and m: "manifest_schema z m" "refine_issues z m = []"
    by (auto simp: safeParseManifest_def zIntegrationManifest_Inr split: sum.splits if_splits)
  have ex: "zExecution z (mf_execution m)" "zIntegrationId (mf_id m)" "mf_consent_scopes m \<noteq> []"
    using m(1) by (simp_all add: manifest_schema_def)
  have "np_mode (networkPolicyOf m) = Mode_broad \<longrightarrow> Net_broad \<in> set (mf_permissions m)"
    using m(2) by (auto simp: refine_issues_def networkPolicyOf_def split: option.splits if_splits)
  moreover have "length (filter os_primary (mf_outputs m)) = 1"
    using m(2) by (simp add: refine_issues_def split: if_splits)
  moreover have "field_issues z f = []" if "f \<in> set (mf_inputs m)" for f
    using m(2) that by (simp add: refine_issues_def)
  ultimately show ?thesis
    using ex mig limitsOf_ok [OF ex(1)] networkPolicyOf_ok [OF ex(1)] field_issues_Nil Inr
    by (simp add: parseManifest_def zNetworkPolicy_def) blast
qed

definition sample_limits :: ResourceLimits where
  "sample_limits = \<lparr>rl_wallClockMs = 300000, rl_cpuMillicores = 1000, rl_memoryMiB = 512, rl_pids = 256,
     rl_tmpfsMiB = 256, rl_maxOutputBytes = 65536, rl_maxArtifacts = 8\<rparr>"

definition sample_field :: InputField where
  "sample_field = \<lparr>if_name = ''target'', if_label = ''Target'', if_help = None, if_type = In_entity,
     if_entityKinds = Some [IK_domain], if_enumValues = None, if_required = True, if_default = J_undefined,
     if_min = None, if_max = None, if_maxItems = None, if_pattern = None, if_from = From_selection [IK_domain],
     if_advanced = False\<rparr>"

definition sample_manifest :: IntegrationManifest where
  "sample_manifest = \<lparr>mf_manifestVersion = 1, mf_id = ''whois'', mf_name = ''Whois'', mf_version = ''1.0.0'',
     mf_toolVersion = ''2.1.0'', mf_publisher = (''Nexus'', None, True), mf_icon = ''i'', mf_repository = ''https://h'',
     mf_license = ''MIT'', mf_description = ''Looks up registration data.'', mf_documentationUrl = None,
     mf_capabilities = [Whois], mf_inputs = [sample_field],
     mf_outputs = [\<lparr>os_name = ''out'', os_kind = Out_json, os_path = None, os_fromStdout = True, os_primary = True, os_maxBytes = 1000\<rparr>],
     mf_permissions = [Graph_propose], mf_execution = Exec_builtin ''whois'' sample_limits,
     mf_parser = (''p'', ''parser'', [''1.0'']), mf_entityMappings = [],
     mf_rateLimits = \<lparr>rate_perUserPerHour = 20, rate_perOrgPerHour = 200, rate_perTargetPerDay = 5,
       rate_concurrentRunsPerOrg = 3, rate_minIntervalMsSameInput = 60000\<rparr>,
     mf_costHints = \<lparr>cost_typicalDurationMs = 1000, cost_typicalOutboundRequests = 1, cost_typicalNewNodes = 3,
       cost_billable = False, cost_billingNote = None\<rparr>,
     mf_maturity = Stable, mf_risk_label = Risk_low, mf_risk_reasons = [], mf_risk_upstream = Upstream_active,
     mf_risk_fallback = None, mf_consent_required = True, mf_consent_scopeText = ''Contacts public registries.'',
     mf_consent_scopes = [Public_index]\<rparr>"

definition sample_zod :: zod where
  "sample_zod = \<lparr>zd_shape = (\<lambda>raw. Inr sample_manifest), zd_report = (\<lambda>m. []), zd_url = (\<lambda>s. True),
     zd_compiles = (\<lambda>p. True), zd_num = (\<lambda>r. int_str \<lfloor>r\<rfloor>)\<rparr>"

lemma sample_manifest_ok: "manifest_schema sample_zod sample_manifest \<and> refine_issues sample_zod sample_manifest = []"
  by (simp add: manifest_schema_def refine_issues_def field_issues_def sample_manifest_def sample_zod_def sample_field_def
      sample_limits_def CURRENT_MANIFEST_VERSION_def zIntegrationId_def lower_letter_def is_digit_def is_letter_def
      len_between_def between_def zSemver_def opt_ok_def zInputField_def field_name_ok_def zOutputSpec_def MEBI_def
      zExecution_def zResourceLimits_def zRateLimits_def zCostHints_def network_of_def option_or_def code_unit_def)

theorem parseManifest_guarantees_witness:
  "parseManifest sample_zod (J_obj [(''manifestVersion'', J_num (Finite 1))]) = Inr sample_manifest
     \<and> np_denyPrivateRanges (networkPolicyOf sample_manifest)"
proof -
  let ?raw = "J_obj [(''manifestVersion'', J_num (Finite 1))]"
  have "migrateManifest n ?raw = Inr [(''manifestVersion'', J_num (Finite 1))]" for n
    by (simp add: migrateManifest_def migrate_with_def prop_get_def migrate_loop.simps CURRENT_MANIFEST_VERSION_def)
  then have p: "parseManifest sample_zod ?raw = Inr sample_manifest"
    using sample_manifest_ok
    by (simp add: parseManifest_def safeParseManifest_def zIntegrationManifest_def asks_workdir_exec_def prop_get_def)
      (simp add: sample_zod_def)
  show ?thesis using parseManifest_guarantees [of sample_zod ?raw] p by simp
qed

end
