(* ===== verification/IntegrationConsent.thy ===== *)
theory IntegrationConsent
  imports Sha256 IntegrationManifest
begin

text \<open>
  The legal gate, \<open>packages/integrations/src/consent.ts\<close>: which consent covers a run, which targets are
  allowed at all, and the hashes that bind a consent and a repeated run to their inputs. \<open>Date.parse\<close>
  is the argument \<open>date\<close> (\<open>None\<close> is NaN), the URL parser the argument \<open>parse\<close>.
\<close>

record ResolvedTarget =
  rt_kind :: ikind
  rt_value :: string
  rt_scope :: TargetScope

section \<open>Hashes\<close>

text \<open>\<open>TextEncoder\<close>: UTF-8 of code units below 256.\<close>

definition utf8_char :: "char \<Rightarrow> u8 list" where
  "utf8_char c =
     (let n = code_unit c
      in if n < 128 then [of_int n] else [of_int (192 + n div 64), of_int (128 + n mod 64)])"

definition hashText :: "string \<Rightarrow> string" where
  "hashText s = (case sha256Hex (concat (map utf8_char s)) of Inr h \<Rightarrow> h | Inl e \<Rightarrow> [])"

definition target_text :: "ResolvedTarget \<Rightarrow> string" where
  "target_text t = ikind_str (rt_kind t) @ '':'' @ rt_value t @ '':'' @ scope_str (rt_scope t)"

definition newline :: char where "newline = CHR 0x0A"

definition canonical_targets :: "ResolvedTarget list \<Rightarrow> string" where
  "canonical_targets targets = join_with [newline] (sort (map target_text targets))"

definition targetsHash :: "ResolvedTarget list \<Rightarrow> string" where
  "targetsHash targets = hashText (canonical_targets targets)"

definition consentTtlMs :: "risk_label \<Rightarrow> int" where
  "consentTtlMs risk =
     (if risk = Risk_high then 0 else if risk = Risk_medium then 24 * 60 * 60 * 1000
      else 7 * 24 * 60 * 60 * 1000)"

section \<open>Consent\<close>

record ConsentRecord =
  cons_id :: string
  cons_orgId :: string
  cons_projectId :: string
  cons_userId :: string
  cons_integrationId :: string
  cons_scope :: TargetScope
  cons_targetsHash :: string
  cons_scopeTextHash :: string
  cons_acceptedAt :: string
  cons_expiresAt :: string
  cons_revokedAt :: "string option"
  cons_usedAt :: "string option"

record ConsentCheck =
  ck_manifest :: IntegrationManifest
  ck_consent :: "ConsentRecord option"
  ck_targets :: "ResolvedTarget list"
  ck_projectId :: string
  ck_userId :: string
  ck_now :: string

definition because :: "IntegrationErrorCode \<Rightarrow> string \<Rightarrow> IntegrationError" where
  "because code why = integration_error code (no_options\<lparr>po_why := Some why\<rparr>)"

text \<open>\<open>Date.parse(a) <= Date.parse(b)\<close>: false as soon as one of them is NaN.\<close>

definition date_le :: "(string \<Rightarrow> real option) \<Rightarrow> string \<Rightarrow> string \<Rightarrow> bool" where
  "date_le date a b = (case (date a, date b) of (Some x, Some y) \<Rightarrow> x \<le> y | _ \<Rightarrow> False)"

definition assertConsentValid :: "(string \<Rightarrow> real option) \<Rightarrow> ConsentCheck \<Rightarrow> IntegrationError + ConsentRecord" where
  "assertConsentValid date check =
     (let manifest = ck_manifest check
      in case ck_consent check of
           None \<Rightarrow> Inl (integration_error CONSENT_REQUIRED no_options)
         | Some consent \<Rightarrow>
             if cons_integrationId consent \<noteq> mf_id manifest \<or> cons_projectId consent \<noteq> ck_projectId check
             then Inl (because CONSENT_REQUIRED ''The stored authorization was given for a different tool or project.'')
             else if cons_userId consent \<noteq> ck_userId check
             then Inl (because CONSENT_REQUIRED ''Authorization is personal; the person starting the run must give it.'')
             else if cons_revokedAt consent \<noteq> None
             then Inl (because CONSENT_EXPIRED ''This authorization was revoked.'')
             else if date_le date (cons_expiresAt consent) (ck_now check)
             then Inl (integration_error CONSENT_EXPIRED no_options)
             else if cons_scopeTextHash consent \<noteq> hashText (mf_consent_scopeText manifest)
             then Inl (because CONSENT_EXPIRED ''The authorization wording changed since you accepted it.'')
             else if cons_targetsHash consent \<noteq> targetsHash (ck_targets check)
             then Inl (because CONSENT_EXPIRED ''The targets of this run differ from the ones you authorized.'')
             else if mf_risk_label manifest = Risk_high \<and> cons_usedAt consent \<noteq> None
             then Inl (because CONSENT_EXPIRED ''High-risk tools require a fresh authorization for every run.'')
             else Inr consent)"

section \<open>Targets\<close>

record TargetPolicy =
  tp_allowedScopes :: "TargetScope list"
  tp_ownedAssets :: "string list option"
  tp_neverScan :: "string list option"

definition SCANNING_CAPABILITIES :: "capability list" where
  "SCANNING_CAPABILITIES = [Scan_domain, Resolve_dns]"

definition hostOf :: "(string \<Rightarrow> js_url option) \<Rightarrow> string \<Rightarrow> string" where
  "hostOf parse v = (case parse v of Some u \<Rightarrow> url_hostname u | None \<Rightarrow> v)"

definition ends_with :: "string \<Rightarrow> string \<Rightarrow> bool" where
  "ends_with suf s \<longleftrightarrow> starts_with (rev suf) (rev s)"

definition not_allowed :: "string \<Rightarrow> IntegrationError" where
  "not_allowed why = because TARGET_NOT_ALLOWED why"

definition scope_refused :: "string \<Rightarrow> TargetScope \<Rightarrow> IntegrationError" where
  "scope_refused why scope =
     integration_error TARGET_NOT_ALLOWED
       (no_options\<lparr>po_why := Some why, po_detail := Some [(''scope'', J_str (scope_str scope))]\<rparr>)"

definition check_target ::
  "(string \<Rightarrow> js_url option) \<Rightarrow> IntegrationManifest \<Rightarrow> TargetPolicy \<Rightarrow> ResolvedTarget \<Rightarrow> IntegrationError option" where
  "check_target parse manifest policy target =
     (let owned = map js_lower (option_or (tp_ownedAssets policy) []);
          neverScan = map js_lower (option_or (tp_neverScan policy) []);
          isScanner = list_ex (\<lambda>c. c \<in> set SCANNING_CAPABILITIES) (mf_capabilities manifest);
          host = js_lower (hostOf parse (rt_value target))
      in if rt_scope target \<notin> set (mf_consent_scopes manifest)
         then Some (scope_refused (''This tool is not declared for '' @ scope_str (rt_scope target) @ '' targets.'') (rt_scope target))
         else if rt_scope target \<notin> set (tp_allowedScopes policy)
         then Some (scope_refused (''Your organization does not allow '' @ scope_str (rt_scope target) @ '' targets for this project.'') (rt_scope target))
         else if host \<in> set neverScan
         then Some (not_allowed ''This host is on the operator denylist and can never be a target.'')
         else if rt_kind target = IK_ip \<and> isReservedIp (rt_value target) \<and> js_lower (rt_value target) \<notin> set owned
         then Some (not_allowed ''Private and reserved addresses are never valid targets.'')
         else if isScanner \<and> (ends_with ''.gov'' host \<or> ends_with ''.mil'' host) \<and> host \<notin> set owned
         then Some (not_allowed ''Scanning-class tools may not target .gov or .mil hosts.'')
         else None)"

fun assertTargetsAllowed ::
  "(string \<Rightarrow> js_url option) \<Rightarrow> IntegrationManifest \<Rightarrow> TargetPolicy \<Rightarrow> ResolvedTarget list \<Rightarrow> IntegrationError + unit" where
  "assertTargetsAllowed parse manifest policy [] = Inr ()"
| "assertTargetsAllowed parse manifest policy (t # ts) =
     (case check_target parse manifest policy t of
        Some e \<Rightarrow> Inl e | None \<Rightarrow> assertTargetsAllowed parse manifest policy ts)"

record rate_keys =
  rk_user :: string
  rk_org :: string
  rk_targets :: "string list"
  rk_concurrency :: string

definition rateLimitKeys :: "string \<Rightarrow> string \<Rightarrow> string \<Rightarrow> ResolvedTarget list \<Rightarrow> rate_keys" where
  "rateLimitKeys userId orgId integrationId targets =
     \<lparr>rk_user = ''user:'' @ userId @ '':'' @ integrationId,
      rk_org = ''org:'' @ orgId @ '':'' @ integrationId,
      rk_targets = map (\<lambda>t. ''target:'' @ orgId @ '':'' @ hashText (ikind_str (rt_kind t) @ '':'' @ rt_value t)) targets,
      rk_concurrency = ''concurrency:'' @ orgId\<rparr>"

section \<open>Inputs\<close>

fun canonicalJson :: "(real \<Rightarrow> string) \<Rightarrow> js_value \<Rightarrow> string" where
  "canonicalJson num (J_arr vs) = ''['' @ join_with '','' (map (canonicalJson num) vs) @ '']''"
| "canonicalJson num (J_obj es) =
     ''{'' @ join_with '','' (map (\<lambda>(k, t). json_string k @ '':'' @ t)
        (sort_key fst (map (\<lambda>(k, v). (k, canonicalJson num v)) (filter (\<lambda>(k, v). v \<noteq> J_undefined) es)))) @ ''}''"
| "canonicalJson num v = (case json_text num v of None \<Rightarrow> ''null'' | Some t \<Rightarrow> t)"

definition inputHash :: "(real \<Rightarrow> string) \<Rightarrow> string \<Rightarrow> js_value \<Rightarrow> string" where
  "inputHash num integrationId inp = hashText (integrationId @ [newline] @ canonicalJson num inp)"

definition redactInput :: "(real \<Rightarrow> string) \<Rightarrow> IntegrationManifest \<Rightarrow> js_object \<Rightarrow> js_object" where
  "redactInput num manifest inp =
     (let secretFields = map if_name (filter (\<lambda>f. if_type f = In_secretRef) (mf_inputs manifest))
      in fold (\<lambda>(key, v). set_prop key
           (if key \<in> set secretFields then J_obj [(''secretRef'', J_str (js_string num v))] else v)) inp [])"

section \<open>What a consent is bound to\<close>

lemma scope_str_plain: "CHR '':'' \<notin> set (scope_str s) \<and> newline \<notin> set (scope_str s)"
  by (cases s) (auto simp: newline_def)

lemma scope_str_inj: "scope_str s = scope_str t \<longleftrightarrow> s = t"
  by (cases s; cases t) auto

lemma target_text_inj: "target_text s = target_text t \<longleftrightarrow> s = t"
proof
  assume e: "target_text s = target_text t"
  have k: "CHR '':'' \<notin> set (ikind_str (rt_kind r))" for r using ikind_str_plain by blast
  have 1: "rt_kind s = rt_kind t" "rt_value s @ CHR '':'' # scope_str (rt_scope s) = rt_value t @ CHR '':'' # scope_str (rt_scope t)"
    using e append_sep_eq [OF k k, of s _ t] ikind_str_inj [of "rt_kind s" "rt_kind t"] by (auto simp: target_text_def)
  from arg_cong [OF 1(2), of rev] have "rev (scope_str (rt_scope s)) @ CHR '':'' # rev (rt_value s)
      = rev (scope_str (rt_scope t)) @ CHR '':'' # rev (rt_value t)" by simp
  then have "rt_scope s = rt_scope t" "rt_value s = rt_value t"
    using scope_str_plain scope_str_inj by (simp_all add: append_sep_eq)
  with 1 show "s = t" by simp
qed simp

definition one_line :: "ResolvedTarget \<Rightarrow> bool" where
  "one_line t \<longleftrightarrow> newline \<notin> set (rt_value t)"

lemma target_text_line: "one_line t \<Longrightarrow> newline \<notin> set (target_text t) \<and> target_text t \<noteq> []"
  using scope_str_plain [of "rt_scope t"]
  by (cases "rt_kind t") (auto simp: target_text_def one_line_def newline_def)

lemma image_mset_inj: "image_mset f A = image_mset f B \<Longrightarrow> inj f \<Longrightarrow> A = B"
  using image_mset_eq_image_mset_plusD [of f A B "{#}"] by (auto simp: inj_on_def inj_def)

lemma canonical_targets_inj:
  assumes "list_all one_line ts" "list_all one_line us"
  shows "canonical_targets ts = canonical_targets us \<longleftrightarrow> mset ts = mset us"
proof
  assume e: "canonical_targets ts = canonical_targets us"
  have lines: "split_on newline (canonical_targets xs) = (if xs = [] then [[]] else sort (map target_text xs))"
    if "list_all one_line xs" for xs
  proof (cases "xs = []")
    case False
    then have "sort (map target_text xs) \<noteq> []" by (metis Nil_is_map_conv length_0_conv length_sort)
    then show ?thesis
      using False that target_text_line unfolding canonical_targets_def
      by (simp, intro split_on_join) (auto simp: list_all_iff)
  qed (simp add: canonical_targets_def)
  have nil: "[[]] \<noteq> sort (map target_text xs)" if "list_all one_line xs" for xs
  proof
    assume "[[]] = sort (map target_text xs)"
    then have "[] \<in> set (map target_text xs)" by (metis list.set_intros(1) set_sort)
    then obtain x where "x \<in> set xs" "target_text x = []" by auto
    then show False using that target_text_line by (auto simp: list_all_iff)
  qed
  have "sort (map target_text ts) = sort (map target_text us)"
    using lines [OF assms(1)] lines [OF assms(2)] e nil [OF assms(1)] nil [OF assms(2)]
    by (metis (full_types) list.simps(8))
  then have "mset (map target_text ts) = mset (map target_text us)" by (metis mset_sort)
  then have "image_mset target_text (mset ts) = image_mset target_text (mset us)" by simp
  moreover have "inj target_text" using target_text_inj by (simp add: inj_def)
  ultimately show "mset ts = mset us" by (rule image_mset_inj)
next
  assume "mset ts = mset us"
  then have "sort (map target_text ts) = sort (map target_text us)" by (intro properties_for_sort) auto
  then show "canonical_targets ts = canonical_targets us" by (simp add: canonical_targets_def)
qed

lemma assertConsentValid_Inr:
  "assertConsentValid date check = Inr consent \<longleftrightarrow>
     ck_consent check = Some consent
     \<and> cons_integrationId consent = mf_id (ck_manifest check) \<and> cons_projectId consent = ck_projectId check
     \<and> cons_userId consent = ck_userId check \<and> cons_revokedAt consent = None
     \<and> \<not> date_le date (cons_expiresAt consent) (ck_now check)
     \<and> cons_scopeTextHash consent = hashText (mf_consent_scopeText (ck_manifest check))
     \<and> cons_targetsHash consent = targetsHash (ck_targets check)
     \<and> (mf_risk_label (ck_manifest check) = Risk_high \<longrightarrow> cons_usedAt consent = None)"
  by (auto simp: assertConsentValid_def Let_def split: option.splits)

lemma assertConsentValid_Inl:
  "assertConsentValid date check = Inl e \<Longrightarrow>
     ie_code e = (case ck_consent check of
        None \<Rightarrow> CONSENT_REQUIRED
      | Some c \<Rightarrow> if cons_integrationId c = mf_id (ck_manifest check) \<and> cons_projectId c = ck_projectId check
            \<and> cons_userId c = ck_userId check then CONSENT_EXPIRED else CONSENT_REQUIRED)"
  by (auto simp: assertConsentValid_def because_def integration_error_def Let_def split: option.splits if_splits)

text \<open>C9. A consent covers one set of targets for one person, tool and project: the order of the targets does not matter, and if the same consent is accepted for two lists of one-line targets then, unless SHA-256 collides on their texts, the lists hold the same targets. A consent that names another tool, project or person is asked for again, any other defect means it expired.\<close>

theorem consent_binds_targets:
  assumes "assertConsentValid date check = Inr consent"
    and "check' = check\<lparr>ck_targets := targets'\<rparr>"
    and "list_all one_line (ck_targets check)" "list_all one_line targets'"
    and "targetsHash (ck_targets check) = targetsHash targets' \<longrightarrow> canonical_targets (ck_targets check) = canonical_targets targets'"
  shows "(assertConsentValid date check' = Inr consent) = (mset (ck_targets check) = mset targets')
    \<and> cons_userId consent = ck_userId check \<and> cons_projectId consent = ck_projectId check
    \<and> cons_integrationId consent = mf_id (ck_manifest check)
    \<and> (case assertConsentValid date check' of Inr c \<Rightarrow> True | Inl e \<Rightarrow> ie_code e = CONSENT_EXPIRED)"
proof -
  note ok = assms(1) [unfolded assertConsentValid_Inr]
  have "(assertConsentValid date check' = Inr consent) = (targetsHash (ck_targets check) = targetsHash targets')"
    using ok by (auto simp: assertConsentValid_Inr assms(2))
  also have "\<dots> = (mset (ck_targets check) = mset targets')"
    using canonical_targets_inj [OF assms(3,4)] assms(5) by (auto simp: targetsHash_def)
  finally have "(assertConsentValid date check' = Inr consent) = (mset (ck_targets check) = mset targets')" .
  moreover have "case assertConsentValid date check' of Inr c \<Rightarrow> True | Inl e \<Rightarrow> ie_code e = CONSENT_EXPIRED"
    using assertConsentValid_Inl [of date check'] ok by (cases "assertConsentValid date check'") (auto simp: assms(2))
  ultimately show ?thesis using ok by simp
qed

definition sample_targets :: "ResolvedTarget list" where
  "sample_targets = [\<lparr>rt_kind = IK_domain, rt_value = ''b.org'', rt_scope = Public_index\<rparr>,
     \<lparr>rt_kind = IK_domain, rt_value = ''a.org'', rt_scope = Public_index\<rparr>]"

definition sample_consent :: ConsentRecord where
  "sample_consent = \<lparr>cons_id = ''c1'', cons_orgId = ''o1'', cons_projectId = ''p1'', cons_userId = ''u1'',
     cons_integrationId = ''whois'', cons_scope = Public_index, cons_targetsHash = targetsHash sample_targets,
     cons_scopeTextHash = hashText (mf_consent_scopeText sample_manifest), cons_acceptedAt = ''0'',
     cons_expiresAt = ''9'', cons_revokedAt = None, cons_usedAt = None\<rparr>"

definition sample_check :: ConsentCheck where
  "sample_check = \<lparr>ck_manifest = sample_manifest, ck_consent = Some sample_consent, ck_targets = sample_targets,
     ck_projectId = ''p1'', ck_userId = ''u1'', ck_now = ''5''\<rparr>"

theorem consent_binds_targets_witness:
  "assertConsentValid (\<lambda>s. Some (of_int (dec_val s))) (sample_check\<lparr>ck_targets := rev sample_targets\<rparr>) = Inr sample_consent"
proof -
  let ?date = "\<lambda>s. Some (real_of_int (dec_val s))"
  have date: "\<not> date_le ?date ''9'' ''5''"
    by (simp add: date_le_def dec_val_def code_unit_def)
  have valid: "assertConsentValid ?date sample_check = Inr sample_consent"
    using date by (simp add: assertConsentValid_Inr sample_check_def sample_consent_def) (simp add: sample_manifest_def)
  have lines: "list_all one_line sample_targets" "list_all one_line (rev sample_targets)"
    by (simp_all add: sample_targets_def one_line_def newline_def)
  have "canonical_targets sample_targets = canonical_targets (rev sample_targets)"
    using canonical_targets_inj [OF lines] by simp
  with consent_binds_targets [OF valid refl, of "rev sample_targets"] lines show ?thesis
    by (simp add: sample_check_def)
qed


definition sample_policy :: TargetPolicy where
  "sample_policy = \<lparr>tp_allowedScopes = [Public_index], tp_ownedAssets = Some [''lab.mil''], tp_neverScan = Some [''Bank.org'']\<rparr>"


text \<open>Two ways around the policy: a reserved address is refused as an IP target but allowed as the host of a URL target, and a trailing dot of the host name avoids the rule on government hosts. And a consent whose expiry cannot be parsed never expires.\<close>

theorem target_policy_gaps:
  "(\<exists>e. assertTargetsAllowed parse sample_manifest sample_policy [\<lparr>rt_kind = IK_ip, rt_value = ''10.0.0.1'', rt_scope = Public_index\<rparr>] = Inl e)
   \<and> assertTargetsAllowed (\<lambda>s. Some (sample_url\<lparr>url_hostname := ''10.0.0.1''\<rparr>)) sample_manifest sample_policy
       [\<lparr>rt_kind = IK_url, rt_value = ''http://10.0.0.1/'', rt_scope = Public_index\<rparr>] = Inr ()
   \<and> (\<exists>e. assertTargetsAllowed (\<lambda>s. None) (sample_manifest\<lparr>mf_capabilities := [Scan_domain]\<rparr>) sample_policy
       [\<lparr>rt_kind = IK_domain, rt_value = ''x.gov'', rt_scope = Public_index\<rparr>] = Inl e)
   \<and> assertTargetsAllowed (\<lambda>s. None) (sample_manifest\<lparr>mf_capabilities := [Scan_domain]\<rparr>) sample_policy
       [\<lparr>rt_kind = IK_domain, rt_value = ''x.gov.'', rt_scope = Public_index\<rparr>] = Inr ()
   \<and> assertConsentValid (\<lambda>s. None) (sample_check\<lparr>ck_now := now\<rparr>) = Inr sample_consent"
proof (intro conjI)
  have "isReservedIp ''10.0.0.1''" by code_simp
  moreover have "js_lower ''10.0.0.1'' = ''10.0.0.1''" "js_lower ''lab.mil'' = ''lab.mil''" by code_simp+
  ultimately show "\<exists>e. assertTargetsAllowed parse sample_manifest sample_policy [\<lparr>rt_kind = IK_ip, rt_value = ''10.0.0.1'', rt_scope = Public_index\<rparr>] = Inl e"
    by (auto simp: check_target_def sample_policy_def option_or_def Let_def)
  show "assertTargetsAllowed (\<lambda>s. Some (sample_url\<lparr>url_hostname := ''10.0.0.1''\<rparr>)) sample_manifest sample_policy
       [\<lparr>rt_kind = IK_url, rt_value = ''http://10.0.0.1/'', rt_scope = Public_index\<rparr>] = Inr ()"
    by (simp add: check_target_def hostOf_def sample_manifest_def sample_policy_def option_or_def
        SCANNING_CAPABILITIES_def js_lower_def lower_char_def code_unit_def Let_def)
  show "\<exists>e. assertTargetsAllowed (\<lambda>s. None) (sample_manifest\<lparr>mf_capabilities := [Scan_domain]\<rparr>) sample_policy
       [\<lparr>rt_kind = IK_domain, rt_value = ''x.gov'', rt_scope = Public_index\<rparr>] = Inl e"
    by (auto simp: check_target_def hostOf_def sample_manifest_def sample_policy_def option_or_def ends_with_def starts_with_def
        SCANNING_CAPABILITIES_def js_lower_def lower_char_def code_unit_def Let_def)
  show "assertTargetsAllowed (\<lambda>s. None) (sample_manifest\<lparr>mf_capabilities := [Scan_domain]\<rparr>) sample_policy
       [\<lparr>rt_kind = IK_domain, rt_value = ''x.gov.'', rt_scope = Public_index\<rparr>] = Inr ()"
    by (simp add: check_target_def hostOf_def sample_manifest_def sample_policy_def option_or_def ends_with_def starts_with_def
        SCANNING_CAPABILITIES_def js_lower_def lower_char_def code_unit_def Let_def)
  show "assertConsentValid (\<lambda>s. None) (sample_check\<lparr>ck_now := now\<rparr>) = Inr sample_consent"
    by (simp add: assertConsentValid_Inr sample_check_def sample_consent_def date_le_def) (simp add: sample_manifest_def)
qed

section \<open>Canonical inputs\<close>

lemma mset_filter_map:
  "mset xs = mset ys \<Longrightarrow> mset (map f (filter P xs)) = mset (map f (filter P ys))"
  by (simp add: mset_map mset_filter)

text \<open>The canonical text of an input, and so the hash that detects a repeated run, does not depend on the order of the fields of an object nor on fields that are undefined.\<close>

theorem canonicalJson_ignores_order:
  assumes "distinct (map fst es)" "mset es = mset es'"
  shows "canonicalJson num (J_obj es) = canonicalJson num (J_obj es')
    \<and> canonicalJson num (J_obj (es @ [(k, J_undefined)])) = canonicalJson num (J_obj es)
    \<and> inputHash num i (J_obj es) = inputHash num i (J_obj es')"
proof -
  let ?f = "\<lambda>(k, v). (k, canonicalJson num v)"
  let ?P = "\<lambda>(k, v). v \<noteq> J_undefined"
  have "map fst (map ?f xs) = map fst xs" for xs by (induction xs) auto
  then have "distinct (map fst (map ?f (filter ?P es)))" by (metis assms(1) distinct_map_filter)
  moreover have "mset (map ?f (filter ?P es)) = mset (map ?f (filter ?P es'))" using assms(2) by (rule mset_filter_map)
  ultimately have "sort_key fst (map ?f (filter ?P es)) = sort_key fst (map ?f (filter ?P es'))"
    by (rule sort_key_mset_unique)
  then show ?thesis by (simp add: inputHash_def)
qed

theorem canonicalJson_ignores_order_witness:
  "inputHash num ''whois'' (J_obj [(''b'', J_bool True), (''a'', J_null)]) = inputHash num ''whois'' (J_obj [(''a'', J_null), (''b'', J_bool True)])"
  using canonicalJson_ignores_order [of "[(''b'', J_bool True), (''a'', J_null)]" "[(''a'', J_null), (''b'', J_bool True)]" num _ "''whois''"]
  by simp

end
