(* ===== verification/IntegrationInput.thy ===== *)
theory IntegrationInput
  imports IntegrationConsent
begin

text \<open>
  Stage 1 of the import pipeline, the first half of \<open>packages/integrations/src/pipeline.ts\<close>: reading
  values out of records, and turning an invocation into the input and the targets of a run. Printing
  and reading of floating-point numbers, the URL parser and the regular expression engine are the
  argument \<open>lang\<close>.
\<close>

section \<open>Primitives\<close>

datatype message_level = Msg_info | Msg_warn | Msg_error

record UserMessage =
  um_level :: message_level
  um_message :: string
  um_detail :: "js_object option"

record lang =
  lg_num :: "real \<Rightarrow> string"
  lg_number :: "string \<Rightarrow> js_num"
  lg_urls :: url_api
  lg_test :: "string \<Rightarrow> string \<Rightarrow> bool"

text \<open>\<open>a ?? b\<close> on values.\<close>

definition nullish :: "js_value \<Rightarrow> bool" where
  "nullish v \<longleftrightarrow> v = J_undefined \<or> v = J_null"

definition or_else :: "js_value \<Rightarrow> js_value \<Rightarrow> js_value" where
  "or_else v w = (if nullish v then w else v)"

section \<open>Pointers\<close>

text \<open>\<open>replace(/~1/g, '/').replace(/~0/g, '~')\<close>.\<close>

fun replace_pair :: "char \<Rightarrow> char \<Rightarrow> char \<Rightarrow> string \<Rightarrow> string" where
  "replace_pair a b r (c # d # cs) =
     (if c = a \<and> d = b then r # replace_pair a b r cs else c # replace_pair a b r (d # cs))"
| "replace_pair a b r s = s"

definition unescape :: "string \<Rightarrow> string" where
  "unescape s = replace_pair (CHR ''~'') (CHR ''0'') (CHR ''~'') (replace_pair (CHR ''~'') (CHR ''1'') (CHR ''/'') s)"

definition array_at :: "js_value list \<Rightarrow> real \<Rightarrow> js_value" where
  "array_at vs r = (case nth_opt vs \<lfloor>r\<rfloor> of None \<Rightarrow> J_undefined | Some v \<Rightarrow> v)"

fun pointer_walk :: "lang \<Rightarrow> js_value \<Rightarrow> string list \<Rightarrow> js_value" where
  "pointer_walk lg current [] = current"
| "pointer_walk lg current (raw # rest) =
     (let segment = unescape raw
      in case current of
           J_arr vs \<Rightarrow>
             (case lg_number lg segment of
                Finite r \<Rightarrow> if of_int \<lfloor>r\<rfloor> = r then pointer_walk lg (array_at vs r) rest else J_undefined
              | NonFinite \<Rightarrow> J_undefined)
         | J_obj es \<Rightarrow> pointer_walk lg (prop_get es segment) rest
         | _ \<Rightarrow> J_undefined)"

definition jsonPointer :: "lang \<Rightarrow> js_value \<Rightarrow> string \<Rightarrow> js_value" where
  "jsonPointer lg data pointer =
     (if pointer = '''' \<or> pointer = ''/'' then data
      else pointer_walk lg data (split_on (CHR ''/'') (if hd pointer = CHR ''/'' then tl pointer else pointer)))"

section \<open>The input adapter\<close>

record GraphNodeRef =
  gn_id :: string
  gn_kind :: ikind
  gn_label :: string
  gn_props :: js_object

record IntegrationInvocation =
  inv_integrationId :: string
  inv_boardId :: string
  inv_selection :: "GraphNodeRef list"
  inv_formValues :: js_object
  inv_actorUserId :: string

record InputAdapterResult =
  ia_input :: js_object
  ia_targets :: "ResolvedTarget list"
  ia_warnings :: "UserMessage list"

definition selection_kinds :: "IntegrationManifest \<Rightarrow> ikind list" where
  "selection_kinds manifest =
     js_uniq (concat (map (\<lambda>f. case if_from f of From_selection kinds \<Rightarrow> kinds | _ \<Rightarrow> []) (mf_inputs manifest)))"

definition adapter_accepts :: "IntegrationManifest \<Rightarrow> GraphNodeRef list \<Rightarrow> bool" where
  "adapter_accepts manifest selection \<longleftrightarrow>
     selection_kinds manifest = [] \<or> list_ex (\<lambda>node. gn_kind node \<in> set (selection_kinds manifest)) selection"

definition field_error :: "IntegrationErrorCode \<Rightarrow> string \<Rightarrow> js_object \<Rightarrow> IntegrationError" where
  "field_error code why detail = integration_error code (no_options\<lparr>po_why := Some why, po_detail := Some detail\<rparr>)"

definition input_invalid :: "string \<Rightarrow> string \<Rightarrow> string \<Rightarrow> IntegrationError" where
  "input_invalid label name why =
     field_error INPUT_INVALID ([CHR 0x22] @ label @ [CHR 0x22] @ why) [(''field'', J_str name)]"

text \<open>\<open>/^domainOf\(([a-zA-Z_][a-zA-Z0-9_]*)\)$/\<close>.\<close>

definition derived_source :: "string \<Rightarrow> string option" where
  "derived_source expr =
     (let inner = butlast (drop 9 expr)
      in if starts_with ''domainOf('' expr \<and> ends_with '')'' (drop 9 expr) \<and> field_name_ok inner then Some inner else None)"

definition readFieldValue ::
  "lang \<Rightarrow> string \<Rightarrow> field_source \<Rightarrow> IntegrationInvocation \<Rightarrow> IntegrationError + js_value" where
  "readFieldValue lg name source ivc =
     (case source of
        From_form \<Rightarrow> Inr (prop_get (inv_formValues ivc) name)
      | From_selection kinds \<Rightarrow>
          (case find (\<lambda>node. gn_kind node \<in> set kinds) (inv_selection ivc) of
             Some node \<Rightarrow> Inr (J_str (gn_label node))
           | None \<Rightarrow> Inr (prop_get (inv_formValues ivc) name))
      | From_derived expr \<Rightarrow>
          (case derived_source expr of
             None \<Rightarrow> Inl (field_error MANIFEST_TEMPLATE_UNRESOLVED
               (''Derived input '' @ [CHR 0x22] @ name @ [CHR 0x22] @ '' uses an expression this build does not support.'')
               [(''expr'', J_str expr)])
           | Some sourceName \<Rightarrow>
               (let fallback = (case find (\<lambda>n. gn_kind n = IK_url) (inv_selection ivc) of
                                  None \<Rightarrow> J_undefined | Some n \<Rightarrow> J_str (gn_label n))
                in case or_else (prop_get (inv_formValues ivc) sourceName) fallback of
                     J_str s \<Rightarrow>
                       (let identity = identityFor (lg_urls lg) IK_url s None
                        in case (id_ok identity, id_meta identity) of
                             (True, Some meta) \<Rightarrow> Inr (prop_get meta ''host'')
                           | _ \<Rightarrow> Inr J_undefined)
                   | _ \<Rightarrow> Inr J_undefined)))"

definition coerceField ::
  "lang \<Rightarrow> input_type \<Rightarrow> js_value \<Rightarrow> string \<Rightarrow> string \<Rightarrow> IntegrationError + js_value" where
  "coerceField lg type v label name =
     (if type = In_number \<or> type = In_duration
      then (case (case v of J_num n \<Rightarrow> n | _ \<Rightarrow> lg_number lg (js_string (lg_num lg) v)) of
              Finite r \<Rightarrow> Inr (J_num (Finite r))
            | NonFinite \<Rightarrow> Inl (input_invalid label name '' must be a number.''))
      else if type = In_boolean then Inr (J_bool (v = J_bool True \<or> v = J_str ''true''))
      else if type = In_entityList
      then Inr (case v of J_arr vs \<Rightarrow> J_arr (map (\<lambda>item. J_str (js_string (lg_num lg) item)) vs)
                | _ \<Rightarrow> J_arr [J_str (js_string (lg_num lg) v)])
      else Inr (case v of J_str s \<Rightarrow> J_str (js_trim s) | _ \<Rightarrow> v))"

text \<open>\<open>Array.isArray(coerced) ? coerced : [coerced]\<close>.\<close>

definition items_of :: "js_value \<Rightarrow> js_value list" where
  "items_of v = (case v of J_arr vs \<Rightarrow> vs | _ \<Rightarrow> [v])"

definition check_field :: "lang \<Rightarrow> InputField \<Rightarrow> js_value \<Rightarrow> IntegrationError option" where
  "check_field lg f coerced =
     (let bad = (\<lambda>why. Some (input_invalid (if_label f) (if_name f) why))
      in if (case if_pattern f of None \<Rightarrow> False
               | Some p \<Rightarrow> list_ex (\<lambda>item. \<not> lg_test lg p (js_string (lg_num lg) item)) (items_of coerced))
         then bad '' does not match the format this tool accepts.''
         else (case coerced of
                 J_num (Finite n) \<Rightarrow>
                   (case if_min f of
                      Some lo \<Rightarrow> if n < lo then bad ('' must be at least '' @ lg_num lg lo @ ''.'')
                        else (case if_max f of Some hi \<Rightarrow> if hi < n then bad ('' must be at most '' @ lg_num lg hi @ ''.'') else None | None \<Rightarrow> None)
                    | None \<Rightarrow> (case if_max f of Some hi \<Rightarrow> if hi < n then bad ('' must be at most '' @ lg_num lg hi @ ''.'') else None | None \<Rightarrow> None))
               | J_arr vs \<Rightarrow>
                   (case if_maxItems f of
                      Some m \<Rightarrow> if m < int (length vs) then bad ('' accepts at most '' @ int_str m @ '' values.'') else None
                    | None \<Rightarrow> None)
               | _ \<Rightarrow> None))"

text \<open>The targets of one field: for each kind the first item that has that identity, then \<open>break\<close>.\<close>

definition first_target :: "lang \<Rightarrow> TargetScope \<Rightarrow> js_value list \<Rightarrow> ikind \<Rightarrow> ResolvedTarget list" where
  "first_target lg scope items kind =
     (case find (\<lambda>item. id_ok (identityFor (lg_urls lg) kind (js_string (lg_num lg) item) None)) items of
        None \<Rightarrow> []
      | Some item \<Rightarrow>
          (case id_value (identityFor (lg_urls lg) kind (js_string (lg_num lg) item) None) of
             None \<Rightarrow> []
           | Some v \<Rightarrow> [\<lparr>rt_kind = kind, rt_value = v, rt_scope = scope\<rparr>]))"

definition target_kinds :: "InputField \<Rightarrow> ikind list" where
  "target_kinds f = (case if_from f of From_selection kinds \<Rightarrow> kinds | _ \<Rightarrow> option_or (if_entityKinds f) [])"

text \<open>One round of the loop over the fields.\<close>

definition adapt_field ::
  "lang \<Rightarrow> TargetScope \<Rightarrow> IntegrationInvocation \<Rightarrow> InputField \<Rightarrow> js_object \<times> ResolvedTarget list
   \<Rightarrow> IntegrationError + (js_object \<times> ResolvedTarget list)" where
  "adapt_field lg scope ivc f s =
     (case readFieldValue lg (if_name f) (if_from f) ivc of
        Inl e \<Rightarrow> Inl e
      | Inr raw \<Rightarrow>
          (let v = (if raw = J_undefined then if_default f else raw)
           in if v = J_undefined \<or> v = J_str ''''
              then (if if_required f then Inl (input_invalid (if_label f) (if_name f) '' is required and was not provided.'')
                    else Inr s)
              else (case coerceField lg (if_type f) v (if_label f) (if_name f) of
                      Inl e \<Rightarrow> Inl e
                    | Inr coerced \<Rightarrow>
                        (case check_field lg f coerced of
                           Some e \<Rightarrow> Inl e
                         | None \<Rightarrow>
                             Inr (set_prop (if_name f) coerced (fst s),
                                  snd s @ concat (map (first_target lg scope (items_of coerced)) (target_kinds f)))))))"

fun adapt_fields ::
  "lang \<Rightarrow> TargetScope \<Rightarrow> IntegrationInvocation \<Rightarrow> InputField list \<Rightarrow> js_object \<times> ResolvedTarget list
   \<Rightarrow> IntegrationError + (js_object \<times> ResolvedTarget list)" where
  "adapt_fields lg scope ivc [] s = Inr s"
| "adapt_fields lg scope ivc (f # fs) s =
     (case adapt_field lg scope ivc f s of Inl e \<Rightarrow> Inl e | Inr s' \<Rightarrow> adapt_fields lg scope ivc fs s')"

definition target_key :: "ResolvedTarget \<Rightarrow> string" where
  "target_key t = ikind_str (rt_kind t) @ '':'' @ rt_value t"

definition dedupeTargets :: "ResolvedTarget list \<Rightarrow> ResolvedTarget list" where
  "dedupeTargets targets = omap_values (omap_of (map (\<lambda>t. (target_key t, t)) targets))"

definition manifestInputAdapter ::
  "lang \<Rightarrow> IntegrationManifest \<Rightarrow> IntegrationInvocation \<Rightarrow> IntegrationError + InputAdapterResult" where
  "manifestInputAdapter lg manifest ivc =
     (let scope = (case mf_consent_scopes manifest of [] \<Rightarrow> Public_index | s # ss \<Rightarrow> s)
      in case adapt_fields lg scope ivc (mf_inputs manifest) ([], []) of
           Inl e \<Rightarrow> Inl e
         | Inr (inp, targets) \<Rightarrow>
             Inr \<lparr>ia_input = inp, ia_targets = dedupeTargets targets,
                  ia_warnings =
                    (if targets = [] \<and> mf_inputs manifest \<noteq> []
                     then [\<lparr>um_level = Msg_info, um_message = ''This run has no resolvable target; the consent scope covers the tool as a whole.'', um_detail = None\<rparr>]
                     else [])\<rparr>)"

section \<open>What the adapter guarantees\<close>

definition value_ok :: "lang \<Rightarrow> InputField \<Rightarrow> js_value \<Rightarrow> bool" where
  "value_ok lg f v \<longleftrightarrow>
     opt_ok (\<lambda>p. list_all (\<lambda>item. lg_test lg p (js_string (lg_num lg) item)) (items_of v)) (if_pattern f)
     \<and> (case v of
          J_num (Finite n) \<Rightarrow> opt_ok (\<lambda>lo. lo \<le> n) (if_min f) \<and> opt_ok (\<lambda>hi. n \<le> hi) (if_max f)
        | J_arr vs \<Rightarrow> opt_ok (\<lambda>m. int (length vs) \<le> m) (if_maxItems f)
        | _ \<Rightarrow> True)
     \<and> (if_type f = In_number \<or> if_type f = In_duration \<longrightarrow> (\<exists>n. v = J_num (Finite n)))
     \<and> (if_type f = In_boolean \<longrightarrow> (\<exists>b. v = J_bool b))
     \<and> (if_type f = In_entityList \<longrightarrow> (\<exists>vs. v = J_arr vs))"

lemma field_error_code [simp]: "ie_code (field_error c why d) = c" "ie_code (input_invalid l n why) = INPUT_INVALID"
  by (simp_all add: field_error_def input_invalid_def integration_error_def Let_def)

lemma check_field_code: "check_field lg f v = Some e \<Longrightarrow> ie_code e = INPUT_INVALID"
  by (auto simp: check_field_def Let_def split: if_splits option.splits js_value.splits js_num.splits)

lemma coerceField_code: "coerceField lg ty v l n = Inl e \<Longrightarrow> ie_code e = INPUT_INVALID"
  by (auto simp: coerceField_def split: if_splits js_value.splits js_num.splits)

lemma readFieldValue_code: "readFieldValue lg n src ivc = Inl e \<Longrightarrow> ie_code e = MANIFEST_TEMPLATE_UNRESOLVED"
  by (auto simp: readFieldValue_def Let_def
      split: field_source.splits option.splits js_value.splits bool.splits prod.splits)

lemma check_field_None:
  assumes "coerceField lg (if_type f) raw l n = Inr v" "check_field lg f v = None"
  shows "value_ok lg f v"
proof -
  have "opt_ok (\<lambda>p. list_all (\<lambda>item. lg_test lg p (js_string (lg_num lg) item)) (items_of v)) (if_pattern f)"
    using assms(2) by (auto simp: check_field_def opt_ok_def list_ex_iff list_all_iff Let_def split: option.splits if_splits)
  moreover have "case v of
      J_num (Finite n) \<Rightarrow> opt_ok (\<lambda>lo. lo \<le> n) (if_min f) \<and> opt_ok (\<lambda>hi. n \<le> hi) (if_max f)
    | J_arr vs \<Rightarrow> opt_ok (\<lambda>m. int (length vs) \<le> m) (if_maxItems f)
    | _ \<Rightarrow> True"
    using assms(2)
    by (auto simp: check_field_def opt_ok_def Let_def split: option.splits if_splits js_value.splits js_num.splits)
  moreover have "(if_type f = In_number \<or> if_type f = In_duration \<longrightarrow> (\<exists>n. v = J_num (Finite n)))
     \<and> (if_type f = In_boolean \<longrightarrow> (\<exists>b. v = J_bool b)) \<and> (if_type f = In_entityList \<longrightarrow> (\<exists>vs. v = J_arr vs))"
    using assms(1) by (cases "if_type f") (auto simp: coerceField_def split: js_value.splits js_num.splits)
  ultimately show ?thesis by (simp add: value_ok_def)
qed

definition target_ok :: "lang \<Rightarrow> TargetScope \<Rightarrow> InputField list \<Rightarrow> ResolvedTarget \<Rightarrow> bool" where
  "target_ok lg scope fs t \<longleftrightarrow>
     rt_scope t = scope \<and> rt_kind t \<in> (\<Union>f \<in> set fs. set (target_kinds f))
     \<and> (\<exists>s. id_ok (identityFor (lg_urls lg) (rt_kind t) s None) \<and> id_value (identityFor (lg_urls lg) (rt_kind t) s None) = Some (rt_value t))"

lemma find_holds: "find P xs = Some x \<Longrightarrow> P x \<and> x \<in> set xs"
  by (induction xs) (auto split: if_splits)

lemma first_target_ok: "t \<in> set (first_target lg scope items kind) \<Longrightarrow>
   rt_scope t = scope \<and> rt_kind t = kind
   \<and> (\<exists>s. id_ok (identityFor (lg_urls lg) kind s None) \<and> id_value (identityFor (lg_urls lg) kind s None) = Some (rt_value t))"
  by (auto simp: first_target_def split: option.splits dest!: find_holds [OF sym])

definition adapter_inv :: "lang \<Rightarrow> TargetScope \<Rightarrow> InputField list \<Rightarrow> js_object \<times> ResolvedTarget list \<Rightarrow> bool" where
  "adapter_inv lg scope fs s \<longleftrightarrow>
     (\<forall>n v. omap_get (fst s) n = Some v \<longrightarrow> (\<exists>f \<in> set fs. if_name f = n \<and> value_ok lg f v))
     \<and> (\<forall>f \<in> set fs. if_required f \<longrightarrow> omap_get (fst s) (if_name f) \<noteq> None)
     \<and> (\<forall>t \<in> set (snd s). target_ok lg scope fs t)"

lemma adapt_field_step:
  assumes "adapt_field lg scope ivc f s = Inr s'" "adapter_inv lg scope fs s"
  shows "adapter_inv lg scope (fs @ [f]) s'"
proof (cases "s' = s \<and> \<not> if_required f")
  case True
  then show ?thesis using assms(2) by (fastforce simp: adapter_inv_def target_ok_def)
next
  case False
  with assms(1) obtain raw v where c: "coerceField lg (if_type f) raw (if_label f) (if_name f) = Inr v" "check_field lg f v = None"
    and s': "s' = (set_prop (if_name f) v (fst s), snd s @ concat (map (first_target lg scope (items_of v)) (target_kinds f)))"
    by (auto simp: adapt_field_def Let_def split: sum.splits if_splits option.splits)
  have "value_ok lg f v" using c by (rule check_field_None)
  then show ?thesis
    using assms(2) first_target_ok [of _ lg scope "items_of v"]
    by (auto simp: adapter_inv_def s' set_prop_def target_ok_def)
qed

lemma adapt_fields_sound:
  "adapter_inv lg scope fs s \<Longrightarrow>
   (case adapt_fields lg scope ivc gs s of
      Inl e \<Rightarrow> ie_code e \<in> {INPUT_INVALID, MANIFEST_TEMPLATE_UNRESOLVED}
    | Inr s' \<Rightarrow> adapter_inv lg scope (fs @ gs) s')"
proof (induction gs arbitrary: fs s)
  case (Cons g gs)
  show ?case
  proof (cases "adapt_field lg scope ivc g s")
    case (Inl e)
    then have "ie_code e \<in> {INPUT_INVALID, MANIFEST_TEMPLATE_UNRESOLVED}"
      using check_field_code coerceField_code readFieldValue_code
      by (auto simp: adapt_field_def Let_def split: sum.splits if_splits option.splits)
    with Inl show ?thesis by simp
  next
    case (Inr s')
    from Cons.IH [OF adapt_field_step [OF Inr Cons.prems]] Inr show ?thesis by (simp only: adapt_fields.simps sum.case append.simps append_assoc)
  qed
qed simp

lemma omap_of_values: "set (omap_values (omap_of (map (\<lambda>t. (key t, t)) ts))) \<subseteq> set ts
    \<and> map key (omap_values (omap_of (map (\<lambda>t. (key t, t)) ts))) = omap_keys (omap_of (map (\<lambda>t. (key t, t)) ts))"
proof (induction ts rule: rev_induct)
  case (snoc t ts)
  then show ?case
    by (auto simp: omap_of_snoc omap_values_def omap_keys_def omap_set_def)
qed (simp add: omap_values_def omap_keys_def)


definition plain_lang :: lang where
  "plain_lang = \<lparr>lg_num = (\<lambda>r. int_str \<lfloor>r\<rfloor>), lg_number = (\<lambda>s. if list_all is_digit s then Finite (of_int (dec_val s)) else NonFinite),
     lg_urls = no_urls, lg_test = (\<lambda>p s. True)\<rparr>"

definition hosts_field :: InputField where
  "hosts_field = sample_field\<lparr>if_name := ''hosts'', if_type := In_entityList, if_from := From_form, if_entityKinds := Some [IK_ip]\<rparr>"

definition hosts_manifest :: IntegrationManifest where
  "hosts_manifest = sample_manifest\<lparr>mf_inputs := [hosts_field]\<rparr>"

definition hosts_call :: "js_value \<Rightarrow> IntegrationInvocation" where
  "hosts_call v = \<lparr>inv_integrationId = ''whois'', inv_boardId = ''b1'', inv_selection = [], inv_formValues = [(''hosts'', v)],
     inv_actorUserId = ''u1''\<rparr>"

definition both_hosts :: js_value where
  "both_hosts = J_arr [J_str ''8.8.8.8'', J_str ''9.9.9.9'']"

lemma hosts_run:
  "manifestInputAdapter plain_lang hosts_manifest (hosts_call both_hosts) =
     Inr \<lparr>ia_input = [(''hosts'', both_hosts)],
          ia_targets = [\<lparr>rt_kind = IK_ip, rt_value = ''8.8.8.8'', rt_scope = Public_index\<rparr>], ia_warnings = []\<rparr>"
proof -
  have "identityFor (lg_urls plain_lang) IK_ip ''8.8.8.8'' None =
      \<lparr>id_ok = True, id_key = Some ''ip:8.8.8.8'', id_value = Some ''8.8.8.8'', id_display = Some ''8.8.8.8'', id_meta = Some [(''family'', J_num (Finite 4))], id_reason = None\<rparr>"
    by code_simp
  then show ?thesis
    by (simp add: manifestInputAdapter_def hosts_manifest_def sample_manifest_def adapt_field_def hosts_field_def sample_field_def
        readFieldValue_def hosts_call_def prop_get_def coerceField_def both_hosts_def check_field_def items_of_def first_target_def
        target_kinds_def option_or_def dedupeTargets_def omap_of_def omap_set_def omap_has_def omap_values_def set_prop_def)
qed


definition deny_nines :: TargetPolicy where
  "deny_nines = sample_policy\<lparr>tp_neverScan := Some [''9.9.9.9'']\<rparr>"

text \<open>A list field yields at most one target per kind, whatever it holds, so the legal gate sees only its first entry: a run over two addresses passes the gate with an address of the operator's denylist in its input, although a run over that address alone is refused.\<close>

theorem entity_list_escapes_gate:
  "length (first_target lg scope items kind) \<le> 1
   \<and> (case manifestInputAdapter plain_lang hosts_manifest (hosts_call both_hosts) of
        Inl e \<Rightarrow> False
      | Inr r \<Rightarrow> prop_get (ia_input r) ''hosts'' = J_arr [J_str ''8.8.8.8'', J_str ''9.9.9.9'']
          \<and> assertTargetsAllowed (\<lambda>s. None) hosts_manifest deny_nines (ia_targets r) = Inr ())
   \<and> (case manifestInputAdapter plain_lang hosts_manifest (hosts_call (J_arr [J_str ''9.9.9.9''])) of
        Inl e \<Rightarrow> False
      | Inr r \<Rightarrow> (\<exists>e. assertTargetsAllowed (\<lambda>s. None) hosts_manifest deny_nines (ia_targets r) = Inl e))"
proof -
  have ids: "identityFor (lg_urls plain_lang) IK_ip ''9.9.9.9'' None =
      \<lparr>id_ok = True, id_key = Some ''ip:9.9.9.9'', id_value = Some ''9.9.9.9'', id_display = Some ''9.9.9.9'', id_meta = Some [(''family'', J_num (Finite 4))], id_reason = None\<rparr>"
    by code_simp
  have one: "manifestInputAdapter plain_lang hosts_manifest (hosts_call (J_arr [J_str ''9.9.9.9''])) =
     Inr \<lparr>ia_input = [(''hosts'', J_arr [J_str ''9.9.9.9''])],
          ia_targets = [\<lparr>rt_kind = IK_ip, rt_value = ''9.9.9.9'', rt_scope = Public_index\<rparr>], ia_warnings = []\<rparr>"
    using ids
    by (simp add: manifestInputAdapter_def hosts_manifest_def sample_manifest_def adapt_field_def hosts_field_def sample_field_def
        readFieldValue_def hosts_call_def prop_get_def coerceField_def check_field_def items_of_def first_target_def
        target_kinds_def option_or_def dedupeTargets_def omap_of_def omap_set_def omap_has_def omap_values_def set_prop_def)
  have r: "\<not> isReservedIp ''9.9.9.9''" "\<not> isReservedIp ''8.8.8.8''" by code_simp+
  have l: "js_lower ''8.8.8.8'' = ''8.8.8.8''" "js_lower ''9.9.9.9'' = ''9.9.9.9''" "js_lower ''lab.mil'' = ''lab.mil''" by code_simp+
  have allowed: "check_target (\<lambda>s. None) hosts_manifest deny_nines \<lparr>rt_kind = IK_ip, rt_value = ''8.8.8.8'', rt_scope = Public_index\<rparr> = None"
    using r l by (simp add: check_target_def hostOf_def hosts_manifest_def sample_manifest_def deny_nines_def sample_policy_def option_or_def SCANNING_CAPABILITIES_def Let_def)
  have refused: "\<exists>e. check_target (\<lambda>s. None) hosts_manifest deny_nines \<lparr>rt_kind = IK_ip, rt_value = ''9.9.9.9'', rt_scope = Public_index\<rparr> = Some e"
    using r l by (simp add: check_target_def hostOf_def hosts_manifest_def sample_manifest_def deny_nines_def sample_policy_def option_or_def Let_def)
  have "length (first_target lg scope items kind) \<le> 1" by (simp add: first_target_def split: option.splits)
  then show ?thesis using hosts_run one allowed refused by (auto simp: prop_get_def both_hosts_def)
qed

end
