(* ===== verification/IntegrationExtract.thy ===== *)
theory IntegrationExtract
  imports IntegrationInput IntegrationResolve "HOL-Library.Sublist"
begin

text \<open>
  Stages 4 and 5 of the import pipeline: the declarative output parser
  (\<open>packages/integrations/src/declarativeParser.ts\<close>), and from \<open>pipeline.ts\<close> the data of a run,
  \<open>manifestEntityExtractor\<close>, \<open>versionDrift\<close> and \<open>effectiveLimits\<close>. Reading the chunks of an
  artifact is the argument \<open>read\<close>, decoding and parsing JSON the argument \<open>parse_json\<close>. The names of
  fields are not array indices, so an object keeps them in the order they were set.
\<close>

section \<open>The data of a run\<close>

record ArtifactRef =
  ar_bucket :: string
  ar_key :: string
  ar_bytes :: int
  ar_sha256 :: string
  ar_contentType :: string
  ar_truncated :: bool

record Provenance =
  pv_source :: string
  pv_tool :: string
  pv_toolVersion :: string
  pv_runId :: string
  pv_observedAt :: string
  pv_importedAt :: string
  pv_confidence :: real
  pv_artifactRef :: "ArtifactRef option"
  pv_pointer :: "string option"
  pv_actorUserId :: string
  pv_excerpt :: "string option"

record EffectiveLimits =
  el_wallClockMs :: int
  el_cpuMillicores :: int
  el_memoryMiB :: int
  el_pids :: int
  el_maxOutputBytes :: int
  el_maxArtifacts :: int
  el_egressAllowlist :: "string list"
  el_maxRequestsPerMinute :: int

datatype TerminalRunStatus = Term_succeeded | Term_partial | Term_failed | Term_cancelled | Term_timed_out

record RunStats =
  st_bytesOut :: int
  st_egressRequests :: int
  st_egressDenied :: int
  st_egressThrottled :: "int option"
  st_peakMemMiB :: int
  st_itemsFound :: "int option"

record RawRunResult =
  rr_runId :: string
  rr_status :: TerminalRunStatus
  rr_exitCode :: "int option"
  rr_startedAt :: string
  rr_finishedAt :: string
  rr_durationMs :: int
  rr_artifacts :: "ArtifactRef list"
  rr_stdoutRef :: "ArtifactRef option"
  rr_stderrRef :: "ArtifactRef option"
  rr_stats :: RunStats
  rr_error :: "IntegrationErrorPayload option"

record ParsedRecord =
  rec_type :: string
  rec_data :: js_value
  rec_pointer :: string
  rec_observedAt :: string
  rec_parserConfidence :: real

record ParsedDocument =
  pd_toolReportedVersion :: "string option"
  pd_records :: "ParsedRecord list"
  pd_counters :: "(string \<times> int) list"
  pd_nonFatalIssues :: "UserMessage list"

record ExtractedEntity =
  en_kind :: ikind
  en_value :: string
  en_display :: string
  en_props :: js_object
  en_identityKey :: string
  en_confidence :: real
  en_recordIndex :: nat
  en_pointer :: string
  en_nodeType :: string
  en_title :: string
  en_tags :: "string list"

record ExtractedRelation =
  er_fromKey :: string
  er_toKey :: string
  er_type :: string
  er_props :: "js_object option"
  er_label :: "string option"
  er_confidence :: real
  er_recordIndex :: nat
  er_pointer :: string

record ExtractionResult =
  ex_entities :: "ExtractedEntity list"
  ex_relations :: "ExtractedRelation list"
  ex_issues :: "UserMessage list"

record ExtractContext =
  ec_manifest :: IntegrationManifest
  ec_anchorKey :: "string option"
  ec_drift :: "VersionDrift option"
  ec_defaultRegion :: "string option"

section \<open>The declarative parser\<close>

definition MAX_ARTIFACT_BYTES :: nat where "MAX_ARTIFACT_BYTES = 8388608"

text \<open>\<open>last.replace(/\.[^.]+$/, '')\<close>.\<close>

definition strip_extension :: "string \<Rightarrow> string" where
  "strip_extension s =
     (let ext = takeWhile (\<lambda>c. c \<noteq> CHR ''.'') (rev s)
      in if ext = [] \<or> length ext = length s then s else rev (drop (length ext + 1) (rev s)))"

definition artifactName :: "ArtifactRef \<Rightarrow> string" where
  "artifactName ref = strip_extension (last (split_on (CHR ''/'') (ar_key ref)))"

text \<open>The loop that collects chunks until the limit is passed; the chunk that passes it is dropped.\<close>

fun read_chunks :: "nat \<Rightarrow> u8 list list \<Rightarrow> u8 list list" where
  "read_chunks bytes [] = []"
| "read_chunks bytes (chunk # rest) =
     (let bytes' = bytes + length chunk
      in if MAX_ARTIFACT_BYTES < bytes' then [] else chunk # read_chunks bytes' rest)"

definition readJson ::
  "(ArtifactRef \<Rightarrow> u8 list list) \<Rightarrow> (u8 list \<Rightarrow> js_value option) \<Rightarrow> ArtifactRef \<Rightarrow> string \<Rightarrow> IntegrationError + js_value" where
  "readJson read parse_json ref runId =
     (case parse_json (concat (read_chunks 0 (read ref))) of
        Some v \<Rightarrow> Inr v
      | None \<Rightarrow> Inl (integration_error PARSE_UNSUPPORTED_SHAPE
          (no_options\<lparr>po_runId := Some runId, po_detail := Some [(''artifact'', J_str (ar_key ref))]\<rparr>)))"

definition is_array :: "js_value \<Rightarrow> bool" where
  "is_array v = (case v of J_arr vs \<Rightarrow> True | _ \<Rightarrow> False)"

text \<open>The records of one artifact; \<open>typeof item === 'object'\<close> holds of arrays too.\<close>

definition payload_records :: "RawRunResult \<Rightarrow> string \<Rightarrow> js_value \<Rightarrow> ParsedRecord list" where
  "payload_records res ty payload =
     concat (map (\<lambda>(index, item).
       if is_container item
       then [\<lparr>rec_type = ty, rec_data = item,
              rec_pointer = (if is_array payload then ''/'' @ nat_str index else ''/''),
              rec_observedAt = rr_finishedAt res, rec_parserConfidence = 1\<rparr>]
       else []) (enumerate 0 (items_of payload)))"

fun parse_refs ::
  "(ArtifactRef \<Rightarrow> u8 list list) \<Rightarrow> (u8 list \<Rightarrow> js_value option) \<Rightarrow> RawRunResult \<Rightarrow> ArtifactRef list
   \<Rightarrow> IntegrationError + ParsedRecord list" where
  "parse_refs read parse_json res [] = Inr []"
| "parse_refs read parse_json res (ref # refs) =
     (case readJson read parse_json ref (rr_runId res) of
        Inl e \<Rightarrow> Inl e
      | Inr payload \<Rightarrow>
          (case parse_refs read parse_json res refs of
             Inl e \<Rightarrow> Inl e
           | Inr rest \<Rightarrow> Inr (payload_records res (artifactName ref) payload @ rest)))"

definition declarative_parse ::
  "(ArtifactRef \<Rightarrow> u8 list list) \<Rightarrow> (u8 list \<Rightarrow> js_value option) \<Rightarrow> RawRunResult \<Rightarrow> IntegrationError + ParsedDocument" where
  "declarative_parse read parse_json res =
     (let present = (if rr_artifacts res \<noteq> [] then rr_artifacts res
                     else case rr_stdoutRef res of None \<Rightarrow> [] | Some ref \<Rightarrow> [ref])
      in if present = [] then Inl (integration_error OUTPUT_MISSING (no_options\<lparr>po_runId := Some (rr_runId res)\<rparr>))
         else (case parse_refs read parse_json res present of
                 Inl e \<Rightarrow> Inl e
               | Inr records \<Rightarrow>
                   Inr \<lparr>pd_toolReportedVersion = None, pd_records = records,
                        pd_counters = [(''records'', int (length records))], pd_nonFatalIssues = []\<rparr>))"

section \<open>The extractor\<close>

definition asText :: "lang \<Rightarrow> js_value \<Rightarrow> string" where
  "asText lg v =
     (case v of
        J_str s \<Rightarrow> s
      | J_num n \<Rightarrow> js_string (lg_num lg) v
      | J_bool b \<Rightarrow> js_string (lg_num lg) v
      | _ \<Rightarrow> option_or (json_text (lg_num lg) v) [])"

definition undefined_or :: "string option \<Rightarrow> js_value" where
  "undefined_or s = (case s of None \<Rightarrow> J_undefined | Some t \<Rightarrow> J_str t)"

definition TRANSFORMS :: "lang \<Rightarrow> field_transform \<Rightarrow> js_value \<Rightarrow> js_value" where
  "TRANSFORMS lg tr raw =
     (case raw of
        J_str s \<Rightarrow>
          (case tr of
             Tr_none \<Rightarrow> raw
           | Tr_lower \<Rightarrow> J_str (js_lower s)
           | Tr_trim \<Rightarrow> J_str (js_trim s)
           | Tr_url_normalize \<Rightarrow>
               (let identity = identityFor (lg_urls lg) IK_url s None
                in if id_ok identity then undefined_or (id_value identity) else raw)
           | Tr_domain_of \<Rightarrow>
               (let identity = identityFor (lg_urls lg) IK_url s None
                in if id_ok identity then (case id_meta identity of Some meta \<Rightarrow> prop_get meta ''host'' | None \<Rightarrow> raw) else raw)
           | Tr_strip_at \<Rightarrow> J_str (dropWhile (\<lambda>c. c = CHR ''@'') s)
           | Tr_sha256 \<Rightarrow> raw)
      | _ \<Rightarrow> raw)"

definition mapping_label :: "EntityMapping \<Rightarrow> string" where
  "mapping_label mapping = option_or (map_id mapping) (map_recordType mapping)"

definition mapping_issue :: "EntityMapping \<Rightarrow> ParsedRecord \<Rightarrow> string \<Rightarrow> UserMessage" where
  "mapping_issue mapping rc what =
     \<lparr>um_level = Msg_warn, um_message = ''mapping '' @ mapping_label mapping @ '': '' @ what,
      um_detail = Some [(''pointer'', J_str (rec_pointer rc))]\<rparr>"

text \<open>The loop over the fields; \<open>Inl\<close> names the first required field that is missing.\<close>

fun map_fields :: "lang \<Rightarrow> js_value \<Rightarrow> FieldMap list \<Rightarrow> js_object \<Rightarrow> string + js_object" where
  "map_fields lg data [] props = Inr props"
| "map_fields lg data (field # fms) props =
     (let raw = jsonPointer lg data (fmap_from field)
      in if nullish raw
         then (if fmap_required field then Inl (fmap_from field) else map_fields lg data fms props)
         else map_fields lg data fms (set_prop (fmap_to field) (TRANSFORMS lg (fmap_transform field) raw) props))"

text \<open>Every mapping that yields no entity leaves exactly one issue: \<open>Inl\<close> is that issue.\<close>

definition applyMapping ::
  "lang \<Rightarrow> EntityMapping \<Rightarrow> ParsedRecord \<Rightarrow> nat \<Rightarrow> ExtractContext \<Rightarrow> UserMessage + ExtractedEntity" where
  "applyMapping lg mapping rc recordIndex ctx =
     (let spec = map_entity mapping; rawValue = jsonPointer lg (rec_data rc) (es_valueFrom spec)
      in if nullish rawValue \<or> js_trim (asText lg rawValue) = []
         then Inl (mapping_issue mapping rc (''empty identity value at '' @ es_valueFrom spec))
         else (let identity = identityFor (lg_urls lg) (es_kind spec) (asText lg rawValue) (ec_defaultRegion ctx)
               in case (id_ok identity, id_key identity, id_value identity) of
                    (True, Some key, Some v) \<Rightarrow>
                      (case map_fields lg (rec_data rc) (es_fields spec) [] of
                         Inl missing \<Rightarrow> Inl (mapping_issue mapping rc (''required field '' @ missing @ '' is missing''))
                       | Inr props \<Rightarrow>
                           Inr \<lparr>en_kind = es_kind spec, en_value = v, en_display = option_or (id_display identity) v,
                                en_props = props, en_identityKey = key,
                                en_confidence = computeConfidence
                                  \<lparr>ci_base = es_baseConfidence spec, ci_source = Src_assertion, ci_evidence = None,
                                   ci_drift = ec_drift ctx, ci_parserConfidence = Some (rec_parserConfidence rc)\<rparr>,
                                en_recordIndex = recordIndex, en_pointer = rec_pointer rc, en_nodeType = es_nodeType spec,
                                en_title = (case es_titleFrom spec of
                                   None \<Rightarrow> option_or (id_display identity) v
                                 | Some p \<Rightarrow> asText lg (or_else (jsonPointer lg (rec_data rc) p)
                                     (J_str (option_or (id_display identity) v)))),
                                en_tags = es_tags spec\<rparr>)
                  | _ \<Rightarrow> Inl (mapping_issue mapping rc (''value '' @ option_or (id_reason identity) ''was rejected''))))"

text \<open>First loop over the mappings of a record: entities, and the key each named mapping gave.\<close>

definition entity_step ::
  "lang \<Rightarrow> ExtractContext \<Rightarrow> ParsedRecord \<Rightarrow> nat \<Rightarrow> EntityMapping \<Rightarrow> ExtractionResult \<times> (string, string) omap
   \<Rightarrow> ExtractionResult \<times> (string, string) omap" where
  "entity_step lg ctx rc recordIndex mapping s =
     (case applyMapping lg mapping rc recordIndex ctx of
        Inl issue \<Rightarrow> (fst s\<lparr>ex_issues := ex_issues (fst s) @ [issue]\<rparr>, snd s)
      | Inr extracted \<Rightarrow>
          (fst s\<lparr>ex_entities := ex_entities (fst s) @ [extracted]\<rparr>,
           case map_id mapping of None \<Rightarrow> snd s | Some i \<Rightarrow> omap_set i (en_identityKey extracted) (snd s)))"

definition relate_step ::
  "ExtractContext \<Rightarrow> ParsedRecord \<Rightarrow> nat \<Rightarrow> EntityMapping \<Rightarrow> (string, string) omap \<Rightarrow> ExtractedEntity \<Rightarrow> relate_spec
   \<Rightarrow> ExtractionResult \<Rightarrow> ExtractionResult" where
  "relate_step ctx rc recordIndex mapping keys own relate s =
     (case (if rs_to relate = To_anchor then ec_anchorKey ctx else omap_get keys (option_or (rs_toEntityRef relate) [])) of
        None \<Rightarrow> s\<lparr>ex_issues := ex_issues s @ [mapping_issue mapping rc ''relation target could not be resolved'']\<rparr>
      | Some otherKey \<Rightarrow>
          s\<lparr>ex_relations := ex_relations s @
              [\<lparr>er_fromKey = (if rs_direction relate = Dir_in then otherKey else en_identityKey own),
                er_toKey = (if rs_direction relate = Dir_in then en_identityKey own else otherKey),
                er_type = rs_edgeType relate, er_props = None, er_label = rs_label relate,
                er_confidence = en_confidence own, er_recordIndex = recordIndex, er_pointer = rec_pointer rc\<rparr>]\<rparr>)"

text \<open>\<open>entities.find(...)\<close>: the entity a mapping is about.\<close>

definition own_entity :: "nat \<Rightarrow> (string, string) omap \<Rightarrow> EntityMapping \<Rightarrow> ExtractedEntity list \<Rightarrow> ExtractedEntity option" where
  "own_entity recordIndex keys mapping entities =
     (let selfKey = (case map_id mapping of None \<Rightarrow> None | Some i \<Rightarrow> omap_get keys i)
      in find (\<lambda>e. en_recordIndex e = recordIndex \<and> (selfKey = None \<or> Some (en_identityKey e) = selfKey)) entities)"

definition relations_step ::
  "ExtractContext \<Rightarrow> ParsedRecord \<Rightarrow> nat \<Rightarrow> (string, string) omap \<Rightarrow> EntityMapping \<Rightarrow> ExtractionResult \<Rightarrow> ExtractionResult" where
  "relations_step ctx rc recordIndex keys mapping s =
     (case own_entity recordIndex keys mapping (ex_entities s) of
        None \<Rightarrow> s
      | Some own \<Rightarrow> fold (relate_step ctx rc recordIndex mapping keys own) (map_relate mapping) s)"

definition record_step ::
  "lang \<Rightarrow> IntegrationManifest \<Rightarrow> ExtractContext \<Rightarrow> nat \<times> ParsedRecord \<Rightarrow> ExtractionResult \<Rightarrow> ExtractionResult" where
  "record_step lg manifest ctx irc s =
     (let (recordIndex, rc) = irc;
          mappings = filter (\<lambda>m. map_recordType m = rec_type rc) (mf_entityMappings manifest);
          (s', keys) = fold (entity_step lg ctx rc recordIndex) mappings (s, [])
      in if mappings = [] then s else fold (relations_step ctx rc recordIndex keys) mappings s')"

definition manifestEntityExtractor ::
  "lang \<Rightarrow> IntegrationManifest \<Rightarrow> ParsedDocument \<Rightarrow> ExtractContext \<Rightarrow> ExtractionResult" where
  "manifestEntityExtractor lg manifest doc ctx =
     fold (record_step lg manifest ctx) (enumerate 0 (pd_records doc))
       \<lparr>ex_entities = [], ex_relations = [], ex_issues = pd_nonFatalIssues doc\<rparr>"

section \<open>Versions and limits\<close>

fun drift_scan :: "string \<Rightarrow> string option \<Rightarrow> string list \<Rightarrow> VersionDrift option" where
  "drift_scan rMajor rMinor [] = None"
| "drift_scan rMajor rMinor (candidate # rest) =
     (let parts = split_on (CHR ''.'') candidate; cMajor = hd parts; cMinor = nth_opt parts 1
      in if rMajor = cMajor \<and> rMinor = cMinor then Some Drift_patch
         else if rMajor = cMajor then Some Drift_minor
         else drift_scan rMajor rMinor rest)"

definition versionDrift :: "string \<Rightarrow> string list \<Rightarrow> string \<Rightarrow> VersionDrift" where
  "versionDrift reported supported adapterTarget =
     (if reported \<in> set supported then Drift_exact
      else (let parts = split_on (CHR ''.'') reported; rMajor = hd parts
            in case drift_scan rMajor (nth_opt parts 1) supported of
                 Some d \<Rightarrow> d
               | None \<Rightarrow> if rMajor = hd (split_on (CHR ''.'') adapterTarget) then Drift_minor else Drift_major))"

record org_policy =
  op_maxWallClockMs :: "int option"
  op_maxMemoryMiB :: "int option"
  op_networkAllow :: "string list option"

definition effectiveLimits :: "ResourceLimits \<Rightarrow> string list \<times> int \<Rightarrow> org_policy option \<Rightarrow> EffectiveLimits" where
  "effectiveLimits limits network policy =
     (let maxWall = Option.bind policy op_maxWallClockMs; maxMemory = Option.bind policy op_maxMemoryMiB;
          allow = (case Option.bind policy op_networkAllow of
                     None \<Rightarrow> fst network
                   | Some hosts \<Rightarrow> filter (\<lambda>host. host \<in> set hosts) (fst network))
      in \<lparr>el_wallClockMs = min (rl_wallClockMs limits) (option_or maxWall (rl_wallClockMs limits)),
          el_cpuMillicores = rl_cpuMillicores limits,
          el_memoryMiB = min (rl_memoryMiB limits) (option_or maxMemory (rl_memoryMiB limits)),
          el_pids = rl_pids limits, el_maxOutputBytes = rl_maxOutputBytes limits,
          el_maxArtifacts = rl_maxArtifacts limits, el_egressAllowlist = allow,
          el_maxRequestsPerMinute = snd network\<rparr>)"

section \<open>What extraction guarantees\<close>

lemma identityFor_ok:
  "id_ok (identityFor api kind raw region) \<Longrightarrow> id_value (identityFor api kind raw region) = Some v \<Longrightarrow>
     id_key (identityFor api kind raw region) = Some (identityKey kind v)"
  by (auto simp: identityFor_def Let_def split: bool.splits option.splits)

lemma computeConfidence_bounds: "0 \<le> computeConfidence inp \<and> computeConfidence inp \<le> CONFIDENCE_CAP"
  by (simp add: computeConfidence_def Let_def clamp01_cap) (simp add: CONFIDENCE_CAP_def)

lemma map_fields_props:
  "map_fields lg data fms props = Inr props' \<Longrightarrow>
     (\<forall>k. omap_get props' k \<noteq> None \<longrightarrow> omap_get props k \<noteq> None \<or> k \<in> fmap_to ` set fms)
     \<and> (\<forall>k. omap_get props k \<noteq> None \<longrightarrow> omap_get props' k \<noteq> None)
     \<and> (\<forall>f \<in> set fms. fmap_required f \<longrightarrow> omap_get props' (fmap_to f) \<noteq> None)"
proof (induction fms arbitrary: props)
  case (Cons f fms)
  show ?case
  proof (cases "nullish (jsonPointer lg data (fmap_from f))")
    case True
    with Cons.prems have "map_fields lg data fms props = Inr props'" "\<not> fmap_required f" by (auto simp: Let_def split: if_splits)
    with Cons.IH [of props] show ?thesis by auto
  next
    case False
    with Cons.prems have "map_fields lg data fms (set_prop (fmap_to f) (TRANSFORMS lg (fmap_transform f) (jsonPointer lg data (fmap_from f))) props) = Inr props'"
      by (simp add: Let_def)
    from Cons.IH [OF this] show ?thesis by (auto simp: set_prop_def split: if_splits)
  qed
qed simp

definition entity_ok :: "EntityMapping \<Rightarrow> ExtractedEntity \<Rightarrow> bool" where
  "entity_ok m e \<longleftrightarrow>
     en_kind e = es_kind (map_entity m) \<and> en_nodeType e = es_nodeType (map_entity m)
     \<and> en_identityKey e = identityKey (en_kind e) (en_value e)
     \<and> 0 \<le> en_confidence e \<and> en_confidence e \<le> CONFIDENCE_CAP
     \<and> (\<forall>k. omap_get (en_props e) k \<noteq> None \<longrightarrow> k \<in> fmap_to ` set (es_fields (map_entity m)))
     \<and> (\<forall>f \<in> set (es_fields (map_entity m)). fmap_required f \<longrightarrow> omap_get (en_props e) (fmap_to f) \<noteq> None)"

lemma applyMapping_Inr:
  assumes "applyMapping lg m rc i ctx = Inr e"
  shows "entity_ok m e" "en_recordIndex e = i" "en_pointer e = rec_pointer rc"
proof -
  let ?id = "identityFor (lg_urls lg) (es_kind (map_entity m)) (asText lg (jsonPointer lg (rec_data rc) (es_valueFrom (map_entity m)))) (ec_defaultRegion ctx)"
  have "id_ok ?id \<and> id_key ?id = Some (en_identityKey e) \<and> id_value ?id = Some (en_value e)
      \<and> map_fields lg (rec_data rc) (es_fields (map_entity m)) [] = Inr (en_props e)
      \<and> en_kind e = es_kind (map_entity m) \<and> en_nodeType e = es_nodeType (map_entity m)"
    using assms by (auto simp: applyMapping_def Let_def split: if_splits prod.splits bool.splits option.splits sum.splits)
  moreover have "\<exists>inp. en_confidence e = computeConfidence inp"
    using assms by (auto simp: applyMapping_def Let_def split: if_splits prod.splits bool.splits option.splits sum.splits)
  ultimately show "entity_ok m e"
    using map_fields_props [of lg "rec_data rc" "es_fields (map_entity m)" "[]" "en_props e"] identityFor_ok computeConfidence_bounds
    by (auto simp: entity_ok_def)
qed (use assms in \<open>auto simp: applyMapping_def Let_def split: if_splits prod.splits bool.splits option.splits sum.splits\<close>)

text \<open>The two ends of a relation that a record gives.\<close>

definition relation_ok :: "ExtractContext \<Rightarrow> ExtractedEntity list \<Rightarrow> ExtractedRelation \<Rightarrow> bool" where
  "relation_ok ctx entities r \<longleftrightarrow>
     (\<exists>own \<in> set entities. \<exists>other. en_recordIndex own = er_recordIndex r \<and> er_confidence r = en_confidence own
        \<and> (Some other = ec_anchorKey ctx
           \<or> (\<exists>e \<in> set entities. en_recordIndex e = er_recordIndex r \<and> en_identityKey e = other))
        \<and> (er_fromKey r = en_identityKey own \<and> er_toKey r = other \<or> er_fromKey r = other \<and> er_toKey r = en_identityKey own))"

definition from_mapping :: "lang \<Rightarrow> IntegrationManifest \<Rightarrow> ExtractContext \<Rightarrow> ParsedRecord list \<Rightarrow> ExtractedEntity \<Rightarrow> bool" where
  "from_mapping lg manifest ctx records e \<longleftrightarrow>
     en_recordIndex e < length records
     \<and> (\<exists>m \<in> set (mf_entityMappings manifest). map_recordType m = rec_type (records ! en_recordIndex e)
          \<and> applyMapping lg m (records ! en_recordIndex e) (en_recordIndex e) ctx = Inr e)"

definition ext_inv :: "lang \<Rightarrow> IntegrationManifest \<Rightarrow> ExtractContext \<Rightarrow> ParsedRecord list \<Rightarrow> ExtractionResult \<Rightarrow> bool" where
  "ext_inv lg manifest ctx records s \<longleftrightarrow>
     (\<forall>e \<in> set (ex_entities s). from_mapping lg manifest ctx records e)
     \<and> (\<forall>r \<in> set (ex_relations s). relation_ok ctx (ex_entities s) r)"

definition keys_ok :: "nat \<Rightarrow> ExtractionResult \<Rightarrow> (string, string) omap \<Rightarrow> bool" where
  "keys_ok i s keys \<longleftrightarrow> (\<forall>n k. omap_get keys n = Some k \<longrightarrow> (\<exists>e \<in> set (ex_entities s). en_recordIndex e = i \<and> en_identityKey e = k))"

text \<open>Later states extend earlier ones.\<close>

definition ext_le :: "ExtractionResult \<Rightarrow> ExtractionResult \<Rightarrow> bool" where
  "ext_le s t \<longleftrightarrow> set (ex_entities s) \<subseteq> set (ex_entities t) \<and> set (ex_issues s) \<subseteq> set (ex_issues t)
     \<and> set (ex_relations s) \<subseteq> set (ex_relations t)"

lemma ext_le_refl [simp]: "ext_le s s" and ext_le_trans: "ext_le s t \<Longrightarrow> ext_le t u \<Longrightarrow> ext_le s u"
  by (auto simp: ext_le_def)

lemma fold_ext_le: "(\<And>x s. ext_le s (f x s)) \<Longrightarrow> ext_le s (fold f xs s)"
  by (induction xs arbitrary: s) (auto intro: ext_le_trans)

lemma relation_ok_mono: "relation_ok ctx es r \<Longrightarrow> set es \<subseteq> set fs \<Longrightarrow> relation_ok ctx fs r"
  unfolding relation_ok_def by blast

lemma entity_step_keeps:
  assumes "map_recordType m = rec_type rc" "m \<in> set (mf_entityMappings manifest)" "i < length records" "rc = records ! i"
    and "ext_inv lg manifest ctx records (fst s)" "keys_ok i (fst s) (snd s)"
  shows "ext_inv lg manifest ctx records (fst (entity_step lg ctx rc i m s))
    \<and> keys_ok i (fst (entity_step lg ctx rc i m s)) (snd (entity_step lg ctx rc i m s))"
proof (cases "applyMapping lg m rc i ctx")
  case (Inl issue)
  then show ?thesis using assms(5,6) by (simp add: entity_step_def ext_inv_def keys_ok_def)
next
  case (Inr e)
  note e = applyMapping_Inr [OF Inr]
  have "from_mapping lg manifest ctx records e" using assms(1-4) Inr e by (auto simp: from_mapping_def)
  moreover have "relation_ok ctx (ex_entities (fst s) @ [e]) r" if "r \<in> set (ex_relations (fst s))" for r
    using assms(5) that by (auto simp: ext_inv_def intro: relation_ok_mono)
  ultimately show ?thesis
    using assms(5,6) Inr e by (auto simp: entity_step_def ext_inv_def keys_ok_def split: option.splits if_splits)
qed

lemma entity_steps_keep:
  assumes "i < length records" "rc = records ! i" "set ms \<subseteq> {m \<in> set (mf_entityMappings manifest). map_recordType m = rec_type rc}"
    and "ext_inv lg manifest ctx records (fst s)" "keys_ok i (fst s) (snd s)"
  shows "ext_inv lg manifest ctx records (fst (fold (entity_step lg ctx rc i) ms s))
    \<and> keys_ok i (fst (fold (entity_step lg ctx rc i) ms s)) (snd (fold (entity_step lg ctx rc i) ms s))"
  using assms(3-)
proof (induction ms arbitrary: s)
  case (Cons m ms)
  then have "map_recordType m = rec_type rc" "m \<in> set (mf_entityMappings manifest)" by auto
  from entity_step_keeps [OF this assms(1,2) Cons.prems(2,3)] Cons.IH Cons.prems(1) show ?case by simp
qed simp

lemma relate_step_keeps:
  assumes "ext_inv lg manifest ctx records s" "keys_ok i s keys" "own \<in> set (ex_entities s)" "en_recordIndex own = i"
  shows "ext_inv lg manifest ctx records (relate_step ctx rc i m keys own spec s)
    \<and> ex_entities (relate_step ctx rc i m keys own spec s) = ex_entities s"
proof (cases "if rs_to spec = To_anchor then ec_anchorKey ctx else omap_get keys (option_or (rs_toEntityRef spec) [])")
  case None
  then show ?thesis using assms(1) by (simp add: relate_step_def ext_inv_def)
next
  case (Some other)
  then have "Some other = ec_anchorKey ctx \<or> (\<exists>e \<in> set (ex_entities s). en_recordIndex e = i \<and> en_identityKey e = other)"
    using assms(2) by (auto simp: keys_ok_def split: if_splits)
  then show ?thesis
    using assms Some by (auto simp: relate_step_def ext_inv_def relation_ok_def)
qed

lemma relations_step_keeps:
  assumes "ext_inv lg manifest ctx records s" "keys_ok i s keys"
  shows "ext_inv lg manifest ctx records (relations_step ctx rc i keys m s)
    \<and> ex_entities (relations_step ctx rc i keys m s) = ex_entities s"
proof (cases "own_entity i keys m (ex_entities s)")
  case None
  then show ?thesis using assms by (simp add: relations_step_def)
next
  case (Some own)
  then have own: "own \<in> set (ex_entities s)" "en_recordIndex own = i"
    by (auto simp: own_entity_def Let_def dest!: find_holds)
  have "ext_inv lg manifest ctx records (fold (relate_step ctx rc i m keys own) specs t) \<and> ex_entities (fold (relate_step ctx rc i m keys own) specs t) = ex_entities s"
    if "ext_inv lg manifest ctx records t" "ex_entities t = ex_entities s" for specs t
    using that
  proof (induction specs arbitrary: t)
    case (Cons spec specs)
    have "keys_ok i t keys" "own \<in> set (ex_entities t)" using assms(2) own Cons.prems by (simp_all add: keys_ok_def)
    with relate_step_keeps [OF Cons.prems(1) this own(2)] Cons show ?case by simp
  qed simp
  from this [OF assms(1) refl] Some show ?thesis by (simp add: relations_step_def)
qed

lemma record_step_keeps:
  assumes "ext_inv lg manifest ctx records s" "i < length records"
  shows "ext_inv lg manifest ctx records (record_step lg manifest ctx (i, records ! i) s)"
proof -
  let ?rc = "records ! i"
  let ?ms = "filter (\<lambda>m. map_recordType m = rec_type ?rc) (mf_entityMappings manifest)"
  obtain t keys where f: "fold (entity_step lg ctx ?rc i) ?ms (s, []) = (t, keys)" by fastforce
  have "set ?ms \<subseteq> {m \<in> set (mf_entityMappings manifest). map_recordType m = rec_type ?rc}" by auto
  from entity_steps_keep [OF assms(2) refl this, where s = "(s, [])" and lg = lg and ctx = ctx] assms(1) f
  have t: "ext_inv lg manifest ctx records t" "keys_ok i t keys" by (simp_all add: keys_ok_def)
  have "ext_inv lg manifest ctx records (fold (relations_step ctx ?rc i keys) ms u) \<and> ex_entities (fold (relations_step ctx ?rc i keys) ms u) = ex_entities t"
    if "ext_inv lg manifest ctx records u" "ex_entities u = ex_entities t" for ms u
    using that
  proof (induction ms arbitrary: u)
    case (Cons m ms)
    have "keys_ok i u keys" using t(2) Cons.prems by (simp add: keys_ok_def)
    from relations_step_keeps [OF Cons.prems(1) this] Cons show ?case by simp
  qed simp
  from this [OF t(1) refl] f assms(1) show ?thesis by (simp add: record_step_def Let_def)
qed

lemma relate_step_le: "ext_le s (relate_step ctx rc i m keys own spec s)"
  by (auto simp: relate_step_def ext_le_def split: option.splits)

lemma relations_step_le: "ext_le s (relations_step ctx rc i keys m s)"
  by (auto simp: relations_step_def relate_step_le intro!: fold_ext_le split: option.splits)

lemma entity_step_le: "ext_le (fst s) (fst (entity_step lg ctx rc i m s))"
  by (auto simp: entity_step_def ext_le_def split: sum.splits)

lemma entity_steps_le: "ext_le (fst s) (fst (fold (entity_step lg ctx rc i) ms s))"
proof (induction ms arbitrary: s)
  case (Cons m ms)
  show ?case using ext_le_trans [OF entity_step_le Cons.IH [of "entity_step lg ctx rc i m s"]] by simp
qed simp

definition recorded :: "UserMessage + ExtractedEntity \<Rightarrow> ExtractionResult \<Rightarrow> bool" where
  "recorded outcome s \<longleftrightarrow> (case outcome of Inl issue \<Rightarrow> issue \<in> set (ex_issues s) | Inr e \<Rightarrow> e \<in> set (ex_entities s))"

lemma recorded_mono: "recorded r s \<Longrightarrow> ext_le s t \<Longrightarrow> recorded r t"
  by (auto simp: recorded_def ext_le_def split: sum.splits)

lemma entity_steps_record: "m \<in> set ms \<Longrightarrow> recorded (applyMapping lg m rc i ctx) (fst (fold (entity_step lg ctx rc i) ms s))"
proof (induction ms arbitrary: s)
  case (Cons m' ms)
  have "recorded (applyMapping lg m' rc i ctx) (fst (entity_step lg ctx rc i m' s))"
    by (auto simp: recorded_def entity_step_def split: sum.splits)
  then have "recorded (applyMapping lg m' rc i ctx) (fst (fold (entity_step lg ctx rc i) ms (entity_step lg ctx rc i m' s)))"
    using entity_steps_le by (rule recorded_mono)
  with Cons.IH [of "entity_step lg ctx rc i m' s"] Cons.prems show ?case by auto
qed simp

lemma record_step_le: "ext_le s (record_step lg manifest ctx irc s)"
  and record_step_records: "m \<in> set (mf_entityMappings manifest) \<Longrightarrow> map_recordType m = rec_type (snd irc) \<Longrightarrow>
     recorded (applyMapping lg m (snd irc) (fst irc) ctx) (record_step lg manifest ctx irc s)"
proof -
  obtain i rc where irc: "irc = (i, rc)" by fastforce
  let ?ms = "filter (\<lambda>m. map_recordType m = rec_type rc) (mf_entityMappings manifest)"
  obtain t keys where f: "fold (entity_step lg ctx rc i) ?ms (s, []) = (t, keys)" by fastforce
  have r: "record_step lg manifest ctx irc s = (if ?ms = [] then s else fold (relations_step ctx rc i keys) ?ms t)"
    by (simp add: record_step_def irc f Let_def)
  have "ext_le s t" using entity_steps_le [of "(s, [])" lg ctx rc i ?ms] f by simp
  moreover have rest: "ext_le t (fold (relations_step ctx rc i keys) ?ms t)"
    by (rule fold_ext_le) (rule relations_step_le)
  ultimately show "ext_le s (record_step lg manifest ctx irc s)" using r by (auto intro: ext_le_trans)
  show "recorded (applyMapping lg m (snd irc) (fst irc) ctx) (record_step lg manifest ctx irc s)"
    if "m \<in> set (mf_entityMappings manifest)" "map_recordType m = rec_type (snd irc)"
  proof -
    have m: "m \<in> set ?ms" using that irc by simp
    then have "?ms \<noteq> []" by (metis list.set(1) empty_iff)
    moreover have "recorded (applyMapping lg m rc i ctx) t"
      using entity_steps_record [OF m, where s = "(s, [])"] f by (metis fst_conv)
    ultimately show ?thesis using r recorded_mono [OF _ rest] irc by simp
  qed
qed

lemma records_recorded:
  "irc \<in> set xs \<Longrightarrow> m \<in> set (mf_entityMappings manifest) \<Longrightarrow> map_recordType m = rec_type (snd irc) \<Longrightarrow>
     recorded (applyMapping lg m (snd irc) (fst irc) ctx) (fold (record_step lg manifest ctx) xs s)"
proof (induction xs arbitrary: s)
  case (Cons x xs)
  show ?case
  proof (cases "irc = x")
    case True
    have "ext_le (record_step lg manifest ctx x s) (fold (record_step lg manifest ctx) xs (record_step lg manifest ctx x s))"
      by (rule fold_ext_le) (rule record_step_le)
    with record_step_records [OF Cons.prems(2,3)] True show ?thesis by (auto intro: recorded_mono)
  qed (use Cons in auto)
qed simp

lemma extractor_inv: "ext_inv lg manifest ctx (pd_records doc) (manifestEntityExtractor lg manifest doc ctx)"
  unfolding manifestEntityExtractor_def
proof (rule fold_invariant [where Q = "\<lambda>irc. fst irc < length (pd_records doc) \<and> snd irc = pd_records doc ! fst irc"])
  show "ext_inv lg manifest ctx (pd_records doc) (record_step lg manifest ctx irc s)"
    if "fst irc < length (pd_records doc) \<and> snd irc = pd_records doc ! fst irc" "ext_inv lg manifest ctx (pd_records doc) s" for irc s
    using record_step_keeps [OF that(2), of "fst irc"] that(1) by (cases irc) simp
qed (auto simp: in_set_enumerate_eq ext_inv_def)


definition sample_spec :: "ikind \<Rightarrow> string \<Rightarrow> entity_spec" where
  "sample_spec kind pointer = \<lparr>es_kind = kind, es_valueFrom = pointer, es_nodeType = ''node'', es_titleFrom = None,
     es_fields = [], es_tags = [], es_baseConfidence = 1\<rparr>"

definition to_anchor :: relate_spec where
  "to_anchor = \<lparr>rs_to = To_anchor, rs_toEntityRef = None, rs_edgeType = ''owns'', rs_label = None, rs_direction = Dir_out\<rparr>"

definition ip_mapping :: "string \<Rightarrow> relate_spec list \<Rightarrow> EntityMapping" where
  "ip_mapping pointer relates = \<lparr>map_recordType = ''host'', map_entity = sample_spec IK_ip pointer, map_relate = relates, map_id = None\<rparr>"

definition pair_manifest :: IntegrationManifest where
  "pair_manifest = sample_manifest\<lparr>mf_entityMappings := [ip_mapping ''/a'' [], ip_mapping ''/b'' [to_anchor]]\<rparr>"

definition pair_doc :: "string \<Rightarrow> ParsedDocument" where
  "pair_doc b = \<lparr>pd_toolReportedVersion = None, pd_records =
     [\<lparr>rec_type = ''host'', rec_data = J_obj [(''a'', J_str ''8.8.8.8''), (''b'', J_str b)], rec_pointer = ''/0'',
       rec_observedAt = ''t'', rec_parserConfidence = 1\<rparr>], pd_counters = [], pd_nonFatalIssues = []\<rparr>"

definition pair_ctx :: ExtractContext where
  "pair_ctx = \<lparr>ec_manifest = pair_manifest, ec_anchorKey = Some ''domain:x.org'', ec_drift = None, ec_defaultRegion = None\<rparr>"

lemma ip_identity:
  assumes "norm_ip s = norm_ok v d (Some [(''family'', J_num (Finite 4))])"
  shows "identityFor api IK_ip s region = \<lparr>id_ok = True, id_key = Some (''ip:'' @ v), id_value = Some v, id_display = Some d,
    id_meta = Some [(''family'', J_num (Finite 4))], id_reason = None\<rparr>"
  using assms by (simp add: identityFor_def norm_ok_def identityKey_def)

lemma pair_pointers:
  "jsonPointer lg (J_obj [(''a'', x), (''b'', y)]) ''/a'' = x" "jsonPointer lg (J_obj [(''a'', x), (''b'', y)]) ''/b'' = y"
  by (simp_all add: jsonPointer_def unescape_def prop_get_def)

lemma pair_run:
  assumes "applyMapping lg (ip_mapping ''/a'' []) (hd (pd_records (pair_doc b))) 0 pair_ctx = Inr e"
  shows "ex_relations (manifestEntityExtractor lg pair_manifest (pair_doc b) pair_ctx) =
     [\<lparr>er_fromKey = en_identityKey e, er_toKey = ''domain:x.org'', er_type = ''owns'', er_props = None, er_label = None,
       er_confidence = en_confidence e, er_recordIndex = 0, er_pointer = ''/0''\<rparr>]"
proof -
  have i: "en_recordIndex e = 0" using applyMapping_Inr [OF assms] by simp
  show ?thesis
    using assms i
    by (cases "applyMapping lg (ip_mapping ''/b'' [to_anchor]) (hd (pd_records (pair_doc b))) 0 pair_ctx")
      (simp_all add: manifestEntityExtractor_def record_step_def pair_manifest_def entity_step_def relations_step_def own_entity_def
        pair_doc_def ip_mapping_def relate_step_def to_anchor_def pair_ctx_def)
qed

lemma ip_mapping_entity:
  assumes "jsonPointer lg (rec_data rc) p = J_str ''8.8.8.8''" "ec_defaultRegion ctx = None"
  shows "\<exists>e. applyMapping lg (ip_mapping p rs) rc 0 ctx = Inr e \<and> en_identityKey e = ''ip:8.8.8.8''"
proof -
  have "norm_ip ''8.8.8.8'' = norm_ok ''8.8.8.8'' ''8.8.8.8'' (Some [(''family'', J_num (Finite 4))])" by code_simp
  note id = ip_identity [OF this]
  have t: "js_trim ''8.8.8.8'' \<noteq> []" by code_simp
  show ?thesis using assms id t
    by (simp add: applyMapping_def ip_mapping_def sample_spec_def asText_def nullish_def)
qed

text \<open>A relation can start at the wrong entity: the mapping of the second address of a record asks for an edge from that address to the anchor, but an unnamed mapping, or one whose own value was rejected, is taken to be about the first entity of the record, so the edge starts at the first address.\<close>

theorem relation_misattributed:
  "(\<exists>r. ex_relations (manifestEntityExtractor lg pair_manifest (pair_doc b) pair_ctx) = [r]
      \<and> er_fromKey r = ''ip:8.8.8.8'' \<and> er_toKey r = ''domain:x.org'')
   \<and> map_relate (ip_mapping ''/a'' []) = []"
proof -
  have "jsonPointer lg (rec_data (hd (pd_records (pair_doc b)))) ''/a'' = J_str ''8.8.8.8''"
    by (simp add: pair_doc_def pair_pointers)
  then obtain e where "applyMapping lg (ip_mapping ''/a'' []) (hd (pd_records (pair_doc b))) 0 pair_ctx = Inr e" "en_identityKey e = ''ip:8.8.8.8''"
    using ip_mapping_entity [of lg "hd (pd_records (pair_doc b))" "''/a''" pair_ctx "[]"] by (auto simp: pair_ctx_def)
  with pair_run show ?thesis by (auto simp: ip_mapping_def)
qed


section \<open>Versions\<close>

definition major :: "string \<Rightarrow> string" where "major v = hd (split_on (CHR ''.'') v)"
definition minor :: "string \<Rightarrow> string option" where "minor v = nth_opt (split_on (CHR ''.'') v) 1"

lemma drift_scan_first:
  "drift_scan a b cs =
     (case find (\<lambda>c. major c = a) cs of None \<Rightarrow> None | Some c \<Rightarrow> Some (if minor c = b then Drift_patch else Drift_minor))"
  by (induction cs) (auto simp: Let_def major_def minor_def)

text \<open>The version gate: exact exactly for the supported versions; otherwise the first supported version of the same major decides between patch and minor drift, and with none the major of the adapter's target decides between minor and major; so a supported version of the same minor that stands later is overlooked, and the confidence penalty depends on the order of the list.\<close>

theorem versionDrift_gate:
  "(versionDrift reported supported target = Drift_exact) = (reported \<in> set supported)
   \<and> (versionDrift reported supported target = Drift_major) = (major reported \<notin> insert (major target) (major ` set supported))
   \<and> (versionDrift reported supported target = Drift_patch) =
       (reported \<notin> set supported \<and> (\<exists>c. find (\<lambda>c. major c = major reported) supported = Some c \<and> minor c = minor reported))
   \<and> versionDrift ''2.1.5'' [''2.1.0'', ''2.0.0''] target = Drift_patch
   \<and> versionDrift ''2.1.5'' [''2.0.0'', ''2.1.0''] target = Drift_minor
   \<and> versionFactor Drift_patch = 1 \<and> versionFactor Drift_minor < 1"
proof -
  have f: "find (\<lambda>c. major c = a) cs = None \<longleftrightarrow> a \<notin> major ` set cs" for a cs
    by (induction cs) auto
  have scan: "drift_scan (hd (split_on (CHR ''.'') reported)) (nth_opt (split_on (CHR ''.'') reported) 1) supported =
      (case find (\<lambda>c. major c = major reported) supported of None \<Rightarrow> None
       | Some c \<Rightarrow> Some (if minor c = minor reported then Drift_patch else Drift_minor))"
    by (simp only: drift_scan_first major_def minor_def)
  have in_set: "reported \<in> set supported \<Longrightarrow> major reported \<in> major ` set supported" by simp
  have vd: "versionDrift reported supported target =
      (if reported \<in> set supported then Drift_exact
       else case find (\<lambda>c. major c = major reported) supported of
          None \<Rightarrow> if major reported = major target then Drift_minor else Drift_major
        | Some c \<Rightarrow> if minor c = minor reported then Drift_patch else Drift_minor)"
    by (simp add: versionDrift_def Let_def scan major_def split: option.splits)
  have sp: "split_on (CHR ''.'') ''2.1.5'' = [''2'', ''1'', ''5'']" "split_on (CHR ''.'') ''2.1.0'' = [''2'', ''1'', ''0'']"
    "split_on (CHR ''.'') ''2.0.0'' = [''2'', ''0'', ''0'']" by simp_all
  have "versionDrift ''2.1.5'' [''2.1.0'', ''2.0.0''] target = Drift_patch"
    "versionDrift ''2.1.5'' [''2.0.0'', ''2.1.0''] target = Drift_minor"
    by (simp_all add: versionDrift_def sp nth_opt_def Let_def)
  moreover have "versionFactor Drift_patch = 1 \<and> versionFactor Drift_minor < 1" by (simp add: versionFactor_def)
  moreover have "(versionDrift reported supported target = Drift_major) = (major reported \<notin> insert (major target) (major ` set supported))"
    using f [of "major reported" supported] in_set unfolding vd by (auto split: option.splits)
  moreover have "(versionDrift reported supported target = Drift_exact) = (reported \<in> set supported)"
    unfolding vd by (auto split: option.splits)
  moreover have "(versionDrift reported supported target = Drift_patch) =
       (reported \<notin> set supported \<and> (\<exists>c. find (\<lambda>c. major c = major reported) supported = Some c \<and> minor c = minor reported))"
    unfolding vd by (auto split: option.splits)
  ultimately show ?thesis by blast
qed

section \<open>Limits\<close>

text \<open>An organisation's policy can only tighten a tool: every effective limit is at most the manifest's and at most the policy's, hosts are reachable exactly if the manifest and, when it says anything, the policy allow them, in the manifest's order; applying the same policy to the result again changes nothing.\<close>

theorem effectiveLimits_tighten:
  "let e = effectiveLimits limits (allow, rate) (Some policy) in
     el_wallClockMs e = Min ({rl_wallClockMs limits} \<union> set_option (op_maxWallClockMs policy))
     \<and> el_memoryMiB e = Min ({rl_memoryMiB limits} \<union> set_option (op_maxMemoryMiB policy))
     \<and> set (el_egressAllowlist e) = set allow \<inter> (case op_networkAllow policy of None \<Rightarrow> UNIV | Some hosts \<Rightarrow> set hosts)
     \<and> subseq (el_egressAllowlist e) allow
     \<and> effectiveLimits (limits\<lparr>rl_wallClockMs := el_wallClockMs e, rl_memoryMiB := el_memoryMiB e\<rparr>)
         (el_egressAllowlist e, el_maxRequestsPerMinute e) (Some policy) = e
     \<and> effectiveLimits limits (allow, rate) None =
         effectiveLimits limits (allow, rate) (Some \<lparr>op_maxWallClockMs = None, op_maxMemoryMiB = None, op_networkAllow = None\<rparr>)"
  by (auto simp: effectiveLimits_def Let_def option_or_def subseq_filter_left split: option.splits)

section \<open>The records of a run\<close>

lemma replace_pair_none: "a \<notin> set s \<Longrightarrow> replace_pair a b r s = s"
  by (induction a b r s rule: replace_pair.induct) auto

lemma nat_str_chars: "\<not> is_digit c \<Longrightarrow> c \<notin> set (nat_str n)"
  using nat_str_digits by blast

lemma array_pointer:
  assumes "lg_number lg (nat_str i) = Finite (of_nat i)" "i < length vs"
  shows "jsonPointer lg (J_arr vs) (''/'' @ nat_str i) = vs ! i"
proof -
  have no: "CHR ''/'' \<notin> set (nat_str i)" "CHR ''~'' \<notin> set (nat_str i)"
    by (auto intro!: nat_str_chars simp: is_digit_def code_unit_def)
  then have "unescape (nat_str i) = nat_str i" by (simp add: unescape_def replace_pair_none)
  then show ?thesis
    using assms no by (simp add: jsonPointer_def split_on_none array_at_def nth_opt_def)
qed

lemma payload_records_data: "map rec_data (payload_records res ty payload) = filter is_container (items_of payload)"
proof -
  have "map rec_data (concat (map (\<lambda>(index, item). if is_container item then [r index item] else []) (enumerate n xs)))
      = filter is_container xs" if "\<And>i x. rec_data (r i x) = x" for r :: "nat \<Rightarrow> js_value \<Rightarrow> ParsedRecord" and n xs
    using that by (induction xs arbitrary: n) auto
  then show ?thesis by (simp add: payload_records_def)
qed

lemma payload_records_pointer:
  assumes "\<And>i. lg_number lg (nat_str i) = Finite (of_nat i)" "rc \<in> set (payload_records res ty payload)"
  shows "jsonPointer lg payload (rec_pointer rc) = rec_data rc \<and> rec_type rc = ty"
proof -
  obtain i where i: "i < length (items_of payload)" "rec_data rc = items_of payload ! i" "rec_type rc = ty"
    "rec_pointer rc = (if is_array payload then ''/'' @ nat_str i else ''/'')"
    using assms(2) by (auto simp: payload_records_def in_set_enumerate_eq split: if_splits)
  show ?thesis
  proof (cases "is_array payload")
    case True
    then obtain vs where "payload = J_arr vs" by (auto simp: is_array_def split: js_value.splits)
    with True i show ?thesis using array_pointer [OF assms(1), of i vs] by (simp add: items_of_def)
  next
    case False
    then have "items_of payload = [payload]" by (auto simp: is_array_def items_of_def split: js_value.splits)
    with False i show ?thesis by (simp add: jsonPointer_def)
  qed
qed

definition parsed_refs :: "RawRunResult \<Rightarrow> ArtifactRef list" where
  "parsed_refs res = (if rr_artifacts res \<noteq> [] then rr_artifacts res else case rr_stdoutRef res of None \<Rightarrow> [] | Some ref \<Rightarrow> [ref])"

lemma parse_refs_cases:
  "case parse_refs read parse_json res refs of
     Inr rs \<Rightarrow> (\<exists>payloads. list_all2 (\<lambda>ref p. readJson read parse_json ref (rr_runId res) = Inr p) refs payloads
        \<and> rs = concat (map2 (\<lambda>ref p. payload_records res (artifactName ref) p) refs payloads))
   | Inl e \<Rightarrow> ie_code e = PARSE_UNSUPPORTED_SHAPE
       \<and> (\<exists>ref \<in> set refs. parse_json (concat (read_chunks 0 (read ref))) = None)"
proof (induction refs)
  case (Cons ref refs)
  show ?case
  proof (cases "readJson read parse_json ref (rr_runId res)")
    case (Inl e)
    then show ?thesis by (auto simp: readJson_def integration_error_def Let_def split: option.splits)
  next
    case (Inr p)
    show ?thesis
    proof (cases "parse_refs read parse_json res refs")
      case (Inl e)
      with Cons Inr show ?thesis by auto
    next
      case r: (Inr rs)
      with Cons obtain ps where "list_all2 (\<lambda>ref p. readJson read parse_json ref (rr_runId res) = Inr p) refs ps"
        "rs = concat (map2 (\<lambda>ref p. payload_records res (artifactName ref) p) refs ps)" by auto
      with Inr r show ?thesis by (auto intro!: exI [of _ "p # ps"])
    qed
  qed
qed simp

lemma read_chunks_prefix:
  "prefix (read_chunks n chunks) chunks \<and> n + length (concat (read_chunks n chunks)) \<le> max n MAX_ARTIFACT_BYTES
   \<and> (n + length (concat chunks) \<le> MAX_ARTIFACT_BYTES \<longrightarrow> read_chunks n chunks = chunks)"
proof (induction chunks arbitrary: n)
  case (Cons c cs)
  show ?case using Cons.IH [of "n + length c"] by (auto simp: Let_def max_def split: if_splits)
qed simp

text \<open>C26. The declarative parser neither loses nor invents records: with all artifacts read it returns, artifact by artifact, one record for each object of the payload in order, each of a type named after its artifact and with a pointer that leads back to it; it fails only when there is no output or when the bytes it kept are not JSON. It keeps at most 8 MiB, a prefix of the artifact and all of it when the artifact fits, so a longer artifact is judged by its prefix.\<close>

theorem declarative_parse_sound:
  assumes "\<And>i. lg_number lg (nat_str i) = Finite (of_nat i)"
  shows "(case declarative_parse read parse_json res of
     Inl e \<Rightarrow> ie_code e = (if parsed_refs res = [] then OUTPUT_MISSING else PARSE_UNSUPPORTED_SHAPE)
   | Inr doc \<Rightarrow> (\<exists>payloads. length payloads = length (parsed_refs res)
        \<and> (\<forall>i < length payloads. parse_json (concat (read_chunks 0 (read (parsed_refs res ! i)))) = Some (payloads ! i))
        \<and> map rec_data (pd_records doc) = filter is_container (concat (map items_of payloads))
        \<and> (\<forall>rc \<in> set (pd_records doc). \<exists>i < length payloads.
             rec_type rc = artifactName (parsed_refs res ! i) \<and> jsonPointer lg (payloads ! i) (rec_pointer rc) = rec_data rc)
        \<and> pd_counters doc = [(''records'', int (length (pd_records doc)))]))
     \<and> prefix (concat (read_chunks 0 chunks)) (concat chunks) \<and> length (concat (read_chunks 0 chunks)) \<le> MAX_ARTIFACT_BYTES
     \<and> (length (concat chunks) \<le> MAX_ARTIFACT_BYTES \<longrightarrow> read_chunks 0 chunks = chunks)"
proof -
  have "prefix (concat (read_chunks 0 chunks)) (concat chunks)" "length (concat (read_chunks 0 chunks)) \<le> MAX_ARTIFACT_BYTES"
    "length (concat chunks) \<le> MAX_ARTIFACT_BYTES \<longrightarrow> read_chunks 0 chunks = chunks"
    using read_chunks_prefix [of 0 chunks] by (auto simp: prefix_def) (metis concat_append)
  note read_bounds = this
  have dp: "declarative_parse read parse_json res =
      (if parsed_refs res = [] then Inl (integration_error OUTPUT_MISSING (no_options\<lparr>po_runId := Some (rr_runId res)\<rparr>))
       else case parse_refs read parse_json res (parsed_refs res) of Inl e \<Rightarrow> Inl e
         | Inr records \<Rightarrow> Inr \<lparr>pd_toolReportedVersion = None, pd_records = records,
              pd_counters = [(''records'', int (length records))], pd_nonFatalIssues = []\<rparr>)"
    by (simp add: declarative_parse_def parsed_refs_def Let_def)
  have data: "map rec_data (concat (map2 (\<lambda>ref p. payload_records res (artifactName ref) p) refs ps)) = filter is_container (concat (map items_of ps))"
    if "length refs = length ps" for refs ps
    using that by (induction refs ps rule: list_induct2) (simp_all add: payload_records_data)
  have rec: "\<exists>i < length ps. rec_type rc = artifactName (refs ! i) \<and> jsonPointer lg (ps ! i) (rec_pointer rc) = rec_data rc"
    if l: "length refs = length ps" and r: "rc \<in> set (concat (map2 (\<lambda>ref p. payload_records res (artifactName ref) p) refs ps))" for refs ps rc
  proof -
    from r obtain i where "i < length ps" "rc \<in> set (payload_records res (artifactName (refs ! i)) (ps ! i))"
      using l by (auto simp: set_zip)
    with payload_records_pointer [OF assms] show ?thesis by blast
  qed
  have "case declarative_parse read parse_json res of
     Inl e \<Rightarrow> ie_code e = (if parsed_refs res = [] then OUTPUT_MISSING else PARSE_UNSUPPORTED_SHAPE)
   | Inr doc \<Rightarrow> (\<exists>payloads. length payloads = length (parsed_refs res)
        \<and> (\<forall>i < length payloads. parse_json (concat (read_chunks 0 (read (parsed_refs res ! i)))) = Some (payloads ! i))
        \<and> map rec_data (pd_records doc) = filter is_container (concat (map items_of payloads))
        \<and> (\<forall>rc \<in> set (pd_records doc). \<exists>i < length payloads.
             rec_type rc = artifactName (parsed_refs res ! i) \<and> jsonPointer lg (payloads ! i) (rec_pointer rc) = rec_data rc)
        \<and> pd_counters doc = [(''records'', int (length (pd_records doc)))])"
  proof (cases "parsed_refs res = []")
    case True
    then show ?thesis by (simp add: dp integration_error_def Let_def)
  next
    case False
    show ?thesis
    proof (cases "parse_refs read parse_json res (parsed_refs res)")
      case (Inl e)
      then show ?thesis using False parse_refs_cases [where refs = "parsed_refs res" and read = read and parse_json = parse_json and res = res] by (simp add: dp)
    next
      case (Inr rs)
      with parse_refs_cases [where refs = "parsed_refs res" and read = read and parse_json = parse_json and res = res] obtain ps
        where ps: "list_all2 (\<lambda>ref p. readJson read parse_json ref (rr_runId res) = Inr p) (parsed_refs res) ps"
          "rs = concat (map2 (\<lambda>ref p. payload_records res (artifactName ref) p) (parsed_refs res) ps)" by auto
      have l: "length (parsed_refs res) = length ps" using ps(1) by (rule list_all2_lengthD)
      have "\<forall>i < length ps. parse_json (concat (read_chunks 0 (read (parsed_refs res ! i)))) = Some (ps ! i)"
        using ps(1) l by (auto simp: list_all2_conv_all_nth readJson_def split: option.splits)
      moreover have "map rec_data rs = filter is_container (concat (map items_of ps))"
        using data [OF l] ps(2) by simp
      moreover have "\<forall>rc \<in> set rs. \<exists>i < length ps.
          rec_type rc = artifactName (parsed_refs res ! i) \<and> jsonPointer lg (ps ! i) (rec_pointer rc) = rec_data rc"
        using rec [OF l] ps(2) by blast
      ultimately show ?thesis
        using l False Inr by (simp add: dp) (intro exI [of _ ps] conjI, simp_all)
    qed
  qed
  with read_bounds show ?thesis by blast
qed

definition sample_ref :: ArtifactRef where
  "sample_ref = \<lparr>ar_bucket = ''runs'', ar_key = ''r1/hosts.json'', ar_bytes = 2, ar_sha256 = '''', ar_contentType = ''application/json'', ar_truncated = False\<rparr>"

definition sample_result :: RawRunResult where
  "sample_result = \<lparr>rr_runId = ''r1'', rr_status = Term_succeeded, rr_exitCode = Some 0, rr_startedAt = ''t0'', rr_finishedAt = ''t1'',
     rr_durationMs = 10, rr_artifacts = [], rr_stdoutRef = Some sample_ref, rr_stderrRef = None,
     rr_stats = \<lparr>st_bytesOut = 2, st_egressRequests = 0, st_egressDenied = 0, st_egressThrottled = None, st_peakMemMiB = 1, st_itemsFound = None\<rparr>,
     rr_error = None\<rparr>"

lemma plain_lang_numbers: "lg_number plain_lang (nat_str i) = Finite (of_nat i)"
  using nat_str_digits by (auto simp: plain_lang_def list_all_iff)

theorem declarative_parse_sound_witness:
  "\<exists>doc. declarative_parse (\<lambda>ref. [[91], [93]]) (\<lambda>bytes. if bytes = [91, 93] then Some (J_arr [J_obj [], J_null, J_obj []]) else None) sample_result = Inr doc
     \<and> map rec_data (pd_records doc) = [J_obj [], J_obj []]"
proof -
  let ?read = "\<lambda>ref :: ArtifactRef. [[91], [93]] :: u8 list list"
  let ?json = "\<lambda>bytes :: u8 list. if bytes = [91, 93] then Some (J_arr [J_obj [], J_null, J_obj []]) else None"
  have refs: "parsed_refs sample_result = [sample_ref]" by (simp add: parsed_refs_def sample_result_def)
  have chunks: "read_chunks 0 [[91], [93]] = [[91], [93]]" by (simp add: MAX_ARTIFACT_BYTES_def)
  obtain doc where doc: "declarative_parse ?read ?json sample_result = Inr doc"
    using refs chunks by (simp add: declarative_parse_def readJson_def sample_result_def)
  have "\<exists>ps. length ps = 1 \<and> ?json (concat (read_chunks 0 (?read sample_ref))) = Some (ps ! 0)
      \<and> map rec_data (pd_records doc) = filter is_container (concat (map items_of ps))"
    using declarative_parse_sound [where lg = plain_lang and read = ?read and parse_json = ?json and res = sample_result and chunks = "[]", OF plain_lang_numbers]
    unfolding doc refs sum.case by fastforce
  then obtain p where "?json (concat (read_chunks 0 (?read sample_ref))) = Some p" "map rec_data (pd_records doc) = filter is_container (items_of p)"
    by (auto simp: length_Suc_conv)
  then show ?thesis using doc chunks by (auto simp: items_of_def is_container_def)
qed

end
