(* ===== verification/IntegrationProposal.thy ===== *)
theory IntegrationProposal
  imports IntegrationExtract
begin

text \<open>
  Stages 6 and 7 of the import pipeline and the orchestrator of stages 3 to 7, the last part of
  \<open>packages/integrations/src/pipeline.ts\<close>: the mappers from extracted entities and relations to
  proposed nodes and edges, the reviewable proposal, and \<open>runParsePipeline\<close>. The two mapper contracts
  are locales; everything that is promised about a proposal is proved for any mappers that honour
  them and then holds of the default ones. \<open>Date.parse\<close> and \<open>toISOString\<close> are the argument \<open>clock\<close>.
\<close>

section \<open>Mappers\<close>

datatype NodeRefOrTemp = Ref_existing string | Ref_temp string

record layout_hint =
  lh_anchorNodeId :: "string option"
  lh_ring :: nat
  lh_index :: nat

record ProposedNode =
  pn_tempId :: string
  pn_identityKey :: string
  pn_nodeType :: string
  pn_title :: string
  pn_props :: js_object
  pn_tags :: "string list"
  pn_provenance :: Provenance
  pn_layoutHint :: "layout_hint option"

record ProposedEdge =
  pe_tempId :: string
  pe_fromRef :: NodeRefOrTemp
  pe_toRef :: NodeRefOrTemp
  pe_edgeType :: string
  pe_label :: "string option"
  pe_props :: js_object
  pe_provenance :: Provenance

record MapContext =
  mc_boardId :: string
  mc_anchorNodeId :: "string option"
  mc_resolve :: "string \<Rightarrow> ExistingNodeMatch option"
  mc_provenanceFor :: "string \<Rightarrow> real \<Rightarrow> Provenance"

definition proposed_node :: "MapContext \<Rightarrow> nat \<Rightarrow> ExtractedEntity \<Rightarrow> ProposedNode" where
  "proposed_node ctx index entity =
     \<lparr>pn_tempId = tempIdFor (CHR ''n'') (en_identityKey entity), pn_identityKey = en_identityKey entity,
      pn_nodeType = en_nodeType entity, pn_title = en_title entity, pn_props = en_props entity, pn_tags = en_tags entity,
      pn_provenance = mc_provenanceFor ctx (en_pointer entity) (en_confidence entity),
      pn_layoutHint = Some \<lparr>lh_anchorNodeId = mc_anchorNodeId ctx, lh_ring = 1 + index div 12, lh_index = index mod 12\<rparr>\<rparr>"

definition node_step :: "MapContext \<Rightarrow> ExtractedEntity \<Rightarrow> ProposedNode list \<times> nat \<Rightarrow> ProposedNode list \<times> nat" where
  "node_step ctx entity s =
     (if mc_resolve ctx (en_identityKey entity) \<noteq> None then s
      else if list_ex (\<lambda>n. pn_identityKey n = en_identityKey entity) (fst s) then s
      else (fst s @ [proposed_node ctx (snd s) entity], snd s + 1))"

definition defaultNodeMapper :: "ExtractionResult \<Rightarrow> MapContext \<Rightarrow> ProposedNode list" where
  "defaultNodeMapper extraction ctx = fst (fold (node_step ctx) (ex_entities extraction) ([], 0))"

definition refFor :: "string \<Rightarrow> (string, ProposedNode) omap \<Rightarrow> MapContext \<Rightarrow> NodeRefOrTemp option" where
  "refFor key byKey ctx =
     (case omap_get byKey key of
        Some proposed \<Rightarrow> Some (Ref_temp (pn_tempId proposed))
      | None \<Rightarrow> (case mc_resolve ctx key of Some existing \<Rightarrow> Some (Ref_existing (em_nodeId existing)) | None \<Rightarrow> None))"

definition edge_of :: "(string, ProposedNode) omap \<Rightarrow> MapContext \<Rightarrow> ExtractedRelation \<Rightarrow> ProposedEdge list" where
  "edge_of byKey ctx relation =
     (case (refFor (er_fromKey relation) byKey ctx, refFor (er_toKey relation) byKey ctx) of
        (Some fromRef, Some toRef) \<Rightarrow>
          [\<lparr>pe_tempId = tempIdFor (CHR ''e'') (er_fromKey relation @ ''|'' @ er_type relation @ ''|'' @ er_toKey relation),
            pe_fromRef = fromRef, pe_toRef = toRef, pe_edgeType = er_type relation, pe_label = er_label relation,
            pe_props = option_or (er_props relation) [],
            pe_provenance = mc_provenanceFor ctx (er_pointer relation) (er_confidence relation)\<rparr>]
      | _ \<Rightarrow> [])"

definition defaultRelationshipMapper :: "ExtractionResult \<Rightarrow> ProposedNode list \<Rightarrow> MapContext \<Rightarrow> ProposedEdge list" where
  "defaultRelationshipMapper extraction nodes ctx =
     (let byKey = omap_of (map (\<lambda>node. (pn_identityKey node, node)) nodes)
      in concat (map (edge_of byKey ctx) (ex_relations extraction)))"

section \<open>The proposal\<close>

datatype patch_op = Op_set | Op_append | Op_addToSet

record FieldPatch =
  fp_path :: string
  fp_op :: patch_op
  fp_value :: js_value
  fp_previous :: js_value

datatype conflict_resolution = Resolve_keep | Resolve_replace | Resolve_keep_both

record ProposalItemBase =
  it_id :: string
  it_selectedByDefault :: bool
  it_confidence :: real
  it_explain :: string

record enrich_body =
  eb_targetNodeId :: string
  eb_fieldPatches :: "FieldPatch list"
  eb_provenance :: Provenance

record conflict_body =
  cb_targetNodeId :: string
  cb_field :: string
  cb_currentValue :: js_value
  cb_incomingValue :: js_value
  cb_currentProvenance :: "Provenance option"
  cb_incomingProvenance :: Provenance
  cb_resolution :: conflict_resolution

datatype ProposalItem =
    NewNodeItem ProposalItemBase ProposedNode
  | NewEdgeItem ProposalItemBase ProposedEdge
  | EnrichItem ProposalItemBase enrich_body
  | ConflictItem ProposalItemBase conflict_body

primrec item_base :: "ProposalItem \<Rightarrow> ProposalItemBase" where
  "item_base (NewNodeItem b n) = b"
| "item_base (NewEdgeItem b e) = b"
| "item_base (EnrichItem b x) = b"
| "item_base (ConflictItem b x) = b"

datatype ProposalItemKind = New_node | New_edge | Enrich | Conflict

primrec item_kind :: "ProposalItem \<Rightarrow> ProposalItemKind" where
  "item_kind (NewNodeItem b n) = New_node"
| "item_kind (NewEdgeItem b e) = New_edge"
| "item_kind (EnrichItem b x) = Enrich"
| "item_kind (ConflictItem b x) = Conflict"

record ProposalSummary =
  ps_newNodes :: nat
  ps_newEdges :: nat
  ps_enriched :: nat
  ps_conflicts :: nat
  ps_skippedDuplicates :: nat

record ImportProposal =
  ip_id :: string
  ip_runId :: string
  ip_integrationId :: string
  ip_boardId :: string
  ip_createdAt :: string
  ip_summary :: ProposalSummary
  ip_items :: "ProposalItem list"
  ip_issues :: "UserMessage list"
  ip_expiresAt :: string

definition PROPOSAL_TTL_MS :: int where "PROPOSAL_TTL_MS = 7 * 24 * 60 * 60 * 1000"

record BuildProposalInput =
  bp_proposalId :: string
  bp_runId :: string
  bp_integrationId :: string
  bp_boardId :: string
  bp_now :: string
  bp_extraction :: ExtractionResult
  bp_nodes :: "ProposedNode list"
  bp_edges :: "ProposedEdge list"
  bp_ctx :: MapContext

record clock =
  cl_parse :: "string \<Rightarrow> int option"
  cl_iso :: "int \<Rightarrow> string option"

definition node_item :: "string \<Rightarrow> ProposedNode \<Rightarrow> ProposalItem" where
  "node_item integrationId node =
     NewNodeItem \<lparr>it_id = pn_tempId node,
       it_selectedByDefault = (DEFAULT_SELECTION_THRESHOLD \<le> pv_confidence (pn_provenance node)),
       it_confidence = pv_confidence (pn_provenance node),
       it_explain = integrationId @ '' observed '' @ pn_title node @ '' in this run.''\<rparr> node"

definition selected_node_ids :: "ProposalItem list \<Rightarrow> string set" where
  "selected_node_ids items =
     set (map (\<lambda>item. it_id (item_base item))
       (filter (\<lambda>item. item_kind item = New_node \<and> it_selectedByDefault (item_base item)) items))"

definition ref_selected :: "string set \<Rightarrow> NodeRefOrTemp \<Rightarrow> bool" where
  "ref_selected ids ref = (case ref of Ref_existing n \<Rightarrow> True | Ref_temp t \<Rightarrow> t \<in> ids)"

definition edge_item :: "string \<Rightarrow> string set \<Rightarrow> ProposedEdge \<Rightarrow> ProposalItem" where
  "edge_item integrationId ids edge =
     NewEdgeItem \<lparr>it_id = pe_tempId edge,
       it_selectedByDefault = list_all (ref_selected ids) [pe_fromRef edge, pe_toRef edge],
       it_confidence = pv_confidence (pe_provenance edge),
       it_explain = integrationId @ '' linked these two entities in the same record.''\<rparr> edge"

definition resolution_of :: "KeepOrReplace \<Rightarrow> conflict_resolution" where
  "resolution_of r = (case r of Keep \<Rightarrow> Resolve_keep | Replace \<Rightarrow> Resolve_replace)"

definition decision_for :: "(real \<Rightarrow> string) \<Rightarrow> ExistingNodeMatch \<Rightarrow> ExtractedEntity \<Rightarrow> string \<Rightarrow> js_value \<Rightarrow> FieldDecision" where
  "decision_for num existing entity field incoming =
     decideField num \<lparr>fm_field = field, fm_current = prop_get (em_props existing) field, fm_incoming = incoming,
       fm_currentConfidence = em_confidence existing, fm_incomingConfidence = en_confidence entity,
       fm_props = Some (em_props existing)\<rparr>"

text \<open>State of the loop over the fields of an entity: the items, its patches, the skipped duplicates.\<close>

definition field_step ::
  "(real \<Rightarrow> string) \<Rightarrow> string \<Rightarrow> ExistingNodeMatch \<Rightarrow> ExtractedEntity \<Rightarrow> Provenance \<Rightarrow> string \<times> js_value
   \<Rightarrow> ProposalItem list \<times> FieldPatch list \<times> nat \<Rightarrow> ProposalItem list \<times> FieldPatch list \<times> nat" where
  "field_step num integrationId existing entity provenance entry s =
     (let (field, incoming) = entry; (items, patches, skipped) = s; current = prop_get (em_props existing) field
      in case decision_for num existing entity field incoming of
           FD_skip \<Rightarrow> (items, patches, skipped + 1)
         | FD_conflict resolution manual \<Rightarrow>
             (items @ [ConflictItem
                \<lparr>it_id = ''c:'' @ em_nodeId existing @ '':'' @ field, it_selectedByDefault = False,
                 it_confidence = en_confidence entity,
                 it_explain = (if manual then ''You edited '' @ field @ '' by hand; '' @ integrationId @ '' reports a different value.''
                               else integrationId @ '' reports a different '' @ field @ '' than the board holds.'')\<rparr>
                \<lparr>cb_targetNodeId = em_nodeId existing, cb_field = field, cb_currentValue = current, cb_incomingValue = incoming,
                 cb_currentProvenance = None, cb_incomingProvenance = provenance, cb_resolution = resolution_of resolution\<rparr>],
              patches, skipped)
         | FD_addToSet \<Rightarrow>
             (items, patches @ [\<lparr>fp_path = ''/'' @ field, fp_op = Op_addToSet, fp_value = incoming, fp_previous = current\<rparr>], skipped)
         | FD_set \<Rightarrow>
             (items, patches @ [\<lparr>fp_path = ''/'' @ field, fp_op = Op_set, fp_value = incoming, fp_previous = current\<rparr>], skipped))"

definition enrich_step ::
  "(real \<Rightarrow> string) \<Rightarrow> string \<Rightarrow> MapContext \<Rightarrow> ExtractedEntity \<Rightarrow> ProposalItem list \<times> nat \<Rightarrow> ProposalItem list \<times> nat" where
  "enrich_step num integrationId ctx entity s =
     (case mc_resolve ctx (en_identityKey entity) of
        None \<Rightarrow> s
      | Some existing \<Rightarrow>
          (let provenance = mc_provenanceFor ctx (en_pointer entity) (en_confidence entity);
               (items, patches, skipped) =
                 fold (field_step num integrationId existing entity provenance) (en_props entity) (fst s, [], snd s)
           in if patches \<noteq> []
              then (items @ [EnrichItem
                  \<lparr>it_id = ''p:'' @ em_nodeId existing, it_selectedByDefault = True, it_confidence = en_confidence entity,
                   it_explain = integrationId @ '' added '' @ nat_str (length patches) @ '' field(s) to '' @ em_title existing @ ''.''\<rparr>
                  \<lparr>eb_targetNodeId = em_nodeId existing, eb_fieldPatches = patches, eb_provenance = provenance\<rparr>], skipped)
              else (items, skipped)))"

definition count_kind :: "ProposalItemKind \<Rightarrow> ProposalItem list \<Rightarrow> nat" where
  "count_kind k items = length (filter (\<lambda>item. item_kind item = k) items)"

definition proposal_items :: "(real \<Rightarrow> string) \<Rightarrow> BuildProposalInput \<Rightarrow> ProposalItem list \<times> nat" where
  "proposal_items num inp =
     (let nodes = map (node_item (bp_integrationId inp)) (bp_nodes inp);
          ids = selected_node_ids nodes;
          edges = map (edge_item (bp_integrationId inp) ids) (bp_edges inp)
      in fold (enrich_step num (bp_integrationId inp) (bp_ctx inp)) (ex_entities (bp_extraction inp)) (nodes @ edges, 0))"

text \<open>\<open>None\<close>: the clock could not be read, and \<open>toISOString\<close> throws.\<close>

definition buildProposal :: "(real \<Rightarrow> string) \<Rightarrow> clock \<Rightarrow> BuildProposalInput \<Rightarrow> ImportProposal option" where
  "buildProposal num clk inp =
     (let (items, skipped) = proposal_items num inp
      in case Option.bind (cl_parse clk (bp_now inp)) (\<lambda>t. cl_iso clk (t + PROPOSAL_TTL_MS)) of
           None \<Rightarrow> None
         | Some expires \<Rightarrow>
             Some \<lparr>ip_id = bp_proposalId inp, ip_runId = bp_runId inp, ip_integrationId = bp_integrationId inp,
                   ip_boardId = bp_boardId inp, ip_createdAt = bp_now inp,
                   ip_summary = \<lparr>ps_newNodes = count_kind New_node items, ps_newEdges = count_kind New_edge items,
                     ps_enriched = count_kind Enrich items, ps_conflicts = count_kind Conflict items,
                     ps_skippedDuplicates = skipped\<rparr>,
                   ip_items = items, ip_issues = ex_issues (bp_extraction inp), ip_expiresAt = expires\<rparr>)"

section \<open>The orchestrator\<close>

record OutputParser =
  pr_schemaVersions :: "string list"
  pr_parse :: "RawRunResult \<Rightarrow> IntegrationError + ParsedDocument"

record ParsePipelineInput =
  pp_manifest :: IntegrationManifest
  pp_parser :: OutputParser
  pp_result :: RawRunResult
  pp_boardId :: string
  pp_proposalId :: string
  pp_actorUserId :: string
  pp_now :: string
  pp_anchorNodeId :: "string option"
  pp_anchorKey :: "string option"
  pp_resolve :: "string \<Rightarrow> ExistingNodeMatch option"
  pp_extractor :: "(ParsedDocument \<Rightarrow> ExtractContext \<Rightarrow> ExtractionResult) option"
  pp_nodeMapper :: "(ExtractionResult \<Rightarrow> MapContext \<Rightarrow> ProposedNode list) option"
  pp_relationshipMapper :: "(ExtractionResult \<Rightarrow> ProposedNode list \<Rightarrow> MapContext \<Rightarrow> ProposedEdge list) option"
  pp_defaultRegion :: "string option"

record ParsePipelineOutput =
  po_document :: ParsedDocument
  po_extraction :: ExtractionResult
  po_proposal :: ImportProposal
  po_drift :: VersionDrift

definition run_provenance :: "ParsePipelineInput \<Rightarrow> string \<Rightarrow> real \<Rightarrow> Provenance" where
  "run_provenance inp pointer confidence =
     \<lparr>pv_source = mf_name (pp_manifest inp) @ '' '' @ mf_toolVersion (pp_manifest inp), pv_tool = mf_id (pp_manifest inp),
      pv_toolVersion = mf_version (pp_manifest inp), pv_runId = rr_runId (pp_result inp),
      pv_observedAt = rr_finishedAt (pp_result inp), pv_importedAt = pp_now inp, pv_confidence = confidence,
      pv_artifactRef = nth_opt (rr_artifacts (pp_result inp)) 0, pv_pointer = Some pointer,
      pv_actorUserId = pp_actorUserId inp, pv_excerpt = None\<rparr>"

definition run_context :: "ParsePipelineInput \<Rightarrow> MapContext" where
  "run_context inp =
     \<lparr>mc_boardId = pp_boardId inp, mc_anchorNodeId = pp_anchorNodeId inp, mc_resolve = pp_resolve inp,
      mc_provenanceFor = run_provenance inp\<rparr>"

text \<open>A failure is the parser's error, or the exception of an unreadable clock.\<close>

definition runParsePipeline :: "lang \<Rightarrow> clock \<Rightarrow> ParsePipelineInput \<Rightarrow> thrown + ParsePipelineOutput" where
  "runParsePipeline lg clk inp =
     (case pr_parse (pp_parser inp) (pp_result inp) of
        Inl e \<Rightarrow> Inl (Thrown_integration e)
      | Inr document \<Rightarrow>
          (let drift = versionDrift (option_or (pd_toolReportedVersion document) (mf_toolVersion (pp_manifest inp)))
                         (pr_schemaVersions (pp_parser inp)) (mf_toolVersion (pp_manifest inp));
               extraction = option_or (pp_extractor inp) (manifestEntityExtractor lg (pp_manifest inp)) document
                 \<lparr>ec_manifest = pp_manifest inp, ec_anchorKey = pp_anchorKey inp, ec_drift = Some drift,
                  ec_defaultRegion = pp_defaultRegion inp\<rparr>;
               ctx = run_context inp;
               nodes = option_or (pp_nodeMapper inp) defaultNodeMapper extraction ctx;
               edges = option_or (pp_relationshipMapper inp) defaultRelationshipMapper extraction nodes ctx
           in case buildProposal (lg_num lg) clk
                \<lparr>bp_proposalId = pp_proposalId inp, bp_runId = rr_runId (pp_result inp), bp_integrationId = mf_id (pp_manifest inp),
                 bp_boardId = pp_boardId inp, bp_now = pp_now inp, bp_extraction = extraction, bp_nodes = nodes,
                 bp_edges = edges, bp_ctx = ctx\<rparr> of
                None \<Rightarrow> Inl (Thrown_error ''Invalid time value'')
              | Some proposal \<Rightarrow> Inr \<lparr>po_document = document, po_extraction = extraction, po_proposal = proposal, po_drift = drift\<rparr>))"

section \<open>The contracts of the mappers\<close>

definition ref_ok :: "MapContext \<Rightarrow> ProposedNode list \<Rightarrow> string \<Rightarrow> NodeRefOrTemp \<Rightarrow> bool" where
  "ref_ok ctx nodes key ref \<longleftrightarrow>
     (\<exists>n \<in> set nodes. pn_identityKey n = key \<and> ref = Ref_temp (pn_tempId n))
     \<or> (\<exists>x. mc_resolve ctx key = Some x \<and> ref = Ref_existing (em_nodeId x))"

definition edge_ok :: "MapContext \<Rightarrow> ProposedNode list \<Rightarrow> ExtractedRelation \<Rightarrow> ProposedEdge \<Rightarrow> bool" where
  "edge_ok ctx nodes r e \<longleftrightarrow>
     pe_edgeType e = er_type r \<and> pe_label e = er_label r
     \<and> ref_ok ctx nodes (er_fromKey r) (pe_fromRef e) \<and> ref_ok ctx nodes (er_toKey r) (pe_toRef e)"

definition placed :: "MapContext \<Rightarrow> ProposedNode list \<Rightarrow> string \<Rightarrow> bool" where
  "placed ctx nodes key \<longleftrightarrow> key \<in> pn_identityKey ` set nodes \<or> mc_resolve ctx key \<noteq> None"

locale node_mapper =
  fixes map_nodes :: "ExtractionResult \<Rightarrow> MapContext \<Rightarrow> ProposedNode list"
  assumes keys_distinct: "distinct (map pn_identityKey (map_nodes ex ctx))"
    and keys_exact: "pn_identityKey ` set (map_nodes ex ctx) = {k \<in> en_identityKey ` set (ex_entities ex). mc_resolve ctx k = None}"
begin

lemma entity_placed: "e \<in> set (ex_entities ex) \<Longrightarrow> placed ctx (map_nodes ex ctx) (en_identityKey e)"
  using keys_exact [of ex ctx] by (auto simp: placed_def)

lemma node_is_new: "n \<in> set (map_nodes ex ctx) \<Longrightarrow> mc_resolve ctx (pn_identityKey n) = None"
  using keys_exact [of ex ctx] by blast

text \<open>At most one node per identity, so the proposal can never hold more new nodes than entities.\<close>

lemma node_count: "length (map_nodes ex ctx) \<le> card (en_identityKey ` set (ex_entities ex))"
proof -
  have "length (map_nodes ex ctx) = card (pn_identityKey ` set (map_nodes ex ctx))"
    using distinct_card [OF keys_distinct [of ex ctx]] by simp
  also have "\<dots> \<le> card (en_identityKey ` set (ex_entities ex))"
    using keys_exact [of ex ctx] by (intro card_mono) auto
  finally show ?thesis .
qed

end

locale import_mappers = node_mapper map_nodes
  for map_nodes :: "ExtractionResult \<Rightarrow> MapContext \<Rightarrow> ProposedNode list" +
  fixes map_edges :: "ExtractionResult \<Rightarrow> ProposedNode list \<Rightarrow> MapContext \<Rightarrow> ProposedEdge list"
  assumes edges_sound: "e \<in> set (map_edges ex nodes ctx) \<Longrightarrow> \<exists>r \<in> set (ex_relations ex). edge_ok ctx nodes r e"
    and edges_complete: "r \<in> set (ex_relations ex) \<Longrightarrow> placed ctx nodes (er_fromKey r) \<Longrightarrow> placed ctx nodes (er_toKey r) \<Longrightarrow>
       \<exists>e \<in> set (map_edges ex nodes ctx). edge_ok ctx nodes r e"
begin

text \<open>No edge dangles: a temporary end is a node of the same proposal.\<close>

lemma edge_ends:
  assumes "e \<in> set (map_edges ex nodes ctx)" "ref = pe_fromRef e \<or> ref = pe_toRef e"
  shows "case ref of Ref_temp t \<Rightarrow> t \<in> pn_tempId ` set nodes
    | Ref_existing i \<Rightarrow> (\<exists>k x. mc_resolve ctx k = Some x \<and> em_nodeId x = i)"
proof -
  obtain r where "edge_ok ctx nodes r e" using edges_sound [OF assms(1)] by blast
  then have "\<exists>k. ref_ok ctx nodes k ref" using assms(2) by (auto simp: edge_ok_def)
  then show ?thesis by (cases ref) (auto simp: ref_ok_def)
qed

text \<open>A relation whose ends are entities of the extraction, or known to the board, always becomes an edge.\<close>

lemma relation_kept:
  assumes "r \<in> set (ex_relations ex)"
    and "\<And>k. k = er_fromKey r \<or> k = er_toKey r \<Longrightarrow> k \<in> en_identityKey ` set (ex_entities ex) \<or> mc_resolve ctx k \<noteq> None"
  shows "\<exists>e \<in> set (map_edges ex (map_nodes ex ctx) ctx). edge_ok ctx (map_nodes ex ctx) r e"
proof -
  have "placed ctx (map_nodes ex ctx) k" if "k = er_fromKey r \<or> k = er_toKey r" for k
    using assms(2) [OF that] entity_placed by (auto simp: placed_def)
  with edges_complete [OF assms(1)] show ?thesis by blast
qed

end

lemma node_steps:
  assumes "fst s = ns" "snd s = length ns" "distinct (map pn_identityKey ns)"
    and "\<forall>i < length ns. pn_layoutHint (ns ! i) = Some \<lparr>lh_anchorNodeId = mc_anchorNodeId ctx, lh_ring = 1 + i div 12, lh_index = i mod 12\<rparr>"
  shows "let ms = fst (fold (node_step ctx) es s) in distinct (map pn_identityKey ms)
    \<and> pn_identityKey ` set ms = pn_identityKey ` set ns \<union> {k \<in> en_identityKey ` set es. mc_resolve ctx k = None}
    \<and> (\<forall>i < length ms. pn_layoutHint (ms ! i) = Some \<lparr>lh_anchorNodeId = mc_anchorNodeId ctx, lh_ring = 1 + i div 12, lh_index = i mod 12\<rparr>)"
  using assms
proof (induction es arbitrary: s ns)
  case (Cons e es)
  show ?case
  proof (cases "mc_resolve ctx (en_identityKey e) \<noteq> None \<or> en_identityKey e \<in> pn_identityKey ` set ns")
    case True
    then have "node_step ctx e s = s" using Cons.prems(1) by (auto simp: node_step_def list_ex_iff)
    with Cons.IH [OF Cons.prems] True show ?thesis by (auto simp: Let_def)
  next
    case False
    let ?n = "proposed_node ctx (length ns) e"
    have "\<not> list_ex (\<lambda>n. pn_identityKey n = en_identityKey e) ns" using False by (auto simp: list_ex_iff dest: image_eqI [OF sym])
    then have step: "node_step ctx e s = (ns @ [?n], length ns + 1)"
      using False Cons.prems(1,2) by (simp add: node_step_def)
    have n: "pn_identityKey ?n = en_identityKey e" "pn_layoutHint ?n = Some \<lparr>lh_anchorNodeId = mc_anchorNodeId ctx, lh_ring = 1 + length ns div 12, lh_index = length ns mod 12\<rparr>"
      by (simp_all add: proposed_node_def)
    have "distinct (map pn_identityKey (ns @ [?n]))" using Cons.prems(3) False n by auto
    moreover have "\<forall>i < length (ns @ [?n]). pn_layoutHint ((ns @ [?n]) ! i) = Some \<lparr>lh_anchorNodeId = mc_anchorNodeId ctx, lh_ring = 1 + i div 12, lh_index = i mod 12\<rparr>"
      using Cons.prems(4) n by (auto simp: nth_append less_Suc_eq)
    ultimately have ih: "let ms = fst (fold (node_step ctx) es (ns @ [?n], length ns + 1)) in distinct (map pn_identityKey ms)
      \<and> pn_identityKey ` set ms = pn_identityKey ` set (ns @ [?n]) \<union> {k \<in> en_identityKey ` set es. mc_resolve ctx k = None}
      \<and> (\<forall>i < length ms. pn_layoutHint (ms ! i) = Some \<lparr>lh_anchorNodeId = mc_anchorNodeId ctx, lh_ring = 1 + i div 12, lh_index = i mod 12\<rparr>)"
      using Cons.IH [where ns = "ns @ [?n]" and s = "(ns @ [?n], length ns + 1)"] by simp
    have "pn_identityKey ` set (ns @ [?n]) \<union> {k \<in> en_identityKey ` set es. mc_resolve ctx k = None}
        = pn_identityKey ` set ns \<union> {k \<in> en_identityKey ` set (e # es). mc_resolve ctx k = None}"
      using False n by auto
    note set_eq = this
    have "fold (node_step ctx) (e # es) s = fold (node_step ctx) es (ns @ [?n], length ns + 1)" by (simp add: step)
    then show ?thesis using ih unfolding set_eq by presburger
  qed
qed (auto simp: Let_def)

lemma defaultNodeMapper_facts:
  "distinct (map pn_identityKey (defaultNodeMapper ex ctx))"
  "pn_identityKey ` set (defaultNodeMapper ex ctx) = {k \<in> en_identityKey ` set (ex_entities ex). mc_resolve ctx k = None}"
  "i < length (defaultNodeMapper ex ctx) \<Longrightarrow> pn_layoutHint (defaultNodeMapper ex ctx ! i) =
     Some \<lparr>lh_anchorNodeId = mc_anchorNodeId ctx, lh_ring = 1 + i div 12, lh_index = i mod 12\<rparr>"
  using node_steps [of "([], 0)" "[]" ctx "ex_entities ex"] by (simp_all add: defaultNodeMapper_def Let_def)

lemma by_key:
  "omap_get (omap_of (map (\<lambda>node. (pn_identityKey node, node)) nodes)) k = Some n \<Longrightarrow> n \<in> set nodes \<and> pn_identityKey n = k"
  by (auto dest: omap_get_of_in)

lemma by_key_None:
  "omap_get (omap_of (map (\<lambda>node. (pn_identityKey node, node)) nodes)) k = None \<longleftrightarrow> k \<notin> pn_identityKey ` set nodes"
  by (auto simp: omap_get_of map_of_eq_None_iff image_iff)

lemma refFor_ok:
  "refFor key (omap_of (map (\<lambda>node. (pn_identityKey node, node)) nodes)) ctx = Some ref \<Longrightarrow> ref_ok ctx nodes key ref"
  by (auto simp: refFor_def ref_ok_def split: option.splits dest: by_key)

lemma refFor_placed:
  "placed ctx nodes key \<Longrightarrow> \<exists>ref. refFor key (omap_of (map (\<lambda>node. (pn_identityKey node, node)) nodes)) ctx = Some ref"
  using by_key_None [of nodes key] by (cases "omap_get (omap_of (map (\<lambda>node. (pn_identityKey node, node)) nodes)) key")
    (auto simp: refFor_def placed_def split: option.splits)

lemma edge_of_ok:
  "e \<in> set (edge_of (omap_of (map (\<lambda>node. (pn_identityKey node, node)) nodes)) ctx r) \<Longrightarrow> edge_ok ctx nodes r e"
  by (auto simp: edge_of_def edge_ok_def split: option.splits intro!: refFor_ok)

interpretation default_mappers: import_mappers defaultNodeMapper defaultRelationshipMapper
proof
  fix ex ctx nodes e r
  show "distinct (map pn_identityKey (defaultNodeMapper ex ctx))" by (rule defaultNodeMapper_facts)
  show "pn_identityKey ` set (defaultNodeMapper ex ctx) = {k \<in> en_identityKey ` set (ex_entities ex). mc_resolve ctx k = None}"
    by (rule defaultNodeMapper_facts)
  show "\<exists>r \<in> set (ex_relations ex). edge_ok ctx nodes r e" if "e \<in> set (defaultRelationshipMapper ex nodes ctx)"
  proof -
    from that obtain x where "x \<in> set (ex_relations ex)"
      "e \<in> set (edge_of (omap_of (map (\<lambda>node. (pn_identityKey node, node)) nodes)) ctx x)"
      by (auto simp: defaultRelationshipMapper_def Let_def)
    with edge_of_ok show ?thesis by blast
  qed
  show "\<exists>e \<in> set (defaultRelationshipMapper ex nodes ctx). edge_ok ctx nodes r e"
    if "r \<in> set (ex_relations ex)" and p: "placed ctx nodes (er_fromKey r)" "placed ctx nodes (er_toKey r)"
  proof -
    let ?m = "omap_of (map (\<lambda>node. (pn_identityKey node, node)) nodes)"
    obtain a b where "refFor (er_fromKey r) ?m ctx = Some a" "refFor (er_toKey r) ?m ctx = Some b"
      using p refFor_placed by blast
    then obtain e where "edge_of ?m ctx r = [e]" "edge_ok ctx nodes r e"
      by (auto simp: edge_of_def edge_ok_def intro: refFor_ok)
    with that(1) show ?thesis by (auto simp: defaultRelationshipMapper_def Let_def intro!: bexI [of _ e] bexI [of _ r])
  qed
qed

text \<open>The mappers propose one new node for each identity that the extraction found and the board does not hold, no two with the same key or the same slot of the radial layout; every edge joins proposed or existing nodes, and a relation whose two ends were extracted, or are on the board, always becomes an edge.\<close>

theorem mappers_place_entities:
  "let nodes = defaultNodeMapper ex ctx; edges = defaultRelationshipMapper ex nodes ctx in
     distinct (map pn_identityKey nodes)
     \<and> set (map pn_identityKey nodes) = {k \<in> en_identityKey ` set (ex_entities ex). mc_resolve ctx k = None}
     \<and> distinct (map (\<lambda>n. map_option (\<lambda>h. (lh_ring h, lh_index h)) (pn_layoutHint n)) nodes)
     \<and> (\<forall>e \<in> set edges. \<exists>r \<in> set (ex_relations ex). edge_ok ctx nodes r e)
     \<and> (\<forall>r \<in> set (ex_relations ex).
          (\<forall>k \<in> {er_fromKey r, er_toKey r}. k \<in> en_identityKey ` set (ex_entities ex) \<or> mc_resolve ctx k \<noteq> None)
          \<longrightarrow> (\<exists>e \<in> set edges. edge_ok ctx nodes r e))"
proof -
  have slots: "distinct (map (\<lambda>n. map_option (\<lambda>h. (lh_ring h, lh_index h)) (pn_layoutHint n)) (defaultNodeMapper ex ctx))"
    unfolding distinct_conv_nth
  proof (intro allI impI)
    fix i j
    assume "i < length (map (\<lambda>n. map_option (\<lambda>h. (lh_ring h, lh_index h)) (pn_layoutHint n)) (defaultNodeMapper ex ctx))"
      "j < length (map (\<lambda>n. map_option (\<lambda>h. (lh_ring h, lh_index h)) (pn_layoutHint n)) (defaultNodeMapper ex ctx))" "i \<noteq> j"
    moreover have "i = j" if "i div 12 = j div 12" "i mod 12 = j mod 12" using that by (metis div_mult_mod_eq)
    ultimately show "map (\<lambda>n. map_option (\<lambda>h. (lh_ring h, lh_index h)) (pn_layoutHint n)) (defaultNodeMapper ex ctx) ! i
        \<noteq> map (\<lambda>n. map_option (\<lambda>h. (lh_ring h, lh_index h)) (pn_layoutHint n)) (defaultNodeMapper ex ctx) ! j"
      by (auto simp: defaultNodeMapper_facts(3))
  qed
  have kept: "\<exists>e \<in> set (defaultRelationshipMapper ex (defaultNodeMapper ex ctx) ctx). edge_ok ctx (defaultNodeMapper ex ctx) r e"
    if "r \<in> set (ex_relations ex)"
      "\<forall>k \<in> {er_fromKey r, er_toKey r}. k \<in> en_identityKey ` set (ex_entities ex) \<or> mc_resolve ctx k \<noteq> None" for r
    by (rule default_mappers.relation_kept [OF that(1)]) (use that(2) in blast)
  show ?thesis
    unfolding Let_def set_map
    by (intro conjI ballI impI slots default_mappers.keys_distinct default_mappers.keys_exact default_mappers.edges_sound kept) blast+
qed

section \<open>What a proposal contains\<close>

lemma decision_cases:
  fixes existing entity field incoming num
  defines "d \<equiv> decision_for num existing entity field incoming" and "current \<equiv> prop_get (em_props existing) field"
  shows "d = FD_set \<longleftrightarrow> is_empty_value current"
    and "d = FD_skip \<Longrightarrow> \<not> is_empty_value current \<and> deepEqual num current incoming"
    and "d = FD_addToSet \<Longrightarrow> \<not> is_empty_value current \<and> field \<in> set SET_FIELDS \<and> \<not> deepEqual num current incoming"
    and "d = FD_conflict r manual \<Longrightarrow> \<not> is_empty_value current \<and> field \<notin> set SET_FIELDS \<and> \<not> deepEqual num current incoming
       \<and> manual = wasManuallyEdited (em_props existing) field \<and> (manual \<longrightarrow> r = Keep)"
  unfolding d_def current_def decision_for_def
  by (simp_all add: decideField_def option_or_def Let_def split: if_splits)

definition patch_ok :: "(real \<Rightarrow> string) \<Rightarrow> ExistingNodeMatch \<Rightarrow> ExtractedEntity \<Rightarrow> FieldPatch \<Rightarrow> bool" where
  "patch_ok num existing entity p \<longleftrightarrow>
     (\<exists>field. fp_path p = ''/'' @ field \<and> (field, fp_value p) \<in> set (en_props entity)
        \<and> fp_previous p = prop_get (em_props existing) field
        \<and> (if is_empty_value (fp_previous p) then fp_op p = Op_set
           else fp_op p = Op_addToSet \<and> field \<in> set SET_FIELDS \<and> \<not> deepEqual num (fp_previous p) (fp_value p)))"

definition conflict_ok :: "(real \<Rightarrow> string) \<Rightarrow> ExistingNodeMatch \<Rightarrow> ExtractedEntity \<Rightarrow> conflict_body \<Rightarrow> bool" where
  "conflict_ok num existing entity c \<longleftrightarrow>
     cb_targetNodeId c = em_nodeId existing \<and> (cb_field c, cb_incomingValue c) \<in> set (en_props entity)
     \<and> cb_currentValue c = prop_get (em_props existing) (cb_field c) \<and> \<not> is_empty_value (cb_currentValue c)
     \<and> \<not> deepEqual num (cb_currentValue c) (cb_incomingValue c) \<and> cb_field c \<notin> set SET_FIELDS
     \<and> (wasManuallyEdited (em_props existing) (cb_field c) \<longrightarrow> cb_resolution c = Resolve_keep)"

text \<open>An item of the second half of the list: about one entity that the board holds already.\<close>

definition review_item_ok :: "(real \<Rightarrow> string) \<Rightarrow> MapContext \<Rightarrow> ExtractedEntity list \<Rightarrow> ProposalItem \<Rightarrow> bool" where
  "review_item_ok num ctx entities item \<longleftrightarrow>
     (\<exists>entity \<in> set entities. \<exists>existing. mc_resolve ctx (en_identityKey entity) = Some existing
        \<and> (case item of
             EnrichItem b x \<Rightarrow> it_selectedByDefault b \<and> eb_targetNodeId x = em_nodeId existing \<and> eb_fieldPatches x \<noteq> []
               \<and> (\<forall>p \<in> set (eb_fieldPatches x). patch_ok num existing entity p)
           | ConflictItem b c \<Rightarrow> \<not> it_selectedByDefault b \<and> conflict_ok num existing entity c
           | _ \<Rightarrow> False))"

text \<open>How many fields an item decides.\<close>

primrec item_fields :: "ProposalItem \<Rightarrow> nat" where
  "item_fields (NewNodeItem b n) = 0"
| "item_fields (NewEdgeItem b e) = 0"
| "item_fields (EnrichItem b x) = length (eb_fieldPatches x)"
| "item_fields (ConflictItem b c) = 1"

definition fields_decided :: "ProposalItem list \<Rightarrow> nat" where
  "fields_decided items = sum_list (map item_fields items)"

lemma fields_decided_append [simp]: "fields_decided (xs @ ys) = fields_decided xs + fields_decided ys"
  by (simp add: fields_decided_def)

lemma fields_decided_Nil [simp]: "fields_decided [] = 0"
  by (simp add: fields_decided_def)

lemma field_step_cases:
  assumes "entry \<in> set (en_props entity)" "field_step num i existing entity pv entry (items, patches, skipped) = (items', patches', skipped')"
  shows "(items' = items \<and> patches' = patches \<and> skipped' = skipped + 1)
    \<or> (\<exists>b c. items' = items @ [ConflictItem b c] \<and> \<not> it_selectedByDefault b \<and> conflict_ok num existing entity c \<and> patches' = patches \<and> skipped' = skipped)
    \<or> (\<exists>p. items' = items \<and> patches' = patches @ [p] \<and> patch_ok num existing entity p \<and> skipped' = skipped)"
proof -
  obtain field incoming where e: "entry = (field, incoming)" by fastforce
  note cases = decision_cases [of num existing entity field incoming]
  show ?thesis
  proof (cases "decision_for num existing entity field incoming")
    case FD_skip
    then show ?thesis using assms(2) e by (simp add: field_step_def)
  next
    case FD_set
    then show ?thesis using assms e cases(1) by (auto simp: field_step_def patch_ok_def)
  next
    case FD_addToSet
    then show ?thesis using assms e cases(3) by (auto simp: field_step_def patch_ok_def)
  next
    case (FD_conflict r manual)
    then show ?thesis using assms e cases(4) [of r manual]
      by (auto simp: field_step_def conflict_ok_def Let_def resolution_of_def)
  qed
qed

lemma field_steps:
  assumes "set entries \<subseteq> set (en_props entity)"
    and "fold (field_step num i existing entity pv) entries (items, patches, skipped) = (items', patches', skipped')"
  shows "\<exists>new added. items' = items @ new \<and> patches' = patches @ added
    \<and> (\<forall>item \<in> set new. \<exists>b c. item = ConflictItem b c \<and> \<not> it_selectedByDefault b \<and> conflict_ok num existing entity c)
    \<and> (\<forall>p \<in> set added. patch_ok num existing entity p)
    \<and> fields_decided new + length added + skipped' = skipped + length entries"
  using assms
proof (induction entries arbitrary: items patches skipped)
  case (Cons entry entries)
  obtain items1 patches1 skipped1 where s: "field_step num i existing entity pv entry (items, patches, skipped) = (items1, patches1, skipped1)"
    by (metis prod.exhaust)
  then obtain new added where ih: "items' = items1 @ new" "patches' = patches1 @ added"
    "\<forall>item \<in> set new. \<exists>b c. item = ConflictItem b c \<and> \<not> it_selectedByDefault b \<and> conflict_ok num existing entity c"
    "\<forall>p \<in> set added. patch_ok num existing entity p"
    "fields_decided new + length added + skipped' = skipped1 + length entries"
    using Cons.IH [of items1 patches1 skipped1] Cons.prems by auto
  have "entry \<in> set (en_props entity)" using Cons.prems(1) by simp
  from field_step_cases [OF this s] show ?case
  proof (elim disjE exE conjE)
    assume "items1 = items" "patches1 = patches" "skipped1 = skipped + 1"
    with ih show ?thesis by (intro exI [of _ new] exI [of _ added]) simp
  next
    fix b c
    assume "items1 = items @ [ConflictItem b c]" "\<not> it_selectedByDefault b" "conflict_ok num existing entity c" "patches1 = patches" "skipped1 = skipped"
    with ih show ?thesis by (intro exI [of _ "ConflictItem b c # new"] exI [of _ added]) (auto simp: fields_decided_def)
  next
    fix p
    assume "items1 = items" "patches1 = patches @ [p]" "patch_ok num existing entity p" "skipped1 = skipped"
    with ih show ?thesis by (intro exI [of _ new] exI [of _ "p # added"]) simp
  qed
qed simp

definition resolved_fields :: "MapContext \<Rightarrow> ExtractedEntity list \<Rightarrow> nat" where
  "resolved_fields ctx entities =
     sum_list (map (\<lambda>e. length (en_props e)) (filter (\<lambda>e. mc_resolve ctx (en_identityKey e) \<noteq> None) entities))"

lemma enrich_step_adds:
  "\<exists>new. fst (enrich_step num i ctx entity s) = fst s @ new \<and> (\<forall>item \<in> set new. review_item_ok num ctx [entity] item)
     \<and> fields_decided new + snd (enrich_step num i ctx entity s) = snd s + resolved_fields ctx [entity]"
proof (cases "mc_resolve ctx (en_identityKey entity)")
  case None
  then show ?thesis by (simp add: enrich_step_def resolved_fields_def)
next
  case (Some existing)
  let ?pv = "mc_provenanceFor ctx (en_pointer entity) (en_confidence entity)"
  obtain items patches skipped where f: "fold (field_step num i existing entity ?pv) (en_props entity) (fst s, [], snd s) = (items, patches, skipped)"
    by (metis prod.exhaust)
  from field_steps [OF subset_refl f] obtain new where
    new: "items = fst s @ new"
      "\<forall>item \<in> set new. \<exists>b c. item = ConflictItem b c \<and> \<not> it_selectedByDefault b \<and> conflict_ok num existing entity c"
      "\<forall>p \<in> set patches. patch_ok num existing entity p" "fields_decided new + length patches + skipped = snd s + length (en_props entity)"
    by auto
  have r: "resolved_fields ctx [entity] = length (en_props entity)" by (simp add: resolved_fields_def Some)
  have ok: "\<forall>item \<in> set new. review_item_ok num ctx [entity] item" using new(2) Some by (force simp: review_item_ok_def)
  show ?thesis
  proof (cases "patches = []")
    case True
    then show ?thesis using f new ok r Some by (intro exI [of _ new]) (simp add: enrich_step_def)
  next
    case False
    let ?x = "EnrichItem
        \<lparr>it_id = ''p:'' @ em_nodeId existing, it_selectedByDefault = True, it_confidence = en_confidence entity,
         it_explain = i @ '' added '' @ nat_str (length patches) @ '' field(s) to '' @ em_title existing @ ''.''\<rparr>
        \<lparr>eb_targetNodeId = em_nodeId existing, eb_fieldPatches = patches, eb_provenance = ?pv\<rparr>"
    have "review_item_ok num ctx [entity] ?x" using False new(3) Some by (simp add: review_item_ok_def)
    moreover have "enrich_step num i ctx entity s = (fst s @ new @ [?x], skipped)"
      using f False Some new(1) by (simp add: enrich_step_def)
    ultimately show ?thesis using ok r new(4) by (intro exI [of _ "new @ [?x]"]) (auto simp: fields_decided_def)
  qed
qed

lemma review_item_ok_mono: "review_item_ok num ctx es item \<Longrightarrow> set es \<subseteq> set fs \<Longrightarrow> review_item_ok num ctx fs item"
  unfolding review_item_ok_def by blast

lemma enrich_steps_add:
  "\<exists>new. fst (fold (enrich_step num i ctx) es s) = fst s @ new \<and> (\<forall>item \<in> set new. review_item_ok num ctx es item)
     \<and> fields_decided new + snd (fold (enrich_step num i ctx) es s) = snd s + resolved_fields ctx es"
proof (induction es arbitrary: s)
  case Nil
  show ?case by (simp add: resolved_fields_def)
next
  case (Cons e es)
  obtain a where a: "fst (enrich_step num i ctx e s) = fst s @ a" "\<forall>item \<in> set a. review_item_ok num ctx [e] item"
    "fields_decided a + snd (enrich_step num i ctx e s) = snd s + resolved_fields ctx [e]"
    using enrich_step_adds by blast
  obtain b where b: "fst (fold (enrich_step num i ctx) es (enrich_step num i ctx e s)) = fst (enrich_step num i ctx e s) @ b"
    "\<forall>item \<in> set b. review_item_ok num ctx es item"
    "fields_decided b + snd (fold (enrich_step num i ctx) es (enrich_step num i ctx e s)) = snd (enrich_step num i ctx e s) + resolved_fields ctx es"
    using Cons.IH by blast
  have "resolved_fields ctx (e # es) = resolved_fields ctx [e] + resolved_fields ctx es" by (simp add: resolved_fields_def)
  moreover have "\<forall>item \<in> set (a @ b). review_item_ok num ctx (e # es) item"
    using a(2) b(2) by (auto intro: review_item_ok_mono)
  ultimately show ?case using a b by (intro exI [of _ "a @ b"]) auto
qed

lemma proposal_items_split:
  "\<exists>rest. fst (proposal_items num inp) =
       map (node_item (bp_integrationId inp)) (bp_nodes inp)
       @ map (edge_item (bp_integrationId inp) (selected_node_ids (map (node_item (bp_integrationId inp)) (bp_nodes inp)))) (bp_edges inp) @ rest
     \<and> (\<forall>item \<in> set rest. review_item_ok num (bp_ctx inp) (ex_entities (bp_extraction inp)) item)
     \<and> fields_decided rest + snd (proposal_items num inp) = resolved_fields (bp_ctx inp) (ex_entities (bp_extraction inp))"
  using enrich_steps_add [of num "bp_integrationId inp" "bp_ctx inp" "ex_entities (bp_extraction inp)"
      "(map (node_item (bp_integrationId inp)) (bp_nodes inp)
        @ map (edge_item (bp_integrationId inp) (selected_node_ids (map (node_item (bp_integrationId inp)) (bp_nodes inp)))) (bp_edges inp), 0)"]
  by (simp add: proposal_items_def Let_def)

lemma review_item_kind: "review_item_ok num ctx es item \<Longrightarrow> item_kind item \<in> {Enrich, Conflict}"
  by (cases item) (auto simp: review_item_ok_def)

lemma count_kind_append [simp]: "count_kind k (xs @ ys) = count_kind k xs + count_kind k ys"
  by (simp add: count_kind_def)

lemma count_kind_maps [simp]:
  "count_kind k (map (node_item i) ns) = (if k = New_node then length ns else 0)"
  "count_kind k (map (edge_item i ids) es) = (if k = New_edge then length es else 0)"
  by (simp_all add: count_kind_def node_item_def edge_item_def filter_map o_def)

lemma count_kind_all: "count_kind New_node xs + count_kind New_edge xs + count_kind Enrich xs + count_kind Conflict xs = length xs"
proof (induction xs)
  case (Cons x xs)
  then show ?case by (cases "item_kind x") (auto simp: count_kind_def)
qed (simp add: count_kind_def)

lemma count_kind_zero: "(\<And>x. x \<in> set xs \<Longrightarrow> item_kind x \<noteq> k) \<Longrightarrow> count_kind k xs = 0"
  by (auto simp: count_kind_def filter_empty_conv)

lemma fields_decided_maps [simp]:
  "fields_decided (map (node_item i) ns) = 0" "fields_decided (map (edge_item i ids) es) = 0"
  by (simp_all add: fields_decided_def node_item_def edge_item_def o_def)

lemma buildProposal_Some:
  "buildProposal num clk inp = Some p \<longleftrightarrow>
     (\<exists>t expires. cl_parse clk (bp_now inp) = Some t \<and> cl_iso clk (t + PROPOSAL_TTL_MS) = Some expires
        \<and> p = \<lparr>ip_id = bp_proposalId inp, ip_runId = bp_runId inp, ip_integrationId = bp_integrationId inp,
              ip_boardId = bp_boardId inp, ip_createdAt = bp_now inp,
              ip_summary = (let items = fst (proposal_items num inp) in
                \<lparr>ps_newNodes = count_kind New_node items, ps_newEdges = count_kind New_edge items,
                 ps_enriched = count_kind Enrich items, ps_conflicts = count_kind Conflict items,
                 ps_skippedDuplicates = snd (proposal_items num inp)\<rparr>),
              ip_items = fst (proposal_items num inp), ip_issues = ex_issues (bp_extraction inp), ip_expiresAt = expires\<rparr>)"
  by (cases "cl_parse clk (bp_now inp)") (auto simp: buildProposal_def Let_def split: prod.splits option.splits)

text \<open>What a reviewer may assume of one item of a proposal over the given nodes and edges.\<close>

definition item_ok :: "(real \<Rightarrow> string) \<Rightarrow> BuildProposalInput \<Rightarrow> ProposalItem list \<Rightarrow> ProposalItem \<Rightarrow> bool" where
  "item_ok num inp items item \<longleftrightarrow>
     (case item of
        NewNodeItem b n \<Rightarrow> n \<in> set (bp_nodes inp) \<and> it_id b = pn_tempId n
          \<and> it_selectedByDefault b = (DEFAULT_SELECTION_THRESHOLD \<le> pv_confidence (pn_provenance n))
      | NewEdgeItem b e \<Rightarrow> e \<in> set (bp_edges inp) \<and> it_id b = pe_tempId e
          \<and> (it_selectedByDefault b \<longleftrightarrow>
               (\<forall>t. Ref_temp t \<in> {pe_fromRef e, pe_toRef e} \<longrightarrow>
                  (\<exists>b' n. NewNodeItem b' n \<in> set items \<and> it_selectedByDefault b' \<and> pn_tempId n = t)))
      | _ \<Rightarrow> review_item_ok num (bp_ctx inp) (ex_entities (bp_extraction inp)) item)"

lemma selected_ids:
  "t \<in> selected_node_ids (map (node_item i) ns) \<longleftrightarrow>
     (\<exists>b n. NewNodeItem b n \<in> set (map (node_item i) ns) \<and> it_selectedByDefault b \<and> pn_tempId n = t)"
  by (auto simp: selected_node_ids_def node_item_def image_iff)

lemma items_ok:
  "item \<in> set (fst (proposal_items num inp)) \<Longrightarrow> item_ok num inp (fst (proposal_items num inp)) item"
proof -
  let ?i = "bp_integrationId inp"
  let ?nodes = "map (node_item ?i) (bp_nodes inp)"
  let ?edges = "map (edge_item ?i (selected_node_ids ?nodes)) (bp_edges inp)"
  obtain rest where items: "fst (proposal_items num inp) = ?nodes @ ?edges @ rest"
    and rest: "\<forall>item \<in> set rest. review_item_ok num (bp_ctx inp) (ex_entities (bp_extraction inp)) item"
    using proposal_items_split by blast
  have new: "NewNodeItem b n \<in> set (fst (proposal_items num inp)) \<longleftrightarrow> NewNodeItem b n \<in> set ?nodes" for b n
    using rest review_item_kind unfolding items by (fastforce simp: edge_item_def)
  assume "item \<in> set (fst (proposal_items num inp))"
  then consider "item \<in> set ?nodes" | e where "item = edge_item ?i (selected_node_ids ?nodes) e" "e \<in> set (bp_edges inp)" | "item \<in> set rest"
    unfolding items by auto
  then show ?thesis
  proof cases
    case 1
    then show ?thesis by (auto simp: item_ok_def node_item_def)
  next
    case 2
    have sel: "ref_selected (selected_node_ids ?nodes) ref \<longleftrightarrow>
        (\<forall>t. ref = Ref_temp t \<longrightarrow> (\<exists>b n. NewNodeItem b n \<in> set (fst (proposal_items num inp)) \<and> it_selectedByDefault b \<and> pn_tempId n = t))" for ref
      by (cases ref) (simp_all add: ref_selected_def selected_ids new)
    show ?thesis using 2 by (auto simp: item_ok_def edge_item_def sel)
  next
    case 3
    then have "review_item_ok num (bp_ctx inp) (ex_entities (bp_extraction inp)) item" using rest by blast
    with review_item_kind [OF this] show ?thesis by (cases item) (simp_all add: item_ok_def)
  qed
qed

text \<open>C6. A proposal is consistent. New nodes are preselected by the confidence threshold alone, a new edge exactly when each end exists already or is a preselected new node; a conflict is never preselected, keeps the current value when that was edited by hand, and only arises for a field that holds a different value; a preselected enrichment fills empty fields or adds to the set-valued ones. The summary counts the items by kind, every field of every entity the board knows is decided exactly once, as a patch, a conflict or a skipped duplicate, and the proposal lives seven days.\<close>

theorem proposal_consistent:
  assumes "buildProposal num clk inp = Some p"
  shows "(\<forall>item \<in> set (ip_items p). item_ok num inp (ip_items p) item)
    \<and> ps_newNodes (ip_summary p) = length (bp_nodes inp) \<and> ps_newEdges (ip_summary p) = length (bp_edges inp)
    \<and> ps_newNodes (ip_summary p) + ps_newEdges (ip_summary p) + ps_enriched (ip_summary p) + ps_conflicts (ip_summary p) = length (ip_items p)
    \<and> fields_decided (ip_items p) + ps_skippedDuplicates (ip_summary p) = resolved_fields (bp_ctx inp) (ex_entities (bp_extraction inp))
    \<and> (\<exists>t. cl_parse clk (bp_now inp) = Some t \<and> cl_iso clk (t + 7 * 24 * 60 * 60 * 1000) = Some (ip_expiresAt p))"
proof -
  obtain rest where items: "fst (proposal_items num inp) = map (node_item (bp_integrationId inp)) (bp_nodes inp)
       @ map (edge_item (bp_integrationId inp) (selected_node_ids (map (node_item (bp_integrationId inp)) (bp_nodes inp)))) (bp_edges inp) @ rest"
    and rest: "\<forall>item \<in> set rest. review_item_ok num (bp_ctx inp) (ex_entities (bp_extraction inp)) item"
    and decided: "fields_decided rest + snd (proposal_items num inp) = resolved_fields (bp_ctx inp) (ex_entities (bp_extraction inp))"
    using proposal_items_split by blast
  have zero: "count_kind k rest = 0" if "k = New_node \<or> k = New_edge" for k
    using rest review_item_kind that by (intro count_kind_zero) fastforce
  have p: "ip_items p = fst (proposal_items num inp)" "ip_summary p = \<lparr>ps_newNodes = count_kind New_node (ip_items p), ps_newEdges = count_kind New_edge (ip_items p),
       ps_enriched = count_kind Enrich (ip_items p), ps_conflicts = count_kind Conflict (ip_items p), ps_skippedDuplicates = snd (proposal_items num inp)\<rparr>"
    "\<exists>t. cl_parse clk (bp_now inp) = Some t \<and> cl_iso clk (t + PROPOSAL_TTL_MS) = Some (ip_expiresAt p)"
    using assms by (auto simp: buildProposal_Some Let_def)
  have "\<forall>item \<in> set (ip_items p). item_ok num inp (ip_items p) item" using items_ok p(1) by simp
  moreover have "count_kind New_node (ip_items p) = length (bp_nodes inp)" "count_kind New_edge (ip_items p) = length (bp_edges inp)"
    "fields_decided (ip_items p) + snd (proposal_items num inp) = resolved_fields (bp_ctx inp) (ex_entities (bp_extraction inp))"
    using zero decided by (simp_all add: p(1) items)
  ultimately show ?thesis
    using count_kind_all [of "ip_items p"] p(3) by (simp add: p(2) PROPOSAL_TTL_MS_def)
qed

section \<open>Samples\<close>

definition sample_provenance :: "string \<Rightarrow> real \<Rightarrow> Provenance" where
  "sample_provenance pointer confidence =
     \<lparr>pv_source = ''Whois 2.1.0'', pv_tool = ''whois'', pv_toolVersion = ''1.0.0'', pv_runId = ''r1'', pv_observedAt = ''t1'',
      pv_importedAt = ''t2'', pv_confidence = confidence, pv_artifactRef = None, pv_pointer = Some pointer,
      pv_actorUserId = ''u1'', pv_excerpt = None\<rparr>"

definition found :: "string \<Rightarrow> js_object \<Rightarrow> ExtractedEntity" where
  "found key props = \<lparr>en_kind = IK_person, en_value = key, en_display = key, en_props = props, en_identityKey = key,
     en_confidence = 8 / 10, en_recordIndex = 0, en_pointer = ''/0'', en_nodeType = ''person'', en_title = key, en_tags = []\<rparr>"

definition board_ann :: "js_object \<Rightarrow> ExistingNodeMatch" where
  "board_ann props = \<lparr>em_nodeId = ''n1'', em_kind = IK_person, em_identityKey = Some ''ann'', em_title = ''Ann'',
     em_props = props, em_boardId = ''b1'', em_confidence = None\<rparr>"

definition sample_ctx :: "(string \<times> ExistingNodeMatch) list \<Rightarrow> MapContext" where
  "sample_ctx known = \<lparr>mc_boardId = ''b1'', mc_anchorNodeId = None, mc_resolve = map_of known, mc_provenanceFor = sample_provenance\<rparr>"

definition sample_build :: "(string \<times> ExistingNodeMatch) list \<Rightarrow> ExtractedEntity list \<Rightarrow> BuildProposalInput" where
  "sample_build known es =
     (let ex = \<lparr>ex_entities = es, ex_relations = [], ex_issues = []\<rparr>
      in \<lparr>bp_proposalId = ''p1'', bp_runId = ''r1'', bp_integrationId = ''whois'', bp_boardId = ''b1'', bp_now = ''t2'',
          bp_extraction = ex, bp_nodes = defaultNodeMapper ex (sample_ctx known), bp_edges = [], bp_ctx = sample_ctx known\<rparr>)"

definition sample_clock :: clock where
  "sample_clock = \<lparr>cl_parse = (\<lambda>s. Some 0), cl_iso = (\<lambda>t. Some (int_str t))\<rparr>"

lemma sample_build_runs: "\<exists>p. buildProposal num sample_clock (sample_build known es) = Some p \<and> ip_items p = fst (proposal_items num (sample_build known es))"
  by (simp add: buildProposal_Some sample_clock_def)

theorem proposal_consistent_witness:
  "\<exists>p. buildProposal (lg_num plain_lang) sample_clock (sample_build [] [found ''bob'' []]) = Some p \<and> ps_newNodes (ip_summary p) = 1 \<and> length (ip_items p) = 1"
proof -
  obtain p where p: "buildProposal (lg_num plain_lang) sample_clock (sample_build [] [found ''bob'' []]) = Some p"
    and i: "ip_items p = fst (proposal_items (lg_num plain_lang) (sample_build [] [found ''bob'' []]))" using sample_build_runs by blast
  have "length (bp_nodes (sample_build [] [found ''bob'' []])) = 1"
    by (simp add: sample_build_def Let_def defaultNodeMapper_def node_step_def sample_ctx_def)
  moreover have "length (ip_items p) = 1"
    unfolding i by (simp add: proposal_items_def sample_build_def Let_def defaultNodeMapper_def node_step_def sample_ctx_def enrich_step_def)
  ultimately show ?thesis using p proposal_consistent [OF p] by (intro exI [of _ p]) simp
qed

theorem mappers_place_entities_witness:
  "\<exists>e. e \<in> set (defaultRelationshipMapper \<lparr>ex_entities = [found ''bob'' []], ex_relations =
       [\<lparr>er_fromKey = ''bob'', er_toKey = ''ann'', er_type = ''knows'', er_props = None, er_label = None, er_confidence = 1,
         er_recordIndex = 0, er_pointer = ''/0''\<rparr>], ex_issues = []\<rparr>
       (defaultNodeMapper \<lparr>ex_entities = [found ''bob'' []], ex_relations =
       [\<lparr>er_fromKey = ''bob'', er_toKey = ''ann'', er_type = ''knows'', er_props = None, er_label = None, er_confidence = 1,
         er_recordIndex = 0, er_pointer = ''/0''\<rparr>], ex_issues = []\<rparr> (sample_ctx [(''ann'', board_ann [])])) (sample_ctx [(''ann'', board_ann [])]))
     \<and> pe_edgeType e = ''knows''"
proof -
  let ?ex = "\<lparr>ex_entities = [found ''bob'' []], ex_relations =
       [\<lparr>er_fromKey = ''bob'', er_toKey = ''ann'', er_type = ''knows'', er_props = None, er_label = None, er_confidence = 1,
         er_recordIndex = 0, er_pointer = ''/0''\<rparr>], ex_issues = []\<rparr>"
  let ?ctx = "sample_ctx [(''ann'', board_ann [])]"
  have "mc_resolve ?ctx ''ann'' \<noteq> None" "en_identityKey (found ''bob'' []) = ''bob''" by (simp_all add: sample_ctx_def found_def)
  with mappers_place_entities [of ?ex ?ctx, unfolded Let_def, THEN conjunct2, THEN conjunct2, THEN conjunct2, THEN conjunct2,
      THEN bspec, THEN mp, of "hd (ex_relations ?ex)"]
  have "\<exists>e \<in> set (defaultRelationshipMapper ?ex (defaultNodeMapper ?ex ?ctx) ?ctx). edge_ok ?ctx (defaultNodeMapper ?ex ?ctx) (hd (ex_relations ?ex)) e"
    by simp
  then show ?thesis by (auto simp only: edge_ok_def list.sel ExtractionResult.select_convs ExtractedRelation.select_convs)
qed


section \<open>A run from output to proposal\<close>

definition default_stages :: "ParsePipelineInput \<Rightarrow> bool" where
  "default_stages inp \<longleftrightarrow> pp_extractor inp = None \<and> pp_nodeMapper inp = None \<and> pp_relationshipMapper inp = None"

lemma option_or_None: "option_or None x = x"
  by (simp add: option_or_def)

lemma new_items:
  "(\<exists>b. NewNodeItem b n \<in> set (fst (proposal_items num bp))) \<longleftrightarrow> n \<in> set (bp_nodes bp)"
  "(\<exists>b. NewEdgeItem b e \<in> set (fst (proposal_items num bp))) \<longleftrightarrow> e \<in> set (bp_edges bp)"
proof -
  obtain rest ids where items: "fst (proposal_items num bp) = map (node_item (bp_integrationId bp)) (bp_nodes bp)
       @ map (edge_item (bp_integrationId bp) ids) (bp_edges bp) @ rest"
    and rest: "\<forall>item \<in> set rest. review_item_ok num (bp_ctx bp) (ex_entities (bp_extraction bp)) item"
    using proposal_items_split by blast
  have "item_kind item \<in> {Enrich, Conflict}" if "item \<in> set rest" for item using rest review_item_kind that by blast
  then have "NewNodeItem b n \<notin> set rest" "NewEdgeItem b e \<notin> set rest" for b by fastforce+
  then show "(\<exists>b. NewNodeItem b n \<in> set (fst (proposal_items num bp))) \<longleftrightarrow> n \<in> set (bp_nodes bp)"
    "(\<exists>b. NewEdgeItem b e \<in> set (fst (proposal_items num bp))) \<longleftrightarrow> e \<in> set (bp_edges bp)"
    unfolding items by (auto simp: node_item_def edge_item_def)
qed

lemma relation_end_anchor:
  assumes "relation_ok ec es r" "k = er_fromKey r \<or> k = er_toKey r" "k \<notin> en_identityKey ` set es"
  shows "ec_anchorKey ec = Some k"
proof -
  obtain own other where "own \<in> set es" "Some other = ec_anchorKey ec \<or> other \<in> en_identityKey ` set es"
    "er_fromKey r = en_identityKey own \<and> er_toKey r = other \<or> er_fromKey r = other \<and> er_toKey r = en_identityKey own"
    using assms(1) unfolding relation_ok_def by blast
  with assms(2,3) show ?thesis by auto
qed

lemma node_provenance: "n \<in> set (defaultNodeMapper ex ctx) \<Longrightarrow> \<exists>q c. pn_provenance n = mc_provenanceFor ctx q c"
proof -
  have "\<forall>n \<in> set (fst (fold (node_step ctx) es s)). \<exists>q c. pn_provenance n = mc_provenanceFor ctx q c"
    if "\<forall>n \<in> set (fst s). \<exists>q c. pn_provenance n = mc_provenanceFor ctx q c" for es s
    using that by (rule fold_invariant [where Q = "\<lambda>e. True", rotated]) (auto simp: node_step_def proposed_node_def)
  from this [of "([], 0)"] show "n \<in> set (defaultNodeMapper ex ctx) \<Longrightarrow> ?thesis" by (simp add: defaultNodeMapper_def)
qed


definition sample_run :: ParsePipelineInput where
  "sample_run = \<lparr>pp_manifest = pair_manifest, pp_parser = \<lparr>pr_schemaVersions = [''2.1.0''], pr_parse = (\<lambda>res. Inr (pair_doc ''9.9.9.9''))\<rparr>,
     pp_result = sample_result, pp_boardId = ''b1'', pp_proposalId = ''p1'', pp_actorUserId = ''u1'', pp_now = ''t2'',
     pp_anchorNodeId = None, pp_anchorKey = None, pp_resolve = (\<lambda>k. None), pp_extractor = None, pp_nodeMapper = None,
     pp_relationshipMapper = None, pp_defaultRegion = None\<rparr>"


end
