(* ===== verification/IntegrationRegistry.thy ===== *)
theory IntegrationRegistry
  imports IntegrationProposal
begin

text \<open>
  The integration registry, \<open>packages/integrations/src/registry.ts\<close>: every source is validated, and
  registered under its manifest's id or rejected with its issues. The validation library is the
  argument \<open>z\<close>, the manifests built into the program the argument \<open>builtin\<close>.
\<close>

record stages =
  sg_accepts :: "GraphNodeRef list \<Rightarrow> bool"
  sg_adapt :: "IntegrationInvocation \<Rightarrow> IntegrationError + InputAdapterResult"

record RegistryEntry =
  re_manifest :: IntegrationManifest
  re_parser :: OutputParser
  re_inputAdapter :: stages
  re_extractor :: "ParsedDocument \<Rightarrow> ExtractContext \<Rightarrow> ExtractionResult"
  re_nodeMapper :: "ExtractionResult \<Rightarrow> MapContext \<Rightarrow> ProposedNode list"
  re_relationshipMapper :: "ExtractionResult \<Rightarrow> ProposedNode list \<Rightarrow> MapContext \<Rightarrow> ProposedEdge list"
  re_enabledForOrg :: "string \<Rightarrow> bool"

record RegistryRejection =
  rj_id :: string
  rj_issues :: "SchemaIssue list"

record LoadedRegistry =
  rg_entries :: "(string, RegistryEntry) omap"
  rg_rejected :: "RegistryRejection list"

record IntegrationSource =
  is_raw :: js_value
  is_parser :: OutputParser
  is_inputAdapter :: "(IntegrationManifest \<Rightarrow> stages) option"
  is_extractor :: "(IntegrationManifest \<Rightarrow> ParsedDocument \<Rightarrow> ExtractContext \<Rightarrow> ExtractionResult) option"
  is_nodeMapper :: "(IntegrationManifest \<Rightarrow> ExtractionResult \<Rightarrow> MapContext \<Rightarrow> ProposedNode list) option"
  is_relationshipMapper :: "(IntegrationManifest \<Rightarrow> ExtractionResult \<Rightarrow> ProposedNode list \<Rightarrow> MapContext \<Rightarrow> ProposedEdge list) option"
  is_enabledForOrg :: "(string \<Rightarrow> bool) option"

record LoadRegistryOptions =
  lo_includeThirdParty :: "bool option"
  lo_thirdParty :: "IntegrationSource list option"

definition declared_id :: "js_value \<Rightarrow> string" where
  "declared_id raw =
     (case raw of
        J_obj es \<Rightarrow> (case prop_get es ''id'' of J_str s \<Rightarrow> s | _ \<Rightarrow> ''(unnamed)'')
      | _ \<Rightarrow> ''(unnamed)'')"

definition entry_for :: "lang \<Rightarrow> IntegrationSource \<Rightarrow> IntegrationManifest \<Rightarrow> RegistryEntry" where
  "entry_for lg source manifest =
     \<lparr>re_manifest = manifest, re_parser = is_parser source,
      re_inputAdapter = option_or (is_inputAdapter source)
        (\<lambda>m. \<lparr>sg_accepts = adapter_accepts m, sg_adapt = manifestInputAdapter lg m\<rparr>) manifest,
      re_extractor = option_or (is_extractor source) (manifestEntityExtractor lg) manifest,
      re_nodeMapper = (case is_nodeMapper source of None \<Rightarrow> defaultNodeMapper | Some f \<Rightarrow> f manifest),
      re_relationshipMapper = (case is_relationshipMapper source of None \<Rightarrow> defaultRelationshipMapper | Some f \<Rightarrow> f manifest),
      re_enabledForOrg = option_or (is_enabledForOrg source) (\<lambda>org. True)\<rparr>"

definition register_source :: "zod \<Rightarrow> lang \<Rightarrow> IntegrationSource \<Rightarrow> LoadedRegistry \<Rightarrow> LoadedRegistry" where
  "register_source z lg source reg =
     (case safeParseManifest z (is_raw source) of
        Inl issues \<Rightarrow> reg\<lparr>rg_rejected := rg_rejected reg @ [\<lparr>rj_id = declared_id (is_raw source), rj_issues = issues\<rparr>]\<rparr>
      | Inr manifest \<Rightarrow> reg\<lparr>rg_entries := omap_set (mf_id manifest) (entry_for lg source manifest) (rg_entries reg)\<rparr>)"

definition buildRegistry :: "zod \<Rightarrow> lang \<Rightarrow> IntegrationSource list \<Rightarrow> LoadedRegistry" where
  "buildRegistry z lg sources = fold (register_source z lg) sources \<lparr>rg_entries = [], rg_rejected = []\<rparr>"

definition loadRegistry :: "zod \<Rightarrow> lang \<Rightarrow> IntegrationSource list \<Rightarrow> LoadRegistryOptions \<Rightarrow> LoadedRegistry" where
  "loadRegistry z lg builtin options =
     buildRegistry z lg (builtin @ (if lo_includeThirdParty options = Some True then option_or (lo_thirdParty options) [] else []))"

section \<open>What the registry holds\<close>

definition registered :: "zod \<Rightarrow> IntegrationSource list \<Rightarrow> string \<Rightarrow> (IntegrationSource \<times> IntegrationManifest) list" where
  "registered z sources iid =
     concat (map (\<lambda>source. case safeParseManifest z (is_raw source) of
        Inl issues \<Rightarrow> [] | Inr m \<Rightarrow> if mf_id m = iid then [(source, m)] else []) sources)"

lemma buildRegistry_snoc: "buildRegistry z lg (sources @ [s]) = register_source z lg s (buildRegistry z lg sources)"
  by (simp add: buildRegistry_def)

lemma buildRegistry_get:
  "omap_inv (rg_entries (buildRegistry z lg sources))
   \<and> omap_get (rg_entries (buildRegistry z lg sources)) iid =
       (if registered z sources iid = [] then None
        else Some (entry_for lg (fst (last (registered z sources iid))) (snd (last (registered z sources iid)))))
   \<and> length (rg_rejected (buildRegistry z lg sources)) = length (filter (\<lambda>s. \<exists>issues. safeParseManifest z (is_raw s) = Inl issues) sources)"
proof (induction sources rule: rev_induct)
  case Nil
  show ?case by (simp add: buildRegistry_def registered_def)
next
  case (snoc s sources)
  then show ?case
    by (cases "safeParseManifest z (is_raw s)") (auto simp: buildRegistry_snoc register_source_def registered_def)
qed

lemma registered_in: "(s, m) \<in> set (registered z sources iid) \<longleftrightarrow> s \<in> set sources \<and> safeParseManifest z (is_raw s) = Inr m \<and> mf_id m = iid"
  by (auto simp: registered_def split: sum.splits if_splits)

lemma safeParse_ok: "safeParseManifest z raw = Inr m \<Longrightarrow> manifest_schema z m \<and> refine_issues z m = []"
  by (auto simp: safeParseManifest_def zIntegrationManifest_Inr split: sum.splits if_splits)


definition sample_source :: IntegrationSource where
  "sample_source = \<lparr>is_raw = J_obj [(''manifestVersion'', J_num (Finite 1))],
     is_parser = \<lparr>pr_schemaVersions = [''1.0''], pr_parse = (\<lambda>res. Inr (pair_doc ''9.9.9.9''))\<rparr>,
     is_inputAdapter = None, is_extractor = None, is_nodeMapper = None, is_relationshipMapper = None, is_enabledForOrg = None\<rparr>"


end
