(* ===== verification/CanvasTypes.thy ===== *)
theory CanvasTypes
  imports Prelude
begin

text \<open>
  The shared vocabulary of the canvas engine, \<open>packages/canvas-engine/src/types.ts\<close>, with the
  numbers of \<open>constants.ts\<close> that the modelled modules use. Coordinates are \<open>real\<close>: the model
  idealises IEEE rounding and has no \<open>NaN\<close> or infinities (\<open>assertValid\<close> of the scene graph
  refuses them). The constant field \<open>rotation: 0\<close> of a node is left out, and a \<open>File\<close> of a drop
  stands as an opaque name.
\<close>

type_synonym NodeId = string
type_synonym EdgeId = string
type_synonym GroupId = string
type_synonym LayerId = string
type_synonym EntityId = string

record Vec2 =
  vx :: real
  vy :: real

record Rect =
  rx :: real
  ry :: real
  rw :: real
  rh :: real

record RGBA =
  col_r :: real
  col_g :: real
  col_b :: real
  col_a :: real

record CameraState =
  cam_x :: real
  cam_y :: real
  cam_zoom :: real

datatype CameraCause = C_user | C_fit | C_focus | C_minimap | C_restore | C_reset

datatype NodeStatus = NS_none | NS_running | NS_error | NS_stale

record NodeGlyph =
  gl_accent :: RGBA
  gl_fill :: RGBA
  gl_icon :: string
  gl_title :: string
  gl_badgeCount :: int
  gl_thumbnailKey :: "string option"
  gl_status :: NodeStatus

record NodeView =
  n_id :: NodeId
  n_kind :: string
  n_x :: real
  n_y :: real
  n_w :: real
  n_h :: real
  n_z :: real
  n_layerId :: LayerId
  n_groupId :: "GroupId option"
  n_locked :: bool
  n_hidden :: bool
  n_glyph :: NodeGlyph
  n_domKey :: string
  n_visualVersion :: int

datatype Side = Side_top | Side_right | Side_bottom | Side_left | Side_auto

record AnchorSpec =
  anchor_side :: Side
  anchor_t :: real

record EdgeStyle =
  es_color :: RGBA
  es_width :: real
  es_dash :: "real list option"
  es_arrowStart :: bool
  es_arrowEnd :: bool
  es_opacity :: real
  es_animated :: "bool option"

datatype EdgeRouting = Straight | Curved | Orthogonal | Smart

record EdgeView =
  ed_id :: EdgeId
  ed_from :: NodeId
  ed_to :: NodeId
  ed_fromAnchor :: AnchorSpec
  ed_toAnchor :: AnchorSpec
  ed_routing :: EdgeRouting
  ed_style :: EdgeStyle
  ed_label :: "string option"
  ed_z :: real
  ed_hidden :: bool
  ed_visualVersion :: int
  ed_waypoints :: "Vec2 list option"
  ed_manualRoute :: "bool option"

datatype ResizeHandle = H_nw | H_n | H_ne | H_e | H_se | H_s | H_sw | H_w

datatype HitTarget =
    T_node NodeId
  | T_edge EdgeId
  | T_handle NodeId ResizeHandle
  | T_port NodeId AnchorSpec
  | T_waypoint EdgeId int
  | T_canvas

text \<open>The read-only view of the scene: what every consumer of the scene graph is given.\<close>

record SceneQuery =
  q_nodesIn :: "Rect \<Rightarrow> NodeView list"
  q_nodesContainedIn :: "Rect \<Rightarrow> NodeView list"
  q_nodeAt :: "Vec2 \<Rightarrow> NodeView option"
  q_node :: "NodeId \<Rightarrow> NodeView option"
  q_edge :: "EdgeId \<Rightarrow> EdgeView option"
  q_sceneBounds :: Rect
  q_nodeCount :: int

datatype SelectionMode = Sel_replace | Sel_add | Sel_toggle | Sel_subtract

datatype GesturePhase = Ph_start | Ph_update | Ph_end | Ph_cancel

datatype AlignAxis = Al_left | Al_hcenter | Al_right | Al_top | Al_vcenter | Al_bottom

datatype DropKind = Drop_text | Drop_url | Drop_files

record DropPayload =
  drop_kind :: DropKind
  drop_text :: "string option"
  drop_files :: "string list option"

record MoveDelta =
  md_id :: NodeId
  md_dx :: real
  md_dy :: real

datatype ZOrderOp = Z_front | Z_back | Z_forward | Z_backward

datatype EdgeEnd = End_from | End_to

datatype Intent =
    I_select "EntityId list" SelectionMode
  | I_move_nodes "MoveDelta list" GesturePhase
  | I_resize_node NodeId Rect GesturePhase
  | I_create_edge NodeId AnchorSpec NodeId AnchorSpec
  | I_connect_to_empty NodeId AnchorSpec Vec2
  | I_create_node_from_drop Vec2 DropPayload
  | I_reconnect_edge EdgeId EdgeEnd NodeId AnchorSpec
  | I_begin_edit_text NodeId
  | I_waypoint_insert EdgeId Vec2
  | I_waypoint_move EdgeId int Vec2 GesturePhase
  | I_waypoint_delete EdgeId int
  | I_context_menu Vec2 HitTarget
  | I_delete "EntityId list"
  | I_z_order "EntityId list" ZOrderOp
  | I_group "NodeId list"
  | I_ungroup GroupId
  | I_lock "EntityId list" bool
  | I_align "NodeId list" AlignAxis
  | I_distribute "NodeId list" bool
  | I_camera CameraState CameraCause

section \<open>Constants\<close>

definition MIN_NODE_SIZE :: real where "MIN_NODE_SIZE = 24"
definition MAX_WORLD_COORD :: real where "MAX_WORLD_COORD = 10000000"
definition INDEX_CELL_SIZE :: real where "INDEX_CELL_SIZE = 512"
definition DRAG_THRESHOLD_PX :: real where "DRAG_THRESHOLD_PX = 4"
definition CONNECT_CANDIDATE_LIMIT :: nat where "CONNECT_CANDIDATE_LIMIT = 12"
definition SNAP_TOL_PX :: real where "SNAP_TOL_PX = 6"
definition GRID_SNAP :: real where "GRID_SNAP = 8"
definition SNAP_CANDIDATE_LIMIT :: nat where "SNAP_CANDIDATE_LIMIT = 400"

section \<open>Rectangles\<close>

definition node_rect :: "NodeView \<Rightarrow> Rect" where
  "node_rect n = \<lparr>rx = n_x n, ry = n_y n, rw = n_w n, rh = n_h n\<rparr>"

text \<open>The two predicates of \<open>scene/index-grid.ts\<close>; rectangles are closed.\<close>

definition rectsIntersect :: "Rect \<Rightarrow> Rect \<Rightarrow> bool" where
  "rectsIntersect a b \<longleftrightarrow>
     rx a \<le> rx b + rw b \<and> rx b \<le> rx a + rw a \<and> ry a \<le> ry b + rh b \<and> ry b \<le> ry a + rh a"

definition rectContainsPoint :: "Rect \<Rightarrow> Vec2 \<Rightarrow> bool" where
  "rectContainsPoint r p \<longleftrightarrow>
     rx r \<le> vx p \<and> vx p \<le> rx r + rw r \<and> ry r \<le> vy p \<and> vy p \<le> ry r + rh r"

definition rectContainsRect :: "Rect \<Rightarrow> Rect \<Rightarrow> bool" where
  "rectContainsRect outer inner \<longleftrightarrow>
     rx outer \<le> rx inner \<and> ry outer \<le> ry inner
     \<and> rx inner + rw inner \<le> rx outer + rw outer \<and> ry inner + rh inner \<le> ry outer + rh outer"

end
