(* ===== verification/CanvasIndex.thy ===== *)
theory CanvasIndex
  imports CanvasTypes
begin

text \<open>
  The uniform grid spatial index, \<open>packages/canvas-engine/src/scene/index-grid.ts\<close>: a map from
  packed cell keys to the entities whose cell span covers the cell, the remembered span of every
  entity, its sanitized rectangle, and a list of entities too large for the grid. Buckets are
  insertion-ordered sets, so the order of the answers is the code's as well. The callback for
  degenerate rectangles is the log field \<open>gi_reported\<close>.

  The abstract specification is a plain map from ids to rectangles with queries by scanning all of
  them; the locale \<open>spatial_index\<close> states it as an interface, and the grid is its interpretation.
\<close>

section \<open>Model\<close>

definition OVERSIZE_FACTOR :: real where "OVERSIZE_FACTOR = 4"
definition MAX_CELLS_PER_QUERY :: int where "MAX_CELLS_PER_QUERY = 1024"
definition KEY_STRIDE :: int where "KEY_STRIDE = 1048576"
definition CELL_MIN :: int where "CELL_MIN = - (KEY_STRIDE div 2)"
definition CELL_MAX :: int where "CELL_MAX = KEY_STRIDE div 2 - 1"

record cell_span =
  sp_x0 :: int
  sp_y0 :: int
  sp_x1 :: int
  sp_y1 :: int

record grid_index =
  gi_cell :: real
  gi_buckets :: "(int, EntityId list) omap"
  gi_placement :: "(EntityId, cell_span) omap"
  gi_rects :: "(EntityId, Rect) omap"
  gi_oversized :: "EntityId list"
  gi_reported :: "(EntityId \<times> Rect) option"

definition createGridIndex :: "real option \<Rightarrow> grid_index" where
  "createGridIndex cellSize =
     \<lparr>gi_cell = (case cellSize of None \<Rightarrow> INDEX_CELL_SIZE | Some c \<Rightarrow> c), gi_buckets = [],
      gi_placement = [], gi_rects = [], gi_oversized = [], gi_reported = None\<rparr>"

text \<open>A JavaScript \<open>Set\<close>: its elements in insertion order; and a map whose values are non-empty
  sets (\<open>bucket_add\<close>, \<open>bucket_del\<close>), which the index and the scene graph both keep.\<close>

definition set_add :: "'a \<Rightarrow> 'a list \<Rightarrow> 'a list" where
  "set_add x xs = (if x \<in> set xs then xs else xs @ [x])"

definition set_del :: "'a \<Rightarrow> 'a list \<Rightarrow> 'a list" where
  "set_del x xs = filter (\<lambda>y. y \<noteq> x) xs"

definition clampCoord :: "real \<Rightarrow> real" where
  "clampCoord v = (if v < - MAX_WORLD_COORD then - MAX_WORLD_COORD
                   else if MAX_WORLD_COORD < v then MAX_WORLD_COORD else v)"

definition clampCell :: "int \<Rightarrow> int" where
  "clampCell v = (if v < CELL_MIN then CELL_MIN else if CELL_MAX < v then CELL_MAX else v)"

definition sanitize_rect :: "Rect \<Rightarrow> Rect" where
  "sanitize_rect r =
     \<lparr>rx = clampCoord (rx r), ry = clampCoord (ry r),
      rw = (if MIN_NODE_SIZE \<le> rw r then rw r else MIN_NODE_SIZE),
      rh = (if MIN_NODE_SIZE \<le> rh r then rh r else MIN_NODE_SIZE)\<rparr>"

definition sanitize :: "EntityId \<Rightarrow> Rect \<Rightarrow> grid_index \<Rightarrow> Rect \<times> grid_index" where
  "sanitize i r g =
     (let clean = sanitize_rect r
      in (clean, if (rw clean \<noteq> rw r \<or> rh clean \<noteq> rh r) \<and> gi_reported g = None
                 then g\<lparr>gi_reported := Some (i, r)\<rparr> else g))"

definition cell_of :: "real \<Rightarrow> real \<Rightarrow> int" where
  "cell_of cell v = clampCell \<lfloor>v / cell\<rfloor>"

definition spanOf :: "real \<Rightarrow> Rect \<Rightarrow> cell_span" where
  "spanOf cell r =
     \<lparr>sp_x0 = cell_of cell (rx r), sp_y0 = cell_of cell (ry r),
      sp_x1 = cell_of cell (rx r + rw r), sp_y1 = cell_of cell (ry r + rh r)\<rparr>"

definition cell_key :: "int \<Rightarrow> int \<Rightarrow> int" where
  "cell_key cx cy = cx * KEY_STRIDE + cy"

text \<open>The cells of a span in the order of the two nested loops of \<open>addToCells\<close>.\<close>

definition span_keys :: "cell_span \<Rightarrow> int list" where
  "span_keys s =
     concat (map (\<lambda>cx. map (\<lambda>cy. cell_key cx cy) [sp_y0 s..sp_y1 s]) [sp_x0 s..sp_x1 s])"

definition bucket_add :: "'a \<Rightarrow> 'k \<Rightarrow> ('k, 'a list) omap \<Rightarrow> ('k, 'a list) omap" where
  "bucket_add i key m =
     (case omap_get m key of
        Some b \<Rightarrow> omap_set key (set_add i b) m
      | None \<Rightarrow> omap_set key [i] m)"

definition bucket_del :: "'a \<Rightarrow> 'k \<Rightarrow> ('k, 'a list) omap \<Rightarrow> ('k, 'a list) omap" where
  "bucket_del i key m =
     (case omap_get m key of
        None \<Rightarrow> m
      | Some b \<Rightarrow>
          (let b' = set_del i b
           in if b' = [] then omap_delete key m else omap_set key b' m))"

definition addToCells :: "EntityId \<Rightarrow> cell_span \<Rightarrow> grid_index \<Rightarrow> grid_index" where
  "addToCells i s g = g\<lparr>gi_buckets := fold (bucket_add i) (span_keys s) (gi_buckets g)\<rparr>"

definition removeFromCells :: "EntityId \<Rightarrow> cell_span \<Rightarrow> grid_index \<Rightarrow> grid_index" where
  "removeFromCells i s g = g\<lparr>gi_buckets := fold (bucket_del i) (span_keys s) (gi_buckets g)\<rparr>"

definition oversize_limit :: "grid_index \<Rightarrow> real" where
  "oversize_limit g = gi_cell g * OVERSIZE_FACTOR"

definition detach :: "EntityId \<Rightarrow> grid_index \<Rightarrow> grid_index" where
  "detach i g =
     (let g' = (case omap_get (gi_placement g) i of
                  None \<Rightarrow> g
                | Some prev \<Rightarrow>
                    (removeFromCells i prev g)\<lparr>gi_placement := omap_delete i (gi_placement g)\<rparr>)
      in g'\<lparr>gi_oversized := set_del i (gi_oversized g')\<rparr>)"

definition attach :: "EntityId \<Rightarrow> Rect \<Rightarrow> grid_index \<Rightarrow> grid_index" where
  "attach i r g =
     (if oversize_limit g < rw r \<or> oversize_limit g < rh r
      then g\<lparr>gi_oversized := set_add i (gi_oversized g)\<rparr>
      else (let span = spanOf (gi_cell g) r; g' = addToCells i span g
            in g'\<lparr>gi_placement := omap_set i span (gi_placement g')\<rparr>))"

definition index_insert :: "EntityId \<Rightarrow> Rect \<Rightarrow> grid_index \<Rightarrow> grid_index" where
  "index_insert i r g =
     (let (clean, g1) = sanitize i r g; g2 = detach i g1
      in attach i clean (g2\<lparr>gi_rects := omap_set i clean (gi_rects g2)\<rparr>))"

definition index_update :: "EntityId \<Rightarrow> Rect \<Rightarrow> grid_index \<Rightarrow> grid_index" where
  "index_update i r g0 =
     (let (clean, g1) = sanitize i r g0;
          prev = omap_get (gi_placement g1) i;
          g = g1\<lparr>gi_rects := omap_set i clean (gi_rects g1)\<rparr>
      in case prev of
           Some p \<Rightarrow>
             if rw clean \<le> oversize_limit g \<and> rh clean \<le> oversize_limit g
             then (let next = spanOf (gi_cell g) clean
                   in if p = next then g
                      else (let g' = addToCells i next (removeFromCells i p g)
                            in g'\<lparr>gi_placement := omap_set i next (gi_placement g')\<rparr>))
             else attach i clean (detach i g)
         | None \<Rightarrow> attach i clean (detach i g))"

definition index_remove :: "EntityId \<Rightarrow> grid_index \<Rightarrow> grid_index" where
  "index_remove i g =
     (let g' = detach i g in g'\<lparr>gi_rects := omap_delete i (gi_rects g')\<rparr>)"

definition index_rectOf :: "grid_index \<Rightarrow> EntityId \<Rightarrow> Rect option" where
  "index_rectOf g i = omap_get (gi_rects g) i"

definition index_clear :: "grid_index \<Rightarrow> grid_index" where
  "index_clear g = g\<lparr>gi_buckets := [], gi_placement := [], gi_rects := [], gi_oversized := []\<rparr>"

definition index_size :: "grid_index \<Rightarrow> nat" where
  "index_size g = length (gi_rects g)"

definition scanAll :: "(Rect \<Rightarrow> bool) \<Rightarrow> grid_index \<Rightarrow> EntityId list" where
  "scanAll hit g = map fst (filter (\<lambda>(i, r). hit r) (gi_rects g))"

text \<open>The query visits the cells row by row (\<open>cy\<close> outside, \<open>cx\<close> inside).\<close>

definition query_keys :: "cell_span \<Rightarrow> int list" where
  "query_keys s =
     concat (map (\<lambda>cy. map (\<lambda>cx. cell_key cx cy) [sp_x0 s..sp_x1 s]) [sp_y0 s..sp_y1 s])"

definition bucket_at :: "grid_index \<Rightarrow> int \<Rightarrow> EntityId list" where
  "bucket_at g key = (case omap_get (gi_buckets g) key of None \<Rightarrow> [] | Some b \<Rightarrow> b)"

definition hits :: "grid_index \<Rightarrow> (Rect \<Rightarrow> bool) \<Rightarrow> EntityId \<Rightarrow> bool" where
  "hits g hit i \<longleftrightarrow> (case omap_get (gi_rects g) i of None \<Rightarrow> False | Some r \<Rightarrow> hit r)"

definition queryRect :: "Rect \<Rightarrow> grid_index \<Rightarrow> EntityId list" where
  "queryRect r g =
     (let span = spanOf (gi_cell g) (r\<lparr>rx := clampCoord (rx r), ry := clampCoord (ry r)\<rparr>);
          cells = (sp_x1 span - sp_x0 span + 1) * (sp_y1 span - sp_y0 span + 1)
      in if MAX_CELLS_PER_QUERY < cells then scanAll (\<lambda>rr. rectsIntersect rr r) g
         else filter (hits g (\<lambda>rr. rectsIntersect rr r))
                (js_uniq (concat (map (bucket_at g) (query_keys span))))
              @ filter (hits g (\<lambda>rr. rectsIntersect rr r)) (gi_oversized g))"

definition queryPoint :: "Vec2 \<Rightarrow> grid_index \<Rightarrow> EntityId list" where
  "queryPoint p g =
     (let cx = cell_of (gi_cell g) (clampCoord (vx p)); cy = cell_of (gi_cell g) (clampCoord (vy p))
      in filter (hits g (\<lambda>rr. rectContainsPoint rr p)) (bucket_at g (cell_key cx cy))
         @ filter (hits g (\<lambda>rr. rectContainsPoint rr p)) (gi_oversized g))"

record index_stats =
  st_cells :: nat
  st_oversized :: nat
  st_maxBucket :: nat
  st_avgBucket :: real

definition index_stats :: "grid_index \<Rightarrow> index_stats" where
  "index_stats g =
     (let sizes = map (length \<circ> snd) (gi_buckets g); total = sum_list sizes
      in \<lparr>st_cells = length (gi_buckets g), st_oversized = length (gi_oversized g),
          st_maxBucket = fold max sizes 0,
          st_avgBucket = (if gi_buckets g = [] then 0 else real total / real (length (gi_buckets g)))\<rparr>)"

section \<open>Cells and spans\<close>

lemma clampCell_bounds: "CELL_MIN \<le> clampCell v \<and> clampCell v \<le> CELL_MAX"
  by (simp add: clampCell_def CELL_MIN_def CELL_MAX_def KEY_STRIDE_def)

lemma clampCell_mono: "v \<le> w \<Longrightarrow> clampCell v \<le> clampCell w"
  by (auto simp: clampCell_def CELL_MIN_def CELL_MAX_def KEY_STRIDE_def)

lemma cell_of_mono: "0 < cell \<Longrightarrow> v \<le> w \<Longrightarrow> cell_of cell v \<le> cell_of cell w"
  by (simp add: cell_of_def clampCell_mono floor_mono divide_right_mono)

lemma cell_of_bounds: "CELL_MIN \<le> cell_of cell v \<and> cell_of cell v \<le> CELL_MAX"
  by (simp add: cell_of_def clampCell_bounds)

lemma cell_key_inj:
  assumes "cell_key cx cy = cell_key cx' cy'"
    and "CELL_MIN \<le> cy" "cy \<le> CELL_MAX" "CELL_MIN \<le> cy'" "cy' \<le> CELL_MAX"
  shows "cx = cx' \<and> cy = cy'"
proof -
  have "cx = cx'"
  proof (rule ccontr)
    assume "cx \<noteq> cx'"
    then have "cx + 1 \<le> cx' \<or> cx' + 1 \<le> cx" by linarith
    then show False
      using assms by (auto simp: cell_key_def CELL_MIN_def CELL_MAX_def KEY_STRIDE_def)
  qed
  with assms(1) show ?thesis by (simp add: cell_key_def)
qed

lemma span_keys_iff:
  "key \<in> set (span_keys s) \<longleftrightarrow>
     (\<exists>cx cy. key = cell_key cx cy \<and> sp_x0 s \<le> cx \<and> cx \<le> sp_x1 s \<and> sp_y0 s \<le> cy \<and> cy \<le> sp_y1 s)"
  by (fastforce simp: span_keys_def image_iff)

lemma query_keys_iff: "key \<in> set (query_keys s) \<longleftrightarrow> key \<in> set (span_keys s)"
  unfolding span_keys_iff by (fastforce simp: query_keys_def image_iff)

section \<open>Buckets\<close>

definition in_bucket :: "('k, 'a list) omap \<Rightarrow> 'k \<Rightarrow> 'a \<Rightarrow> bool" where
  "in_bucket m key i \<longleftrightarrow> (case omap_get m key of None \<Rightarrow> False | Some b \<Rightarrow> i \<in> set b)"

definition buckets_ok :: "('k, 'a list) omap \<Rightarrow> bool" where
  "buckets_ok m \<longleftrightarrow> omap_inv m \<and> (\<forall>key b. omap_get m key = Some b \<longrightarrow> distinct b \<and> b \<noteq> [])"

lemma set_set_add [simp]: "set (set_add x xs) = insert x (set xs)"
  by (auto simp: set_add_def)

lemma set_set_del [simp]: "set (set_del x xs) = set xs - {x}"
  by (auto simp: set_del_def)

lemma distinct_set_add [simp]: "distinct (set_add x xs) = distinct xs"
  by (auto simp: set_add_def)

lemma distinct_set_del [simp]: "distinct xs \<Longrightarrow> distinct (set_del x xs)"
  by (simp add: set_del_def)

lemma bucket_at_iff: "i \<in> set (bucket_at g key) \<longleftrightarrow> in_bucket (gi_buckets g) key i"
  by (simp add: bucket_at_def in_bucket_def split: option.split)

lemma in_bucket_add:
  "in_bucket (bucket_add i key m) k j \<longleftrightarrow> in_bucket m k j \<or> (j = i \<and> k = key)"
  by (auto simp: in_bucket_def bucket_add_def split: option.split)

lemma in_bucket_del:
  "in_bucket (bucket_del i key m) k j \<longleftrightarrow> in_bucket m k j \<and> \<not> (j = i \<and> k = key)"
  by (auto simp: in_bucket_def bucket_del_def Let_def set_del_def filter_empty_conv split: option.split)

lemma in_buckets_add:
  "in_bucket (fold (bucket_add i) keys m) k j \<longleftrightarrow> in_bucket m k j \<or> (j = i \<and> k \<in> set keys)"
  by (induction keys arbitrary: m) (auto simp: in_bucket_add)

lemma in_buckets_del:
  "in_bucket (fold (bucket_del i) keys m) k j \<longleftrightarrow> in_bucket m k j \<and> \<not> (j = i \<and> k \<in> set keys)"
  by (induction keys arbitrary: m) (auto simp: in_bucket_del)

lemma buckets_ok_add: "buckets_ok m \<Longrightarrow> buckets_ok (bucket_add i key m)"
  by (auto simp: buckets_ok_def bucket_add_def set_add_def split: option.split)

lemma buckets_ok_del: "buckets_ok m \<Longrightarrow> buckets_ok (bucket_del i key m)"
  by (auto simp: buckets_ok_def bucket_del_def Let_def split: option.split)

lemma buckets_ok_adds: "buckets_ok m \<Longrightarrow> buckets_ok (fold (bucket_add i) keys m)"
  by (induction keys arbitrary: m) (auto simp: buckets_ok_add)

lemma buckets_ok_dels: "buckets_ok m \<Longrightarrow> buckets_ok (fold (bucket_del i) keys m)"
  by (induction keys arbitrary: m) (auto simp: buckets_ok_del)

section \<open>The representation invariant\<close>

definition fits :: "grid_index \<Rightarrow> Rect \<Rightarrow> bool" where
  "fits g r \<longleftrightarrow> rw r \<le> oversize_limit g \<and> rh r \<le> oversize_limit g"

definition span_at :: "grid_index \<Rightarrow> EntityId \<Rightarrow> cell_span option" where
  "span_at g i =
     (case index_rectOf g i of
        None \<Rightarrow> None
      | Some r \<Rightarrow> if fits g r then Some (spanOf (gi_cell g) r) else None)"

definition grid_shape_ok :: "grid_index \<Rightarrow> bool" where
  "grid_shape_ok g \<longleftrightarrow>
     0 < gi_cell g \<and> buckets_ok (gi_buckets g) \<and> omap_inv (gi_placement g) \<and> omap_inv (gi_rects g)
     \<and> distinct (gi_oversized g)"

definition entity_ok :: "grid_index \<Rightarrow> EntityId \<Rightarrow> bool" where
  "entity_ok g i \<longleftrightarrow>
     omap_get (gi_placement g) i = span_at g i
     \<and> (i \<in> set (gi_oversized g) \<longleftrightarrow> index_rectOf g i \<noteq> None \<and> span_at g i = None)
     \<and> (\<forall>key. in_bucket (gi_buckets g) key i
           \<longleftrightarrow> (\<exists>s. span_at g i = Some s \<and> key \<in> set (span_keys s)))
     \<and> (\<forall>r. index_rectOf g i = Some r \<longrightarrow> sanitize_rect r = r)"

definition grid_ok :: "grid_index \<Rightarrow> bool" where
  "grid_ok g \<longleftrightarrow> grid_shape_ok g \<and> (\<forall>i. entity_ok g i)"

text \<open>Between \<open>detach\<close> and \<open>attach\<close> the entity is in no cell, whatever rectangle it has.\<close>

definition entity_absent :: "grid_index \<Rightarrow> EntityId \<Rightarrow> bool" where
  "entity_absent g i \<longleftrightarrow>
     omap_get (gi_placement g) i = None \<and> i \<notin> set (gi_oversized g)
     \<and> (\<forall>key. \<not> in_bucket (gi_buckets g) key i)"

definition detached_ok :: "EntityId \<Rightarrow> grid_index \<Rightarrow> bool" where
  "detached_ok i g \<longleftrightarrow> grid_shape_ok g \<and> entity_absent g i \<and> (\<forall>j. j \<noteq> i \<longrightarrow> entity_ok g j)"

lemma sanitize_rect_idem [simp]: "sanitize_rect (sanitize_rect r) = sanitize_rect r"
  by (auto simp: sanitize_rect_def clampCoord_def MAX_WORLD_COORD_def)

lemma span_at_cong:
  "index_rectOf g' i = index_rectOf g i \<Longrightarrow> gi_cell g' = gi_cell g \<Longrightarrow> span_at g' i = span_at g i"
  by (simp add: span_at_def fits_def oversize_limit_def split: option.split)

lemma entity_ok_cong:
  assumes "index_rectOf g' i = index_rectOf g i" "gi_cell g' = gi_cell g"
    "omap_get (gi_placement g') i = omap_get (gi_placement g) i"
    "i \<in> set (gi_oversized g') \<longleftrightarrow> i \<in> set (gi_oversized g)"
    "\<And>key. in_bucket (gi_buckets g') key i \<longleftrightarrow> in_bucket (gi_buckets g) key i"
  shows "entity_ok g' i = entity_ok g i"
  using assms span_at_cong [OF assms(1,2)] by (simp add: entity_ok_def)

lemma grid_ok_reported [simp]:
  "grid_ok (g\<lparr>gi_reported := x\<rparr>) = grid_ok g"
  "index_rectOf (g\<lparr>gi_reported := x\<rparr>) = index_rectOf g"
proof -
  show "index_rectOf (g\<lparr>gi_reported := x\<rparr>) = index_rectOf g"
    by (simp add: index_rectOf_def fun_eq_iff)
  have "entity_ok (g\<lparr>gi_reported := x\<rparr>) i = entity_ok g i" for i
    by (rule entity_ok_cong) (simp_all add: index_rectOf_def)
  then show "grid_ok (g\<lparr>gi_reported := x\<rparr>) = grid_ok g"
    by (simp add: grid_ok_def grid_shape_ok_def)
qed

lemma detach_rects [simp]:
  "gi_rects (detach i g) = gi_rects g" "gi_cell (detach i g) = gi_cell g"
  "index_rectOf (detach i g) = index_rectOf g"
  by (auto simp: detach_def Let_def removeFromCells_def index_rectOf_def fun_eq_iff split: option.split)

lemma detach_ok:
  assumes "grid_ok g"
  shows "detached_ok i (detach i g)"
proof -
  have shape: "grid_shape_ok (detach i g)"
    using assms by (auto simp: grid_ok_def grid_shape_ok_def detach_def Let_def removeFromCells_def
        buckets_ok_dels split: option.split)
  have "entity_ok g i" using assms by (simp add: grid_ok_def)
  then have "entity_absent (detach i g) i"
    by (auto simp: entity_ok_def entity_absent_def detach_def Let_def removeFromCells_def
        in_buckets_del split: option.split)
  moreover have "entity_ok (detach i g) j = entity_ok g j" if "j \<noteq> i" for j
    using that by (intro entity_ok_cong)
      (auto simp: detach_def Let_def removeFromCells_def in_buckets_del index_rectOf_def split: option.split)
  ultimately show ?thesis using assms shape by (simp add: grid_ok_def detached_ok_def)
qed

lemma detached_frame:
  assumes "detached_ok i g"
  shows "detached_ok i (g\<lparr>gi_rects := omap_set i r (gi_rects g)\<rparr>)"
    and "detached_ok i (g\<lparr>gi_rects := omap_delete i (gi_rects g)\<rparr>)"
proof -
  have "entity_ok (g\<lparr>gi_rects := omap_set i r (gi_rects g)\<rparr>) j = entity_ok g j"
    "entity_ok (g\<lparr>gi_rects := omap_delete i (gi_rects g)\<rparr>) j = entity_ok g j" if "j \<noteq> i" for j
    using that by (intro entity_ok_cong; simp add: index_rectOf_def)+
  then show "detached_ok i (g\<lparr>gi_rects := omap_set i r (gi_rects g)\<rparr>)"
    "detached_ok i (g\<lparr>gi_rects := omap_delete i (gi_rects g)\<rparr>)"
    using assms by (auto simp: detached_ok_def grid_shape_ok_def entity_absent_def)
qed

lemma attach_rects [simp]: "index_rectOf (attach i r g) = index_rectOf g" "gi_cell (attach i r g) = gi_cell g"
  by (auto simp: attach_def Let_def addToCells_def index_rectOf_def fun_eq_iff)

lemma attach_ok:
  assumes "detached_ok i g" "index_rectOf g i = Some r" "sanitize_rect r = r"
  shows "grid_ok (attach i r g)"
proof -
  have "grid_shape_ok (attach i r g)"
    using assms(1) by (auto simp: detached_ok_def grid_shape_ok_def attach_def Let_def addToCells_def
        buckets_ok_adds)
  moreover have "entity_ok (attach i r g) j = entity_ok g j" if "j \<noteq> i" for j
    using that by (intro entity_ok_cong)
      (auto simp: attach_def Let_def addToCells_def in_buckets_add index_rectOf_def)
  moreover have "entity_ok (attach i r g) i"
  proof (cases "fits g r")
    case True
    then have "attach i r g = (addToCells i (spanOf (gi_cell g) r) g)
        \<lparr>gi_placement := omap_set i (spanOf (gi_cell g) r) (gi_placement g)\<rparr>"
      by (auto simp: attach_def fits_def Let_def addToCells_def)
    moreover have "span_at (attach i r g) i = Some (spanOf (gi_cell g) r)"
      using True assms(2) by (simp add: span_at_def fits_def oversize_limit_def)
    ultimately show ?thesis
      using assms by (simp add: entity_ok_def detached_ok_def entity_absent_def addToCells_def
          in_buckets_add index_rectOf_def)
  next
    case False
    then have "attach i r g = g\<lparr>gi_oversized := set_add i (gi_oversized g)\<rparr>"
      by (auto simp: attach_def fits_def)
    moreover have "span_at (attach i r g) i = None"
      using False assms(2) by (simp add: span_at_def fits_def oversize_limit_def)
    ultimately show ?thesis
      using assms by (simp add: entity_ok_def detached_ok_def entity_absent_def index_rectOf_def)
  qed
  ultimately show ?thesis using assms(1) by (metis grid_ok_def detached_ok_def)
qed

section \<open>Every operation preserves the invariant and refines a map\<close>

lemma sanitize_eq:
  "\<exists>x. sanitize i r g = (sanitize_rect r, g\<lparr>gi_reported := x\<rparr>)"
proof (cases "(rw (sanitize_rect r) \<noteq> rw r \<or> rh (sanitize_rect r) \<noteq> rh r) \<and> gi_reported g = None")
  case True
  then show ?thesis by (intro exI [of _ "Some (i, r)"]) (simp add: sanitize_def Let_def)
next
  case False
  then show ?thesis by (intro exI [of _ "gi_reported g"]) (simp add: sanitize_def Let_def)
qed

lemma createGridIndex_ok: "(\<forall>c. cellSize = Some c \<longrightarrow> 0 < c) \<Longrightarrow> grid_ok (createGridIndex cellSize)"
  by (auto simp: createGridIndex_def grid_ok_def grid_shape_ok_def entity_ok_def buckets_ok_def
      span_at_def index_rectOf_def in_bucket_def INDEX_CELL_SIZE_def split: option.split)

lemma reattach_ok:
  assumes "grid_ok g"
  shows "grid_ok (attach i (sanitize_rect r) ((detach i g)\<lparr>gi_rects := omap_set i (sanitize_rect r) (gi_rects g)\<rparr>))"
  using detached_frame(1) [OF detach_ok [OF assms], of i "sanitize_rect r"]
  by (intro attach_ok) (simp_all add: index_rectOf_def)

lemma index_insert_ok:
  assumes "grid_ok g"
  shows "grid_ok (index_insert i r g)"
    and "index_rectOf (index_insert i r g) = (index_rectOf g)(i := Some (sanitize_rect r))"
proof -
  obtain x where x: "sanitize i r g = (sanitize_rect r, g\<lparr>gi_reported := x\<rparr>)" using sanitize_eq by blast
  show "grid_ok (index_insert i r g)"
    using reattach_ok [of "g\<lparr>gi_reported := x\<rparr>" i r] assms by (simp add: index_insert_def x Let_def)
  show "index_rectOf (index_insert i r g) = (index_rectOf g)(i := Some (sanitize_rect r))"
    by (simp add: index_insert_def x Let_def) (simp add: index_rectOf_def fun_eq_iff)
qed

lemma detach_set_rects:
  "detach i (g\<lparr>gi_rects := m\<rparr>) = (detach i g)\<lparr>gi_rects := m\<rparr>"
  by (auto simp: detach_def Let_def removeFromCells_def split: option.split)

lemma move_span_ok:
  assumes ok: "grid_ok g" and p: "omap_get (gi_placement g) i = Some p"
    and f: "fits g (sanitize_rect r)"
  defines "g1 \<equiv> g\<lparr>gi_rects := omap_set i (sanitize_rect r) (gi_rects g)\<rparr>"
    and "s \<equiv> spanOf (gi_cell g) (sanitize_rect r)"
  shows "p = s \<Longrightarrow> grid_ok g1"
    and "grid_ok ((addToCells i s (removeFromCells i p g1))
           \<lparr>gi_placement := omap_set i s (gi_placement g)\<rparr>)" (is "grid_ok ?g2")
proof -
  have i: "entity_ok g i" and shape: "grid_shape_ok g" using ok by (auto simp: grid_ok_def)
  have span: "span_at g1 i = Some s"
    using f by (simp add: g1_def s_def span_at_def index_rectOf_def fits_def oversize_limit_def)
  have "span_at ?g2 i = span_at g1 i"
    by (rule span_at_cong) (simp_all add: g1_def addToCells_def removeFromCells_def index_rectOf_def)
  with span have span2: "span_at ?g2 i = Some s" by simp
  have old: "span_at g i = Some p" "\<And>key. in_bucket (gi_buckets g) key i \<longleftrightarrow> key \<in> set (span_keys p)"
    "i \<notin> set (gi_oversized g)"
    using i p by (auto simp: entity_ok_def)
  have "entity_ok g1 j = entity_ok g j" if "j \<noteq> i" for j
    using that by (intro entity_ok_cong) (simp_all add: g1_def index_rectOf_def)
  moreover have "entity_ok ?g2 j = entity_ok g j" if "j \<noteq> i" for j
    using that by (intro entity_ok_cong)
      (simp_all add: g1_def index_rectOf_def addToCells_def removeFromCells_def in_buckets_add in_buckets_del)
  moreover have "entity_ok g1 i" if "p = s"
    unfolding entity_ok_def span using old p that by (simp add: g1_def index_rectOf_def)
  moreover have "entity_ok ?g2 i"
    unfolding entity_ok_def span2 using old p
    by (simp add: g1_def index_rectOf_def addToCells_def removeFromCells_def in_buckets_add in_buckets_del)
  moreover have "grid_shape_ok g1" "grid_shape_ok ?g2"
    using shape by (simp_all add: grid_shape_ok_def g1_def addToCells_def removeFromCells_def
        buckets_ok_adds buckets_ok_dels)
  ultimately show "p = s \<Longrightarrow> grid_ok g1" "grid_ok ?g2"
    using ok unfolding grid_ok_def by metis+
qed

lemma index_update_ok:
  assumes "grid_ok g"
  shows "grid_ok (index_update i r g)"
    and "index_rectOf (index_update i r g) = (index_rectOf g)(i := Some (sanitize_rect r))"
proof -
  obtain x where x: "sanitize i r g = (sanitize_rect r, g\<lparr>gi_reported := x\<rparr>)" using sanitize_eq by blast
  let ?g = "g\<lparr>gi_reported := x\<rparr>"
  let ?g1 = "?g\<lparr>gi_rects := omap_set i (sanitize_rect r) (gi_rects ?g)\<rparr>"
  have ok: "grid_ok ?g" using assms by simp
  have re: "grid_ok (attach i (sanitize_rect r) (detach i ?g1))"
    using reattach_ok [OF ok, of i r] by (simp add: detach_set_rects)
  show "grid_ok (index_update i r g)"
    using re move_span_ok [OF ok, of i _ r]
    by (auto simp: index_update_def x Let_def fits_def oversize_limit_def addToCells_def
        removeFromCells_def split: option.split)
  have "index_rectOf ?g1 = (index_rectOf g)(i := Some (sanitize_rect r))"
    by (simp add: index_rectOf_def fun_eq_iff)
  moreover have "index_rectOf (index_update i r g) = index_rectOf ?g1"
    by (auto simp: index_update_def x Let_def split: option.split)
      (auto simp: index_rectOf_def addToCells_def removeFromCells_def)
  ultimately show "index_rectOf (index_update i r g) = (index_rectOf g)(i := Some (sanitize_rect r))"
    by simp
qed

lemma index_remove_ok:
  assumes "grid_ok g"
  shows "grid_ok (index_remove i g)" and "index_rectOf (index_remove i g) = (index_rectOf g)(i := None)"
proof -
  let ?g = "(detach i g)\<lparr>gi_rects := omap_delete i (gi_rects g)\<rparr>"
  have eq: "index_remove i g = ?g" by (simp add: index_remove_def Let_def)
  have d: "detached_ok i ?g" using detached_frame(2) [OF detach_ok [OF assms], of i] by simp
  have none: "index_rectOf ?g i = None" by (simp add: index_rectOf_def)
  then have "entity_ok ?g i"
    using d by (simp add: entity_ok_def span_at_def detached_ok_def entity_absent_def)
  with d show "grid_ok (index_remove i g)" unfolding eq grid_ok_def detached_ok_def by metis
  show "index_rectOf (index_remove i g) = (index_rectOf g)(i := None)"
    unfolding eq by (simp add: index_rectOf_def fun_eq_iff)
qed

lemma index_clear_ok:
  assumes "grid_ok g"
  shows "grid_ok (index_clear g)" and "index_rectOf (index_clear g) = Map.empty"
  using assms
  by (auto simp: index_clear_def grid_ok_def grid_shape_ok_def entity_ok_def buckets_ok_def
      span_at_def index_rectOf_def in_bucket_def fun_eq_iff)

section \<open>Queries are exact\<close>

lemma hits_iff: "hits g hit i \<longleftrightarrow> (\<exists>r. index_rectOf g i = Some r \<and> hit r)"
  by (auto simp: hits_def index_rectOf_def split: option.split)

lemma clampCoord_bounds: "- MAX_WORLD_COORD \<le> clampCoord v \<and> clampCoord v \<le> MAX_WORLD_COORD"
  by (simp add: clampCoord_def MAX_WORLD_COORD_def)

lemma sanitized_bounds:
  assumes "sanitize_rect r = r"
  shows "- MAX_WORLD_COORD \<le> rx r" "rx r \<le> MAX_WORLD_COORD"
    "- MAX_WORLD_COORD \<le> ry r" "ry r \<le> MAX_WORLD_COORD" "0 < rw r" "0 < rh r"
proof -
  have "rx r = clampCoord (rx r)" "ry r = clampCoord (ry r)" "MIN_NODE_SIZE \<le> rw r" "MIN_NODE_SIZE \<le> rh r"
    by (subst (1) assms [symmetric], simp add: sanitize_rect_def)+
  then show "- MAX_WORLD_COORD \<le> rx r" "rx r \<le> MAX_WORLD_COORD"
    "- MAX_WORLD_COORD \<le> ry r" "ry r \<le> MAX_WORLD_COORD" "0 < rw r" "0 < rh r"
    using clampCoord_bounds [of "rx r"] clampCoord_bounds [of "ry r"] by (auto simp: MIN_NODE_SIZE_def)
qed

text \<open>Two intervals that meet cover a common cell, even when the query's start was clamped.\<close>

lemma common_cell:
  assumes "0 < cell" "a \<le> v + w" "v \<le> a + b" "0 \<le> w" "0 \<le> b"
    and "- MAX_WORLD_COORD \<le> a" "a \<le> MAX_WORLD_COORD"
  shows "\<exists>c. cell_of cell a \<le> c \<and> c \<le> cell_of cell (a + b)
     \<and> cell_of cell (clampCoord v) \<le> c \<and> c \<le> cell_of cell (clampCoord v + w)"
proof -
  let ?v = "clampCoord v"
  have "a \<le> ?v + w" "?v \<le> a + b"
    using assms by (auto simp: clampCoord_def MAX_WORLD_COORD_def)
  then show ?thesis
    using assms(1,4,5) cell_of_mono [of cell a "?v + w"] cell_of_mono [of cell ?v "a + b"]
      cell_of_mono [of cell a "a + b"] cell_of_mono [of cell ?v "?v + w"]
    by (intro exI [of _ "max (cell_of cell a) (cell_of cell ?v)"]) auto
qed

lemma queryRect_exact:
  assumes ok: "grid_ok g" and q: "0 \<le> rw q" "0 \<le> rh q"
  shows "set (queryRect q g) = {i. \<exists>r. index_rectOf g i = Some r \<and> rectsIntersect r q}"
    and "distinct (queryRect q g)"
proof -
  let ?span = "spanOf (gi_cell g) (q\<lparr>rx := clampCoord (rx q), ry := clampCoord (ry q)\<rparr>)"
  let ?hit = "\<lambda>rr. rectsIntersect rr q"
  have cell: "0 < gi_cell g" and inv: "omap_inv (gi_rects g)" and ent: "\<And>i. entity_ok g i"
    and over: "distinct (gi_oversized g)"
    using ok by (auto simp: grid_ok_def grid_shape_ok_def)
  have scan: "set (scanAll ?hit g) = {i. \<exists>r. index_rectOf g i = Some r \<and> ?hit r}"
    "distinct (scanAll ?hit g)"
  proof -
    show "set (scanAll ?hit g) = {i. \<exists>r. index_rectOf g i = Some r \<and> ?hit r}"
      using inv by (force simp: scanAll_def index_rectOf_def omap_get_def omap_inv_def)
    show "distinct (scanAll ?hit g)"
      using inv by (simp add: scanAll_def omap_inv_def distinct_map_filter)
  qed
  have reach: "\<exists>key \<in> set (query_keys ?span). in_bucket (gi_buckets g) key i"
    if r: "index_rectOf g i = Some r" "?hit r" and s: "span_at g i \<noteq> None" for i r
  proof -
    have "sanitize_rect r = r" using ent [of i] r by (simp add: entity_ok_def)
    note b = sanitized_bounds [OF this]
    have sp: "span_at g i = Some (spanOf (gi_cell g) r)"
      using r s by (auto simp: span_at_def split: if_splits)
    obtain cx where cx: "cell_of (gi_cell g) (rx r) \<le> cx" "cx \<le> cell_of (gi_cell g) (rx r + rw r)"
      "cell_of (gi_cell g) (clampCoord (rx q)) \<le> cx" "cx \<le> cell_of (gi_cell g) (clampCoord (rx q) + rw q)"
      using common_cell [OF cell, of "rx r" "rx q" "rw q" "rw r"] b q r by (auto simp: rectsIntersect_def)
    obtain cy where cy: "cell_of (gi_cell g) (ry r) \<le> cy" "cy \<le> cell_of (gi_cell g) (ry r + rh r)"
      "cell_of (gi_cell g) (clampCoord (ry q)) \<le> cy" "cy \<le> cell_of (gi_cell g) (clampCoord (ry q) + rh q)"
      using common_cell [OF cell, of "ry r" "ry q" "rh q" "rh r"] b q r by (auto simp: rectsIntersect_def)
    have "cell_key cx cy \<in> set (query_keys ?span)" "cell_key cx cy \<in> set (span_keys (spanOf (gi_cell g) r))"
      unfolding query_keys_iff span_keys_iff using cx cy by (auto simp: spanOf_def)
    then show ?thesis using ent [of i] sp by (auto simp: entity_ok_def)
  qed
  have big: "i \<in> set (gi_oversized g)" if "index_rectOf g i = Some r" "span_at g i = None" for i r
    using ent [of i] that by (simp add: entity_ok_def)
  have apart: "\<not> in_bucket (gi_buckets g) key i" if "i \<in> set (gi_oversized g)" for key i
    using ent [of i] that by (simp add: entity_ok_def)
  show "set (queryRect q g) = {i. \<exists>r. index_rectOf g i = Some r \<and> ?hit r}"
    using scan(1) reach big by (auto simp: queryRect_def Let_def hits_iff bucket_at_iff) blast
  show "distinct (queryRect q g)"
    using scan(2) over apart by (auto simp: queryRect_def Let_def bucket_at_iff)
qed

lemma common_point_cell:
  assumes "0 < cell" "a \<le> v" "v \<le> a + b" "- MAX_WORLD_COORD \<le> a" "a \<le> MAX_WORLD_COORD"
  shows "cell_of cell a \<le> cell_of cell (clampCoord v) \<and> cell_of cell (clampCoord v) \<le> cell_of cell (a + b)"
proof -
  have "a \<le> clampCoord v" "clampCoord v \<le> a + b"
    using assms by (auto simp: clampCoord_def MAX_WORLD_COORD_def)
  then show ?thesis using assms(1) by (simp add: cell_of_mono)
qed

lemma queryPoint_exact:
  assumes ok: "grid_ok g"
  shows "set (queryPoint p g) = {i. \<exists>r. index_rectOf g i = Some r \<and> rectContainsPoint r p}"
    and "distinct (queryPoint p g)"
proof -
  let ?key = "cell_key (cell_of (gi_cell g) (clampCoord (vx p))) (cell_of (gi_cell g) (clampCoord (vy p)))"
  have cell: "0 < gi_cell g" and ent: "\<And>i. entity_ok g i" and buckets: "buckets_ok (gi_buckets g)"
    and over: "distinct (gi_oversized g)"
    using ok by (auto simp: grid_ok_def grid_shape_ok_def)
  have reach: "in_bucket (gi_buckets g) ?key i"
    if r: "index_rectOf g i = Some r" "rectContainsPoint r p" and s: "span_at g i \<noteq> None" for i r
  proof -
    have "sanitize_rect r = r" using ent [of i] r by (simp add: entity_ok_def)
    note b = sanitized_bounds [OF this]
    have sp: "span_at g i = Some (spanOf (gi_cell g) r)"
      using r s by (auto simp: span_at_def split: if_splits)
    have "?key \<in> set (span_keys (spanOf (gi_cell g) r))"
      unfolding span_keys_iff
      using common_point_cell [OF cell, of "rx r" "vx p" "rw r"] common_point_cell [OF cell, of "ry r" "vy p" "rh r"]
        b r by (auto simp: spanOf_def rectContainsPoint_def)
    then show ?thesis using ent [of i] sp by (auto simp: entity_ok_def)
  qed
  have big: "i \<in> set (gi_oversized g)" if "index_rectOf g i = Some r" "span_at g i = None" for i r
    using ent [of i] that by (simp add: entity_ok_def)
  have apart: "\<not> in_bucket (gi_buckets g) key i" if "i \<in> set (gi_oversized g)" for key i
    using ent [of i] that by (simp add: entity_ok_def)
  show "set (queryPoint p g) = {i. \<exists>r. index_rectOf g i = Some r \<and> rectContainsPoint r p}"
    using reach big by (auto simp: queryPoint_def Let_def hits_iff bucket_at_iff) blast
  have "distinct (bucket_at g ?key)"
    using buckets by (auto simp: bucket_at_def buckets_ok_def split: option.split)
  then show "distinct (queryPoint p g)"
    using over apart by (auto simp: queryPoint_def Let_def bucket_at_iff)
qed

section \<open>The interface\<close>

text \<open>
  What the scene graph relies on: an index is a map from ids to (normalised) rectangles, and its
  queries are what scanning that map would give.
\<close>

locale spatial_index =
  fixes inv :: "'g \<Rightarrow> bool"
    and rect_of :: "'g \<Rightarrow> EntityId \<Rightarrow> Rect option"
    and norm_rect :: "Rect \<Rightarrow> Rect"
    and add :: "EntityId \<Rightarrow> Rect \<Rightarrow> 'g \<Rightarrow> 'g"
    and move :: "EntityId \<Rightarrow> Rect \<Rightarrow> 'g \<Rightarrow> 'g"
    and drop_entity :: "EntityId \<Rightarrow> 'g \<Rightarrow> 'g"
    and find :: "Rect \<Rightarrow> 'g \<Rightarrow> EntityId list"
  assumes inv_add: "inv g \<Longrightarrow> inv (add i r g)"
    and inv_move: "inv g \<Longrightarrow> inv (move i r g)"
    and inv_drop: "inv g \<Longrightarrow> inv (drop_entity i g)"
    and rect_add: "inv g \<Longrightarrow> rect_of (add i r g) = (rect_of g)(i := Some (norm_rect r))"
    and rect_move: "inv g \<Longrightarrow> rect_of (move i r g) = (rect_of g)(i := Some (norm_rect r))"
    and rect_drop: "inv g \<Longrightarrow> rect_of (drop_entity i g) = (rect_of g)(i := None)"
    and find_exact: "inv g \<Longrightarrow> 0 \<le> rw q \<Longrightarrow> 0 \<le> rh q
      \<Longrightarrow> set (find q g) = {i. \<exists>r. rect_of g i = Some r \<and> rectsIntersect r q}"
begin

lemma move_finds_like_add:
  "inv g \<Longrightarrow> 0 \<le> rw q \<Longrightarrow> 0 \<le> rh q \<Longrightarrow> set (find q (move i r g)) = set (find q (add i r g))"
  by (simp add: find_exact inv_move inv_add rect_move rect_add)

lemma found_after_move:
  assumes "inv g" "0 \<le> rw q" "0 \<le> rh q"
  shows "j \<in> set (find q (move i r g))
    \<longleftrightarrow> (if j = i then rectsIntersect (norm_rect r) q else j \<in> set (find q g))"
  using assms by (simp add: find_exact inv_move rect_move)

lemma not_found_after_drop:
  assumes "inv g" "0 \<le> rw q" "0 \<le> rh q"
  shows "set (find q (drop_entity i g)) = set (find q g) - {i}"
  using assms by (auto simp: find_exact inv_drop rect_drop)

lemma drop_add: "inv g \<Longrightarrow> rect_of g i = None \<Longrightarrow> rect_of (drop_entity i (add i r g)) = rect_of g"
  by (simp add: rect_drop rect_add inv_add fun_upd_idem)

end

interpretation grid: spatial_index grid_ok index_rectOf sanitize_rect index_insert index_update
  index_remove queryRect
  by unfold_locales
    (simp_all add: index_insert_ok index_update_ok index_remove_ok queryRect_exact)

section \<open>Theorems\<close>

datatype index_op = Op_insert EntityId Rect | Op_update EntityId Rect | Op_remove EntityId | Op_clear

fun run_op :: "index_op \<Rightarrow> grid_index \<Rightarrow> grid_index" where
  "run_op (Op_insert i r) g = index_insert i r g"
| "run_op (Op_update i r) g = index_update i r g"
| "run_op (Op_remove i) g = index_remove i g"
| "run_op Op_clear g = index_clear g"

text \<open>The specification: a plain map of sanitized rectangles.\<close>

fun spec_op :: "index_op \<Rightarrow> (EntityId \<Rightarrow> Rect option) \<Rightarrow> EntityId \<Rightarrow> Rect option" where
  "spec_op (Op_insert i r) m = m(i := Some (sanitize_rect r))"
| "spec_op (Op_update i r) m = m(i := Some (sanitize_rect r))"
| "spec_op (Op_remove i) m = m(i := None)"
| "spec_op Op_clear m = Map.empty"

lemma run_op_ok: "grid_ok g \<Longrightarrow> grid_ok (run_op op g) \<and> index_rectOf (run_op op g) = spec_op op (index_rectOf g)"
  by (cases op) (simp_all add: index_insert_ok index_update_ok index_remove_ok index_clear_ok)

lemma run_ops_ok:
  "grid_ok g \<Longrightarrow> grid_ok (fold run_op ops g) \<and> index_rectOf (fold run_op ops g) = fold spec_op ops (index_rectOf g)"
  by (induction ops arbitrary: g) (simp_all add: run_op_ok)

text \<open>C16. The grid is a faithful spatial index: after any sequence of operations on a new index,
  \<open>rectOf\<close> is the plain map of the sanitized rectangles, and both queries return, without
  duplicates, exactly the entities that a scan of that map would: whatever the cell size, whether an
  entity sits in the grid or among the oversized ones, whether an update took the fast path, and
  whether the query went through the cells or fell back to scanning.\<close>

theorem grid_index_exact:
  assumes "0 < cellSize" "0 \<le> rw q" "0 \<le> rh q"
  shows "let g = fold run_op ops (createGridIndex (Some cellSize)); m = fold spec_op ops Map.empty
         in index_rectOf g = m
            \<and> set (queryRect q g) = {i. \<exists>r. m i = Some r \<and> rectsIntersect r q} \<and> distinct (queryRect q g)
            \<and> set (queryPoint p g) = {i. \<exists>r. m i = Some r \<and> rectContainsPoint r p} \<and> distinct (queryPoint p g)"
proof -
  have "grid_ok (createGridIndex (Some cellSize))" using assms(1) by (intro createGridIndex_ok) simp
  moreover have "index_rectOf (createGridIndex (Some cellSize)) = Map.empty"
    by (simp add: createGridIndex_def index_rectOf_def fun_eq_iff)
  ultimately have g: "grid_ok (fold run_op ops (createGridIndex (Some cellSize)))"
    "index_rectOf (fold run_op ops (createGridIndex (Some cellSize))) = fold spec_op ops Map.empty"
    using run_ops_ok [of "createGridIndex (Some cellSize)" ops] by simp_all
  show ?thesis
    using queryRect_exact [OF g(1) assms(2,3)] queryPoint_exact [OF g(1), of p]
    unfolding Let_def g(2) by blast
qed

definition sample_ops :: "index_op list" where
  "sample_ops =
     [Op_insert ''a'' \<lparr>rx = 0, ry = 0, rw = 100, rh = 100\<rparr>,
      Op_insert ''big'' \<lparr>rx = 0, ry = 0, rw = 5000, rh = 100\<rparr>,
      Op_update ''a'' \<lparr>rx = 600, ry = 0, rw = 10, rh = 100\<rparr>]"

theorem grid_index_exact_witness:
  "let g = fold run_op sample_ops (createGridIndex (Some 512))
   in set (queryRect \<lparr>rx = 620, ry = 50, rw = 1, rh = 1\<rparr> g) = {''a'', ''big''}"
proof -
  have "{i. \<exists>r. fold spec_op sample_ops Map.empty i = Some r
          \<and> rectsIntersect r \<lparr>rx = 620, ry = 50, rw = 1, rh = 1\<rparr>} = {''a'', ''big''}"
    by (auto simp: sample_ops_def rectsIntersect_def sanitize_rect_def clampCoord_def
        MIN_NODE_SIZE_def MAX_WORLD_COORD_def split: if_splits)
  then show ?thesis
    using grid_index_exact [of 512 "\<lparr>rx = 620, ry = 50, rw = 1, rh = 1\<rparr>" sample_ops "\<lparr>vx = 0, vy = 0\<rparr>"]
    by (simp add: Let_def)
qed

text \<open>Moving one entity on the drag path (the fast path included) changes what a query reports
  for that entity only, and gives the same answers as removing and inserting it.\<close>

theorem index_update_is_local:
  assumes "0 < cellSize" "0 \<le> rw q" "0 \<le> rh q"
  shows "let g = fold run_op ops (createGridIndex (Some cellSize))
         in set (queryRect q (index_update i r g)) = set (queryRect q (index_insert i r (index_remove i g)))
            \<and> (j \<in> set (queryRect q (index_update i r g)))
              = (if j = i then rectsIntersect (sanitize_rect r) q else j \<in> set (queryRect q g))"
proof -
  have "grid_ok (createGridIndex (Some cellSize))" using assms(1) by (intro createGridIndex_ok) simp
  then have g: "grid_ok (fold run_op ops (createGridIndex (Some cellSize)))" by (simp add: run_ops_ok)
  show ?thesis
    using grid.found_after_move [OF g assms(2,3)] grid.move_finds_like_add assms(2,3) g
    by (auto simp: Let_def grid.find_exact grid.inv_add grid.inv_drop grid.inv_move
        grid.rect_add grid.rect_drop grid.rect_move split: if_splits)
qed

theorem index_update_is_local_witness:
  "let g = fold run_op sample_ops (createGridIndex (Some 512)); q = \<lparr>rx = 0, ry = 0, rw = 24, rh = 24\<rparr>
   in (''a'' \<in> set (queryRect q (index_update ''a'' \<lparr>rx = 10, ry = 10, rw = 50, rh = 50\<rparr> g)))"
proof -
  have r: "rectsIntersect (sanitize_rect \<lparr>rx = 10, ry = 10, rw = 50, rh = 50\<rparr>) \<lparr>rx = 0, ry = 0, rw = 24, rh = 24\<rparr>"
    by (simp add: rectsIntersect_def sanitize_rect_def clampCoord_def MIN_NODE_SIZE_def MAX_WORLD_COORD_def)
  show ?thesis
    unfolding Let_def
    by (rule index_update_is_local [of 512 "\<lparr>rx = 0, ry = 0, rw = 24, rh = 24\<rparr>" sample_ops "''a''"
          "\<lparr>rx = 10, ry = 10, rw = 50, rh = 50\<rparr>" "''a''", unfolded Let_def if_P [OF refl],
          THEN conjunct2, THEN iffD2]) (simp_all add: r)
qed

end
