(* ===== verification/CanvasSelection.thy ===== *)
theory CanvasSelection
  imports CanvasTypes
begin

text \<open>
  The ordered selection, \<open>packages/canvas-engine/src/selection.ts\<close>, and the frame scheduler,
  \<open>packages/canvas-engine/src/scheduler.ts\<close>. The closure variables of the two factories are
  records; the listener of a selection is the log of what it was called with, and the clock a
  scheduler is given is the set of its outstanding frame requests with the next fresh handle.
\<close>

section \<open>Selection\<close>

record selection =
  sel_ids :: "EntityId list"
  sel_log :: "EntityId list list"

definition createSelection :: selection where
  "createSelection = \<lparr>sel_ids = [], sel_log = []\<rparr>"

definition unionBounds :: "Rect \<Rightarrow> Rect \<Rightarrow> Rect" where
  "unionBounds a n =
     (let x = min (rx a) (rx n); y = min (ry a) (ry n)
      in \<lparr>rx = x, ry = y, rw = max (rx a + rw a) (rx n + rw n) - x,
          rh = max (ry a + rh a) (ry n + rh n) - y\<rparr>)"

definition sameOrder :: "EntityId list \<Rightarrow> EntityId list \<Rightarrow> bool" where
  "sameOrder a b \<longleftrightarrow> length a = length b \<and> list_all (\<lambda>(x, y). x = y) (zip a b)"

definition sel_commit :: "EntityId list \<Rightarrow> selection \<Rightarrow> selection" where
  "sel_commit next s =
     (if sameOrder (sel_ids s) next then s
      else s\<lparr>sel_ids := next, sel_log := sel_log s @ [next]\<rparr>)"

definition apply_one :: "SelectionMode \<Rightarrow> EntityId \<Rightarrow> EntityId list \<Rightarrow> EntityId list" where
  "apply_one mode i next =
     (if i \<notin> set next then next @ [i]
      else if mode = Sel_toggle then remove1 i next
      else remove1 i next @ [i])"

definition sel_apply :: "EntityId list \<Rightarrow> SelectionMode \<Rightarrow> EntityId list \<Rightarrow> EntityId list" where
  "sel_apply incoming mode ids =
     (if mode = Sel_replace then js_uniq incoming
      else if mode = Sel_subtract then filter (\<lambda>i. i \<notin> set incoming) ids
      else fold (apply_one mode) incoming ids)"

definition sel_anchor :: "selection \<Rightarrow> EntityId option" where
  "sel_anchor s = last_opt (sel_ids s)"

definition sel_has :: "EntityId \<Rightarrow> selection \<Rightarrow> bool" where
  "sel_has i s \<longleftrightarrow> i \<in> set (sel_ids s)"

definition sel_set :: "EntityId list \<Rightarrow> SelectionMode \<Rightarrow> selection \<Rightarrow> selection" where
  "sel_set incoming mode s = sel_commit (sel_apply incoming mode (sel_ids s)) s"

definition sel_clear :: "selection \<Rightarrow> selection" where
  "sel_clear s = sel_commit [] s"

definition sel_selectAll :: "SceneQuery \<Rightarrow> selection \<Rightarrow> selection" where
  "sel_selectAll query s = sel_commit (map n_id (q_nodesIn query (q_sceneBounds query))) s"

definition sel_bounds :: "SceneQuery \<Rightarrow> selection \<Rightarrow> Rect option" where
  "sel_bounds query s =
     fold (\<lambda>i box.
        (case q_node query i of
           None \<Rightarrow> box
         | Some node \<Rightarrow>
             (case box of None \<Rightarrow> Some (node_rect node) | Some b \<Rightarrow> Some (unionBounds b (node_rect node)))))
       (sel_ids s) None"

subsection \<open>Lemmas\<close>

lemma sameOrder_iff: "sameOrder a b \<longleftrightarrow> a = b"
  by (auto simp: sameOrder_def list_all_iff list_eq_iff_zip_eq)

lemma sel_commit_ids [simp]: "sel_ids (sel_commit next s) = next"
  by (simp add: sel_commit_def sameOrder_iff)

lemma apply_one_distinct: "distinct ids \<Longrightarrow> distinct (apply_one mode i ids)"
  by (auto simp: apply_one_def)

lemma fold_apply_distinct: "distinct ids \<Longrightarrow> distinct (fold (apply_one mode) incoming ids)"
  by (induction incoming arbitrary: ids) (simp_all add: apply_one_distinct)

lemma fold_apply_add_set:
  "distinct ids \<Longrightarrow> set (fold (apply_one Sel_add) incoming ids) = set ids \<union> set incoming"
proof (induction incoming arbitrary: ids)
  case (Cons i incoming)
  then show ?case
    using Cons.IH [OF apply_one_distinct [OF Cons.prems, of Sel_add i]]
    by (auto simp: apply_one_def)
qed simp

lemma fold_apply_toggle_set:
  "distinct ids \<Longrightarrow> distinct incoming
   \<Longrightarrow> set (fold (apply_one Sel_toggle) incoming ids) = (set ids - set incoming) \<union> (set incoming - set ids)"
proof (induction incoming arbitrary: ids)
  case (Cons i incoming)
  then have "set (apply_one Sel_toggle i ids) = (if i \<in> set ids then set ids - {i} else insert i (set ids))"
    by (simp add: apply_one_def)
  with Cons.IH [OF apply_one_distinct [OF Cons.prems(1), of Sel_toggle i]] Cons.prems(2) show ?case
    by (auto split: if_splits)
qed simp

lemma fold_apply_add_last:
  "incoming \<noteq> [] \<Longrightarrow> last_opt (fold (apply_one Sel_add) incoming ids) = Some (last incoming)"
  by (induction incoming rule: rev_induct) (auto simp: apply_one_def last_opt_def)

section \<open>Scheduler\<close>

record scheduler =
  sch_handle :: "nat option"
  sch_wanted :: bool
  sch_paused :: bool
  sch_disposed :: bool
  clk_next :: nat
  clk_outstanding :: "nat list"
  sch_frames :: "real list"

definition createScheduler :: "nat \<Rightarrow> scheduler" where
  "createScheduler fresh =
     \<lparr>sch_handle = None, sch_wanted = False, sch_paused = False, sch_disposed = False,
      clk_next = fresh, clk_outstanding = [], sch_frames = []\<rparr>"

definition sch_schedule :: "scheduler \<Rightarrow> scheduler" where
  "sch_schedule s =
     (if sch_handle s \<noteq> None \<or> sch_paused s \<or> sch_disposed s then s
      else s\<lparr>sch_handle := Some (clk_next s), clk_next := Suc (clk_next s),
             clk_outstanding := clk_outstanding s @ [clk_next s]\<rparr>)"

definition sch_cancel :: "scheduler \<Rightarrow> scheduler" where
  "sch_cancel s =
     (case sch_handle s of
        None \<Rightarrow> s
      | Some h \<Rightarrow> s\<lparr>clk_outstanding := filter (\<lambda>h'. h' \<noteq> h) (clk_outstanding s), sch_handle := None\<rparr>)"

definition sch_request :: "scheduler \<Rightarrow> scheduler" where
  "sch_request s = (if sch_disposed s then s else sch_schedule (s\<lparr>sch_wanted := True\<rparr>))"

definition sch_pending :: "scheduler \<Rightarrow> bool" where
  "sch_pending s \<longleftrightarrow> sch_handle s \<noteq> None \<or> (sch_wanted s \<and> sch_paused s)"

definition sch_setPaused :: "bool \<Rightarrow> scheduler \<Rightarrow> scheduler" where
  "sch_setPaused next s =
     (if sch_disposed s \<or> next = sch_paused s then s
      else (let s' = s\<lparr>sch_paused := next\<rparr>
            in if next then sch_cancel s'
               else if sch_wanted s' then sch_schedule s' else s'))"

definition sch_dispose :: "scheduler \<Rightarrow> scheduler" where
  "sch_dispose s = sch_cancel (s\<lparr>sch_disposed := True, sch_wanted := False\<rparr>)"

text \<open>The callback \<open>run\<close>, invoked by the clock with one of its outstanding handles.\<close>

definition sch_run :: "nat \<Rightarrow> real \<Rightarrow> scheduler \<Rightarrow> scheduler" where
  "sch_run h now s =
     s\<lparr>clk_outstanding := filter (\<lambda>h'. h' \<noteq> h) (clk_outstanding s), sch_handle := None,
       sch_wanted := False, sch_frames := sch_frames s @ [now]\<rparr>"

text \<open>What can happen to a scheduler, with the number of requests so far.\<close>

inductive sch_reachable :: "nat \<Rightarrow> nat \<Rightarrow> scheduler \<Rightarrow> bool" for fresh :: nat where
  sch_start: "sch_reachable fresh 0 (createScheduler fresh)"
| sch_req: "sch_reachable fresh n s \<Longrightarrow> sch_reachable fresh (Suc n) (sch_request s)"
| sch_pause: "sch_reachable fresh n s \<Longrightarrow> sch_reachable fresh n (sch_setPaused b s)"
| sch_disp: "sch_reachable fresh n s \<Longrightarrow> sch_reachable fresh n (sch_dispose s)"
| sch_frame: "sch_reachable fresh n s \<Longrightarrow> h \<in> set (clk_outstanding s)
    \<Longrightarrow> sch_reachable fresh n (sch_run h now s)"

definition sch_inv :: "nat \<Rightarrow> scheduler \<Rightarrow> bool" where
  "sch_inv n s \<longleftrightarrow>
     clk_outstanding s = (case sch_handle s of None \<Rightarrow> [] | Some h \<Rightarrow> [h])
     \<and> (sch_handle s \<noteq> None \<longrightarrow> sch_wanted s \<and> \<not> sch_paused s \<and> \<not> sch_disposed s)
     \<and> (sch_wanted s \<longrightarrow> sch_handle s \<noteq> None \<or> sch_paused s)
     \<and> (sch_disposed s \<longrightarrow> \<not> sch_wanted s)
     \<and> length (sch_frames s) + (if sch_wanted s then 1 else 0) \<le> n"

lemma sch_inv_reachable:
  assumes "sch_reachable fresh n s"
  shows "sch_inv n s"
  using assms
proof (induction rule: sch_reachable.induct)
  case (sch_frame n s h now)
  then show ?case
    by (auto simp: sch_inv_def sch_run_def split: option.splits)
qed (auto simp: sch_inv_def createScheduler_def sch_request_def sch_schedule_def sch_setPaused_def
    sch_cancel_def sch_dispose_def Let_def split: option.splits if_splits)

section \<open>Theorems\<close>

text \<open>Selection modes are set operations on an ordered set: ids stay unique; replace, add,
  subtract and toggle give the incoming set, the union, the difference and the symmetric difference;
  \<open>add\<close> makes the last incoming id the anchor, even one that was already selected.\<close>

theorem selection_modes:
  assumes "distinct (sel_ids s)" "distinct incoming"
  shows "distinct (sel_ids (sel_set incoming mode s))
    \<and> set (sel_ids (sel_set incoming mode s)) =
        (case mode of Sel_replace \<Rightarrow> set incoming
         | Sel_add \<Rightarrow> set (sel_ids s) \<union> set incoming
         | Sel_subtract \<Rightarrow> set (sel_ids s) - set incoming
         | Sel_toggle \<Rightarrow> (set (sel_ids s) - set incoming) \<union> (set incoming - set (sel_ids s)))
    \<and> (mode = Sel_add \<and> incoming \<noteq> [] \<longrightarrow> sel_anchor (sel_set incoming mode s) = Some (last incoming))
    \<and> set (sel_ids (sel_set incoming Sel_toggle (sel_set incoming Sel_toggle s))) = set (sel_ids s)"
proof -
  have t: "set (sel_ids (sel_set incoming Sel_toggle s)) =
      (set (sel_ids s) - set incoming) \<union> (set incoming - set (sel_ids s))"
    "distinct (sel_ids (sel_set incoming Sel_toggle s))"
    using assms by (simp_all add: sel_set_def sel_apply_def fold_apply_toggle_set fold_apply_distinct)
  have "set (sel_ids (sel_set incoming Sel_toggle (sel_set incoming Sel_toggle s))) =
      (set (sel_ids (sel_set incoming Sel_toggle s)) - set incoming)
      \<union> (set incoming - set (sel_ids (sel_set incoming Sel_toggle s)))"
    using fold_apply_toggle_set [OF t(2) assms(2)] by (simp add: sel_set_def [of incoming _ "sel_set _ _ _"] sel_apply_def)
  then have "set (sel_ids (sel_set incoming Sel_toggle (sel_set incoming Sel_toggle s))) = set (sel_ids s)"
    unfolding t by auto
  then show ?thesis
    using assms
    by (cases mode) (auto simp: sel_set_def sel_apply_def fold_apply_add_set fold_apply_toggle_set
        fold_apply_distinct sel_anchor_def fold_apply_add_last)
qed

theorem selection_modes_witness:
  "sel_anchor (sel_set [''a''] Sel_add \<lparr>sel_ids = [''a'', ''b''], sel_log = []\<rparr>) = Some ''a''"
  using selection_modes [of "\<lparr>sel_ids = [''a'', ''b''], sel_log = []\<rparr>" "[''a'']" Sel_add] by simp

text \<open>The scheduler coalesces and never loses a frame: at any time at most one frame is
  outstanding at the clock, none while it is paused or disposed; a request that has not been painted
  is either scheduled or remembered for the resume; and it never paints more often than it was asked.\<close>

theorem scheduler_coalesces:
  assumes "sch_reachable fresh n s"
  shows "length (clk_outstanding s) \<le> 1
    \<and> (sch_paused s \<or> sch_disposed s \<longrightarrow> clk_outstanding s = [])
    \<and> sch_wanted s = sch_pending s
    \<and> (sch_wanted s \<and> \<not> sch_paused s \<longrightarrow> clk_outstanding s \<noteq> [])
    \<and> length (sch_frames s) + (if sch_pending s then 1 else 0) \<le> n"
  using sch_inv_reachable [OF assms] by (auto simp: sch_inv_def sch_pending_def split: option.splits if_splits)

theorem scheduler_coalesces_witness:
  "length (clk_outstanding (sch_request (sch_request (createScheduler 0)))) \<le> 1
   \<and> sch_frames (sch_run 0 16 (sch_request (sch_request (createScheduler 0)))) = [16]"
proof -
  have "sch_reachable 0 2 (sch_request (sch_request (createScheduler 0)))"
    using sch_start sch_req by (metis Suc_1 One_nat_def)
  from scheduler_coalesces [OF this] show ?thesis
    by (simp add: sch_run_def sch_request_def sch_schedule_def createScheduler_def)
qed

end
