(* ===== verification/CanvasSnapping.thy ===== *)
theory CanvasSnapping
  imports CanvasTypes
begin

text \<open>
  Grid snap, alignment snap and distribution guides, \<open>packages/canvas-engine/src/interaction/snapping.ts\<close>.
  The search loops of \<open>alignAxis\<close> are folds over the candidate lines with the best match so far;
  the two nested loops of \<open>distributeAxis\<close> return at the first match.
\<close>

section \<open>Model\<close>

definition GUIDE_EXTEND_PX :: real where "GUIDE_EXTEND_PX = 24"

datatype Axis = Axis_x | Axis_y

datatype GuideKind = G_align | G_distribute

record GuideLine =
  g_axis :: Axis
  g_pos :: real
  g_from :: real
  g_to :: real
  g_kind :: GuideKind
  g_gap :: "real option"

record SnapInput =
  si_box :: Rect
  si_delta :: Vec2
  si_candidates :: "NodeView list"
  si_moving :: "NodeId set"
  si_zoom :: real
  si_gridSnap :: bool
  si_objectSnap :: bool
  si_suspend :: bool

record SnapResult =
  sr_delta :: Vec2
  sr_guides :: "GuideLine list"

record snap_line =
  ln_pos :: real
  ln_lo :: real
  ln_hi :: real

definition linesX :: "Rect \<Rightarrow> snap_line list" where
  "linesX r =
     [\<lparr>ln_pos = rx r, ln_lo = ry r, ln_hi = ry r + rh r\<rparr>,
      \<lparr>ln_pos = rx r + rw r / 2, ln_lo = ry r, ln_hi = ry r + rh r\<rparr>,
      \<lparr>ln_pos = rx r + rw r, ln_lo = ry r, ln_hi = ry r + rh r\<rparr>]"

definition linesY :: "Rect \<Rightarrow> snap_line list" where
  "linesY r =
     [\<lparr>ln_pos = ry r, ln_lo = rx r, ln_hi = rx r + rw r\<rparr>,
      \<lparr>ln_pos = ry r + rh r / 2, ln_lo = rx r, ln_hi = rx r + rw r\<rparr>,
      \<lparr>ln_pos = ry r + rh r, ln_lo = rx r, ln_hi = rx r + rw r\<rparr>]"

definition centerX :: "Rect \<Rightarrow> real" where "centerX r = rx r + rw r / 2"
definition centerY :: "Rect \<Rightarrow> real" where "centerY r = ry r + rh r / 2"

definition distanceSq :: "Rect \<Rightarrow> Rect \<Rightarrow> real" where
  "distanceSq a b =
     (let dx = centerX a - centerX b; dy = centerY a - centerY b in dx * dx + dy * dy)"

definition nearest :: "Rect \<Rightarrow> NodeView list \<Rightarrow> NodeId set \<Rightarrow> Rect list" where
  "nearest moved candidates moving =
     take SNAP_CANDIDATE_LIMIT
       (sort_key (distanceSq moved)
         (map node_rect (filter (\<lambda>n. \<not> (n_id n \<in> moving \<or> n_hidden n)) candidates)))"

record axis_snap =
  as_adjust :: real
  as_guide :: GuideLine

record best_match =
  bm_adjust :: real
  bm_abs :: real
  bm_a :: snap_line
  bm_b :: snap_line

definition lines_of :: "Axis \<Rightarrow> Rect \<Rightarrow> snap_line list" where
  "lines_of axis = (case axis of Axis_x \<Rightarrow> linesX | Axis_y \<Rightarrow> linesY)"

definition try_lines :: "real \<Rightarrow> snap_line \<times> snap_line \<Rightarrow> best_match option \<Rightarrow> best_match option" where
  "try_lines tol cm best =
     (case cm of (c, m) \<Rightarrow>
        let d = ln_pos c - ln_pos m
        in if tol < \<bar>d\<bar> then best
           else if (case best of None \<Rightarrow> True | Some b \<Rightarrow> \<bar>d\<bar> < bm_abs b - 1 / 10 ^ 9)
           then Some \<lparr>bm_adjust = d, bm_abs = \<bar>d\<bar>, bm_a = m, bm_b = c\<rparr>
           else best)"

text \<open>All pairs in the order of the three loops: candidate, its line, the moved line.\<close>

definition line_pairs :: "Axis \<Rightarrow> Rect \<Rightarrow> Rect list \<Rightarrow> (snap_line \<times> snap_line) list" where
  "line_pairs axis moved candidates =
     concat (map (\<lambda>cand. concat (map (\<lambda>c. map (\<lambda>m. (c, m)) (lines_of axis moved)) (lines_of axis cand)))
               candidates)"

definition alignAxis :: "Axis \<Rightarrow> Rect \<Rightarrow> Rect list \<Rightarrow> real \<Rightarrow> axis_snap option" where
  "alignAxis axis moved candidates zoom =
     (let tol = SNAP_TOL_PX / zoom
      in case fold (try_lines tol) (line_pairs axis moved candidates) None of
           None \<Rightarrow> None
         | Some best \<Rightarrow>
             (let lo = min (ln_lo (bm_a best)) (ln_lo (bm_b best)) - GUIDE_EXTEND_PX;
                  hi = max (ln_hi (bm_a best)) (ln_hi (bm_b best)) + GUIDE_EXTEND_PX
              in Some \<lparr>as_adjust = bm_adjust best,
                       as_guide = \<lparr>g_axis = axis, g_pos = ln_pos (bm_b best), g_from = lo, g_to = hi,
                                   g_kind = G_align, g_gap = None\<rparr>\<rparr>))"

definition r_start :: "Axis \<Rightarrow> Rect \<Rightarrow> real" where
  "r_start axis r = (case axis of Axis_x \<Rightarrow> rx r | Axis_y \<Rightarrow> ry r)"

definition r_end :: "Axis \<Rightarrow> Rect \<Rightarrow> real" where
  "r_end axis r = (case axis of Axis_x \<Rightarrow> rx r + rw r | Axis_y \<Rightarrow> ry r + rh r)"

definition crossLo :: "Axis \<Rightarrow> Rect \<Rightarrow> real" where
  "crossLo axis r = (case axis of Axis_x \<Rightarrow> ry r | Axis_y \<Rightarrow> rx r)"

definition crossHi :: "Axis \<Rightarrow> Rect \<Rightarrow> real" where
  "crossHi axis r = (case axis of Axis_x \<Rightarrow> ry r + rh r | Axis_y \<Rightarrow> rx r + rw r)"

definition try_target ::
  "Axis \<Rightarrow> Rect \<Rightarrow> real \<Rightarrow> Rect \<Rightarrow> Rect \<Rightarrow> real \<Rightarrow> real \<Rightarrow> axis_snap option" where
  "try_target axis moved tol a b gap target =
     (let adjust = target - r_start axis moved
      in if tol < \<bar>adjust\<bar> then None
         else (let lo = min (min (crossLo axis a) (crossLo axis b)) (crossLo axis moved);
                   hi = max (max (crossHi axis a) (crossHi axis b)) (crossHi axis moved)
               in Some \<lparr>as_adjust = adjust,
                        as_guide = \<lparr>g_axis = axis, g_pos = target, g_from = lo - GUIDE_EXTEND_PX,
                                    g_to = hi + GUIDE_EXTEND_PX, g_kind = G_distribute,
                                    g_gap = Some gap\<rparr>\<rparr>))"

fun distribute_row :: "Axis \<Rightarrow> Rect \<Rightarrow> real \<Rightarrow> Rect list \<Rightarrow> axis_snap option" where
  "distribute_row axis moved tol (a # b # rest) =
     (let gap = r_start axis b - r_end axis a
      in if gap \<le> 0 then distribute_row axis moved tol (b # rest)
         else case try_target axis moved tol a b gap (r_end axis b + gap) of
                Some s \<Rightarrow> Some s
              | None \<Rightarrow>
                  (case try_target axis moved tol a b gap
                          (r_start axis a - gap - (r_end axis moved - r_start axis moved)) of
                     Some s \<Rightarrow> Some s
                   | None \<Rightarrow> distribute_row axis moved tol (b # rest)))"
| "distribute_row axis moved tol _ = None"

definition distributeAxis :: "Axis \<Rightarrow> Rect \<Rightarrow> Rect list \<Rightarrow> real \<Rightarrow> axis_snap option" where
  "distributeAxis axis moved candidates zoom =
     (let tol = SNAP_TOL_PX / zoom;
          row = sort_key (r_start axis)
                  (filter (\<lambda>c. crossLo axis moved < crossHi axis c \<and> crossLo axis c < crossHi axis moved)
                     candidates)
      in if length row < 2 then None else distribute_row axis moved tol row)"

text \<open>\<open>Math.round\<close> rounds halves up.\<close>

definition snapToGrid :: "real \<Rightarrow> real" where
  "snapToGrid v = of_int \<lfloor>v / GRID_SNAP + 1 / 2\<rfloor> * GRID_SNAP"

definition snap_axis :: "Axis \<Rightarrow> Rect \<Rightarrow> Rect list \<Rightarrow> real \<Rightarrow> axis_snap option" where
  "snap_axis axis raw candidates zoom =
     (case alignAxis axis raw candidates zoom of
        Some s \<Rightarrow> Some s
      | None \<Rightarrow> distributeAxis axis raw candidates zoom)"

definition snapDrag :: "SnapInput \<Rightarrow> SnapResult" where
  "snapDrag i =
     (let box = si_box i; delta = si_delta i; zoom = si_zoom i
      in if si_suspend i then \<lparr>sr_delta = delta, sr_guides = []\<rparr>
         else
           (let dx = (if si_gridSnap i then snapToGrid (rx box + vx delta) - rx box else vx delta);
                dy = (if si_gridSnap i then snapToGrid (ry box + vy delta) - ry box else vy delta)
            in if \<not> si_objectSnap i then \<lparr>sr_delta = \<lparr>vx = dx, vy = dy\<rparr>, sr_guides = []\<rparr>
               else
                 (let raw = \<lparr>rx = rx box + vx delta, ry = ry box + vy delta, rw = rw box, rh = rh box\<rparr>;
                      candidates = nearest raw (si_candidates i) (si_moving i);
                      sx = snap_axis Axis_x raw candidates zoom;
                      sy = snap_axis Axis_y raw candidates zoom
                  in \<lparr>sr_delta =
                        \<lparr>vx = (case sx of None \<Rightarrow> dx | Some s \<Rightarrow> vx delta + as_adjust s),
                         vy = (case sy of None \<Rightarrow> dy | Some s \<Rightarrow> vy delta + as_adjust s)\<rparr>,
                      sr_guides = (case sx of None \<Rightarrow> [] | Some s \<Rightarrow> [as_guide s])
                                  @ (case sy of None \<Rightarrow> [] | Some s \<Rightarrow> [as_guide s])\<rparr>)))"

section \<open>Alignment\<close>

lemma line_pairs_in:
  "(c, m) \<in> set (line_pairs axis moved candidates) \<longleftrightarrow>
     m \<in> set (lines_of axis moved) \<and> (\<exists>r\<in>set candidates. c \<in> set (lines_of axis r))"
  by (auto simp: line_pairs_def)

text \<open>What the fold keeps: a match within the tolerance, no pair of which is better by the margin.\<close>

definition best_ok :: "real \<Rightarrow> (snap_line \<times> snap_line) list \<Rightarrow> best_match option \<Rightarrow> bool" where
  "best_ok tol pairs best \<longleftrightarrow>
     (case best of
        None \<Rightarrow> list_all (\<lambda>(c, m). tol < \<bar>ln_pos c - ln_pos m\<bar>) pairs
      | Some b \<Rightarrow>
          (bm_b b, bm_a b) \<in> set pairs \<and> bm_adjust b = ln_pos (bm_b b) - ln_pos (bm_a b)
          \<and> bm_abs b = \<bar>bm_adjust b\<bar> \<and> bm_abs b \<le> tol
          \<and> list_all (\<lambda>(c, m). bm_abs b - 1 / 10 ^ 9 \<le> \<bar>ln_pos c - ln_pos m\<bar>) pairs)"

lemma best_ok_step:
  assumes "best_ok tol pairs best"
  shows "best_ok tol (pairs @ [cm]) (try_lines tol cm best)"
proof -
  obtain c m where cm: "cm = (c, m)" by force
  show ?thesis
    using assms
    by (cases best) (auto simp: cm best_ok_def try_lines_def Let_def list_all_iff)
qed

lemma best_ok_fold:
  "best_ok tol done_pairs best \<Longrightarrow> best_ok tol (done_pairs @ pairs) (fold (try_lines tol) pairs best)"
proof (induction pairs arbitrary: done_pairs best)
  case (Cons cm pairs)
  from Cons.IH [OF best_ok_step [OF Cons.prems]] show ?case by simp
qed simp

lemma alignAxis_spec:
  "case alignAxis axis moved candidates zoom of
     None \<Rightarrow> list_all (\<lambda>(c, m). SNAP_TOL_PX / zoom < \<bar>ln_pos c - ln_pos m\<bar>) (line_pairs axis moved candidates)
   | Some s \<Rightarrow>
       \<bar>as_adjust s\<bar> \<le> SNAP_TOL_PX / zoom
       \<and> (\<exists>c m. (c, m) \<in> set (line_pairs axis moved candidates)
             \<and> ln_pos m + as_adjust s = ln_pos c \<and> g_pos (as_guide s) = ln_pos c)
       \<and> list_all (\<lambda>(c, m). \<bar>as_adjust s\<bar> - 1 / 10 ^ 9 \<le> \<bar>ln_pos c - ln_pos m\<bar>)
           (line_pairs axis moved candidates)"
proof -
  have "best_ok (SNAP_TOL_PX / zoom) [] None" by (simp add: best_ok_def)
  from best_ok_fold [OF this, of "line_pairs axis moved candidates"]
  have ok: "best_ok (SNAP_TOL_PX / zoom) (line_pairs axis moved candidates)
    (fold (try_lines (SNAP_TOL_PX / zoom)) (line_pairs axis moved candidates) None)" by simp
  show ?thesis
  proof (cases "fold (try_lines (SNAP_TOL_PX / zoom)) (line_pairs axis moved candidates) None")
    case None
    with ok show ?thesis by (simp add: alignAxis_def Let_def best_ok_def)
  next
    case (Some b)
    with ok show ?thesis
      by (auto simp: alignAxis_def Let_def best_ok_def)
        (rule exI [of _ "bm_b b"], rule exI [of _ "bm_a b"], simp)
  qed
qed

section \<open>Distribution\<close>

lemma try_target_Some:
  assumes "try_target axis moved tol a b gap target = Some s"
  shows "\<bar>as_adjust s\<bar> \<le> tol \<and> r_start axis moved + as_adjust s = target \<and> g_gap (as_guide s) = Some gap
    \<and> g_pos (as_guide s) = target"
  using assms by (auto simp: try_target_def Let_def split: if_splits)

lemma distribute_row_Some:
  assumes "distribute_row axis moved tol row = Some s"
  shows "\<bar>as_adjust s\<bar> \<le> tol
    \<and> (\<exists>a\<in>set row. \<exists>b\<in>set row. \<exists>gap>0. gap = r_start axis b - r_end axis a \<and> g_gap (as_guide s) = Some gap
         \<and> (r_start axis moved + as_adjust s - r_end axis b = gap
            \<or> r_start axis a - (r_end axis moved + as_adjust s) = gap))"
  using assms
proof (induction row rule: induct_list012)
  case (3 a b rest)
  let ?gap = "r_start axis b - r_end axis a"
  show ?case
  proof (cases "distribute_row axis moved tol (b # rest) = Some s")
    case True
    from "3.IH"(2) [OF this] obtain a' b' gap where "a' \<in> set (b # rest)" "b' \<in> set (b # rest)"
      "gap > 0" "gap = r_start axis b' - r_end axis a'" "g_gap (as_guide s) = Some gap"
      "r_start axis moved + as_adjust s - r_end axis b' = gap
        \<or> r_start axis a' - (r_end axis moved + as_adjust s) = gap" "\<bar>as_adjust s\<bar> \<le> tol" by blast
    then show ?thesis
      by (intro conjI bexI [of _ a'] bexI [of _ b'] exI [of _ gap]) auto
  next
    case False
    with "3.prems" have gap: "0 < ?gap" by (auto simp: Let_def split: if_splits)
    from False "3.prems" consider
      "try_target axis moved tol a b ?gap (r_end axis b + ?gap) = Some s"
      | "try_target axis moved tol a b ?gap (r_start axis a - ?gap - (r_end axis moved - r_start axis moved)) = Some s"
      by (auto simp: Let_def split: if_splits option.splits)
    then show ?thesis
    proof cases
      case 1
      from try_target_Some [OF this] gap show ?thesis
        by (intro conjI bexI [of _ a] bexI [of _ b] exI [of _ ?gap]) auto
    next
      case 2
      from try_target_Some [OF this] gap show ?thesis
        by (intro conjI bexI [of _ a] bexI [of _ b] exI [of _ ?gap]) auto
    qed
  qed
qed simp_all

section \<open>Theorems\<close>

lemma snap_axis_bound:
  assumes "snap_axis axis raw candidates zoom = Some s"
  shows "\<bar>as_adjust s\<bar> \<le> SNAP_TOL_PX / zoom"
  using assms alignAxis_spec [where axis = axis and moved = raw and candidates = candidates and zoom = zoom]
  by (auto simp: snap_axis_def distributeAxis_def Let_def dest: distribute_row_Some
      split: option.splits if_splits)

lemma snapToGrid_close: "\<bar>snapToGrid v - v\<bar> \<le> GRID_SNAP / 2"
proof -
  define k :: real where "k = of_int \<lfloor>v / 8 + 1 / 2\<rfloor>"
  have "k \<le> v / 8 + 1 / 2" "v / 8 + 1 / 2 < k + 1"
    unfolding k_def by (rule of_int_floor_le, rule real_of_int_floor_add_one_gt)
  then have "\<bar>k * 8 - v\<bar> \<le> 4" by (simp add: abs_le_iff)
  then show ?thesis by (simp add: snapToGrid_def GRID_SNAP_def k_def)
qed

text \<open>Snapping never runs away from the pointer: while it is suspended the delta is the raw
  one, and otherwise each axis is corrected by at most the tolerance of 6 screen pixels or, with
  grid snap on, half a grid step.\<close>

theorem snapDrag_stays_close:
  assumes "0 < si_zoom i"
  shows "let d = sr_delta (snapDrag i); raw = si_delta i;
             tol = (if si_suspend i then 0
                    else max (SNAP_TOL_PX / si_zoom i) (if si_gridSnap i then GRID_SNAP / 2 else 0))
         in \<bar>vx d - vx raw\<bar> \<le> tol \<and> \<bar>vy d - vy raw\<bar> \<le> tol"
proof -
  have tol: "0 < SNAP_TOL_PX / si_zoom i" using assms by (simp add: SNAP_TOL_PX_def)
  have grid: "\<bar>snapToGrid (a + b) - a - b\<bar> \<le> GRID_SNAP / 2" for a b
    using snapToGrid_close [of "a + b"] by (simp add: algebra_simps)
  show ?thesis
    using tol grid [of "rx (si_box i)" "vx (si_delta i)"] grid [of "ry (si_box i)" "vy (si_delta i)"]
    by (auto simp: snapDrag_def Let_def GRID_SNAP_def le_max_iff_disj dest: snap_axis_bound split: option.split)
qed

theorem snapDrag_stays_close_witness:
  "\<bar>vx (sr_delta (snapDrag \<lparr>si_box = \<lparr>rx = 0, ry = 0, rw = 10, rh = 10\<rparr>, si_delta = \<lparr>vx = 3, vy = 5\<rparr>,
      si_candidates = [], si_moving = {}, si_zoom = 2, si_gridSnap = True, si_objectSnap = False,
      si_suspend = False\<rparr>)) - 3\<bar> \<le> 4"
  using snapDrag_stays_close [of "\<lparr>si_box = \<lparr>rx = 0, ry = 0, rw = 10, rh = 10\<rparr>, si_delta = \<lparr>vx = 3, vy = 5\<rparr>,
      si_candidates = [], si_moving = {}, si_zoom = 2, si_gridSnap = True, si_objectSnap = False,
      si_suspend = False\<rparr>"]
  by (simp add: Let_def SNAP_TOL_PX_def GRID_SNAP_def)

text \<open>What a guide claims: the snapped box shares a line with a node that is not being dragged, or
  continues the equal spacing of two such nodes.\<close>

definition guide_true :: "Rect list \<Rightarrow> Rect \<Rightarrow> GuideLine \<Rightarrow> bool" where
  "guide_true others box g \<longleftrightarrow>
     (case g_kind g of
        G_align \<Rightarrow>
          list_ex (\<lambda>m. ln_pos m = g_pos g) (lines_of (g_axis g) box)
          \<and> list_ex (\<lambda>r. list_ex (\<lambda>c. ln_pos c = g_pos g) (lines_of (g_axis g) r)) others
      | G_distribute \<Rightarrow>
          list_ex (\<lambda>a. list_ex (\<lambda>b.
            (let gap = r_start (g_axis g) b - r_end (g_axis g) a
             in 0 < gap \<and> g_gap g = Some gap
                \<and> (r_start (g_axis g) box - r_end (g_axis g) b = gap
                   \<or> r_start (g_axis g) a - r_end (g_axis g) box = gap))) others) others)"

definition shift_rect :: "Rect \<Rightarrow> Vec2 \<Rightarrow> Rect" where
  "shift_rect r d = \<lparr>rx = rx r + vx d, ry = ry r + vy d, rw = rw r, rh = rh r\<rparr>"

lemma snap_axis_guide:
  assumes "snap_axis axis raw candidates zoom = Some s"
    and "r_start axis box = r_start axis raw + as_adjust s"
    and "rw box = rw raw" "rh box = rh raw"
  shows "guide_true candidates box (as_guide s)"
proof (cases "alignAxis axis raw candidates zoom")
  case (Some s')
  with assms(1) have s: "alignAxis axis raw candidates zoom = Some s" by (simp add: snap_axis_def)
  then obtain c m where cm: "(c, m) \<in> set (line_pairs axis raw candidates)"
    "ln_pos m + as_adjust s = ln_pos c" "g_pos (as_guide s) = ln_pos c"
    using alignAxis_spec [where axis = axis and moved = raw and candidates = candidates and zoom = zoom] by auto
  have kind: "g_kind (as_guide s) = G_align" "g_axis (as_guide s) = axis"
    using s by (auto simp: alignAxis_def Let_def split: option.splits)
  have "\<exists>m'\<in>set (lines_of axis box). ln_pos m' = ln_pos m + as_adjust s"
    using cm(1) assms(2-4)
    by (cases axis) (auto simp: line_pairs_in lines_of_def linesX_def linesY_def r_start_def)
  with cm kind show ?thesis by (auto simp: guide_true_def list_ex_iff line_pairs_in)
next
  case None
  with assms(1) have "distributeAxis axis raw candidates zoom = Some s" by (simp add: snap_axis_def)
  then have row: "distribute_row axis raw (SNAP_TOL_PX / zoom) (sort_key (r_start axis)
      (filter (\<lambda>c. crossLo axis raw < crossHi axis c \<and> crossLo axis c < crossHi axis raw) candidates)) = Some s"
    by (auto simp: distributeAxis_def Let_def split: if_splits)
  have kind: "g_kind (as_guide s) = G_distribute \<and> g_axis (as_guide s) = axis"
    if "distribute_row axis raw tol rs = Some s" for tol rs
    using that by (induction rs rule: induct_list012)
      (auto simp: try_target_def Let_def split: if_splits option.splits)
  have "r_end axis box = r_end axis raw + as_adjust s"
    using assms(2-4) by (cases axis) (auto simp: r_start_def r_end_def)
  with distribute_row_Some [OF row] kind [OF row] assms(2) show ?thesis
    by (auto simp: guide_true_def list_ex_iff Let_def)
qed

text \<open>Guides do not lie: every guide that \<open>snapDrag\<close> returns is true of the box at the snapped
  position, with respect to visible nodes outside the dragged set.\<close>

theorem snapDrag_guides_true:
  "list_all
     (guide_true (map node_rect (filter (\<lambda>n. n_id n \<notin> si_moving i \<and> \<not> n_hidden n) (si_candidates i)))
        (shift_rect (si_box i) (sr_delta (snapDrag i))))
     (sr_guides (snapDrag i))"
proof -
  let ?others = "map node_rect (filter (\<lambda>n. n_id n \<notin> si_moving i \<and> \<not> n_hidden n) (si_candidates i))"
  let ?raw = "shift_rect (si_box i) (si_delta i)"
  let ?near = "nearest ?raw (si_candidates i) (si_moving i)"
  let ?box = "shift_rect (si_box i) (sr_delta (snapDrag i))"
  have sub: "set ?near \<subseteq> set ?others"
    by (auto simp: nearest_def dest!: in_set_takeD)
  have mono: "guide_true ?near box g \<Longrightarrow> guide_true ?others box g" for box g
    using sub by (auto simp: guide_true_def list_ex_iff Let_def split: GuideKind.splits) blast+
  have x: "r_start Axis_x ?box = r_start Axis_x ?raw + as_adjust s"
    if "snap_axis Axis_x ?raw ?near (si_zoom i) = Some s" "\<not> si_suspend i" "si_objectSnap i" for s
    using that by (simp add: snapDrag_def Let_def r_start_def shift_rect_def)
  have y: "r_start Axis_y ?box = r_start Axis_y ?raw + as_adjust s"
    if "snap_axis Axis_y ?raw ?near (si_zoom i) = Some s" "\<not> si_suspend i" "si_objectSnap i" for s
    using that by (simp add: snapDrag_def Let_def r_start_def shift_rect_def)
  have wh: "rw ?box = rw ?raw" "rh ?box = rh ?raw" by (simp_all add: shift_rect_def)
  have guides: "g \<in> set (sr_guides (snapDrag i)) \<Longrightarrow>
      \<not> si_suspend i \<and> si_objectSnap i
      \<and> (\<exists>axis s. snap_axis axis ?raw ?near (si_zoom i) = Some s \<and> g = as_guide s)" for g
    by (auto simp: snapDrag_def Let_def shift_rect_def split: if_splits option.splits) metis+
  have "guide_true ?others ?box g" if g: "g \<in> set (sr_guides (snapDrag i))" for g
  proof -
    from guides [OF g] obtain axis s where s: "\<not> si_suspend i" "si_objectSnap i"
      "snap_axis axis ?raw ?near (si_zoom i) = Some s" "g = as_guide s" by blast
    then have "r_start axis ?box = r_start axis ?raw + as_adjust s"
      using x y by (cases axis) auto
    from snap_axis_guide [OF s(3) this wh] show ?thesis unfolding s(4) by (rule mono)
  qed
  then show ?thesis by (simp only: list_all_iff) blast
qed

end
