(* ===== verification/CanvasFsm.thy ===== *)
theory CanvasFsm
  imports CanvasSnapping "HOL-Library.Product_Lexorder"
begin

text \<open>
  The interaction state machine, \<open>packages/canvas-engine/src/interaction/fsm.ts\<close>: the reducer
  \<open>reduce\<close> with all its handlers, effects returned as data. States are a datatype whose gesture
  constructors carry the record of that variant's fields; \<open>FsmContext\<close> carries the scene behind
  its query interface.
\<close>

section \<open>States, events, effects\<close>

record Modifiers =
  m_shift :: bool
  m_alt :: bool
  m_ctrl :: bool
  m_meta :: bool

record NodePosition =
  np_id :: NodeId
  np_x :: real
  np_y :: real

record press_state =
  pr_pointer :: int
  pr_screen :: Vec2
  pr_world :: Vec2
  pr_target :: HitTarget
  pr_mode :: SelectionMode
  pr_time :: real
  pr_fromSpace :: bool

record marquee_state =
  mq_pointer :: int
  mq_origin :: Vec2
  mq_current :: Vec2
  mq_mode :: SelectionMode
  mq_contain :: bool

record drag_state =
  dr_pointer :: int
  dr_origin :: Vec2
  dr_ids :: "NodeId list"
  dr_snapshot :: "NodePosition list"
  dr_box :: Rect
  dr_delta :: Vec2
  dr_fromSpace :: bool

record resize_state =
  rs_pointer :: int
  rs_id :: NodeId
  rs_handle :: ResizeHandle
  rs_origin :: Vec2
  rs_start :: Rect
  rs_current :: Rect

datatype connect_via = Via_pointer | Via_keyboard

record connect_state =
  cn_pointer :: int
  cn_from :: NodeId
  cn_fromAnchor :: AnchorSpec
  cn_current :: Vec2
  cn_via :: connect_via
  cn_candidates :: "NodeId list"
  cn_index :: int

record waypoint_state =
  wp_pointer :: int
  wp_edge :: EdgeId
  wp_index :: int
  wp_current :: Vec2

record pan_state =
  pn_pointer :: int
  pn_screen :: Vec2
  pn_fromSpace :: bool

datatype FsmState =
    S_idle
  | S_hover HitTarget
  | S_spacePan
  | S_press press_state
  | S_panning pan_state
  | S_marquee marquee_state
  | S_dragging drag_state
  | S_resizing resize_state
  | S_connecting connect_state
  | S_waypoint waypoint_state
  | S_editing NodeId

definition initialState :: FsmState where "initialState = S_idle"

record pointer_event =
  pe_pointer :: int
  pe_button :: int
  pe_screen :: Vec2
  pe_world :: Vec2
  pe_target :: HitTarget
  pe_mods :: Modifiers
  pe_time :: real

datatype wheel_mode = Wheel_zoom | Wheel_pan

datatype FsmEvent =
    E_pointerdown pointer_event
  | E_pointermove pointer_event
  | E_pointerup pointer_event
  | E_pointercancel int
  | E_pointerleave
  | E_blur
  | E_dblclick Vec2 HitTarget
  | E_longpress Vec2 HitTarget
  | E_contextmenu Vec2 HitTarget
  | E_wheel wheel_mode real real Vec2
  | E_pinch real Vec2 Vec2
  | E_keydown string Modifiers bool
  | E_keyup string Modifiers
  | E_edit_end bool

datatype CameraCommand = Fit_all | Fit_selection | Zoom_100 | Zoom_in | Zoom_out

datatype Effect =
    F_intent Intent
  | F_capture int
  | F_release int
  | F_marquee "Rect option"
  | F_guides "GuideLine list"
  | F_preview_move "NodeId list" real real
  | F_restore_geometry "NodePosition list"
  | F_camera_pan real real
  | F_camera_zoom real Vec2
  | F_camera_zoom_factor real Vec2
  | F_camera_command CameraCommand
  | F_focus_editor NodeId

type_synonym fsm_result = "FsmState \<times> Effect list"

record FsmContext =
  fc_scene :: SceneQuery
  fc_selection :: "EntityId list"
  fc_zoom :: real
  fc_viewport :: Rect
  fc_snapToGrid :: bool
  fc_alignmentGuides :: bool

section \<open>Helpers\<close>

definition NUDGE_PX :: real where "NUDGE_PX = 1"
definition NUDGE_SHIFT_PX :: real where "NUDGE_SHIFT_PX = 10"
definition SNAP_MARGIN_PX :: real where "SNAP_MARGIN_PX = 256"

definition primaryMod :: "Modifiers \<Rightarrow> bool" where
  "primaryMod m \<longleftrightarrow> m_ctrl m \<or> m_meta m"

definition modeFor :: "Modifiers \<Rightarrow> SelectionMode" where
  "modeFor m = (if m_shift m then Sel_toggle else if m_alt m then Sel_subtract else Sel_replace)"

definition vdist :: "Vec2 \<Rightarrow> Vec2 \<Rightarrow> real" where
  "vdist a b = sqrt ((vx a - vx b)\<^sup>2 + (vy a - vy b)\<^sup>2)"

definition rectBetween :: "Vec2 \<Rightarrow> Vec2 \<Rightarrow> Rect" where
  "rectBetween a b =
     \<lparr>rx = min (vx a) (vx b), ry = min (vy a) (vy b), rw = \<bar>vx a - vx b\<bar>, rh = \<bar>vy a - vy b\<bar>\<rparr>"

definition inflate :: "Rect \<Rightarrow> real \<Rightarrow> Rect" where
  "inflate r by_px = \<lparr>rx = rx r - by_px, ry = ry r - by_px, rw = rw r + by_px * 2, rh = rh r + by_px * 2\<rparr>"

definition selectableId :: "HitTarget \<Rightarrow> EntityId option" where
  "selectableId t = (case t of T_node i \<Rightarrow> Some i | T_edge i \<Rightarrow> Some i | _ \<Rightarrow> None)"

definition selectedNodes :: "FsmContext \<Rightarrow> NodeView list" where
  "selectedNodes ctx = List.map_filter (q_node (fc_scene ctx)) (fc_selection ctx)"

text \<open>The code starts from infinities; on the non-empty lists it is called with this is the result.\<close>

definition boundsOf :: "NodeView list \<Rightarrow> Rect" where
  "boundsOf nodes =
     (let minX = Min (set (map n_x nodes)); minY = Min (set (map n_y nodes));
          maxX = Max (set (map (\<lambda>n. n_x n + n_w n) nodes));
          maxY = Max (set (map (\<lambda>n. n_y n + n_h n) nodes))
      in \<lparr>rx = minX, ry = minY, rw = maxX - minX, rh = maxY - minY\<rparr>)"

definition resolveDragSet :: "FsmContext \<Rightarrow> NodeId \<Rightarrow> NodeView list \<times> bool" where
  "resolveDragSet ctx pressed =
     (if pressed \<in> set (fc_selection ctx)
      then (filter (\<lambda>n. \<not> n_locked n) (selectedNodes ctx), False)
      else (case q_node (fc_scene ctx) pressed of
              None \<Rightarrow> ([], True)
            | Some node \<Rightarrow> (if n_locked node then [] else [node], True)))"

definition snapCandidates :: "FsmContext \<Rightarrow> NodeView list" where
  "snapCandidates ctx = q_nodesIn (fc_scene ctx) (inflate (fc_viewport ctx) SNAP_MARGIN_PX)"

fun abort :: "FsmState \<Rightarrow> fsm_result" where
  "abort (S_dragging d) =
     (S_idle, [F_release (dr_pointer d), F_intent (I_move_nodes [] Ph_cancel),
               F_restore_geometry (dr_snapshot d), F_preview_move (dr_ids d) 0 0, F_guides []])"
| "abort (S_resizing r) =
     (S_idle, [F_release (rs_pointer r), F_intent (I_resize_node (rs_id r) (rs_start r) Ph_cancel),
               F_restore_geometry [\<lparr>np_id = rs_id r, np_x = rx (rs_start r), np_y = ry (rs_start r)\<rparr>]])"
| "abort (S_marquee m) = (S_idle, [F_release (mq_pointer m), F_marquee None])"
| "abort (S_panning p) =
     ((if pn_fromSpace p then S_spacePan else S_idle), [F_release (pn_pointer p)])"
| "abort (S_connecting c) = (S_idle, [F_release (cn_pointer c)])"
| "abort (S_press p) = (S_idle, [F_release (pr_pointer p)])"
| "abort (S_waypoint w) =
     (S_idle, [F_release (wp_pointer w),
               F_intent (I_waypoint_move (wp_edge w) (wp_index w) (wp_current w) Ph_cancel)])"
| "abort (S_editing _) = (S_idle, [])"
| "abort S_idle = (S_idle, [])"
| "abort (S_hover _) = (S_idle, [])"
| "abort S_spacePan = (S_idle, [])"

section \<open>Pointer transitions\<close>

definition auto_anchor :: AnchorSpec where
  "auto_anchor = \<lparr>anchor_side = Side_auto, anchor_t = 1 / 2\<rparr>"

definition down_press :: "pointer_event \<Rightarrow> fsm_result" where
  "down_press e =
     (S_press \<lparr>pr_pointer = pe_pointer e, pr_screen = pe_screen e, pr_world = pe_world e,
               pr_target = pe_target e, pr_mode = modeFor (pe_mods e), pr_time = pe_time e,
               pr_fromSpace = False\<rparr>, [F_capture (pe_pointer e)])"

definition down_target :: "pointer_event \<Rightarrow> fsm_result" where
  "down_target e =
     (case pe_target e of
        T_waypoint edge index \<Rightarrow>
          (S_waypoint \<lparr>wp_pointer = pe_pointer e, wp_edge = edge, wp_index = index, wp_current = pe_world e\<rparr>,
           [F_capture (pe_pointer e), F_intent (I_waypoint_move edge index (pe_world e) Ph_start)])
      | T_port node anchor \<Rightarrow>
          (S_connecting \<lparr>cn_pointer = pe_pointer e, cn_from = node, cn_fromAnchor = anchor,
             cn_current = pe_world e, cn_via = Via_pointer, cn_candidates = [], cn_index = -1\<rparr>,
           [F_capture (pe_pointer e)])
      | _ \<Rightarrow> down_press e)"

definition down_resize :: "pointer_event \<Rightarrow> FsmContext \<Rightarrow> fsm_result option" where
  "down_resize e ctx =
     (case pe_target e of
        T_handle i handle \<Rightarrow>
          if length (fc_selection ctx) = 1
          then (case q_node (fc_scene ctx) i of
                  None \<Rightarrow> None
                | Some node \<Rightarrow>
                    if n_locked node then None
                    else Some (S_resizing \<lparr>rs_pointer = pe_pointer e, rs_id = i, rs_handle = handle,
                                 rs_origin = pe_world e, rs_start = node_rect node,
                                 rs_current = node_rect node\<rparr>, [F_capture (pe_pointer e)]))
          else None
      | _ \<Rightarrow> None)"

definition onPointerDown :: "FsmState \<Rightarrow> pointer_event \<Rightarrow> FsmContext \<Rightarrow> fsm_result" where
  "onPointerDown state e ctx =
     (case state of
        S_editing _ \<Rightarrow> (S_idle, [])
      | _ \<Rightarrow>
          if pe_button e = 1 \<or> state = S_spacePan
          then (S_panning \<lparr>pn_pointer = pe_pointer e, pn_screen = pe_screen e,
                           pn_fromSpace = (state = S_spacePan)\<rparr>, [F_capture (pe_pointer e)])
          else if pe_button e \<noteq> 0 then (state, [])
          else (case down_resize e ctx of Some r \<Rightarrow> r | None \<Rightarrow> down_target e))"

definition to_marquee :: "press_state \<Rightarrow> pointer_event \<Rightarrow> fsm_result" where
  "to_marquee press e =
     (S_marquee \<lparr>mq_pointer = pr_pointer press, mq_origin = pr_world press, mq_current = pe_world e,
        mq_mode = (if pr_mode press = Sel_toggle then Sel_add else Sel_replace),
        mq_contain = m_alt (pe_mods e)\<rparr>,
      [F_marquee (Some (rectBetween (pr_world press) (pe_world e)))])"

definition position_of :: "NodeView \<Rightarrow> NodePosition" where
  "position_of n = \<lparr>np_id = n_id n, np_x = n_x n, np_y = n_y n\<rparr>"

definition beginDrag :: "press_state \<Rightarrow> pointer_event \<Rightarrow> FsmContext \<Rightarrow> NodeId \<Rightarrow> fsm_result" where
  "beginDrag press e ctx pressed =
     (let (nodes, replaced) = resolveDragSet ctx pressed
      in if nodes = [] then to_marquee press e
         else (S_dragging \<lparr>dr_pointer = pr_pointer press, dr_origin = pr_world press,
                 dr_ids = map n_id nodes, dr_snapshot = map position_of nodes,
                 dr_box = boundsOf nodes, dr_delta = \<lparr>vx = 0, vy = 0\<rparr>,
                 dr_fromSpace = pr_fromSpace press\<rparr>,
               (if replaced then [F_intent (I_select [pressed] Sel_replace)] else [])
               @ [F_intent (I_move_nodes [] Ph_start)]))"

definition resizeRect :: "Rect \<Rightarrow> ResizeHandle \<Rightarrow> real \<Rightarrow> real \<Rightarrow> Rect" where
  "resizeRect start handle dx dy =
     (let left = (handle \<in> {H_nw, H_w, H_sw}); right = (handle \<in> {H_ne, H_e, H_se});
          top = (handle \<in> {H_nw, H_n, H_ne}); bottom = (handle \<in> {H_sw, H_s, H_se});
          w = (if left then max MIN_NODE_SIZE (rw start - dx)
               else if right then max MIN_NODE_SIZE (rw start + dx) else rw start);
          x = (if left then rx start + rw start - w else rx start);
          h = (if top then max MIN_NODE_SIZE (rh start - dy)
               else if bottom then max MIN_NODE_SIZE (rh start + dy) else rh start);
          y = (if top then ry start + rh start - h else ry start)
      in \<lparr>rx = x, ry = y, rw = w, rh = h\<rparr>)"

definition drag_snap :: "drag_state \<Rightarrow> pointer_event \<Rightarrow> FsmContext \<Rightarrow> SnapResult" where
  "drag_snap d e ctx =
     snapDrag \<lparr>si_box = dr_box d,
       si_delta = \<lparr>vx = vx (pe_world e) - vx (dr_origin d), vy = vy (pe_world e) - vy (dr_origin d)\<rparr>,
       si_candidates = (if fc_alignmentGuides ctx then snapCandidates ctx else []),
       si_moving = set (dr_ids d), si_zoom = fc_zoom ctx, si_gridSnap = fc_snapToGrid ctx,
       si_objectSnap = fc_alignmentGuides ctx, si_suspend = primaryMod (pe_mods e)\<rparr>"

definition dragMove :: "drag_state \<Rightarrow> pointer_event \<Rightarrow> FsmContext \<Rightarrow> fsm_result" where
  "dragMove d e ctx =
     (let snapped = drag_snap d e ctx
      in (S_dragging (d\<lparr>dr_delta := sr_delta snapped\<rparr>),
          [F_preview_move (dr_ids d) (vx (sr_delta snapped)) (vy (sr_delta snapped)),
           F_guides (sr_guides snapped), F_intent (I_move_nodes [] Ph_update)]))"

definition pressMove :: "press_state \<Rightarrow> pointer_event \<Rightarrow> FsmContext \<Rightarrow> fsm_result" where
  "pressMove p e ctx =
     (if vdist (pr_screen p) (pe_screen e) \<le> DRAG_THRESHOLD_PX then (S_press p, [])
      else case pr_target p of
             T_node i \<Rightarrow>
               (case beginDrag p e ctx i of
                  (S_dragging d, effects) \<Rightarrow>
                    (let (state, more) = dragMove d e ctx in (state, effects @ more))
                | started \<Rightarrow> started)
           | _ \<Rightarrow> to_marquee p e)"

fun onPointerMove :: "FsmState \<Rightarrow> pointer_event \<Rightarrow> FsmContext \<Rightarrow> fsm_result" where
  "onPointerMove S_idle e ctx =
     ((if pe_target e = T_canvas then S_idle else S_hover (pe_target e)), [])"
| "onPointerMove (S_hover _) e ctx =
     ((if pe_target e = T_canvas then S_idle else S_hover (pe_target e)), [])"
| "onPointerMove S_spacePan e ctx = (S_spacePan, [])"
| "onPointerMove (S_editing i) e ctx = (S_editing i, [])"
| "onPointerMove (S_press p) e ctx = pressMove p e ctx"
| "onPointerMove (S_panning p) e ctx =
     (S_panning (p\<lparr>pn_screen := pe_screen e\<rparr>),
      [F_camera_pan (vx (pe_screen e) - vx (pn_screen p)) (vy (pe_screen e) - vy (pn_screen p))])"
| "onPointerMove (S_marquee m) e ctx =
     (S_marquee (m\<lparr>mq_current := pe_world e, mq_contain := m_alt (pe_mods e)\<rparr>),
      [F_marquee (Some (rectBetween (mq_origin m) (pe_world e)))])"
| "onPointerMove (S_dragging d) e ctx = dragMove d e ctx"
| "onPointerMove (S_resizing r) e ctx =
     (let rect = resizeRect (rs_start r) (rs_handle r)
                   (vx (pe_world e) - vx (rs_origin r)) (vy (pe_world e) - vy (rs_origin r))
      in (S_resizing (r\<lparr>rs_current := rect\<rparr>), [F_intent (I_resize_node (rs_id r) rect Ph_update)]))"
| "onPointerMove (S_waypoint w) e ctx =
     (S_waypoint (w\<lparr>wp_current := pe_world e\<rparr>),
      [F_intent (I_waypoint_move (wp_edge w) (wp_index w) (pe_world e) Ph_update)])"
| "onPointerMove (S_connecting c) e ctx = (S_connecting (c\<lparr>cn_current := pe_world e\<rparr>), [])"

definition connect_drop :: "connect_state \<Rightarrow> pointer_event \<Rightarrow> Effect list" where
  "connect_drop c e =
     (case pe_target e of
        T_port i anchor \<Rightarrow>
          if i \<noteq> cn_from c then [F_intent (I_create_edge (cn_from c) (cn_fromAnchor c) i anchor)] else []
      | T_node i \<Rightarrow>
          if i \<noteq> cn_from c then [F_intent (I_create_edge (cn_from c) (cn_fromAnchor c) i auto_anchor)] else []
      | T_canvas \<Rightarrow> [F_intent (I_connect_to_empty (cn_from c) (cn_fromAnchor c) (pe_world e))]
      | _ \<Rightarrow> [])"

fun onPointerUp :: "FsmState \<Rightarrow> pointer_event \<Rightarrow> FsmContext \<Rightarrow> fsm_result" where
  "onPointerUp (S_press p) e ctx =
     (let picked = selectableId (pr_target p);
          rest = (if picked = None then S_idle else S_hover (pr_target p));
          ids = (case picked of None \<Rightarrow> [] | Some i \<Rightarrow> [i])
      in if ids = [] \<and> pr_mode p \<noteq> Sel_replace then (rest, [F_release (pe_pointer e)])
         else (rest, [F_release (pe_pointer e), F_intent (I_select ids (pr_mode p))]))"
| "onPointerUp (S_dragging d) e ctx =
     ((if dr_fromSpace d then S_spacePan else S_idle),
      [F_release (pe_pointer e),
       F_intent (I_move_nodes
         (map (\<lambda>i. \<lparr>md_id = i, md_dx = vx (dr_delta d), md_dy = vy (dr_delta d)\<rparr>) (dr_ids d)) Ph_end),
       F_guides []])"
| "onPointerUp (S_marquee m) e ctx =
     (let rect = rectBetween (mq_origin m) (pe_world e);
          found = (if mq_contain m then q_nodesContainedIn (fc_scene ctx) rect
                   else q_nodesIn (fc_scene ctx) rect)
      in (S_idle, [F_release (pe_pointer e), F_marquee None,
                   F_intent (I_select (map n_id found) (mq_mode m))]))"
| "onPointerUp (S_waypoint w) e ctx =
     (S_idle, [F_release (pe_pointer e),
               F_intent (I_waypoint_move (wp_edge w) (wp_index w) (pe_world e) Ph_end)])"
| "onPointerUp (S_panning p) e ctx =
     ((if pn_fromSpace p then S_spacePan else S_idle), [F_release (pe_pointer e)])"
| "onPointerUp (S_resizing r) e ctx =
     (S_idle, [F_release (pe_pointer e), F_intent (I_resize_node (rs_id r) (rs_current r) Ph_end)])"
| "onPointerUp (S_connecting c) e ctx = (S_idle, F_release (pe_pointer e) # connect_drop c e)"
| "onPointerUp (S_editing i) e ctx = (S_editing i, [F_release (pe_pointer e)])"
| "onPointerUp S_idle e ctx = (S_idle, [])"
| "onPointerUp (S_hover t) e ctx = (S_hover t, [])"
| "onPointerUp S_spacePan e ctx = (S_spacePan, [])"

section \<open>Keyboard transitions\<close>

definition nudge :: "FsmContext \<Rightarrow> real \<Rightarrow> real \<Rightarrow> fsm_result" where
  "nudge ctx dx dy =
     (let deltas = map (\<lambda>n. \<lparr>md_id = n_id n, md_dx = dx, md_dy = dy\<rparr>)
                     (filter (\<lambda>n. \<not> n_locked n) (selectedNodes ctx))
      in if deltas = [] then (S_idle, []) else (S_idle, [F_intent (I_move_nodes deltas Ph_end)]))"

definition centreOf :: "NodeView \<Rightarrow> Vec2" where
  "centreOf n = \<lparr>vx = n_x n + n_w n / 2, vy = n_y n + n_h n / 2\<rparr>"

definition connectCandidates :: "FsmContext \<Rightarrow> NodeView \<Rightarrow> NodeId list" where
  "connectCandidates ctx from_node =
     (let origin = centreOf from_node;
          visible = filter (\<lambda>n. n_id n \<noteq> n_id from_node \<and> \<not> n_hidden n)
                      (q_nodesIn (fc_scene ctx) (inflate (fc_viewport ctx) SNAP_MARGIN_PX));
          entries = map (\<lambda>n. (vdist origin (centreOf n), n_id n)) visible
      in map snd (take CONNECT_CANDIDATE_LIMIT (sort_key id entries)))"

definition aimAtCandidate :: "connect_state \<Rightarrow> FsmContext \<Rightarrow> int \<Rightarrow> fsm_result" where
  "aimAtCandidate c ctx index =
     (let node = Option.bind (nth_opt (cn_candidates c) index) (q_node (fc_scene ctx));
          source = q_node (fc_scene ctx) (cn_from c);
          current = (case node of Some n \<Rightarrow> centreOf n
                     | None \<Rightarrow> (case source of Some n \<Rightarrow> centreOf n | None \<Rightarrow> cn_current c))
      in (S_connecting (c\<lparr>cn_index := index, cn_current := current\<rparr>), []))"

text \<open>JavaScript's \<open>%\<close> takes the sign of the dividend.\<close>

definition js_rem :: "int \<Rightarrow> int \<Rightarrow> int" where
  "js_rem a b = (if a < 0 then - ((- a) mod b) else a mod b)"

definition onConnectKey :: "connect_state \<Rightarrow> string \<Rightarrow> Modifiers \<Rightarrow> FsmContext \<Rightarrow> fsm_result" where
  "onConnectKey c key mods ctx =
     (let count = int (length (cn_candidates c))
      in if cn_via c \<noteq> Via_keyboard then (S_connecting c, [])
         else if key = ''Tab'' \<and> 0 < count
         then aimAtCandidate c ctx (js_rem (cn_index c + (if m_shift mods then -1 else 1) + count) count)
         else if key = ''Enter''
         then (case nth_opt (cn_candidates c) (cn_index c) of
                 None \<Rightarrow> (S_idle, [])
               | Some i \<Rightarrow>
                   if i = cn_from c then (S_idle, [])
                   else (S_idle, [F_intent (I_create_edge (cn_from c) (cn_fromAnchor c) i auto_anchor)]))
         else (S_connecting c, []))"

definition startKeyboardConnect :: "FsmState \<Rightarrow> FsmContext \<Rightarrow> fsm_result" where
  "startKeyboardConnect state ctx =
     (case Option.bind (last_opt (fc_selection ctx)) (q_node (fc_scene ctx)) of
        None \<Rightarrow> (state, [])
      | Some source \<Rightarrow>
          (let candidates = connectCandidates ctx source;
               started = \<lparr>cn_pointer = -1, cn_from = n_id source, cn_fromAnchor = auto_anchor,
                          cn_current = centreOf source, cn_via = Via_keyboard,
                          cn_candidates = candidates, cn_index = -1\<rparr>
           in if candidates = [] then (S_connecting started, []) else aimAtCandidate started ctx 0))"

definition at_rest :: "FsmState \<Rightarrow> bool" where
  "at_rest s \<longleftrightarrow> (case s of S_idle \<Rightarrow> True | S_hover _ \<Rightarrow> True | _ \<Rightarrow> False)"

definition enter_edit :: "NodeId \<Rightarrow> fsm_result" where
  "enter_edit i = (S_editing i, [F_intent (I_begin_edit_text i), F_focus_editor i])"

text \<open>The final \<open>switch\<close> of \<open>onKeyDown\<close>: shortcuts without Ctrl or Cmd, at rest.\<close>

definition shortcut :: "FsmState \<Rightarrow> string \<Rightarrow> Modifiers \<Rightarrow> FsmContext \<Rightarrow> fsm_result" where
  "shortcut state key mods ctx =
     (let step = (if m_shift mods then NUDGE_SHIFT_PX else NUDGE_PX); sel = fc_selection ctx
      in if key = ''ArrowLeft'' then nudge ctx (- step) 0
         else if key = ''ArrowRight'' then nudge ctx step 0
         else if key = ''ArrowUp'' then nudge ctx 0 (- step)
         else if key = ''ArrowDown'' then nudge ctx 0 step
         else if key = ''Delete'' \<or> key = ''Backspace''
         then (if sel = [] then (state, []) else (state, [F_intent (I_delete sel)]))
         else if key = ''['' then (state, [F_intent (I_z_order sel Z_backward)])
         else if key = '']'' then (state, [F_intent (I_z_order sel Z_forward)])
         else if key = ''Enter''
         then (case last_opt sel of
                 None \<Rightarrow> (state, [])
               | Some anchor \<Rightarrow>
                   if q_node (fc_scene ctx) anchor = None then (state, []) else enter_edit anchor)
         else if key = ''0'' then (state, [F_camera_command Fit_all])
         else if key = ''1'' then (state, [F_camera_command Zoom_100])
         else if key = ''2'' then (state, [F_camera_command Fit_selection])
         else if key = ''+'' \<or> key = ''='' then (state, [F_camera_command Zoom_in])
         else if key = ''-'' then (state, [F_camera_command Zoom_out])
         else (state, []))"

definition rest_key :: "FsmState \<Rightarrow> string \<Rightarrow> Modifiers \<Rightarrow> FsmContext \<Rightarrow> fsm_result" where
  "rest_key state key mods ctx =
     (if primaryMod mods
      then (if key = ''a'' \<or> key = ''A''
            then (state, [F_intent (I_select
                    (map n_id (q_nodesIn (fc_scene ctx) (q_sceneBounds (fc_scene ctx)))) Sel_replace)])
            else (state, []))
      else shortcut state key mods ctx)"

definition onKeyDown :: "FsmState \<Rightarrow> string \<Rightarrow> Modifiers \<Rightarrow> FsmContext \<Rightarrow> fsm_result" where
  "onKeyDown state key mods ctx =
     (case state of
        S_editing _ \<Rightarrow> (if key = ''Escape'' then (S_idle, []) else (state, []))
      | _ \<Rightarrow>
          if key = ''Escape''
          then (if at_rest state \<or> state = S_spacePan
                then (state, [F_intent (I_select [] Sel_replace)]) else abort state)
          else if key = '' '' \<and> at_rest state then (S_spacePan, [])
          else (case state of
                  S_connecting c \<Rightarrow> onConnectKey c key mods ctx
                | _ \<Rightarrow>
                    if (key = ''c'' \<or> key = ''C'') \<and> \<not> primaryMod mods \<and> at_rest state
                    then startKeyboardConnect state ctx
                    else if \<not> (at_rest state \<or> state = S_spacePan) then (state, [])
                    else rest_key state key mods ctx))"

section \<open>The reducer\<close>

definition is_editing :: "FsmState \<Rightarrow> bool" where
  "is_editing s \<longleftrightarrow> (case s of S_editing _ \<Rightarrow> True | _ \<Rightarrow> False)"

definition onDblClick :: "FsmState \<Rightarrow> Vec2 \<Rightarrow> HitTarget \<Rightarrow> FsmContext \<Rightarrow> fsm_result" where
  "onDblClick state world target ctx =
     (if is_editing state then (state, [])
      else case target of
             T_edge i \<Rightarrow> (state, [F_intent (I_waypoint_insert i world)])
           | T_node i \<Rightarrow>
               (case q_node (fc_scene ctx) i of
                  None \<Rightarrow> (state, [])
                | Some node \<Rightarrow> if n_locked node then (state, []) else enter_edit (n_id node))
           | _ \<Rightarrow> (state, []))"

definition onContextMenu :: "FsmState \<Rightarrow> Vec2 \<Rightarrow> HitTarget \<Rightarrow> FsmContext \<Rightarrow> fsm_result" where
  "onContextMenu state world target ctx =
     (case target of
        T_waypoint edge index \<Rightarrow> (state, [F_intent (I_waypoint_delete edge index)])
      | _ \<Rightarrow>
          (S_idle,
           (case selectableId target of
              None \<Rightarrow> []
            | Some i \<Rightarrow> if i \<in> set (fc_selection ctx) then [] else [F_intent (I_select [i] Sel_replace)])
           @ [F_intent (I_context_menu world target)]))"

fun fsm_reduce :: "FsmState \<Rightarrow> FsmEvent \<Rightarrow> FsmContext \<Rightarrow> fsm_result" where
  "fsm_reduce state (E_pointerdown e) ctx = onPointerDown state e ctx"
| "fsm_reduce state (E_pointermove e) ctx = onPointerMove state e ctx"
| "fsm_reduce state (E_pointerup e) ctx = onPointerUp state e ctx"
| "fsm_reduce state (E_pointercancel _) ctx = abort state"
| "fsm_reduce state E_blur ctx = abort state"
| "fsm_reduce state E_pointerleave ctx =
     (case state of S_hover _ \<Rightarrow> (S_idle, []) | _ \<Rightarrow> (state, []))"
| "fsm_reduce state (E_keydown key mods _) ctx = onKeyDown state key mods ctx"
| "fsm_reduce state (E_keyup key _) ctx =
     (if key = '' '' \<and> state = S_spacePan then (S_idle, []) else (state, []))"
| "fsm_reduce state (E_dblclick world target) ctx = onDblClick state world target ctx"
| "fsm_reduce state (E_longpress world target) ctx = onContextMenu state world target ctx"
| "fsm_reduce state (E_contextmenu world target) ctx = onContextMenu state world target ctx"
| "fsm_reduce state (E_wheel mode deltaX deltaY anchor) ctx =
     (if is_editing state then (state, [])
      else (state, [case mode of Wheel_zoom \<Rightarrow> F_camera_zoom (- deltaY) anchor
                               | Wheel_pan \<Rightarrow> F_camera_pan (- deltaX) (- deltaY)]))"
| "fsm_reduce state (E_pinch factor anchor pan) ctx =
     (if is_editing state then (state, [])
      else (state, [F_camera_pan (vx pan) (vy pan), F_camera_zoom_factor factor anchor]))"
| "fsm_reduce state (E_edit_end _) ctx = (if is_editing state then (S_idle, []) else (state, []))"

section \<open>Sessions\<close>

text \<open>
  What the host does with the effects that bracket a gesture: the pointers it has captured, and
  whether a move of nodes has been opened. A \<open>start\<close> while a move is open, or an \<open>update\<close> or
  \<open>cancel\<close> while none is, is an error, \<open>None\<close>; a nudge is a single \<open>end\<close>.
\<close>

definition capture_effect :: "Effect \<Rightarrow> int set \<Rightarrow> int set" where
  "capture_effect f held =
     (case f of F_capture p \<Rightarrow> insert p held | F_release p \<Rightarrow> held - {p} | _ \<Rightarrow> held)"

definition captured :: "Effect list \<Rightarrow> int set" where
  "captured fs = fold capture_effect fs {}"

definition move_effect :: "Effect \<Rightarrow> bool option \<Rightarrow> bool option" where
  "move_effect f open_move =
     (case f of
        F_intent (I_move_nodes _ phase) \<Rightarrow>
          (case phase of
             Ph_start \<Rightarrow> (if open_move = Some False then Some True else None)
           | Ph_update \<Rightarrow> (if open_move = Some True then Some True else None)
           | Ph_end \<Rightarrow> map_option (\<lambda>_. False) open_move
           | Ph_cancel \<Rightarrow> (if open_move = Some True then Some False else None))
      | _ \<Rightarrow> open_move)"

definition move_phase :: "Effect list \<Rightarrow> bool option" where
  "move_phase fs = fold move_effect fs (Some False)"

text \<open>The pointer a state is holding, and whether it is dragging nodes.\<close>

definition holder :: "FsmState \<Rightarrow> int option" where
  "holder s =
     (case s of
        S_press p \<Rightarrow> Some (pr_pointer p) | S_panning p \<Rightarrow> Some (pn_pointer p)
      | S_marquee m \<Rightarrow> Some (mq_pointer m) | S_dragging d \<Rightarrow> Some (dr_pointer d)
      | S_resizing r \<Rightarrow> Some (rs_pointer r) | S_waypoint w \<Rightarrow> Some (wp_pointer w)
      | S_connecting c \<Rightarrow> (case cn_via c of Via_pointer \<Rightarrow> Some (cn_pointer c) | Via_keyboard \<Rightarrow> None)
      | _ \<Rightarrow> None)"

definition is_dragging :: "FsmState \<Rightarrow> bool" where
  "is_dragging s \<longleftrightarrow> (case s of S_dragging _ \<Rightarrow> True | _ \<Rightarrow> False)"

definition on_waypoint :: "HitTarget \<Rightarrow> bool" where
  "on_waypoint t \<longleftrightarrow> (case t of T_waypoint _ _ \<Rightarrow> True | _ \<Rightarrow> False)"

definition on_node :: "HitTarget \<Rightarrow> bool" where
  "on_node t \<longleftrightarrow> (case t of T_node _ \<Rightarrow> True | _ \<Rightarrow> False)"

text \<open>
  One pointer at a time: a press comes when no gesture is held, its release from the same pointer,
  and no context menu or double click interrupts it. Nothing is assumed of moves, keys, wheels, cancels and blurs.
\<close>

definition orderly :: "FsmState \<Rightarrow> FsmEvent \<Rightarrow> bool" where
  "orderly s e \<longleftrightarrow>
     (case e of
        E_pointerdown _ \<Rightarrow> holder s = None
      | E_pointerup p \<Rightarrow> holder s \<in> {None, Some (pe_pointer p)}
      | E_dblclick _ t \<Rightarrow> holder s = None \<or> \<not> on_node t
      | E_longpress _ t \<Rightarrow> holder s = None \<or> on_waypoint t
      | E_contextmenu _ t \<Rightarrow> holder s = None \<or> on_waypoint t
      | _ \<Rightarrow> True)"

inductive session :: "FsmState \<Rightarrow> Effect list \<Rightarrow> bool" where
  session_start: "session initialState []"
| session_step: "session s fs \<Longrightarrow> orderly s e \<Longrightarrow> fsm_reduce s e ctx = (s', out) \<Longrightarrow> session s' (fs @ out)"

lemma captured_append: "captured (fs @ gs) = fold capture_effect gs (captured fs)"
  by (simp add: captured_def)

lemma move_phase_append: "move_phase (fs @ gs) = fold move_effect gs (move_phase fs)"
  by (simp add: move_phase_def)

definition step_ok :: "FsmState \<Rightarrow> FsmState \<Rightarrow> Effect list \<Rightarrow> bool" where
  "step_ok s s' out \<longleftrightarrow>
     fold capture_effect out (set_option (holder s)) = set_option (holder s')
     \<and> fold move_effect out (Some (is_dragging s)) = Some (is_dragging s')"

lemmas effect_simps = capture_effect_def move_effect_def holder_def is_dragging_def

lemma step_ok_same [simp]: "step_ok s s []"
  by (simp add: step_ok_def)

lemma abort_step: "abort s = (s', out) \<Longrightarrow> step_ok s s' out"
  by (cases s) (auto simp: step_ok_def effect_simps split: connect_via.splits if_splits)

lemma down_step:
  assumes "holder s = None" "onPointerDown s e ctx = (s', out)"
  shows "step_ok s s' out"
proof -
  have nd: "\<not> is_dragging s" using assms(1) by (auto simp: effect_simps split: FsmState.splits)
  have cap: "step_ok s S [F_capture (pe_pointer e)]" if "holder S = Some (pe_pointer e)" "\<not> is_dragging S" for S
    using assms(1) nd that by (simp add: step_ok_def capture_effect_def move_effect_def)
  have target: "step_ok s (fst (down_target e)) (snd (down_target e))"
    using assms(1) nd
    by (auto simp: down_target_def down_press_def step_ok_def effect_simps split: HitTarget.splits)
  have resize: "step_ok s (fst r) (snd r)" if "down_resize e ctx = Some r" for r
    using that assms(1) nd
    by (auto simp: down_resize_def step_ok_def effect_simps split: HitTarget.splits option.splits if_splits)
  show ?thesis
    using assms(2) target resize cap nd assms(1)
    by (auto simp: onPointerDown_def split: FsmState.splits if_splits option.splits)
      (auto simp: step_ok_def effect_simps)
qed

lemma to_marquee_shape:
  "\<exists>m. to_marquee p e = (S_marquee m, [F_marquee (Some (rectBetween (pr_world p) (pe_world e)))])
     \<and> mq_pointer m = pr_pointer p"
  by (simp add: to_marquee_def)

lemma beginDrag_cases:
  obtains (marquee) "beginDrag p e ctx i = to_marquee p e" "fst (resolveDragSet ctx i) = []"
  | (drag) nodes replaced d where "resolveDragSet ctx i = (nodes, replaced)" "nodes \<noteq> []"
      "beginDrag p e ctx i =
        (S_dragging d, (if replaced then [F_intent (I_select [i] Sel_replace)] else [])
                       @ [F_intent (I_move_nodes [] Ph_start)])"
      "dr_pointer d = pr_pointer p" "dr_ids d = map n_id nodes" "dr_snapshot d = map position_of nodes"
      "dr_fromSpace d = pr_fromSpace p" "dr_origin d = pr_world p" "dr_box d = boundsOf nodes"
proof (cases "resolveDragSet ctx i")
  case (Pair nodes replaced)
  show ?thesis
  proof (cases "nodes = []")
    case True
    with Pair show ?thesis by (intro marquee) (simp_all add: beginDrag_def)
  next
    case False
    let ?d = "\<lparr>dr_pointer = pr_pointer p, dr_origin = pr_world p,
                 dr_ids = map n_id nodes, dr_snapshot = map position_of nodes,
                 dr_box = boundsOf nodes, dr_delta = \<lparr>vx = 0, vy = 0\<rparr>,
                 dr_fromSpace = pr_fromSpace p\<rparr>"
    from False Pair show ?thesis by (intro drag [OF Pair False, where d = ?d]) (simp_all add: beginDrag_def)
  qed
qed

lemma dragMove_shape:
  "\<exists>delta guides. dragMove d e ctx =
     (S_dragging (d\<lparr>dr_delta := delta\<rparr>),
      [F_preview_move (dr_ids d) (vx delta) (vy delta), F_guides guides, F_intent (I_move_nodes [] Ph_update)])"
  by (auto simp: dragMove_def Let_def)

lemma press_step: "pressMove p e ctx = (s', out) \<Longrightarrow> step_ok (S_press p) s' out"
proof -
  assume run: "pressMove p e ctx = (s', out)"
  have mq: "step_ok (S_press p) (fst (to_marquee p e)) (snd (to_marquee p e))"
    by (simp add: to_marquee_def step_ok_def effect_simps)
  show ?thesis
  proof (cases "vdist (pr_screen p) (pe_screen e) \<le> DRAG_THRESHOLD_PX \<or> (\<forall>i. pr_target p \<noteq> T_node i)")
    case True
    then show ?thesis using run mq by (auto simp: pressMove_def split: HitTarget.splits if_splits)
  next
    case False
    then obtain i where i: "pr_target p = T_node i"
      "\<not> vdist (pr_screen p) (pe_screen e) \<le> DRAG_THRESHOLD_PX" by auto
    show ?thesis
    proof (cases p e ctx i rule: beginDrag_cases)
      case marquee
      with i run mq show ?thesis by (simp add: pressMove_def to_marquee_def)
    next
      case (drag nodes replaced d)
      obtain delta guides where "dragMove d e ctx =
         (S_dragging (d\<lparr>dr_delta := delta\<rparr>),
          [F_preview_move (dr_ids d) (vx delta) (vy delta), F_guides guides, F_intent (I_move_nodes [] Ph_update)])"
        using dragMove_shape by blast
      with drag i run show ?thesis
        by (auto simp: pressMove_def step_ok_def effect_simps split: if_splits)
    qed
  qed
qed

lemma move_step: "onPointerMove s e ctx = (s', out) \<Longrightarrow> step_ok s s' out"
proof (cases s)
  case (S_press p)
  then show "onPointerMove s e ctx = (s', out) \<Longrightarrow> ?thesis" by (simp add: press_step)
next
  case (S_dragging d)
  moreover obtain delta guides where "dragMove d e ctx =
         (S_dragging (d\<lparr>dr_delta := delta\<rparr>),
          [F_preview_move (dr_ids d) (vx delta) (vy delta), F_guides guides, F_intent (I_move_nodes [] Ph_update)])"
    using dragMove_shape by blast
  ultimately show "onPointerMove s e ctx = (s', out) \<Longrightarrow> ?thesis"
    by (auto simp: step_ok_def effect_simps)
qed (auto simp: step_ok_def effect_simps Let_def split: if_splits connect_via.splits)

lemma up_step:
  assumes "holder s \<in> {None, Some (pe_pointer e)}" "onPointerUp s e ctx = (s', out)"
  shows "step_ok s s' out"
proof (cases s)
  case (S_connecting c)
  have "fold capture_effect (connect_drop c e) held = held"
    "fold move_effect (connect_drop c e) ph = ph" for held ph
    by (auto simp: connect_drop_def effect_simps split: HitTarget.splits)
  then show ?thesis
    using assms S_connecting
    by (auto simp: step_ok_def effect_simps split: connect_via.splits)
qed (use assms in \<open>auto simp: step_ok_def effect_simps Let_def split: if_splits option.splits\<close>)

lemma silent_step:
  assumes "holder s = holder s'" "is_dragging s = is_dragging s'"
    and "list_all (\<lambda>f. capture_effect f = (\<lambda>h. h)) out" "list_all (\<lambda>f. move_effect f = (\<lambda>h. h)) out"
  shows "step_ok s s' out"
proof -
  have "fold capture_effect out h = h" "fold move_effect out b = b" for h b
    using assms(3,4) by (induction out arbitrary: h b) auto
  with assms(1,2) show ?thesis by (simp add: step_ok_def)
qed

lemma aim_keyboard:
  "aimAtCandidate c ctx i = (s', out) \<Longrightarrow>
     out = [] \<and> (\<exists>v. s' = S_connecting (c\<lparr>cn_index := i, cn_current := v\<rparr>))"
  by (auto simp: aimAtCandidate_def Let_def)

lemma rest_facts:
  "at_rest s \<or> s = S_spacePan \<Longrightarrow> holder s = None \<and> \<not> is_dragging s"
  by (auto simp: at_rest_def effect_simps split: FsmState.splits)

definition quiet :: "Effect \<Rightarrow> bool" where
  "quiet f \<longleftrightarrow>
     (case f of F_intent (I_delete _) \<Rightarrow> True | F_intent (I_z_order _ _) \<Rightarrow> True
      | F_intent (I_select _ _) \<Rightarrow> True | F_intent (I_begin_edit_text _) \<Rightarrow> True
      | F_intent (I_create_edge _ _ _ _) \<Rightarrow> True | F_intent (I_waypoint_insert _ _) \<Rightarrow> True
      | F_intent (I_waypoint_delete _ _) \<Rightarrow> True | F_intent (I_context_menu _ _) \<Rightarrow> True
      | F_focus_editor _ \<Rightarrow> True | F_camera_command _ \<Rightarrow> True | F_camera_pan _ _ \<Rightarrow> True
      | F_camera_zoom _ _ \<Rightarrow> True | F_camera_zoom_factor _ _ \<Rightarrow> True | _ \<Rightarrow> False)"

lemma quiet_effects: "quiet f \<Longrightarrow> capture_effect f = (\<lambda>h. h) \<and> move_effect f = (\<lambda>h. h)"
  by (auto simp: quiet_def capture_effect_def move_effect_def split: Effect.splits Intent.splits)

lemma quiet_step:
  "list_all quiet out \<Longrightarrow> holder s = holder s' \<Longrightarrow> is_dragging s = is_dragging s' \<Longrightarrow> step_ok s s' out"
  by (rule silent_step) (auto simp: list_all_iff quiet_effects)

definition shortcut_form :: "FsmState \<Rightarrow> FsmContext \<Rightarrow> fsm_result \<Rightarrow> bool" where
  "shortcut_form s ctx r \<longleftrightarrow>
     (\<exists>dx dy. r = nudge ctx dx dy) \<or> (\<exists>fs. r = (s, fs) \<and> list_all quiet fs) \<or> (\<exists>i. r = enter_edit i)"

lemma shortcut_form_intros:
  "shortcut_form s ctx (nudge ctx dx dy)" "shortcut_form s ctx (enter_edit i)"
  "list_all quiet fs \<Longrightarrow> shortcut_form s ctx (s, fs)"
  "shortcut_form s ctx x \<Longrightarrow> shortcut_form s ctx y \<Longrightarrow> shortcut_form s ctx (if b then x else y)"
  by (auto simp: shortcut_form_def)

lemma shortcut_shape: "shortcut_form s ctx (shortcut s key mods ctx)"
  unfolding shortcut_def Let_def
  by (intro shortcut_form_intros) (auto simp: quiet_def intro: shortcut_form_intros split: option.split)

lemma nudge_step: "holder s = None \<Longrightarrow> \<not> is_dragging s \<Longrightarrow> step_ok s (fst (nudge ctx dx dy)) (snd (nudge ctx dx dy))"
  by (auto simp: nudge_def Let_def step_ok_def effect_simps)

lemma enter_edit_step: "holder s = None \<Longrightarrow> \<not> is_dragging s \<Longrightarrow> step_ok s (fst (enter_edit i)) (snd (enter_edit i))"
  by (auto simp: enter_edit_def step_ok_def effect_simps)

lemma shortcut_step:
  assumes "at_rest s \<or> s = S_spacePan"
  shows "step_ok s (fst (shortcut s key mods ctx)) (snd (shortcut s key mods ctx))"
  using shortcut_shape [of s ctx key mods] rest_facts [OF assms]
  by (auto simp: shortcut_form_def nudge_step enter_edit_step quiet_step)

lemma rest_key_step:
  assumes "at_rest s \<or> s = S_spacePan"
  shows "step_ok s (fst (rest_key s key mods ctx)) (snd (rest_key s key mods ctx))"
  using shortcut_step [OF assms] by (auto simp: rest_key_def quiet_def intro!: quiet_step)

lemma connect_key_step: "step_ok (S_connecting c) (fst (onConnectKey c key mods ctx)) (snd (onConnectKey c key mods ctx))"
proof -
  have a: "step_ok (S_connecting c) (fst (aimAtCandidate c ctx i)) (snd (aimAtCandidate c ctx i))" for i
    by (auto simp: aimAtCandidate_def Let_def step_ok_def effect_simps split: connect_via.splits)
  have k: "cn_via c = Via_keyboard \<Longrightarrow> holder (S_connecting c) = holder S_idle" by (simp add: holder_def)
  show ?thesis
    using a by (cases "cn_via c")
      (auto simp: onConnectKey_def Let_def quiet_def is_dragging_def k split: option.splits intro!: quiet_step)
qed

lemma start_connect_step:
  assumes "at_rest s"
  shows "step_ok s (fst (startKeyboardConnect s ctx)) (snd (startKeyboardConnect s ctx))"
proof -
  have r: "holder s = None" "\<not> is_dragging s" using rest_facts [of s] assms by auto
  show ?thesis
    using r by (auto simp: startKeyboardConnect_def aimAtCandidate_def Let_def split: option.splits)
      (simp_all add: step_ok_def effect_simps)
qed

lemma key_step: "step_ok s (fst (onKeyDown s key mods ctx)) (snd (onKeyDown s key mods ctx))"
proof -
  have esc: "step_ok s (fst (abort s)) (snd (abort s))" by (simp add: abort_step)
  have sel: "step_ok s s [F_intent (I_select [] Sel_replace)]" by (rule quiet_step) (auto simp: quiet_def)
  have space: "step_ok s S_spacePan []" if "at_rest s"
    using rest_facts [of s] that by (simp add: step_ok_def effect_simps)
  have edit: "step_ok (S_editing i) S_idle []" for i by (simp add: step_ok_def effect_simps)
  show ?thesis
    using esc sel space edit rest_key_step [of s key mods ctx] start_connect_step [of s ctx] connect_key_step
    by (cases s) (simp_all add: onKeyDown_def at_rest_def)
qed

lemma dblclick_step:
  assumes "holder s = None \<or> \<not> on_node t"
  shows "step_ok s (fst (onDblClick s w t ctx)) (snd (onDblClick s w t ctx))"
proof -
  have nd: "holder s = None \<Longrightarrow> \<not> is_dragging s" by (auto simp: effect_simps split: FsmState.splits)
  show ?thesis
    using assms nd enter_edit_step [of s]
    by (auto simp: onDblClick_def quiet_def on_node_def split: HitTarget.splits option.splits intro!: quiet_step)
qed

lemma contextmenu_step:
  assumes "holder s = None \<or> on_waypoint t"
  shows "step_ok s (fst (onContextMenu s w t ctx)) (snd (onContextMenu s w t ctx))"
proof (cases "on_waypoint t")
  case True
  then show ?thesis
    by (auto simp: onContextMenu_def on_waypoint_def quiet_def split: HitTarget.splits intro!: quiet_step)
next
  case False
  with assms have "holder s = None" "\<not> is_dragging s"
    by (auto simp: effect_simps split: FsmState.splits)
  then have "holder s = holder S_idle" "is_dragging s = is_dragging S_idle"
    by (simp_all add: effect_simps)
  moreover have "fst (onContextMenu s w t ctx) = S_idle" "list_all quiet (snd (onContextMenu s w t ctx))"
    using False by (auto simp: onContextMenu_def on_waypoint_def quiet_def split: HitTarget.splits option.splits)
  ultimately show ?thesis by (simp add: quiet_step)
qed

lemma reduce_step:
  assumes "orderly s e" "fsm_reduce s e ctx = (s', out)"
  shows "step_ok s s' out"
proof (cases e)
  case (E_keydown key mods rep)
  then show ?thesis using assms key_step [of s key mods ctx] by simp
next
  case (E_dblclick w t)
  then show ?thesis using assms dblclick_step [of s t w ctx] by (auto simp: orderly_def)
next
  case (E_longpress w t)
  then show ?thesis using assms contextmenu_step [of s t w ctx] by (auto simp: orderly_def)
next
  case (E_contextmenu w t)
  then show ?thesis using assms contextmenu_step [of s t w ctx] by (auto simp: orderly_def)
next
  case E_pointerleave
  then show ?thesis using assms by (cases s) (auto simp: step_ok_def effect_simps)
next
  case (E_keyup key mods)
  then show ?thesis using assms by (auto simp: step_ok_def effect_simps split: if_splits)
next
  case (E_wheel mode dx dy a)
  then show ?thesis using assms by (cases mode) (auto simp: quiet_def intro!: quiet_step split: if_splits)
next
  case (E_pinch f a p)
  then show ?thesis using assms by (auto simp: quiet_def intro!: quiet_step split: if_splits)
next
  case (E_edit_end c)
  then show ?thesis using assms
    by (auto simp: is_editing_def step_ok_def effect_simps split: if_splits FsmState.splits)
qed (use assms in \<open>auto simp: orderly_def abort_step down_step move_step up_step\<close>)

lemma session_invariant:
  assumes "session s fs"
  shows "captured fs = set_option (holder s) \<and> move_phase fs = Some (is_dragging s)"
  using assms
proof (induction rule: session.induct)
  case session_start
  then show ?case by (simp add: initialState_def captured_def move_phase_def effect_simps)
next
  case (session_step s fs e ctx s' out)
  with reduce_step [OF session_step.hyps(2,3)] show ?case
    by (simp add: captured_append move_phase_append step_ok_def)
qed

text \<open>C13. Gestures are bracketed: in every orderly session the pointers captured by the effects so
  far are exactly the one the current gesture holds, none at rest, so no capture leaks however the
  gesture ends (release, Escape, cancel, blur); and the node moves announced to the host form a
  correct protocol, a \<open>start\<close>, its \<open>update\<close>s and one \<open>end\<close> or \<open>cancel\<close>, open exactly
  while the state is dragging.\<close>

theorem gestures_are_bracketed:
  assumes "session s fs"
  shows "captured fs = set_option (holder s) \<and> move_phase fs = Some (is_dragging s)"
  by (rule session_invariant [OF assms])

subsection \<open>A concrete scene\<close>

definition white :: RGBA where "white = \<lparr>col_r = 1, col_g = 1, col_b = 1, col_a = 1\<rparr>"

definition demo_node :: "NodeId \<Rightarrow> real \<Rightarrow> bool \<Rightarrow> NodeView" where
  "demo_node i x locked =
     \<lparr>n_id = i, n_kind = ''note'', n_x = x, n_y = 0, n_w = 100, n_h = 50, n_z = 0, n_layerId = ''l'',
      n_groupId = None, n_locked = locked, n_hidden = False,
      n_glyph = \<lparr>gl_accent = white, gl_fill = white, gl_icon = [], gl_title = [], gl_badgeCount = 0,
                 gl_thumbnailKey = None, gl_status = NS_none\<rparr>,
      n_domKey = i, n_visualVersion = 0\<rparr>"

definition demo_nodes :: "NodeView list" where
  "demo_nodes = [demo_node ''a'' 0 False, demo_node ''b'' 300 False, demo_node ''c'' 600 True]"

definition demo_scene :: SceneQuery where
  "demo_scene =
     \<lparr>q_nodesIn = (\<lambda>r. filter (\<lambda>n. rectsIntersect (node_rect n) r) demo_nodes),
      q_nodesContainedIn = (\<lambda>r. filter (\<lambda>n. rectContainsRect r (node_rect n)) demo_nodes),
      q_nodeAt = (\<lambda>p. None),
      q_node = (\<lambda>i. map_of (map (\<lambda>n. (n_id n, n)) demo_nodes) i), q_edge = (\<lambda>_. None),
      q_sceneBounds = \<lparr>rx = 0, ry = 0, rw = 700, rh = 50\<rparr>, q_nodeCount = 3\<rparr>"

definition demo_fsm_ctx :: FsmContext where
  "demo_fsm_ctx = \<lparr>fc_scene = demo_scene, fc_selection = [''a'', ''c''], fc_zoom = 1,
     fc_viewport = \<lparr>rx = 0, ry = 0, rw = 1000, rh = 800\<rparr>, fc_snapToGrid = False,
     fc_alignmentGuides = False\<rparr>"

definition no_mods :: Modifiers where
  "no_mods = \<lparr>m_shift = False, m_alt = False, m_ctrl = False, m_meta = False\<rparr>"

definition demo_pointer :: "real \<Rightarrow> HitTarget \<Rightarrow> pointer_event" where
  "demo_pointer x t = \<lparr>pe_pointer = 1, pe_button = 0, pe_screen = \<lparr>vx = x, vy = 10\<rparr>,
     pe_world = \<lparr>vx = x, vy = 10\<rparr>, pe_target = t, pe_mods = no_mods, pe_time = 0\<rparr>"

lemma demo_press:
  "fsm_reduce S_idle (E_pointerdown (demo_pointer 10 (T_node ''a''))) ctx =
     (S_press \<lparr>pr_pointer = 1, pr_screen = \<lparr>vx = 10, vy = 10\<rparr>, pr_world = \<lparr>vx = 10, vy = 10\<rparr>,
        pr_target = T_node ''a'', pr_mode = Sel_replace, pr_time = 0, pr_fromSpace = False\<rparr>, [F_capture 1])"
  by (simp add: onPointerDown_def down_resize_def down_target_def down_press_def demo_pointer_def
      modeFor_def no_mods_def)

theorem gestures_are_bracketed_witness:
  "captured [F_capture 1] = {1} \<and> move_phase [F_capture 1] = Some False"
proof -
  have "session S_idle []" using session_start by (simp add: initialState_def)
  from session_step [OF this _ demo_press] gestures_are_bracketed show ?thesis
    by (fastforce simp: orderly_def holder_def is_dragging_def)
qed

text \<open>A context menu or long press that arrives during a node drag drops the gesture: the state
  returns to idle, but the only effect is the menu; the pointer stays captured, the host never hears
  that the move was cancelled and the previewed positions are not restored.\<close>

theorem contextmenu_leaks_drag:
  "fsm_reduce (S_dragging d) (E_contextmenu world T_canvas) ctx
     = (S_idle, [F_intent (I_context_menu world T_canvas)])
   \<and> captured [F_capture (dr_pointer d), F_intent (I_context_menu world T_canvas)] = {dr_pointer d}
   \<and> holder S_idle = None"
  by (simp add: onContextMenu_def selectableId_def captured_def capture_effect_def holder_def)

section \<open>Runs of events\<close>

fun run_fsm :: "FsmState \<Rightarrow> (FsmEvent \<times> FsmContext) list \<Rightarrow> fsm_result" where
  "run_fsm s [] = (s, [])"
| "run_fsm s ((e, ctx) # es) =
     (let (s1, out1) = fsm_reduce s e ctx; (s2, out2) = run_fsm s1 es in (s2, out1 @ out2))"

definition as_moves :: "(pointer_event \<times> FsmContext) list \<Rightarrow> (FsmEvent \<times> FsmContext) list" where
  "as_moves ms = map (\<lambda>(e, ctx). (E_pointermove e, ctx)) ms"

lemma run_fsm_append:
  "run_fsm s (es @ fs) =
     (let (s1, out1) = run_fsm s es; (s2, out2) = run_fsm s1 fs in (s2, out1 @ out2))"
  by (induction es arbitrary: s) (auto simp: Let_def split: prod.splits)

text \<open>The delta a drag shows after a sequence of moves: the snap of the last one.\<close>

definition last_delta :: "drag_state \<Rightarrow> (pointer_event \<times> FsmContext) list \<Rightarrow> Vec2" where
  "last_delta d ms = (if ms = [] then dr_delta d else sr_delta (drag_snap d (fst (last ms)) (snd (last ms))))"

definition preview_only :: "Effect \<Rightarrow> bool" where
  "preview_only f \<longleftrightarrow>
     (case f of F_preview_move _ _ _ \<Rightarrow> True | F_guides _ \<Rightarrow> True
      | F_intent (I_move_nodes ds ph) \<Rightarrow> ds = [] \<and> ph \<in> {Ph_start, Ph_update}
      | F_intent (I_select _ _) \<Rightarrow> True | _ \<Rightarrow> False)"

lemma preview_only_simps [simp]:
  "preview_only (F_preview_move is x y)" "preview_only (F_guides g)"
  "preview_only (F_intent (I_select is m))"
  "preview_only (F_intent (I_move_nodes ds ph)) \<longleftrightarrow> ds = [] \<and> ph \<in> {Ph_start, Ph_update}"
  by (auto simp: preview_only_def)

lemma drag_snap_delta [simp]: "drag_snap (d\<lparr>dr_delta := v\<rparr>) e ctx = drag_snap d e ctx"
  by (simp add: drag_snap_def)

lemma run_drag:
  "\<exists>out. run_fsm (S_dragging d) (as_moves ms) = (S_dragging (d\<lparr>dr_delta := last_delta d ms\<rparr>), out)
     \<and> list_all preview_only out"
proof (induction ms arbitrary: d)
  case Nil
  then show ?case by (simp add: as_moves_def last_delta_def)
next
  case (Cons m ms)
  obtain e ctx where m: "m = (e, ctx)" by force
  let ?d = "d\<lparr>dr_delta := sr_delta (drag_snap d e ctx)\<rparr>"
  from Cons.IH [of ?d] obtain out where
    "run_fsm (S_dragging ?d) (as_moves ms) = (S_dragging (?d\<lparr>dr_delta := last_delta ?d ms\<rparr>), out)"
    "list_all preview_only out" by blast
  moreover have "last_delta ?d ms = last_delta d (m # ms)"
    by (auto simp: last_delta_def m)
  ultimately show ?case
    by (simp add: as_moves_def m dragMove_def Let_def)
qed

lemma drag_starts:
  assumes "pr_target p = T_node i" "DRAG_THRESHOLD_PX < vdist (pr_screen p) (pe_screen e)"
    and "resolveDragSet ctx i = (nodes, replaced)" "nodes \<noteq> []"
  obtains d out where
    "run_fsm (S_press p) (as_moves ((e, ctx) # ms)) = (S_dragging (d\<lparr>dr_delta := last_delta d ((e, ctx) # ms)\<rparr>), out)"
    "list_all preview_only out" "dr_pointer d = pr_pointer p" "dr_ids d = map n_id nodes"
    "dr_snapshot d = map position_of nodes" "dr_fromSpace d = pr_fromSpace p" "dr_origin d = pr_world p"
    "dr_box d = boundsOf nodes"
proof (cases p e ctx i rule: beginDrag_cases)
  case marquee
  with assms(3,4) show ?thesis by simp
next
  case (drag nodes' replaced' d)
  have n: "nodes' = nodes" using drag(1) assms(3) by simp
  obtain out where out: "run_fsm (S_dragging d) (as_moves ((e, ctx) # ms))
      = (S_dragging (d\<lparr>dr_delta := last_delta d ((e, ctx) # ms)\<rparr>), out)" "list_all preview_only out"
    using run_drag by blast
  have "\<not> vdist (pr_screen p) (pe_screen e) \<le> DRAG_THRESHOLD_PX" using assms(2) by simp
  with drag(3) assms(1) have "fsm_reduce (S_press p) (E_pointermove e) ctx =
      (let (s1, out1) = fsm_reduce (S_dragging d) (E_pointermove e) ctx
       in (s1, ((if replaced' then [F_intent (I_select [i] Sel_replace)] else [])
                       @ [F_intent (I_move_nodes [] Ph_start)]) @ out1))"
    by (simp add: pressMove_def)
  with out have "run_fsm (S_press p) (as_moves ((e, ctx) # ms)) =
      (S_dragging (d\<lparr>dr_delta := last_delta d ((e, ctx) # ms)\<rparr>),
       ((if replaced' then [F_intent (I_select [i] Sel_replace)] else [])
                       @ [F_intent (I_move_nodes [] Ph_start)]) @ out)"
    by (auto simp: as_moves_def Let_def split: prod.splits)
  moreover have "list_all preview_only (((if replaced' then [F_intent (I_select [i] Sel_replace)] else [])
                       @ [F_intent (I_move_nodes [] Ph_start)]) @ out)"
    using out(2) by simp
  ultimately show ?thesis
    using drag(4-) unfolding n by (rule that)
qed

text \<open>Nothing happens below the drag threshold: however often the pointer moves within 4 screen
  pixels of the press, the state does not change and there are no effects, and a cancel then only
  releases the pointer.\<close>

theorem press_below_threshold_is_inert:
  assumes "list_all (\<lambda>(e, _). vdist (pr_screen p) (pe_screen e) \<le> DRAG_THRESHOLD_PX) moves"
  shows "run_fsm (S_press p) (as_moves moves) = (S_press p, [])
    \<and> run_fsm (S_press p) (as_moves moves @ [(E_blur, ctx)]) = (S_idle, [F_release (pr_pointer p)])"
proof -
  have "run_fsm (S_press p) (as_moves moves) = (S_press p, [])"
    using assms by (induction moves) (auto simp: as_moves_def pressMove_def)
  then show ?thesis by (simp add: run_fsm_append)
qed

theorem press_below_threshold_is_inert_witness:
  "run_fsm (S_press \<lparr>pr_pointer = 1, pr_screen = \<lparr>vx = 10, vy = 10\<rparr>, pr_world = \<lparr>vx = 10, vy = 10\<rparr>,
        pr_target = T_node ''a'', pr_mode = Sel_replace, pr_time = 0, pr_fromSpace = False\<rparr>)
     (as_moves [(demo_pointer 13 T_canvas, demo_fsm_ctx)])
   = (S_press \<lparr>pr_pointer = 1, pr_screen = \<lparr>vx = 10, vy = 10\<rparr>, pr_world = \<lparr>vx = 10, vy = 10\<rparr>,
        pr_target = T_node ''a'', pr_mode = Sel_replace, pr_time = 0, pr_fromSpace = False\<rparr>, [])"
  by (rule press_below_threshold_is_inert [THEN conjunct1])
    (simp add: demo_pointer_def vdist_def DRAG_THRESHOLD_PX_def)

definition cancels :: "FsmEvent \<Rightarrow> bool" where
  "cancels e \<longleftrightarrow>
     (case e of E_blur \<Rightarrow> True | E_pointercancel _ \<Rightarrow> True | E_keydown key _ _ \<Rightarrow> key = ''Escape'' | _ \<Rightarrow> False)"

text \<open>C32. A drag is visual until it is dropped. From a press on a node, past the threshold and
  through any moves, the effects only preview; cancelling then (Escape, pointercancel, blur) restores
  exactly the positions at the start of the drag, and dropping commits one rigid move of exactly the
  dragged nodes by the last snapped delta. No dragged node is locked.\<close>

theorem drag_cancel_or_drop:
  assumes "pr_target p = T_node i" "DRAG_THRESHOLD_PX < vdist (pr_screen p) (pe_screen e)"
    and "resolveDragSet ctx i = (nodes, replaced)" "nodes \<noteq> []"
    and "cancels stop" "ms = (e, ctx) # rest"
  shows "\<exists>out delta. list_all preview_only out \<and> list_all (\<lambda>n. \<not> n_locked n) nodes
    \<and> run_fsm (S_press p) (as_moves ms @ [(stop, ctx')]) =
        (S_idle, out @ [F_release (pr_pointer p), F_intent (I_move_nodes [] Ph_cancel),
                        F_restore_geometry (map position_of nodes),
                        F_preview_move (map n_id nodes) 0 0, F_guides []])
    \<and> run_fsm (S_press p) (as_moves ms @ [(E_pointerup u, ctx')]) =
        ((if pr_fromSpace p then S_spacePan else S_idle),
         out @ [F_release (pe_pointer u),
                F_intent (I_move_nodes (map (\<lambda>n. \<lparr>md_id = n_id n, md_dx = vx delta, md_dy = vy delta\<rparr>) nodes) Ph_end),
                F_guides []])
    \<and> delta = sr_delta (snapDrag \<lparr>si_box = boundsOf nodes,
         si_delta = \<lparr>vx = vx (pe_world (fst (last ms))) - vx (pr_world p),
                     vy = vy (pe_world (fst (last ms))) - vy (pr_world p)\<rparr>,
         si_candidates = (if fc_alignmentGuides (snd (last ms)) then snapCandidates (snd (last ms)) else []),
         si_moving = set (map n_id nodes), si_zoom = fc_zoom (snd (last ms)),
         si_gridSnap = fc_snapToGrid (snd (last ms)), si_objectSnap = fc_alignmentGuides (snd (last ms)),
         si_suspend = primaryMod (pe_mods (fst (last ms)))\<rparr>)"
proof -
  obtain d out where d: "run_fsm (S_press p) (as_moves ms) = (S_dragging (d\<lparr>dr_delta := last_delta d ms\<rparr>), out)"
    "list_all preview_only out" "dr_ids d = map n_id nodes" "dr_snapshot d = map position_of nodes"
    "dr_pointer d = pr_pointer p" "dr_origin d = pr_world p" "dr_box d = boundsOf nodes"
    "dr_fromSpace d = pr_fromSpace p"
    using drag_starts [OF assms(1-4), of rest] unfolding assms(6) by metis
  have "fsm_reduce (S_dragging d') stop ctx' = abort (S_dragging d')" for d'
    using assms(5) by (cases stop) (auto simp: cancels_def onKeyDown_def at_rest_def)
  moreover have "list_all (\<lambda>n. \<not> n_locked n) nodes"
    using assms(3) by (auto simp: resolveDragSet_def list_all_iff split: if_splits option.splits)
  moreover have "ms \<noteq> []" using assms(6) by simp
  ultimately show ?thesis
    using d by (intro exI [of _ out] exI [of _ "last_delta d ms"])
      (simp add: run_fsm_append last_delta_def drag_snap_def comp_def)
qed

theorem drag_cancel_or_drop_witness:
  "\<exists>out. run_fsm (S_press \<lparr>pr_pointer = 1, pr_screen = \<lparr>vx = 10, vy = 10\<rparr>, pr_world = \<lparr>vx = 10, vy = 10\<rparr>,
        pr_target = T_node ''a'', pr_mode = Sel_replace, pr_time = 0, pr_fromSpace = False\<rparr>)
      (as_moves [(demo_pointer 50 T_canvas, demo_fsm_ctx)] @ [(E_blur, demo_fsm_ctx)])
    = (S_idle, out @ [F_release 1, F_intent (I_move_nodes [] Ph_cancel),
         F_restore_geometry [\<lparr>np_id = ''a'', np_x = 0, np_y = 0\<rparr>], F_preview_move [''a''] 0 0, F_guides []])"
proof -
  let ?p = "\<lparr>pr_pointer = 1, pr_screen = \<lparr>vx = 10, vy = 10\<rparr>, pr_world = \<lparr>vx = 10, vy = 10\<rparr>,
        pr_target = T_node ''a'', pr_mode = Sel_replace, pr_time = 0, pr_fromSpace = False\<rparr>"
  have far: "DRAG_THRESHOLD_PX < vdist (pr_screen ?p) (pe_screen (demo_pointer 50 T_canvas))"
    by (simp add: demo_pointer_def vdist_def DRAG_THRESHOLD_PX_def)
  have set: "resolveDragSet demo_fsm_ctx ''a'' = ([demo_node ''a'' 0 False], False)"
    by (simp add: resolveDragSet_def demo_fsm_ctx_def selectedNodes_def demo_scene_def demo_nodes_def
        demo_node_def List.map_filter_simps)
  have pos: "position_of (demo_node ''a'' 0 False) = \<lparr>np_id = ''a'', np_x = 0, np_y = 0\<rparr>"
    "n_id (demo_node ''a'' 0 False) = ''a''"
    by (simp_all add: position_of_def demo_node_def)
  show ?thesis
    using drag_cancel_or_drop [of ?p "''a''", OF _ far set _ _ refl, of E_blur "[]" demo_fsm_ctx undefined]
    by (auto simp: cancels_def pos)
qed

section \<open>Resizing\<close>

text \<open>A resize keeps the opposite side in place and never shrinks a node below the minimum: from
  a start of at least 24 px each way, whatever the pointer does, the result is at least 24 px each way,
  the edges the handle does not touch do not move, and a dimension the handle does not touch is kept.\<close>

theorem resizeRect_keeps_opposite_edge:
  assumes "MIN_NODE_SIZE \<le> rw start" "MIN_NODE_SIZE \<le> rh start"
  shows "let r = resizeRect start handle dx dy in
     MIN_NODE_SIZE \<le> rw r \<and> MIN_NODE_SIZE \<le> rh r
     \<and> (if handle \<in> {H_nw, H_w, H_sw} then rx r + rw r = rx start + rw start else rx r = rx start)
     \<and> (if handle \<in> {H_nw, H_n, H_ne} then ry r + rh r = ry start + rh start else ry r = ry start)
     \<and> (handle \<in> {H_n, H_s} \<longrightarrow> rw r = rw start) \<and> (handle \<in> {H_e, H_w} \<longrightarrow> rh r = rh start)"
  using assms by (cases handle) (simp_all add: resizeRect_def Let_def)

theorem resizeRect_keeps_opposite_edge_witness:
  "resizeRect \<lparr>rx = 0, ry = 0, rw = 100, rh = 50\<rparr> H_nw 500 10 = \<lparr>rx = 76, ry = 10, rw = 24, rh = 40\<rparr>
   \<and> MIN_NODE_SIZE \<le> rw (resizeRect \<lparr>rx = 0, ry = 0, rw = 100, rh = 50\<rparr> H_nw 500 10)"
  using resizeRect_keeps_opposite_edge [of "\<lparr>rx = 0, ry = 0, rw = 100, rh = 50\<rparr>" H_nw 500 10]
  by (simp add: resizeRect_def MIN_NODE_SIZE_def Let_def)

section \<open>Keyboard connections\<close>

definition connect_ok :: "connect_state \<Rightarrow> bool" where
  "connect_ok c \<longleftrightarrow>
     (case cn_via c of
        Via_pointer \<Rightarrow> cn_candidates c = []
      | Via_keyboard \<Rightarrow>
          cn_from c \<notin> set (cn_candidates c) \<and> length (cn_candidates c) \<le> CONNECT_CANDIDATE_LIMIT
          \<and> (if cn_candidates c = [] then cn_index c = -1
             else 0 \<le> cn_index c \<and> cn_index c < int (length (cn_candidates c))))"

lemma connectCandidates_not_source: "n_id source \<notin> set (connectCandidates ctx source)"
  by (auto simp: connectCandidates_def Let_def dest!: in_set_takeD)

lemma length_connectCandidates: "length (connectCandidates ctx source) \<le> CONNECT_CANDIDATE_LIMIT"
  by (simp add: connectCandidates_def Let_def)

lemma js_rem_step:
  assumes "0 \<le> i" "i < count" "step = -1 \<or> step = 1"
  shows "0 \<le> js_rem (i + step + count) count \<and> js_rem (i + step + count) count < count"
  using assms by (auto simp: js_rem_def)

definition fsm_connect_ok :: "FsmState \<Rightarrow> bool" where
  "fsm_connect_ok s \<longleftrightarrow> (case s of S_connecting c \<Rightarrow> connect_ok c | _ \<Rightarrow> True)"

lemma fsm_connect_ok_simps [simp]:
  "fsm_connect_ok (S_connecting c) = connect_ok c" "fsm_connect_ok S_idle" "fsm_connect_ok (S_hover t)"
  "fsm_connect_ok S_spacePan" "fsm_connect_ok (S_press p)" "fsm_connect_ok (S_panning q)"
  "fsm_connect_ok (S_marquee m)" "fsm_connect_ok (S_dragging d)" "fsm_connect_ok (S_resizing r)"
  "fsm_connect_ok (S_waypoint w)" "fsm_connect_ok (S_editing i)"
  by (simp_all add: fsm_connect_ok_def)

lemma aim_ok:
  assumes "cn_via c = Via_keyboard" "cn_from c \<notin> set (cn_candidates c)"
    "length (cn_candidates c) \<le> CONNECT_CANDIDATE_LIMIT" "0 \<le> i" "i < int (length (cn_candidates c))"
  shows "fsm_connect_ok (fst (aimAtCandidate c ctx i))"
  using assms by (auto simp: aimAtCandidate_def Let_def connect_ok_def)

lemma connect_key_ok:
  assumes "connect_ok c"
  shows "fsm_connect_ok (fst (onConnectKey c key mods ctx))"
proof (cases "cn_via c = Via_keyboard \<and> key = ''Tab'' \<and> 0 < int (length (cn_candidates c))")
  case True
  with assms have ok: "cn_via c = Via_keyboard" "cn_from c \<notin> set (cn_candidates c)"
    "length (cn_candidates c) \<le> CONNECT_CANDIDATE_LIMIT" "0 \<le> cn_index c"
    "cn_index c < int (length (cn_candidates c))"
    by (auto simp: connect_ok_def split: if_splits)
  note aim_ok [OF ok(1-3)] js_rem_step [OF ok(4,5), of "if m_shift mods then -1 else 1"]
  with True show ?thesis by (simp add: onConnectKey_def Let_def)
next
  case False
  with assms show ?thesis by (auto simp: onConnectKey_def Let_def split: option.split)
qed

lemma start_connect_ok: "fsm_connect_ok s \<Longrightarrow> fsm_connect_ok (fst (startKeyboardConnect s ctx))"
  using connectCandidates_not_source [of _ ctx] length_connectCandidates [of ctx]
  by (auto simp: startKeyboardConnect_def Let_def connect_ok_def split: option.split intro!: aim_ok)

lemma reduce_connect_ok:
  assumes "fsm_connect_ok s"
  shows "fsm_connect_ok (fst (fsm_reduce s e ctx))"
proof (cases e)
  case (E_pointerdown p)
  with assms show ?thesis
    by (auto simp: onPointerDown_def down_resize_def down_target_def down_press_def connect_ok_def
        split: FsmState.splits option.splits HitTarget.splits if_splits)
next
  case (E_pointermove p)
  moreover have "fsm_connect_ok (fst (pressMove q p ctx))" for q
    by (auto simp: pressMove_def beginDrag_def dragMove_def to_marquee_def Let_def
        split: HitTarget.splits prod.splits)
  ultimately show ?thesis using assms
    by (cases s) (auto simp: dragMove_def Let_def connect_ok_def split: connect_via.splits)
next
  case (E_pointerup p)
  with assms show ?thesis by (cases s) (auto simp: Let_def)
next
  case (E_keydown key mods rep)
  have rest: "fsm_connect_ok (fst (rest_key t key mods ctx))" if "fsm_connect_ok t" for t
  proof -
    have n: "fst (nudge ctx dx dy) = S_idle" for dx dy by (simp add: nudge_def Let_def)
    show ?thesis
      using that shortcut_shape [of t ctx key mods]
      by (auto simp: rest_key_def shortcut_form_def enter_edit_def n)
  qed
  have ab: "fsm_connect_ok (fst (abort t))" for t by (cases t) auto
  show ?thesis
    using assms E_keydown rest ab start_connect_ok connect_key_ok
    by (cases s) (simp_all add: onKeyDown_def at_rest_def)
next
  case (E_dblclick w t)
  with assms show ?thesis
    by (auto simp: onDblClick_def enter_edit_def split: HitTarget.splits option.splits)
next
  case (E_longpress w t)
  with assms show ?thesis by (auto simp: onContextMenu_def split: HitTarget.splits)
next
  case (E_contextmenu w t)
  with assms show ?thesis by (auto simp: onContextMenu_def split: HitTarget.splits)
next
  case (E_pointercancel i)
  then show ?thesis by (cases s) auto
next
  case E_blur
  then show ?thesis by (cases s) auto
next
  case E_pointerleave
  with assms show ?thesis by (cases s) auto
qed (use assms in auto)

text \<open>A keyboard connection always aims at a real candidate other than its source: after any
  events the candidate list excludes the source and has at most 12 entries, the index is inside it,
  and Enter creates the edge to exactly that candidate, never a self-loop.\<close>

theorem keyboard_connect_is_valid:
  assumes "fst (run_fsm initialState es) = S_connecting c" "cn_via c = Via_keyboard"
  shows "cn_from c \<notin> set (cn_candidates c) \<and> length (cn_candidates c) \<le> 12
    \<and> fsm_reduce (S_connecting c) (E_keydown ''Enter'' mods rep) ctx =
        (S_idle, if cn_candidates c = [] then []
                 else [F_intent (I_create_edge (cn_from c) (cn_fromAnchor c)
                                   (cn_candidates c ! nat (cn_index c)) auto_anchor)])
    \<and> (cn_candidates c = [] \<or> cn_candidates c ! nat (cn_index c) \<in> set (cn_candidates c))"
proof -
  have run: "fsm_connect_ok s \<Longrightarrow> fsm_connect_ok (fst (run_fsm s es))" for s
  proof (induction es arbitrary: s)
    case (Cons ec es)
    obtain e ctx where ec: "ec = (e, ctx)" by force
    from Cons.IH [OF reduce_connect_ok [OF Cons.prems, of e ctx]] show ?case
      by (simp add: ec Let_def split_beta)
  qed simp
  from run [of initialState] assms have "connect_ok c" by (simp add: initialState_def)
  with assms(2) have ok: "cn_from c \<notin> set (cn_candidates c)" "length (cn_candidates c) \<le> 12"
    "if cn_candidates c = [] then cn_index c = -1
     else 0 \<le> cn_index c \<and> cn_index c < int (length (cn_candidates c))"
    by (auto simp: connect_ok_def CONNECT_CANDIDATE_LIMIT_def)
  then have target: "cn_candidates c = [] \<or> cn_candidates c ! nat (cn_index c) \<in> set (cn_candidates c)"
    by (auto split: if_splits)
  have "nth_opt (cn_candidates c) (cn_index c) =
      (if cn_candidates c = [] then None else Some (cn_candidates c ! nat (cn_index c)))"
    using ok(3) by (auto simp: nth_opt_def split: if_splits)
  with ok target assms(2) show ?thesis
    by (auto simp: onKeyDown_def at_rest_def onConnectKey_def Let_def)
qed

theorem keyboard_connect_is_valid_witness:
  "\<exists>c. fst (run_fsm initialState [(E_keydown ''c'' no_mods False, demo_fsm_ctx\<lparr>fc_selection := [''a'']\<rparr>)]) = S_connecting c
     \<and> cn_from c = ''a'' \<and> cn_from c \<notin> set (cn_candidates c)"
proof -
  let ?ctx = "demo_fsm_ctx\<lparr>fc_selection := [''a'']\<rparr>"
  have src: "Option.bind (last_opt (fc_selection ?ctx)) (q_node (fc_scene ?ctx)) = Some (demo_node ''a'' 0 False)"
    by (simp add: last_opt_def demo_fsm_ctx_def demo_scene_def demo_nodes_def demo_node_def)
  have "\<exists>c. startKeyboardConnect S_idle ?ctx = (S_connecting c, []) \<and> cn_via c = Via_keyboard \<and> cn_from c = ''a''"
    unfolding startKeyboardConnect_def src
    by (auto simp: Let_def aimAtCandidate_def demo_node_def)
  then obtain c where c: "startKeyboardConnect S_idle ?ctx = (S_connecting c, [])"
    "cn_via c = Via_keyboard" "cn_from c = ''a''" by blast
  have run: "fst (run_fsm initialState [(E_keydown ''c'' no_mods False, ?ctx)]) = S_connecting c"
    using c(1) by (simp add: initialState_def onKeyDown_def at_rest_def no_mods_def primaryMod_def)
  from keyboard_connect_is_valid [OF run c(2)] run c(3) show ?thesis by blast
qed

section \<open>Editing\<close>

definition leaves_editor :: "FsmEvent \<Rightarrow> bool" where
  "leaves_editor e \<longleftrightarrow>
     (case e of E_pointerdown _ \<Rightarrow> True | E_pointercancel _ \<Rightarrow> True | E_blur \<Rightarrow> True | E_edit_end _ \<Rightarrow> True
      | E_longpress _ _ \<Rightarrow> True | E_contextmenu _ _ \<Rightarrow> True | E_keydown key _ _ \<Rightarrow> key = ''Escape''
      | _ \<Rightarrow> False)"

text \<open>The editor shields the engine: while a node is edited, no key but Escape, no wheel, pinch,
  double click, move or release changes the state or produces any intent or camera effect.\<close>

theorem editing_shields_shortcuts:
  assumes "list_all (\<lambda>(e, _). \<not> leaves_editor e) es"
  shows "fst (run_fsm (S_editing i) es) = S_editing i
    \<and> list_all (\<lambda>f. case f of F_release _ \<Rightarrow> True | _ \<Rightarrow> False) (snd (run_fsm (S_editing i) es))"
proof -
  have one: "fst (fsm_reduce (S_editing i) e ctx) = S_editing i
      \<and> list_all (\<lambda>f. case f of F_release _ \<Rightarrow> True | _ \<Rightarrow> False) (snd (fsm_reduce (S_editing i) e ctx))"
    if "\<not> leaves_editor e" for e ctx
    using that by (cases e) (auto simp: leaves_editor_def onKeyDown_def onDblClick_def is_editing_def)
  show ?thesis
    using assms
  proof (induction es)
    case (Cons ec es)
    obtain e ctx where ec: "ec = (e, ctx)" by force
    with Cons one [of e ctx] show ?case
      by (auto simp: ec Let_def split_beta prod_eq_iff)
  qed simp
qed

theorem editing_shields_shortcuts_witness:
  "fst (run_fsm (S_editing ''a'') [(E_keydown ''Delete'' no_mods False, demo_fsm_ctx)]) = S_editing ''a''"
  by (rule editing_shields_shortcuts [THEN conjunct1]) (simp add: leaves_editor_def)

end
