(* ===== verification/CanvasGraph.thy ===== *)
theory CanvasGraph
  imports CanvasIndex JsSort "HOL-Library.Multiset"
begin

text \<open>
  The scene graph, \<open>packages/canvas-engine/src/scene/graph.ts\<close>: the entities of a canvas and the
  structures derived from them (per-layer render order, edge incidence, group membership, group and
  scene bounds, the spatial index, the dirty sets), each kept up to date patch by patch. The graph
  is a client of the interface \<open>spatial_index\<close> and of the comparator contract \<open>js_comparator\<close> that
  \<open>Array.prototype.sort\<close> asks for.

  A patch is what the host sends, before validation: the numbers of its moves, resizes, nodes and
  edges may be \<open>NaN\<close> or infinite (\<open>NonFinite\<close>). \<open>assertValid\<close> refuses those, so the views inside
  the graph carry \<open>real\<close> coordinates.
\<close>

section \<open>Searching\<close>

text \<open>The loop of a binary search for the first index at which \<open>before\<close> fails.\<close>

function lower_bound :: "(nat \<Rightarrow> bool) \<Rightarrow> nat \<Rightarrow> nat \<Rightarrow> nat" where
  "lower_bound before lo hi =
     (if lo < hi
      then (let mid = (lo + hi) div 2
            in if before mid then lower_bound before (mid + 1) hi else lower_bound before lo mid)
      else lo)"
  by pat_completeness auto

termination by (relation "measure (\<lambda>(before, lo, hi). hi - lo)") auto

declare lower_bound.simps [simp del]

section \<open>Model\<close>

record GroupView =
  g_id :: GroupId
  g_title :: string
  g_color :: RGBA
  g_collapsed :: bool
  g_z :: real

record LayerView =
  l_id :: LayerId
  l_name :: string
  l_visible :: bool
  l_locked :: bool

record SceneSnapshot =
  snap_nodes :: "NodeView list"
  snap_edges :: "EdgeView list"
  snap_groups :: "GroupView list"
  snap_layers :: "LayerView list"

record NodeMove =
  mv_id :: NodeId
  mv_x :: js_num
  mv_y :: js_num

text \<open>A node as a patch carries it: a view and its unchecked numbers.\<close>

record NodePatch =
  npt_view :: NodeView
  npt_x :: js_num
  npt_y :: js_num
  npt_w :: js_num
  npt_h :: js_num
  npt_z :: js_num

datatype ScenePatch =
    P_upsert_node NodePatch
  | P_remove_node NodeId
  | P_move_nodes "NodeMove list"
  | P_resize_node NodeId js_num js_num "js_num option" "js_num option"
  | P_upsert_edge EdgeView js_num
  | P_remove_edge EdgeId
  | P_upsert_group GroupView
  | P_remove_group GroupId
  | P_set_layers "LayerView list"
  | P_bulk "ScenePatch list"

record SceneDirty =
  dt_nodes :: "NodeId list"
  dt_edges :: "EdgeId list"
  dt_rects :: "Rect list"
  dt_full :: bool

record scene_bounds =
  b_minX :: real
  b_minY :: real
  b_maxX :: real
  b_maxY :: real
  b_count :: int

record scene_graph =
  sg_nodes :: "(NodeId, NodeView) omap"
  sg_edges :: "(EdgeId, EdgeView) omap"
  sg_groups :: "(GroupId, GroupView) omap"
  sg_layers :: "LayerView list"
  sg_layerRank :: "(LayerId, nat) omap"
  sg_byLayer :: "(LayerId, NodeId list) omap"
  sg_edgesByNode :: "(NodeId, EdgeId list) omap"
  sg_groupChildren :: "(GroupId, NodeId list) omap"
  sg_boundsCache :: "(GroupId, Rect) omap"
  sg_boundsStale :: "GroupId list"
  sg_index :: grid_index
  sg_dirty :: SceneDirty
  sg_bounds :: scene_bounds

datatype graph_error = Range_error string

subsection \<open>Validation\<close>

definition num_of :: "js_num \<Rightarrow> real" where
  "num_of v = (case v of Finite r \<Rightarrow> r | NonFinite \<Rightarrow> 0)"

definition finite_nums :: "js_num list \<Rightarrow> bool" where
  "finite_nums vs \<longleftrightarrow> list_all (\<lambda>v. v \<noteq> NonFinite) vs"

text \<open>The check a patch must pass; \<open>Some e\<close> is the exception thrown.\<close>

definition first_error :: "('a \<Rightarrow> graph_error option) \<Rightarrow> 'a list \<Rightarrow> graph_error option" where
  "first_error check xs = foldr (\<lambda>x rest. case check x of None \<Rightarrow> rest | Some e \<Rightarrow> Some e) xs None"

fun assertValid :: "ScenePatch \<Rightarrow> graph_error option"
  and assertAllValid :: "ScenePatch list \<Rightarrow> graph_error option" where
  "assertValid (P_upsert_node n) =
     (if n_id (npt_view n) = '''' then Some (Range_error ''upsert-node: empty id'')
      else if \<not> finite_nums [npt_x n, npt_y n, npt_w n, npt_h n, npt_z n]
      then Some (Range_error (''upsert-node '' @ n_id (npt_view n) @ '': non-finite'')) else None)"
| "assertValid (P_move_nodes moves) =
     first_error (\<lambda>m. if finite_nums [mv_x m, mv_y m] then None
                      else Some (Range_error (''move-nodes '' @ mv_id m @ '': non-finite''))) moves"
| "assertValid (P_resize_node i w h x y) =
     (if \<not> finite_nums [w, h] then Some (Range_error (''resize-node '' @ i @ '': non-finite''))
      else if x = Some NonFinite then Some (Range_error (''resize-node '' @ i @ '': non-finite x''))
      else if y = Some NonFinite then Some (Range_error (''resize-node '' @ i @ '': non-finite y''))
      else None)"
| "assertValid (P_upsert_edge e z) =
     (if ed_id e = '''' then Some (Range_error ''upsert-edge: empty id'')
      else if \<not> finite_nums [z]
      then Some (Range_error (''upsert-edge '' @ ed_id e @ '': non-finite z'')) else None)"
| "assertValid (P_set_layers layers) =
     (if length (js_uniq (map l_id layers)) \<noteq> length layers
      then Some (Range_error ''set-layers: duplicate layer id'') else None)"
| "assertValid (P_bulk ps) = assertAllValid ps"
| "assertValid (P_remove_node i) = None"
| "assertValid (P_remove_edge i) = None"
| "assertValid (P_upsert_group g) = None"
| "assertValid (P_remove_group i) = None"
| "assertAllValid [] = None"
| "assertAllValid (p # ps) = (case assertValid p of None \<Rightarrow> assertAllValid ps | Some e \<Rightarrow> Some e)"

subsection \<open>Layers and render order\<close>

definition isVisible :: "scene_graph \<Rightarrow> NodeView \<Rightarrow> bool" where
  "isVisible g n =
     (if n_hidden n then False
      else (case omap_get (sg_layerRank g) (n_layerId n) of
              None \<Rightarrow> True
            | Some rank \<Rightarrow>
                (if rank < length (sg_layers g) then l_visible (sg_layers g ! rank) else True)))"

definition setLayerRank :: "LayerView list \<Rightarrow> scene_graph \<Rightarrow> scene_graph" where
  "setLayerRank next g =
     g\<lparr>sg_layers := next, sg_layerRank := omap_of (zip (map l_id next) [0..<length next])\<rparr>"

definition rankOf :: "scene_graph \<Rightarrow> NodeView \<Rightarrow> nat" where
  "rankOf g n = (case omap_get (sg_layerRank g) (n_layerId n) of
                   None \<Rightarrow> length (sg_layers g) | Some r \<Rightarrow> r)"

definition compareNodes :: "scene_graph \<Rightarrow> NodeView \<Rightarrow> NodeView \<Rightarrow> real" where
  "compareNodes g a b =
     (let dr = real (rankOf g a) - real (rankOf g b); dz = n_z a - n_z b
      in if dr \<noteq> 0 then dr else if dz \<noteq> 0 then dz
         else if n_id a < n_id b then -1 else if n_id b < n_id a then 1 else 0)"

definition node_of :: "scene_graph \<Rightarrow> NodeId \<Rightarrow> NodeView option" where
  "node_of g i = omap_get (sg_nodes g) i"

definition layer_list :: "scene_graph \<Rightarrow> LayerId \<Rightarrow> NodeId list" where
  "layer_list g l = (case omap_get (sg_byLayer g) l of None \<Rightarrow> [] | Some xs \<Rightarrow> xs)"

definition sorts_before :: "scene_graph \<Rightarrow> NodeView \<Rightarrow> NodeId list \<Rightarrow> nat \<Rightarrow> bool" where
  "sorts_before g n xs k =
     (if k < length xs
      then (case node_of g (xs ! k) of None \<Rightarrow> False | Some other \<Rightarrow> compareNodes g other n < 0)
      else False)"

definition layerInsert :: "NodeView \<Rightarrow> scene_graph \<Rightarrow> scene_graph" where
  "layerInsert n g =
     (let xs = layer_list g (n_layerId n); pos = lower_bound (sorts_before g n xs) 0 (length xs)
      in g\<lparr>sg_byLayer := omap_set (n_layerId n) (take pos xs @ n_id n # drop pos xs) (sg_byLayer g)\<rparr>)"

definition layerRemove :: "NodeView \<Rightarrow> scene_graph \<Rightarrow> scene_graph" where
  "layerRemove n g =
     (case omap_get (sg_byLayer g) (n_layerId n) of
        None \<Rightarrow> g
      | Some xs \<Rightarrow>
          (let xs' = remove1 (n_id n) xs
           in g\<lparr>sg_byLayer := (if xs' = [] then omap_delete (n_layerId n) (sg_byLayer g)
                               else omap_set (n_layerId n) xs' (sg_byLayer g))\<rparr>))"

subsection \<open>Scene bounds\<close>

definition no_bounds :: scene_bounds where
  "no_bounds = \<lparr>b_minX = 0, b_minY = 0, b_maxX = 0, b_maxY = 0, b_count = 0\<rparr>"

definition growBounds :: "Rect \<Rightarrow> scene_bounds \<Rightarrow> scene_bounds" where
  "growBounds r b =
     (if b_count b = 0
      then \<lparr>b_minX = rx r, b_minY = ry r, b_maxX = rx r + rw r, b_maxY = ry r + rh r, b_count = 1\<rparr>
      else \<lparr>b_minX = (if rx r < b_minX b then rx r else b_minX b),
            b_minY = (if ry r < b_minY b then ry r else b_minY b),
            b_maxX = (if b_maxX b < rx r + rw r then rx r + rw r else b_maxX b),
            b_maxY = (if b_maxY b < ry r + rh r then ry r + rh r else b_maxY b),
            b_count = b_count b + 1\<rparr>)"

definition visible_rects :: "scene_graph \<Rightarrow> Rect list" where
  "visible_rects g = map node_rect (filter (isVisible g) (omap_values (sg_nodes g)))"

definition recomputeBounds :: "scene_graph \<Rightarrow> scene_graph" where
  "recomputeBounds g =
     (let b = fold growBounds (visible_rects g) ((sg_bounds g)\<lparr>b_count := 0\<rparr>)
      in g\<lparr>sg_bounds := (if b_count b = 0 then no_bounds else b)\<rparr>)"

definition touchesExtreme :: "Rect \<Rightarrow> scene_bounds \<Rightarrow> bool" where
  "touchesExtreme r b \<longleftrightarrow>
     rx r = b_minX b \<or> ry r = b_minY b \<or> rx r + rw r = b_maxX b \<or> ry r + rh r = b_maxY b"

definition shrinkBounds :: "Rect \<Rightarrow> scene_graph \<Rightarrow> scene_graph" where
  "shrinkBounds r g =
     (let b = (sg_bounds g)\<lparr>b_count := b_count (sg_bounds g) - 1\<rparr>
      in if b_count b = 0 then g\<lparr>sg_bounds := no_bounds\<rparr>
         else if touchesExtreme r b then recomputeBounds (g\<lparr>sg_bounds := b\<rparr>)
         else g\<lparr>sg_bounds := b\<rparr>)"

subsection \<open>Dirty marks and edges\<close>

definition touchGroup :: "GroupId option \<Rightarrow> scene_graph \<Rightarrow> scene_graph" where
  "touchGroup gid g =
     (case gid of None \<Rightarrow> g | Some i \<Rightarrow> g\<lparr>sg_boundsStale := set_add i (sg_boundsStale g)\<rparr>)"

definition incident :: "scene_graph \<Rightarrow> NodeId \<Rightarrow> EdgeId list" where
  "incident g i = (case omap_get (sg_edgesByNode g) i of None \<Rightarrow> [] | Some es \<Rightarrow> es)"

definition markNode :: "NodeView \<Rightarrow> scene_graph \<Rightarrow> scene_graph" where
  "markNode n g =
     (let d = sg_dirty g
      in touchGroup (n_groupId n)
           (g\<lparr>sg_dirty := d\<lparr>dt_nodes := set_add (n_id n) (dt_nodes d),
                            dt_rects := dt_rects d @ [node_rect n],
                            dt_edges := fold set_add (incident g (n_id n)) (dt_edges d)\<rparr>\<rparr>))"

definition mark_edge :: "EdgeId \<Rightarrow> scene_graph \<Rightarrow> scene_graph" where
  "mark_edge i g = g\<lparr>sg_dirty := (sg_dirty g)\<lparr>dt_edges := set_add i (dt_edges (sg_dirty g))\<rparr>\<rparr>"

definition linkEdge :: "EdgeView \<Rightarrow> scene_graph \<Rightarrow> scene_graph" where
  "linkEdge e g =
     g\<lparr>sg_edgesByNode := fold (bucket_add (ed_id e)) [ed_from e, ed_to e] (sg_edgesByNode g)\<rparr>"

definition unlinkEdge :: "EdgeView \<Rightarrow> scene_graph \<Rightarrow> scene_graph" where
  "unlinkEdge e g =
     g\<lparr>sg_edgesByNode := fold (bucket_del (ed_id e)) [ed_from e, ed_to e] (sg_edgesByNode g)\<rparr>"

subsection \<open>Operations on entities\<close>

definition addNode :: "NodeView \<Rightarrow> scene_graph \<Rightarrow> scene_graph" where
  "addNode n g =
     (let g1 = layerInsert n (g\<lparr>sg_nodes := omap_set (n_id n) n (sg_nodes g)\<rparr>);
          g2 = (case n_groupId n of
                  None \<Rightarrow> g1
                | Some gid \<Rightarrow>
                    touchGroup (Some gid)
                      (g1\<lparr>sg_groupChildren := bucket_add (n_id n) gid (sg_groupChildren g1)\<rparr>));
          g3 = (if isVisible g2 n
                then g2\<lparr>sg_index := index_insert (n_id n) (node_rect n) (sg_index g2),
                        sg_bounds := growBounds (node_rect n) (sg_bounds g2)\<rparr>
                else g2)
      in markNode n g3)"

definition dropNode :: "NodeView \<Rightarrow> scene_graph \<Rightarrow> scene_graph" where
  "dropNode n g =
     (let g1 = layerRemove n (g\<lparr>sg_nodes := omap_delete (n_id n) (sg_nodes g)\<rparr>);
          g2 = (case n_groupId n of
                  None \<Rightarrow> g1
                | Some gid \<Rightarrow>
                    touchGroup (Some gid)
                      (g1\<lparr>sg_groupChildren := bucket_del (n_id n) gid (sg_groupChildren g1)\<rparr>));
          g3 = (if isVisible g2 n
                then shrinkBounds (node_rect n) (g2\<lparr>sg_index := index_remove (n_id n) (sg_index g2)\<rparr>)
                else g2)
      in markNode n g3)"

definition removeEdge :: "EdgeId \<Rightarrow> scene_graph \<Rightarrow> scene_graph" where
  "removeEdge i g =
     (case omap_get (sg_edges g) i of
        None \<Rightarrow> g
      | Some e \<Rightarrow> mark_edge i ((unlinkEdge e g)\<lparr>sg_edges := omap_delete i (sg_edges g)\<rparr>))"

definition removeNode :: "NodeId \<Rightarrow> scene_graph \<Rightarrow> scene_graph" where
  "removeNode i g =
     (case node_of g i of
        None \<Rightarrow> g
      | Some n \<Rightarrow> dropNode n (fold removeEdge (incident g i) g))"

definition replaceGeometry :: "NodeView \<Rightarrow> NodeView \<Rightarrow> scene_graph \<Rightarrow> scene_graph" where
  "replaceGeometry prev next g =
     (let g1 = markNode prev g; wasVisible = isVisible g1 prev;
          g2 = g1\<lparr>sg_nodes := omap_set (n_id next) next (sg_nodes g1)\<rparr>;
          nowVisible = isVisible g2 next;
          g3 = g2\<lparr>sg_index := (if nowVisible then index_update (n_id next) (node_rect next) (sg_index g2)
                              else index_remove (n_id next) (sg_index g2))\<rparr>;
          g4 = (if wasVisible \<and> touchesExtreme (node_rect prev) (sg_bounds g3) then recomputeBounds g3
                else (let b = (if wasVisible then (sg_bounds g3)\<lparr>b_count := b_count (sg_bounds g3) - 1\<rparr>
                               else sg_bounds g3)
                      in g3\<lparr>sg_bounds := (if nowVisible then growBounds (node_rect next) b else b)\<rparr>))
      in markNode next g4)"

definition reindex_node :: "NodeView \<Rightarrow> scene_graph \<Rightarrow> scene_graph" where
  "reindex_node n g =
     g\<lparr>sg_index := (if isVisible g n then index_insert (n_id n) (node_rect n) (sg_index g)
                   else index_remove (n_id n) (sg_index g))\<rparr>"

definition reindexVisibility :: "scene_graph \<Rightarrow> scene_graph" where
  "reindexVisibility g =
     (let g1 = recomputeBounds (fold reindex_node (omap_values (sg_nodes g)) g)
      in g1\<lparr>sg_boundsStale := fold set_add (omap_keys (sg_groupChildren g1)) (sg_boundsStale g1),
            sg_dirty := (sg_dirty g1)\<lparr>dt_full := True\<rparr>\<rparr>)"

definition sort_layer :: "scene_graph \<Rightarrow> NodeId list \<Rightarrow> NodeId list" where
  "sort_layer g xs =
     js_sort (\<lambda>a b. case (node_of g a, node_of g b) of
                      (Some na, Some nb) \<Rightarrow> compareNodes g na nb | _ \<Rightarrow> 0) xs"

definition moveNode :: "NodeMove \<Rightarrow> scene_graph \<Rightarrow> scene_graph" where
  "moveNode m g =
     (case node_of g (mv_id m) of
        None \<Rightarrow> g
      | Some prev \<Rightarrow>
          (if n_x prev = num_of (mv_x m) \<and> n_y prev = num_of (mv_y m) then g
           else replaceGeometry prev (prev\<lparr>n_x := num_of (mv_x m), n_y := num_of (mv_y m)\<rparr>) g))"

definition orphan :: "NodeId \<Rightarrow> scene_graph \<Rightarrow> scene_graph" where
  "orphan i g =
     (let g' = (case node_of g i of
                  None \<Rightarrow> g
                | Some n \<Rightarrow> g\<lparr>sg_nodes := omap_set i (n\<lparr>n_groupId := None\<rparr>) (sg_nodes g)\<rparr>)
      in g'\<lparr>sg_dirty := (sg_dirty g')\<lparr>dt_nodes := set_add i (dt_nodes (sg_dirty g'))\<rparr>\<rparr>)"

definition checked_node :: "NodePatch \<Rightarrow> NodeView" where
  "checked_node p =
     (npt_view p)\<lparr>n_x := num_of (npt_x p), n_y := num_of (npt_y p), n_w := num_of (npt_w p),
                 n_h := num_of (npt_h p), n_z := num_of (npt_z p)\<rparr>"

definition upsertNode :: "NodeView \<Rightarrow> scene_graph \<Rightarrow> scene_graph" where
  "upsertNode n g =
     (case node_of g (n_id n) of None \<Rightarrow> addNode n g | Some old \<Rightarrow> addNode n (dropNode old g))"

definition resizeNode ::
  "NodeId \<Rightarrow> js_num \<Rightarrow> js_num \<Rightarrow> js_num option \<Rightarrow> js_num option \<Rightarrow> scene_graph \<Rightarrow> scene_graph" where
  "resizeNode i w h x y g =
     (case node_of g i of
        None \<Rightarrow> g
      | Some prev \<Rightarrow>
          replaceGeometry prev
            (prev\<lparr>n_w := num_of w, n_h := num_of h,
                  n_x := (case x of None \<Rightarrow> n_x prev | Some v \<Rightarrow> num_of v),
                  n_y := (case y of None \<Rightarrow> n_y prev | Some v \<Rightarrow> num_of v)\<rparr>) g)"

definition upsertEdge :: "EdgeView \<Rightarrow> scene_graph \<Rightarrow> scene_graph" where
  "upsertEdge e g =
     (let g1 = (case omap_get (sg_edges g) (ed_id e) of None \<Rightarrow> g | Some old \<Rightarrow> unlinkEdge old g)
      in mark_edge (ed_id e) (linkEdge e (g1\<lparr>sg_edges := omap_set (ed_id e) e (sg_edges g1)\<rparr>)))"

definition upsertGroup :: "GroupView \<Rightarrow> scene_graph \<Rightarrow> scene_graph" where
  "upsertGroup gr g =
     g\<lparr>sg_groups := omap_set (g_id gr) gr (sg_groups g),
       sg_boundsStale := set_add (g_id gr) (sg_boundsStale g),
       sg_dirty := (sg_dirty g)\<lparr>dt_full := True\<rparr>\<rparr>"

definition removeGroup :: "GroupId \<Rightarrow> scene_graph \<Rightarrow> scene_graph" where
  "removeGroup i g =
     (if \<not> omap_has (sg_groups g) i then g
      else (let g1 = g\<lparr>sg_groups := omap_delete i (sg_groups g)\<rparr>;
                g2 = (case omap_get (sg_groupChildren g1) i of
                        None \<Rightarrow> g1
                      | Some children \<Rightarrow>
                          (let g' = fold orphan children g1
                           in g'\<lparr>sg_groupChildren := omap_delete i (sg_groupChildren g')\<rparr>))
            in g2\<lparr>sg_boundsCache := omap_delete i (sg_boundsCache g2),
                  sg_boundsStale := set_del i (sg_boundsStale g2)\<rparr>))"

definition setLayers :: "LayerView list \<Rightarrow> scene_graph \<Rightarrow> scene_graph" where
  "setLayers layers g =
     (let g1 = setLayerRank layers g
      in reindexVisibility
           (g1\<lparr>sg_byLayer := map (\<lambda>(l, xs). (l, sort_layer g1 xs)) (sg_byLayer g1)\<rparr>))"

subsection \<open>Patches\<close>

fun apply_scene :: "ScenePatch \<Rightarrow> scene_graph \<Rightarrow> scene_graph"
  and apply_scenes :: "ScenePatch list \<Rightarrow> scene_graph \<Rightarrow> scene_graph" where
  "apply_scene (P_upsert_node n) g = upsertNode (checked_node n) g"
| "apply_scene (P_remove_node i) g = removeNode i g"
| "apply_scene (P_move_nodes moves) g = fold moveNode moves g"
| "apply_scene (P_resize_node i w h x y) g = resizeNode i w h x y g"
| "apply_scene (P_upsert_edge e z) g = upsertEdge (e\<lparr>ed_z := num_of z\<rparr>) g"
| "apply_scene (P_remove_edge i) g = removeEdge i g"
| "apply_scene (P_upsert_group gr) g = upsertGroup gr g"
| "apply_scene (P_remove_group i) g = removeGroup i g"
| "apply_scene (P_set_layers layers) g = setLayers layers g"
| "apply_scene (P_bulk ps) g = apply_scenes ps g"
| "apply_scenes [] g = g"
| "apply_scenes (p # ps) g = apply_scenes ps (apply_scene p g)"

definition applyPatch :: "ScenePatch \<Rightarrow> scene_graph \<Rightarrow> graph_error + scene_graph" where
  "applyPatch p g =
     (case assertValid p of Some e \<Rightarrow> Inl e | None \<Rightarrow> Inr (apply_scene p g))"

definition clean_dirty :: SceneDirty where
  "clean_dirty = \<lparr>dt_nodes = [], dt_edges = [], dt_rects = [], dt_full = False\<rparr>"

definition clearDirty :: "scene_graph \<Rightarrow> scene_graph" where
  "clearDirty g = g\<lparr>sg_dirty := clean_dirty\<rparr>"

definition empty_scene :: "real option \<Rightarrow> scene_graph" where
  "empty_scene cellSize =
     \<lparr>sg_nodes = [], sg_edges = [], sg_groups = [], sg_layers = [], sg_layerRank = [], sg_byLayer = [],
      sg_edgesByNode = [], sg_groupChildren = [], sg_boundsCache = [], sg_boundsStale = [],
      sg_index = createGridIndex cellSize, sg_dirty = clean_dirty, sg_bounds = no_bounds\<rparr>"

definition createSceneGraph :: "SceneSnapshot \<Rightarrow> real option \<Rightarrow> scene_graph" where
  "createSceneGraph snap cellSize =
     (let g0 = setLayerRank (snap_layers snap) (empty_scene cellSize);
          g1 = fold addNode (snap_nodes snap) g0;
          g2 = fold (\<lambda>e g. linkEdge e (g\<lparr>sg_edges := omap_set (ed_id e) e (sg_edges g)\<rparr>))
                 (snap_edges snap) g1;
          g3 = fold (\<lambda>gr g. g\<lparr>sg_groups := omap_set (g_id gr) gr (sg_groups g)\<rparr>) (snap_groups snap) g2
      in g3\<lparr>sg_dirty := (sg_dirty g3)\<lparr>dt_full := True\<rparr>\<rparr>)"

subsection \<open>Queries\<close>

definition visibleNodes :: "scene_graph \<Rightarrow> NodeId list \<Rightarrow> NodeView list" where
  "visibleNodes g ids =
     concat (map (\<lambda>i. case node_of g i of
                        None \<Rightarrow> [] | Some n \<Rightarrow> if isVisible g n then [n] else []) ids)"

definition nodesIn :: "scene_graph \<Rightarrow> Rect \<Rightarrow> NodeView list" where
  "nodesIn g rect = js_sort (compareNodes g) (visibleNodes g (queryRect rect (sg_index g)))"

definition nodesContainedIn :: "scene_graph \<Rightarrow> Rect \<Rightarrow> NodeView list" where
  "nodesContainedIn g rect =
     js_sort (compareNodes g)
       (filter (\<lambda>n. rectContainsRect rect (node_rect n)) (visibleNodes g (queryRect rect (sg_index g))))"

definition better_hit :: "scene_graph \<Rightarrow> Vec2 \<Rightarrow> NodeId \<Rightarrow> NodeView option \<Rightarrow> NodeView option" where
  "better_hit g p i best =
     (case node_of g i of
        None \<Rightarrow> best
      | Some n \<Rightarrow>
          (if \<not> isVisible g n \<or> \<not> rectContainsPoint (node_rect n) p then best
           else (case best of
                   None \<Rightarrow> Some n
                 | Some b \<Rightarrow> if compareNodes g b n < 0 then Some n else best)))"

definition nodeAt :: "scene_graph \<Rightarrow> Vec2 \<Rightarrow> NodeView option" where
  "nodeAt g p = fold (better_hit g p) (queryPoint p (sg_index g)) None"

definition sceneBounds :: "scene_graph \<Rightarrow> Rect" where
  "sceneBounds g =
     (let b = sg_bounds g
      in if b_count b = 0 then \<lparr>rx = 0, ry = 0, rw = 0, rh = 0\<rparr>
         else \<lparr>rx = b_minX b, ry = b_minY b, rw = b_maxX b - b_minX b, rh = b_maxY b - b_minY b\<rparr>)"

definition scene_query :: "scene_graph \<Rightarrow> SceneQuery" where
  "scene_query g =
     \<lparr>q_nodesIn = nodesIn g, q_nodesContainedIn = nodesContainedIn g, q_nodeAt = nodeAt g,
      q_node = node_of g, q_edge = omap_get (sg_edges g), q_sceneBounds = sceneBounds g,
      q_nodeCount = int (length (sg_nodes g))\<rparr>"

definition child_views :: "scene_graph \<Rightarrow> NodeId list \<Rightarrow> NodeView list" where
  "child_views g ids = concat (map (\<lambda>i. case node_of g i of None \<Rightarrow> [] | Some n \<Rightarrow> [n]) ids)"

text \<open>The union of the members' rectangles; \<open>None\<close> is \<open>x0 === Infinity\<close>, no member seen.\<close>

fun union_rect :: "NodeView list \<Rightarrow> Rect option" where
  "union_rect [] = None"
| "union_rect (n # ns) =
     (let x0 = fold (\<lambda>m a. min a (n_x m)) ns (n_x n); y0 = fold (\<lambda>m a. min a (n_y m)) ns (n_y n);
          x1 = fold (\<lambda>m a. max a (n_x m + n_w m)) ns (n_x n + n_w n);
          y1 = fold (\<lambda>m a. max a (n_y m + n_h m)) ns (n_y n + n_h n)
      in Some \<lparr>rx = x0, ry = y0, rw = x1 - x0, rh = y1 - y0\<rparr>)"

definition groupBounds :: "GroupId \<Rightarrow> scene_graph \<Rightarrow> Rect option \<times> scene_graph" where
  "groupBounds i g =
     (case (if i \<in> set (sg_boundsStale g) then None else omap_get (sg_boundsCache g) i) of
        Some cached \<Rightarrow> (Some cached, g)
      | None \<Rightarrow>
          (let g1 = g\<lparr>sg_boundsStale := set_del i (sg_boundsStale g)\<rparr>;
               members = (case omap_get (sg_groupChildren g1) i of None \<Rightarrow> [] | Some c \<Rightarrow> c)
           in case union_rect (child_views g1 members) of
                None \<Rightarrow> (None, g1\<lparr>sg_boundsCache := omap_delete i (sg_boundsCache g1)\<rparr>)
              | Some r \<Rightarrow> (Some r, g1\<lparr>sg_boundsCache := omap_set i r (sg_boundsCache g1)\<rparr>)))"

end
