(* ===== verification/CanvasGraphInv.thy ===== *)
theory CanvasGraphInv
  imports CanvasGraph
begin

text \<open>
  The invariant of the scene graph: one predicate per derived structure, relating it to the entities
  (\<open>order_ok\<close>, \<open>incidence_ok\<close>, \<open>members_ok\<close>, \<open>index_ok\<close>, \<open>bounds_ok\<close>, \<open>cache_ok\<close>), what each
  operation writes, and that every operation keeps \<open>scene_ok\<close>. The contract of \<open>Array.prototype.sort\<close>
  is the locale \<open>js_comparator\<close>; the index is used through its interface \<open>grid\<close>.
\<close>

section \<open>Searching\<close>

lemma lower_bound_splits:
  assumes mono: "\<And>i j. i \<le> j \<Longrightarrow> P j \<Longrightarrow> P i"
  shows "lo \<le> hi \<Longrightarrow> (\<forall>i<lo. P i) \<Longrightarrow> (\<forall>i\<ge>hi. \<not> P i)
    \<Longrightarrow> lower_bound P lo hi \<le> hi \<and> (\<forall>i. i < lower_bound P lo hi \<longleftrightarrow> P i)"
proof (induction "hi - lo" arbitrary: lo hi rule: less_induct)
  case less
  define mid where "mid = (lo + hi) div 2"
  show ?case
  proof (cases "lo < hi")
    case True
    then have mid: "lo \<le> mid" "mid < hi" by (auto simp: mid_def)
    show ?thesis
    proof (cases "P mid")
      case True
      then have "\<forall>i<mid + 1. P i" using mono [of _ mid] by simp
      then show ?thesis
        using less.hyps [of hi "mid + 1"] less.prems mid True
        by (subst (1 2) lower_bound.simps) (simp add: mid_def [symmetric])
    next
      case False
      then have "\<forall>i\<ge>mid. \<not> P i" using mono by blast
      moreover have "mid - lo < hi - lo" "lower_bound P lo hi = lower_bound P lo mid"
        using mid False True by (auto simp: lower_bound.simps [of P lo hi] mid_def)
      ultimately show ?thesis using less.hyps [of mid lo] less.prems mid by auto
    qed
  next
    case False
    then have "hi = lo" using less.prems by simp
    then have "i < lo \<longleftrightarrow> P i" for i using less.prems by (cases "i < lo") (auto simp: not_less)
    with \<open>hi = lo\<close> show ?thesis by (simp add: lower_bound.simps [of P lo lo])
  qed
qed

section \<open>Bounds\<close>

definition fits_bounds :: "Rect multiset \<Rightarrow> scene_bounds \<Rightarrow> bool" where
  "fits_bounds M b \<longleftrightarrow>
     b_count b = int (size M)
     \<and> (if M = {#} then b = no_bounds
        else b_minX b = Min (rx ` set_mset M) \<and> b_minY b = Min (ry ` set_mset M)
             \<and> b_maxX b = Max ((\<lambda>r. rx r + rw r) ` set_mset M)
             \<and> b_maxY b = Max ((\<lambda>r. ry r + rh r) ` set_mset M))"

lemma fits_bounds_empty [simp]: "fits_bounds {#} b \<longleftrightarrow> b = no_bounds"
  by (auto simp: fits_bounds_def no_bounds_def)

lemma min_as_if:
  "min a b = (if a < b then a else b)" "max a b = (if b < a then a else (b::real))"
  by (simp_all add: min_def max_def)

lemma Min_add:
  fixes f :: "'a \<Rightarrow> real"
  shows "M \<noteq> {#} \<Longrightarrow> Min (f ` set_mset (add_mset r M))
    = (if f r < Min (f ` set_mset M) then f r else Min (f ` set_mset M))"
  by (simp only: set_mset_add_mset_insert image_insert Min_insert finite_imageI finite_set_mset
      image_is_empty set_mset_eq_empty_iff not_False_eq_True min_as_if)

lemma Max_add:
  fixes f :: "'a \<Rightarrow> real"
  shows "M \<noteq> {#} \<Longrightarrow> Max (f ` set_mset (add_mset r M))
    = (if Max (f ` set_mset M) < f r then f r else Max (f ` set_mset M))"
  by (simp only: set_mset_add_mset_insert image_insert Max_insert finite_imageI finite_set_mset
      image_is_empty set_mset_eq_empty_iff not_False_eq_True min_as_if)

lemmas extreme_add = Min_add Max_add

lemma growBounds_fits: "fits_bounds M b \<Longrightarrow> fits_bounds (add_mset r M) (growBounds r b)"
proof (cases "M = {#}")
  case False
  assume "fits_bounds M b"
  with False show ?thesis 
    by (simp add: fits_bounds_def growBounds_def extreme_add del: set_mset_add_mset_insert image_insert)
qed (simp add: fits_bounds_def growBounds_def no_bounds_def)

lemma growBounds_from_zero: "b_count b = 0 \<Longrightarrow> growBounds r b = growBounds r no_bounds"
  by (simp add: growBounds_def no_bounds_def)

lemma fold_growBounds_fits: "fits_bounds M b \<Longrightarrow> fits_bounds (mset rs + M) (fold growBounds rs b)"
proof (induction rs arbitrary: M b)
  case (Cons r rs)
  then show ?case using Cons.IH [OF growBounds_fits [OF Cons.prems]] by simp
qed simp

lemma recompute_fits:
  "fits_bounds (mset (visible_rects g)) (sg_bounds (recomputeBounds g))"
proof (cases "visible_rects g")
  case Nil
  then show ?thesis by (simp add: recomputeBounds_def)
next
  case (Cons r rs)
  have "fits_bounds (add_mset r {#}) (growBounds r no_bounds)" by (rule growBounds_fits) simp
  then have "fits_bounds (mset rs + {#r#}) (fold growBounds rs (growBounds r no_bounds))"
    by (rule fold_growBounds_fits)
  moreover have "b_count (fold growBounds rs (growBounds r no_bounds)) \<noteq> 0"
    using calculation by (simp add: fits_bounds_def)
  ultimately show ?thesis
    by (simp add: recomputeBounds_def Cons Let_def growBounds_from_zero)
qed

lemma fits_bounds_drop:
  assumes "fits_bounds (add_mset r M) b" "\<not> touchesExtreme r b"
  shows "M \<noteq> {#}" and "fits_bounds M (b\<lparr>b_count := b_count b - 1\<rparr>)"
proof -
  show ne: "M \<noteq> {#}" using assms by (auto simp: fits_bounds_def touchesExtreme_def)
  show "fits_bounds M (b\<lparr>b_count := b_count b - 1\<rparr>)"
    using assms ne
    by (auto simp: fits_bounds_def touchesExtreme_def extreme_add
        simp del: set_mset_add_mset_insert image_insert split: if_splits)
qed


section \<open>The derived structures, one by one\<close>

text \<open>
  Each predicate relates one structure to the entities. \<open>N\<close> is the map of nodes, \<open>E\<close> the map of
  edges and \<open>V\<close> the visibility of a node.
\<close>

definition zless :: "NodeView \<Rightarrow> NodeView \<Rightarrow> bool" where
  "zless a b \<longleftrightarrow> n_z a < n_z b \<or> n_z a = n_z b \<and> n_id a < n_id b"

definition bucket_list :: "('k, 'a list) omap \<Rightarrow> 'k \<Rightarrow> 'a list" where
  "bucket_list m k = (case omap_get m k of None \<Rightarrow> [] | Some xs \<Rightarrow> xs)"

definition order_ok :: "(NodeId \<Rightarrow> NodeView option) \<Rightarrow> (LayerId, NodeId list) omap \<Rightarrow> bool" where
  "order_ok N B \<longleftrightarrow> buckets_ok B
     \<and> (\<forall>l i. in_bucket B l i \<longleftrightarrow> (\<exists>n. N i = Some n \<and> n_layerId n = l))
     \<and> (\<forall>l. sorted_wrt (\<lambda>i j. zless (the (N i)) (the (N j))) (bucket_list B l))"

definition incidence_ok :: "(EdgeId \<Rightarrow> EdgeView option) \<Rightarrow> (NodeId, EdgeId list) omap \<Rightarrow> bool" where
  "incidence_ok E X \<longleftrightarrow> buckets_ok X
     \<and> (\<forall>i e. in_bucket X i e \<longleftrightarrow> (\<exists>ed. E e = Some ed \<and> (ed_from ed = i \<or> ed_to ed = i)))"

definition members_ok :: "(NodeId \<Rightarrow> NodeView option) \<Rightarrow> (GroupId, NodeId list) omap \<Rightarrow> bool" where
  "members_ok N C \<longleftrightarrow> buckets_ok C
     \<and> (\<forall>gid i. in_bucket C gid i \<longleftrightarrow> (\<exists>n. N i = Some n \<and> n_groupId n = Some gid))"

definition index_ok :: "(NodeView \<Rightarrow> bool) \<Rightarrow> (NodeId \<Rightarrow> NodeView option) \<Rightarrow> grid_index \<Rightarrow> bool" where
  "index_ok V N ix \<longleftrightarrow> grid_ok ix
     \<and> (\<forall>i. index_rectOf ix i =
           (case N i of None \<Rightarrow> None
            | Some n \<Rightarrow> if V n then Some (sanitize_rect (node_rect n)) else None))"

definition bounds_ok :: "(NodeView \<Rightarrow> bool) \<Rightarrow> (NodeId, NodeView) omap \<Rightarrow> scene_bounds \<Rightarrow> bool" where
  "bounds_ok V m b \<longleftrightarrow> fits_bounds (image_mset node_rect (filter_mset V (mset (omap_values m)))) b"

definition views_of :: "(NodeId \<Rightarrow> NodeView option) \<Rightarrow> NodeId list \<Rightarrow> NodeView list" where
  "views_of N ids = concat (map (\<lambda>i. case N i of None \<Rightarrow> [] | Some n \<Rightarrow> [n]) ids)"

definition cache_ok ::
  "(NodeId \<Rightarrow> NodeView option) \<Rightarrow> (GroupId, NodeId list) omap \<Rightarrow> (GroupId, Rect) omap \<Rightarrow> GroupId list \<Rightarrow> bool" where
  "cache_ok N C cache stale \<longleftrightarrow>
     (\<forall>gid r. gid \<notin> set stale \<longrightarrow> omap_get cache gid = Some r
        \<longrightarrow> union_rect (views_of N (bucket_list C gid)) = Some r)"

definition keyed_by :: "('a \<Rightarrow> 'k) \<Rightarrow> ('k, 'a) omap \<Rightarrow> bool" where
  "keyed_by f m \<longleftrightarrow> omap_inv m \<and> (\<forall>k v. omap_get m k = Some v \<longrightarrow> f v = k)"

definition scene_ok :: "scene_graph \<Rightarrow> bool" where
  "scene_ok g \<longleftrightarrow>
     keyed_by n_id (sg_nodes g) \<and> keyed_by ed_id (sg_edges g)
     \<and> order_ok (node_of g) (sg_byLayer g)
     \<and> incidence_ok (omap_get (sg_edges g)) (sg_edgesByNode g)
     \<and> members_ok (node_of g) (sg_groupChildren g)
     \<and> index_ok (isVisible g) (node_of g) (sg_index g)
     \<and> bounds_ok (isVisible g) (sg_nodes g) (sg_bounds g)
     \<and> cache_ok (node_of g) (sg_groupChildren g) (sg_boundsCache g) (sg_boundsStale g)"

subsection \<open>Maps\<close>

lemma keyed_by_set: "keyed_by f m \<Longrightarrow> f v = k \<Longrightarrow> keyed_by f (omap_set k v m)"
  by (simp add: keyed_by_def)

lemma keyed_by_delete: "keyed_by f m \<Longrightarrow> keyed_by f (omap_delete k m)"
  by (simp add: keyed_by_def)

lemma mset_values_new:
  "omap_get m k = None \<Longrightarrow> mset (omap_values (omap_set k v m)) = add_mset v (mset (omap_values m))"
  by (simp add: omap_has_iff omap_set_def omap_values_def)

lemma mset_values_del:
  "omap_inv m \<Longrightarrow> omap_get m k = Some u
    \<Longrightarrow> mset (omap_values m) = add_mset u (mset (omap_values (omap_delete k m)))"
proof (induction m)
  case (Cons e m)
  obtain k' v' where e: "e = (k', v')" by (cases e)
  show ?case
  proof (cases "k' = k")
    case True
    then have "omap_delete k m = m"
      using Cons.prems(1) e by (force simp: omap_delete_def omap_inv_def filter_id_conv)
    with True Cons.prems(2) e show ?thesis
      by (simp add: omap_get_def omap_values_def omap_delete_def)
  next
    case False
    with Cons e show ?thesis by (simp add: omap_get_def omap_values_def omap_delete_def omap_inv_def)
  qed
qed simp

lemma mset_values_set:
  assumes "omap_inv m" "omap_get m k = Some u"
  shows "mset (omap_values (omap_set k v m)) = add_mset v (mset (omap_values (omap_delete k m)))"
proof -
  have "omap_get (omap_set k v m) k = Some v" by simp
  moreover have "omap_delete k (omap_set k v m) = omap_delete k m"
    by (auto simp: omap_delete_def omap_set_def filter_map o_def split_def intro!: map_idI)
  ultimately show ?thesis using mset_values_del [of "omap_set k v m" k v] assms(1) by simp
qed

lemma in_bucket_iff: "in_bucket m k x \<longleftrightarrow> x \<in> set (bucket_list m k)"
  by (simp add: in_bucket_def bucket_list_def split: option.split)

lemma bucket_list_add:
  "bucket_list (bucket_add x k m) j = (if j = k then set_add x (bucket_list m k) else bucket_list m j)"
  by (auto simp: bucket_list_def bucket_add_def set_add_def split: option.split)

lemma bucket_list_del:
  "bucket_list (bucket_del x k m) j = (if j = k then set_del x (bucket_list m k) else bucket_list m j)"
  by (auto simp: bucket_list_def bucket_del_def set_del_def Let_def split: option.split)

subsection \<open>Render order\<close>

lemma zless_trans: "zless a b \<Longrightarrow> zless b c \<Longrightarrow> zless a c"
  by (auto simp: zless_def)

lemma zless_total: "n_id a \<noteq> n_id b \<Longrightarrow> \<not> zless a b \<Longrightarrow> zless b a"
  by (auto simp: zless_def)

lemma order_ok_cong:
  assumes "\<And>i. map_option (\<lambda>n. (n_z n, n_id n, n_layerId n)) (N' i)
      = map_option (\<lambda>n. (n_z n, n_id n, n_layerId n)) (N i)"
  shows "order_ok N B \<Longrightarrow> order_ok N' B"
proof -
  assume ok: "order_ok N B"
  have same: "(\<exists>n. N' i = Some n \<and> n_layerId n = l) \<longleftrightarrow> (\<exists>n. N i = Some n \<and> n_layerId n = l)" for i l
    using assms [of i] by (cases "N i"; cases "N' i") auto
  have z: "zless (the (N' i)) (the (N' j)) \<longleftrightarrow> zless (the (N i)) (the (N j))"
    if "N i \<noteq> None" "N j \<noteq> None" for i j
    using assms [of i] assms [of j] that by (auto simp: zless_def)
  have "sorted_wrt (\<lambda>i j. zless (the (N' i)) (the (N' j))) (bucket_list B l)" for l
  proof (rule sorted_wrt_mono_rel)
    show "sorted_wrt (\<lambda>i j. zless (the (N i)) (the (N j))) (bucket_list B l)"
      using ok by (simp add: order_ok_def)
    show "zless (the (N' i)) (the (N' j))"
      if "i \<in> set (bucket_list B l)" "j \<in> set (bucket_list B l)" "zless (the (N i)) (the (N j))" for i j
    proof -
      have "in_bucket B l i" "in_bucket B l j" using that by (auto simp: in_bucket_iff)
      then have "N i \<noteq> None" "N j \<noteq> None" using ok by (auto simp: order_ok_def)
      with z that show ?thesis by blast
    qed
  qed
  with ok same show ?thesis by (simp add: order_ok_def)
qed

lemma sorted_insert_at:
  assumes "sorted_wrt R xs" "\<And>i. i < pos \<Longrightarrow> i < length xs \<Longrightarrow> R (xs ! i) y"
    and "\<And>i. pos \<le> i \<Longrightarrow> i < length xs \<Longrightarrow> R y (xs ! i)"
  shows "sorted_wrt R (take pos xs @ y # drop pos xs)"
proof -
  have "sorted_wrt R (take pos xs @ drop pos xs)" using assms(1) by simp
  moreover have "R x y" if "x \<in> set (take pos xs)" for x
    using that assms(2) by (auto simp: in_set_conv_nth)
  moreover have "R y x" if "x \<in> set (drop pos xs)" for x
    using that assms(3) by (fastforce simp: in_set_conv_nth)
  ultimately show ?thesis by (auto simp: sorted_wrt_append simp del: append_take_drop_id)
qed

lemma compareNodes_same_layer:
  "n_layerId a = n_layerId b \<Longrightarrow> compareNodes g a b < 0 \<longleftrightarrow> zless a b"
  by (auto simp: compareNodes_def rankOf_def zless_def Let_def)

lemma mset_splice: "mset (take k xs @ x # drop k xs) = mset (x # xs)"
  by (metis append_take_drop_id mset.simps(2) mset_append union_mset_add_mset_right)

lemma set_splice: "set (take k xs @ x # drop k xs) = insert x (set xs)"
  by (metis list.simps(15) mset_splice set_mset_mset)

lemma distinct_splice: "x \<notin> set xs \<Longrightarrow> distinct xs \<Longrightarrow> distinct (take k xs @ x # drop k xs)"
  using mset_eq_imp_distinct_iff [OF mset_splice [of k xs x]] by simp

lemma remove1_set_del: "distinct xs \<Longrightarrow> remove1 x xs = set_del x xs"
  by (induction xs) (auto simp: set_del_def intro!: filter_True [symmetric])

lemma layerInsert_order:
  assumes ok: "order_ok N (sg_byLayer g)" and new: "N (n_id n) = None"
    and nodes: "node_of g = N(n_id n \<mapsto> n)" and key: "\<And>i m. N i = Some m \<Longrightarrow> n_id m = i"
  shows "order_ok (node_of g) (sg_byLayer (layerInsert n g))"
proof -
  let ?B = "sg_byLayer g" and ?l = "n_layerId n"
  define xs where "xs = bucket_list ?B ?l"
  define pos where "pos = lower_bound (sorts_before g n xs) 0 (length xs)"
  have mem: "\<exists>m. N i = Some m \<and> n_layerId m = ?l \<and> n_id m = i \<and> i \<noteq> n_id n" if "i \<in> set xs" for i
  proof -
    have "in_bucket ?B ?l i" using that by (simp add: in_bucket_iff xs_def)
    then obtain m where "N i = Some m" "n_layerId m = ?l" using ok by (auto simp: order_ok_def)
    with key new show ?thesis by (intro exI [of _ m]) auto
  qed
  have sorted: "sorted_wrt (\<lambda>i j. zless (the (N i)) (the (N j))) xs"
    using ok by (simp add: order_ok_def xs_def)
  have before: "sorts_before g n xs k \<longleftrightarrow> k < length xs \<and> zless (the (N (xs ! k))) n" for k
  proof (cases "k < length xs")
    case True
    with mem [of "xs ! k"] obtain m where m: "N (xs ! k) = Some m" "n_layerId m = ?l" "xs ! k \<noteq> n_id n"
      by auto
    with True show ?thesis by (simp add: sorts_before_def nodes compareNodes_same_layer)
  qed (simp add: sorts_before_def)
  have pos: "pos \<le> length xs" "i < pos \<longleftrightarrow> sorts_before g n xs i" for i
  proof -
    have "sorts_before g n xs i" if "i \<le> j" "sorts_before g n xs j" for i j
      using that sorted_wrt_nth_less [OF sorted, of i j] unfolding before
      by (cases "i = j") (auto intro: zless_trans)
    from lower_bound_splits [where P = "sorts_before g n xs" and lo = 0 and hi = "length xs", OF this]
    show "pos \<le> length xs" "i < pos \<longleftrightarrow> sorts_before g n xs i" by (auto simp: pos_def before)
  qed
  define ys where "ys = take pos xs @ n_id n # drop pos xs"
  have fresh: "n_id n \<notin> set xs" using mem by blast
  have eq: "sg_byLayer (layerInsert n g) = omap_set ?l ys ?B"
    by (simp add: layerInsert_def layer_list_def bucket_list_def [symmetric] xs_def pos_def ys_def Let_def)
  let ?N = "N(n_id n \<mapsto> n)"
  have "sorted_wrt (\<lambda>i j. zless (the (?N i)) (the (?N j))) ys"
    unfolding ys_def
  proof (rule sorted_insert_at)
    show "sorted_wrt (\<lambda>i j. zless (the (?N i)) (the (?N j))) xs"
      using fresh by (intro sorted_wrt_mono_rel [OF _ sorted]) auto
    show "zless (the (?N (xs ! i))) (the (?N (n_id n)))" if "i < pos" "i < length xs" for i
      using that pos(2) [of i] mem [of "xs ! i"] by (auto simp: before)
    show "zless (the (?N (n_id n))) (the (?N (xs ! i)))" if "pos \<le> i" "i < length xs" for i
      using that pos(2) [of i] mem [of "xs ! i"] by (auto simp: before intro: zless_total)
  qed
  note here = this
  have lists: "bucket_list (omap_set ?l ys ?B) l = (if l = ?l then ys else bucket_list ?B l)" for l
    by (simp add: bucket_list_def)
  have there: "sorted_wrt (\<lambda>i j. zless (the (?N i)) (the (?N j))) (bucket_list ?B l)" if "l \<noteq> ?l" for l
  proof (rule sorted_wrt_mono_rel)
    show "sorted_wrt (\<lambda>i j. zless (the (N i)) (the (N j))) (bucket_list ?B l)"
      using ok by (simp add: order_ok_def)
    show "zless (the (?N i)) (the (?N j))"
      if "i \<in> set (bucket_list ?B l)" "j \<in> set (bucket_list ?B l)" "zless (the (N i)) (the (N j))" for i j
    proof -
      have "in_bucket ?B l i" "in_bucket ?B l j" using that by (auto simp: in_bucket_iff)
      then have "i \<noteq> n_id n" "j \<noteq> n_id n" using ok new by (auto simp: order_ok_def)
      with that show ?thesis by simp
    qed
  qed
  have "distinct xs" using ok
    by (auto simp: order_ok_def buckets_ok_def xs_def bucket_list_def split: option.split)
  then have "distinct ys" using distinct_splice [OF fresh] by (simp add: ys_def del: distinct_append)
  moreover have "ys \<noteq> []" by (simp add: ys_def)
  ultimately have "buckets_ok (omap_set ?l ys ?B)"
    using ok by (simp add: order_ok_def buckets_ok_def)
  moreover have "in_bucket (omap_set ?l ys ?B) l i \<longleftrightarrow> (\<exists>m. ?N i = Some m \<and> n_layerId m = l)" for l i
  proof -
    have "in_bucket (omap_set ?l ys ?B) l i \<longleftrightarrow> in_bucket ?B l i \<or> (l = ?l \<and> i = n_id n)"
      unfolding in_bucket_iff lists using set_splice [of pos xs "n_id n"]
      by (simp del: set_append add: ys_def [symmetric]) (auto simp: xs_def)
    then show ?thesis using ok new by (auto simp: order_ok_def)
  qed
  ultimately show ?thesis using here there unfolding eq nodes order_ok_def lists by simp
qed

lemma layerRemove_order:
  assumes ok: "order_ok N (sg_byLayer g)" and n: "N (n_id n) = Some n"
  shows "order_ok (N(n_id n := None)) (sg_byLayer (layerRemove n g))"
proof -
  let ?B = "sg_byLayer g" and ?l = "n_layerId n"
  have eq: "sg_byLayer (layerRemove n g) = bucket_del (n_id n) ?l ?B"
  proof -
    have "remove1 (n_id n) xs = set_del (n_id n) xs" if "omap_get ?B ?l = Some xs" for xs
      using ok that by (intro remove1_set_del) (auto simp: order_ok_def buckets_ok_def)
    then show ?thesis by (simp add: layerRemove_def bucket_del_def Let_def split: option.split)
  qed
  have "sorted_wrt (\<lambda>i j. zless (the ((N(n_id n := None)) i)) (the ((N(n_id n := None)) j)))
      (bucket_list (bucket_del (n_id n) ?l ?B) l)" for l
  proof (rule sorted_wrt_mono_rel)
    have "sorted_wrt (\<lambda>i j. zless (the (N i)) (the (N j))) (bucket_list ?B l)"
      using ok by (simp add: order_ok_def)
    then show "sorted_wrt (\<lambda>i j. zless (the (N i)) (the (N j))) (bucket_list (bucket_del (n_id n) ?l ?B) l)"
      by (auto simp: bucket_list_del set_del_def intro: sorted_wrt_filter)
    show "zless (the ((N(n_id n := None)) i)) (the ((N(n_id n := None)) j))"
      if "i \<in> set (bucket_list (bucket_del (n_id n) ?l ?B) l)"
        "j \<in> set (bucket_list (bucket_del (n_id n) ?l ?B) l)" "zless (the (N i)) (the (N j))" for i j
    proof -
      have "in_bucket ?B l i \<and> (i = n_id n \<longrightarrow> l \<noteq> ?l)" "in_bucket ?B l j \<and> (j = n_id n \<longrightarrow> l \<noteq> ?l)"
        using that by (auto simp: in_bucket_iff [symmetric] in_bucket_del)
      then have "i \<noteq> n_id n" "j \<noteq> n_id n" using ok n by (auto simp: order_ok_def)
      with that show ?thesis by simp
    qed
  qed
  moreover have "in_bucket (bucket_del (n_id n) ?l ?B) l i
      \<longleftrightarrow> (\<exists>m. (N(n_id n := None)) i = Some m \<and> n_layerId m = l)" for l i
    using ok n by (auto simp: order_ok_def in_bucket_del)
  ultimately show ?thesis using ok unfolding eq by (simp add: order_ok_def buckets_ok_del)
qed


subsection \<open>Edges and groups\<close>

lemma incidence_frame: "incidence_ok E X \<Longrightarrow> (\<And>e. map_option (\<lambda>d. (ed_from d, ed_to d)) (E' e)
    = map_option (\<lambda>d. (ed_from d, ed_to d)) (E e)) \<Longrightarrow> incidence_ok E' X"
proof -
  assume ok: "incidence_ok E X" and same: "\<And>e. map_option (\<lambda>d. (ed_from d, ed_to d)) (E' e)
    = map_option (\<lambda>d. (ed_from d, ed_to d)) (E e)"
  have "(\<exists>d. E' e = Some d \<and> (ed_from d = i \<or> ed_to d = i))
      \<longleftrightarrow> (\<exists>d. E e = Some d \<and> (ed_from d = i \<or> ed_to d = i))" for i e
    using same [of e] by (cases "E e"; cases "E' e") auto
  with ok show ?thesis by (simp add: incidence_ok_def)
qed

lemma in_links:
  "in_bucket (sg_edgesByNode (linkEdge e g)) i x
     \<longleftrightarrow> in_bucket (sg_edgesByNode g) i x \<or> (x = ed_id e \<and> (ed_from e = i \<or> ed_to e = i))"
  by (auto simp: linkEdge_def in_bucket_add)

lemma in_unlinks:
  "in_bucket (sg_edgesByNode (unlinkEdge e g)) i x
     \<longleftrightarrow> in_bucket (sg_edgesByNode g) i x \<and> \<not> (x = ed_id e \<and> (ed_from e = i \<or> ed_to e = i))"
  by (auto simp: unlinkEdge_def in_bucket_del)

lemma linkEdge_incidence:
  assumes "incidence_ok E (sg_edgesByNode g)" "E (ed_id e) = None"
  shows "incidence_ok (E(ed_id e \<mapsto> e)) (sg_edgesByNode (linkEdge e g))"
  using assms unfolding incidence_ok_def
  by (auto simp: in_links linkEdge_def [of e g] buckets_ok_add) (simp_all add: in_bucket_add)

lemma unlinkEdge_incidence:
  assumes "incidence_ok E (sg_edgesByNode g)" "E (ed_id e) = Some e"
  shows "incidence_ok (E(ed_id e := None)) (sg_edgesByNode (unlinkEdge e g))"
proof -
  have "buckets_ok (sg_edgesByNode (unlinkEdge e g))"
    using assms(1) by (simp add: incidence_ok_def unlinkEdge_def buckets_ok_del)
  then show ?thesis using assms unfolding incidence_ok_def in_unlinks by auto
qed

lemma members_ok_cong:
  assumes "\<And>i. map_option n_groupId (N' i) = map_option n_groupId (N i)"
  shows "members_ok N C \<Longrightarrow> members_ok N' C"
proof -
  assume ok: "members_ok N C"
  have "(\<exists>n. N' i = Some n \<and> n_groupId n = Some gid) \<longleftrightarrow> (\<exists>n. N i = Some n \<and> n_groupId n = Some gid)" for i gid
    using assms [of i] by (cases "N i"; cases "N' i") auto
  with ok show ?thesis by (simp add: members_ok_def)
qed

definition join_group :: "NodeView \<Rightarrow> (GroupId, NodeId list) omap \<Rightarrow> (GroupId, NodeId list) omap" where
  "join_group n C = (case n_groupId n of None \<Rightarrow> C | Some gid \<Rightarrow> bucket_add (n_id n) gid C)"

definition leave_group :: "NodeView \<Rightarrow> (GroupId, NodeId list) omap \<Rightarrow> (GroupId, NodeId list) omap" where
  "leave_group n C = (case n_groupId n of None \<Rightarrow> C | Some gid \<Rightarrow> bucket_del (n_id n) gid C)"

definition stale_group :: "NodeView \<Rightarrow> GroupId list \<Rightarrow> GroupId list" where
  "stale_group n S = (case n_groupId n of None \<Rightarrow> S | Some gid \<Rightarrow> set_add gid S)"

lemma stale_group_iff: "gid \<in> set (stale_group n S) \<longleftrightarrow> gid \<in> set S \<or> n_groupId n = Some gid"
  by (auto simp: stale_group_def split: option.split)

lemma join_group_members:
  "members_ok N C \<Longrightarrow> N (n_id n) = None \<Longrightarrow> members_ok (N(n_id n \<mapsto> n)) (join_group n C)"
  by (auto simp: members_ok_def join_group_def in_bucket_add buckets_ok_add split: option.split)

lemma leave_group_members:
  "members_ok N C \<Longrightarrow> N (n_id n) = Some n \<Longrightarrow> members_ok (N(n_id n := None)) (leave_group n C)"
  by (auto simp: members_ok_def leave_group_def in_bucket_del buckets_ok_del split: option.split)

lemma views_of_cong: "(\<And>i. i \<in> set ids \<Longrightarrow> N' i = N i) \<Longrightarrow> views_of N' ids = views_of N ids"
  by (simp add: views_of_def cong: map_cong)

text \<open>The cached bounds of a group stay right when a change outside the group is made.\<close>

lemma cache_ok_frame:
  assumes "cache_ok N C cache S"
    and "\<And>gid. gid \<notin> set S' \<Longrightarrow> omap_get cache' gid \<noteq> None
      \<Longrightarrow> gid \<notin> set S \<and> omap_get cache' gid = omap_get cache gid \<and> bucket_list C' gid = bucket_list C gid
          \<and> (\<forall>i \<in> set (bucket_list C gid). N' i = N i)"
  shows "cache_ok N' C' cache' S'"
  unfolding cache_ok_def
proof (intro allI impI)
  fix gid r
  assume "gid \<notin> set S'" "omap_get cache' gid = Some r"
  moreover from this have "gid \<notin> set S" "omap_get cache gid = Some r" "bucket_list C' gid = bucket_list C gid"
    "views_of N' (bucket_list C gid) = views_of N (bucket_list C gid)"
    using assms(2) [of gid] by (auto intro: views_of_cong)
  ultimately show "union_rect (views_of N' (bucket_list C' gid)) = Some r"
    using assms(1) by (simp add: cache_ok_def)
qed

lemma join_group_cache:
  assumes "cache_ok N C cache S" "members_ok N C" "N (n_id n) = None" "set (stale_group n S) \<subseteq> set S'"
  shows "cache_ok (N(n_id n \<mapsto> n)) (join_group n C) cache S'"
proof (rule cache_ok_frame [OF assms(1)])
  fix gid
  assume "gid \<notin> set S'"
  then have "gid \<notin> set S" "n_groupId n \<noteq> Some gid" using assms(4) by (auto simp: stale_group_iff)
  moreover have "n_id n \<notin> set (bucket_list C gid)"
    using assms(2,3) by (auto simp: members_ok_def in_bucket_iff [symmetric])
  ultimately show "gid \<notin> set S \<and> omap_get cache gid = omap_get cache gid
      \<and> bucket_list (join_group n C) gid = bucket_list C gid
      \<and> (\<forall>i \<in> set (bucket_list C gid). (N(n_id n \<mapsto> n)) i = N i)"
    by (auto simp: join_group_def bucket_list_add split: option.split)
qed

lemma leave_group_cache:
  assumes "cache_ok N C cache S" "members_ok N C" "N (n_id n) = Some n" "set (stale_group n S) \<subseteq> set S'"
  shows "cache_ok (N(n_id n := None)) (leave_group n C) cache S'"
proof (rule cache_ok_frame [OF assms(1)])
  fix gid
  assume "gid \<notin> set S'"
  then have "gid \<notin> set S" "n_groupId n \<noteq> Some gid" using assms(4) by (auto simp: stale_group_iff)
  moreover from this have "n_id n \<notin> set (bucket_list C gid)"
    using assms(2,3) by (auto simp: members_ok_def in_bucket_iff [symmetric])
  ultimately show "gid \<notin> set S \<and> omap_get cache gid = omap_get cache gid
      \<and> bucket_list (leave_group n C) gid = bucket_list C gid
      \<and> (\<forall>i \<in> set (bucket_list C gid). (N(n_id n := None)) i = N i)"
    by (auto simp: leave_group_def bucket_list_del split: option.split)
qed


subsection \<open>Index and bounds\<close>

lemma index_ok_add:
  "index_ok V N ix \<Longrightarrow> V n \<Longrightarrow> index_ok V (N(n_id n \<mapsto> n)) (index_insert (n_id n) (node_rect n) ix)"
  by (simp add: index_ok_def grid.inv_add grid.rect_add)

lemma index_ok_move:
  "index_ok V N ix \<Longrightarrow> V n \<Longrightarrow> index_ok V (N(n_id n \<mapsto> n)) (index_update (n_id n) (node_rect n) ix)"
  by (simp add: index_ok_def grid.inv_move grid.rect_move)

lemma index_ok_drop: "index_ok V N ix \<Longrightarrow> index_ok V (N(i := None)) (index_remove i ix)"
  by (simp add: index_ok_def grid.inv_drop grid.rect_drop)

lemma index_ok_hidden:
  "index_ok V N ix \<Longrightarrow> \<not> V n \<Longrightarrow> (case N (n_id n) of None \<Rightarrow> True | Some m \<Rightarrow> \<not> V m)
    \<Longrightarrow> index_ok V (N(n_id n \<mapsto> n)) ix"
  by (auto simp: index_ok_def split: option.splits)

lemma index_ok_forget:
  "index_ok V N ix \<Longrightarrow> N i = Some n \<Longrightarrow> \<not> V n \<Longrightarrow> index_ok V (N(i := None)) ix"
  by (auto simp: index_ok_def split: option.splits)

lemma index_ok_cong:
  assumes "\<And>i. map_option (\<lambda>n. (node_rect n, V' n)) (N' i) = map_option (\<lambda>n. (node_rect n, V n)) (N i)"
  shows "index_ok V N ix \<Longrightarrow> index_ok V' N' ix"
proof -
  assume ok: "index_ok V N ix"
  have "(case N' i of None \<Rightarrow> None | Some n \<Rightarrow> if V' n then Some (sanitize_rect (node_rect n)) else None)
      = (case N i of None \<Rightarrow> None | Some n \<Rightarrow> if V n then Some (sanitize_rect (node_rect n)) else None)" for i
    using assms [of i] by (cases "N i"; cases "N' i") auto
  with ok show ?thesis by (simp add: index_ok_def)
qed

lemma bounds_ok_add:
  assumes "bounds_ok V m b" "omap_get m (n_id n) = None"
  shows "bounds_ok V (omap_set (n_id n) n m) (if V n then growBounds (node_rect n) b else b)"
  using assms by (simp add: bounds_ok_def mset_values_new growBounds_fits)

lemma visible_rects_mset:
  "mset (visible_rects g) = image_mset node_rect (filter_mset (isVisible g) (mset (omap_values (sg_nodes g))))"
  by (simp add: visible_rects_def)

lemma isVisible_frame [simp]:
  "isVisible (g\<lparr>sg_bounds := b\<rparr>) = isVisible g" "isVisible (g\<lparr>sg_index := ix\<rparr>) = isVisible g"
  "isVisible (g\<lparr>sg_nodes := ns\<rparr>) = isVisible g" "isVisible (g\<lparr>sg_byLayer := bl\<rparr>) = isVisible g"
  "isVisible (g\<lparr>sg_dirty := d\<rparr>) = isVisible g" "isVisible (g\<lparr>sg_groupChildren := gc\<rparr>) = isVisible g"
  "isVisible (g\<lparr>sg_boundsStale := bs\<rparr>) = isVisible g" "isVisible (g\<lparr>sg_edges := es\<rparr>) = isVisible g"
  "isVisible (g\<lparr>sg_edgesByNode := eb\<rparr>) = isVisible g" "isVisible (g\<lparr>sg_boundsCache := bc\<rparr>) = isVisible g"
  "isVisible (g\<lparr>sg_groups := gs\<rparr>) = isVisible g"
  by (simp_all add: isVisible_def fun_eq_iff cong: option.case_cong)

lemma recomputeBounds_ok:
  "bounds_ok (isVisible g) (sg_nodes g) (sg_bounds (recomputeBounds g))"
  using recompute_fits [of g] by (simp add: bounds_ok_def visible_rects_mset)

text \<open>\<open>recomputeBounds\<close> and \<open>shrinkBounds\<close> write the bounds only.\<close>

lemma recomputeBounds_eq: "recomputeBounds g = g\<lparr>sg_bounds := sg_bounds (recomputeBounds g)\<rparr>"
  by (simp add: recomputeBounds_def Let_def)

lemma shrinkBounds_eq: "shrinkBounds r g = g\<lparr>sg_bounds := sg_bounds (shrinkBounds r g)\<rparr>"
  by (simp add: shrinkBounds_def Let_def recomputeBounds_def)

lemma shrinkBounds_ok:
  assumes "bounds_ok (isVisible g) m (sg_bounds g)" "omap_inv m" "omap_get m i = Some n" "isVisible g n"
    and "sg_nodes g = omap_delete i m"
  shows "bounds_ok (isVisible g) (sg_nodes g) (sg_bounds (shrinkBounds (node_rect n) g))"
proof -
  let ?b = "sg_bounds g"
  define M where "M = image_mset node_rect (filter_mset (isVisible g) (mset (omap_values (omap_delete i m))))"
  have fits: "fits_bounds (add_mset (node_rect n) M) ?b"
    using assms mset_values_del [OF assms(2,3)] by (simp add: bounds_ok_def M_def)
  then have count: "b_count ?b - 1 = int (size M)" by (simp add: fits_bounds_def)
  have touch: "touchesExtreme (node_rect n) (?b\<lparr>b_count := b_count ?b - 1\<rparr>) = touchesExtreme (node_rect n) ?b"
    by (simp add: touchesExtreme_def)
  show ?thesis
  proof (cases "M = {#}")
    case True
    with count show ?thesis by (simp add: shrinkBounds_def bounds_ok_def assms(5) M_def [symmetric])
  next
    case ne: False
    then have c: "b_count ?b - 1 \<noteq> 0" using count by simp
    show ?thesis
    proof (cases "touchesExtreme (node_rect n) ?b")
      case True
      with c touch show ?thesis
        using recomputeBounds_ok [of "g\<lparr>sg_bounds := ?b\<lparr>b_count := b_count ?b - 1\<rparr>\<rparr>"]
        by (simp add: shrinkBounds_def Let_def)
    next
      case False
      with c touch fits_bounds_drop(2) [OF fits] show ?thesis
        by (simp add: shrinkBounds_def Let_def bounds_ok_def assms(5) M_def)
    qed
  qed
qed

lemma replaceBounds_ok:
  assumes "bounds_ok V m b" "omap_inv m" "omap_get m i = Some prev" "V next = V prev"
    and "V prev \<Longrightarrow> \<not> touchesExtreme (node_rect prev) b"
  shows "bounds_ok V (omap_set i next m)
    (if V prev then growBounds (node_rect next) (b\<lparr>b_count := b_count b - 1\<rparr>) else b)"
proof -
  define M where "M = image_mset node_rect (filter_mset V (mset (omap_values (omap_delete i m))))"
  have old: "image_mset node_rect (filter_mset V (mset (omap_values m)))
      = (if V prev then add_mset (node_rect prev) M else M)"
    using mset_values_del [OF assms(2,3)] by (simp add: M_def)
  have new: "image_mset node_rect (filter_mset V (mset (omap_values (omap_set i next m))))
      = (if V prev then add_mset (node_rect next) M else M)"
    using mset_values_set [OF assms(2,3)] assms(4) by (simp add: M_def)
  show ?thesis
  proof (cases "V prev")
    case True
    then have "fits_bounds (add_mset (node_rect prev) M) b" using assms(1) old by (simp add: bounds_ok_def)
    from growBounds_fits [OF fits_bounds_drop(2) [OF this assms(5) [OF True]]] True show ?thesis
      unfolding bounds_ok_def new by simp
  qed (use assms(1) old new in \<open>simp add: bounds_ok_def\<close>)
qed

section \<open>What each operation writes\<close>

lemma isVisible_cong:
  "sg_layerRank h = sg_layerRank g \<Longrightarrow> sg_layers h = sg_layers g \<Longrightarrow> isVisible h = isVisible g"
  by (simp add: isVisible_def fun_eq_iff cong: option.case_cong)

lemma layerInsert_frame [simp]:
  "sg_nodes (layerInsert n g) = sg_nodes g" "sg_edges (layerInsert n g) = sg_edges g"
  "sg_layers (layerInsert n g) = sg_layers g" "sg_layerRank (layerInsert n g) = sg_layerRank g"
  "sg_edgesByNode (layerInsert n g) = sg_edgesByNode g" "sg_groupChildren (layerInsert n g) = sg_groupChildren g"
  "sg_boundsCache (layerInsert n g) = sg_boundsCache g" "sg_boundsStale (layerInsert n g) = sg_boundsStale g"
  "sg_index (layerInsert n g) = sg_index g" "sg_dirty (layerInsert n g) = sg_dirty g"
  "sg_bounds (layerInsert n g) = sg_bounds g"
  by (simp_all add: layerInsert_def Let_def)

lemma layerRemove_frame [simp]:
  "sg_nodes (layerRemove n g) = sg_nodes g" "sg_edges (layerRemove n g) = sg_edges g"
  "sg_layers (layerRemove n g) = sg_layers g" "sg_layerRank (layerRemove n g) = sg_layerRank g"
  "sg_edgesByNode (layerRemove n g) = sg_edgesByNode g" "sg_groupChildren (layerRemove n g) = sg_groupChildren g"
  "sg_boundsCache (layerRemove n g) = sg_boundsCache g" "sg_boundsStale (layerRemove n g) = sg_boundsStale g"
  "sg_index (layerRemove n g) = sg_index g" "sg_dirty (layerRemove n g) = sg_dirty g"
  "sg_bounds (layerRemove n g) = sg_bounds g"
  by (simp_all add: layerRemove_def Let_def split: option.split)

lemma touchGroup_frame [simp]:
  "sg_nodes (touchGroup x g) = sg_nodes g" "sg_edges (touchGroup x g) = sg_edges g"
  "sg_layers (touchGroup x g) = sg_layers g" "sg_layerRank (touchGroup x g) = sg_layerRank g"
  "sg_byLayer (touchGroup x g) = sg_byLayer g"
  "sg_edgesByNode (touchGroup x g) = sg_edgesByNode g" "sg_groupChildren (touchGroup x g) = sg_groupChildren g"
  "sg_boundsCache (touchGroup x g) = sg_boundsCache g" "sg_index (touchGroup x g) = sg_index g"
  "sg_dirty (touchGroup x g) = sg_dirty g" "sg_bounds (touchGroup x g) = sg_bounds g"
  by (simp_all add: touchGroup_def split: option.split)

lemma stale_touch [simp]:
  "sg_boundsStale (touchGroup (n_groupId n) g) = stale_group n (sg_boundsStale g)"
  by (simp add: touchGroup_def stale_group_def split: option.split)

lemma markNode_frame [simp]:
  "sg_nodes (markNode n g) = sg_nodes g" "sg_edges (markNode n g) = sg_edges g"
  "sg_layers (markNode n g) = sg_layers g" "sg_layerRank (markNode n g) = sg_layerRank g"
  "sg_byLayer (markNode n g) = sg_byLayer g" "sg_boundsStale (markNode n g) = stale_group n (sg_boundsStale g)"
  "sg_edgesByNode (markNode n g) = sg_edgesByNode g" "sg_groupChildren (markNode n g) = sg_groupChildren g"
  "sg_boundsCache (markNode n g) = sg_boundsCache g" "sg_index (markNode n g) = sg_index g"
  "sg_bounds (markNode n g) = sg_bounds g"
  by (simp_all add: markNode_def Let_def)

lemma recomputeBounds_frame [simp]:
  "sg_nodes (recomputeBounds g) = sg_nodes g" "sg_edges (recomputeBounds g) = sg_edges g"
  "sg_layers (recomputeBounds g) = sg_layers g" "sg_layerRank (recomputeBounds g) = sg_layerRank g"
  "sg_byLayer (recomputeBounds g) = sg_byLayer g" "sg_boundsStale (recomputeBounds g) = sg_boundsStale g"
  "sg_edgesByNode (recomputeBounds g) = sg_edgesByNode g" "sg_groupChildren (recomputeBounds g) = sg_groupChildren g"
  "sg_boundsCache (recomputeBounds g) = sg_boundsCache g" "sg_index (recomputeBounds g) = sg_index g"
  "sg_dirty (recomputeBounds g) = sg_dirty g"
  by (simp_all add: recomputeBounds_def Let_def)

lemma shrinkBounds_frame [simp]:
  "sg_nodes (shrinkBounds r g) = sg_nodes g" "sg_edges (shrinkBounds r g) = sg_edges g"
  "sg_layers (shrinkBounds r g) = sg_layers g" "sg_layerRank (shrinkBounds r g) = sg_layerRank g"
  "sg_byLayer (shrinkBounds r g) = sg_byLayer g" "sg_boundsStale (shrinkBounds r g) = sg_boundsStale g"
  "sg_edgesByNode (shrinkBounds r g) = sg_edgesByNode g" "sg_groupChildren (shrinkBounds r g) = sg_groupChildren g"
  "sg_boundsCache (shrinkBounds r g) = sg_boundsCache g" "sg_index (shrinkBounds r g) = sg_index g"
  "sg_dirty (shrinkBounds r g) = sg_dirty g"
  by (simp_all add: shrinkBounds_def Let_def)

lemma addNode_writes:
  "sg_nodes (addNode n g) = omap_set (n_id n) n (sg_nodes g)"
  "sg_edges (addNode n g) = sg_edges g" "sg_edgesByNode (addNode n g) = sg_edgesByNode g"
  "sg_layers (addNode n g) = sg_layers g" "sg_layerRank (addNode n g) = sg_layerRank g"
  "sg_byLayer (addNode n g) = sg_byLayer (layerInsert n (g\<lparr>sg_nodes := omap_set (n_id n) n (sg_nodes g)\<rparr>))"
  "sg_groupChildren (addNode n g) = join_group n (sg_groupChildren g)"
  "sg_boundsCache (addNode n g) = sg_boundsCache g"
  "set (sg_boundsStale (addNode n g)) = set (stale_group n (sg_boundsStale g))"
  "sg_index (addNode n g)
     = (if isVisible g n then index_insert (n_id n) (node_rect n) (sg_index g) else sg_index g)"
  "sg_bounds (addNode n g) = (if isVisible g n then growBounds (node_rect n) (sg_bounds g) else sg_bounds g)"
proof -
  have vis: "isVisible (touchGroup x (h\<lparr>sg_groupChildren := c\<rparr>)) = isVisible h"
    "isVisible (layerInsert n h) = isVisible h" for x h c
    by (rule isVisible_cong; simp)+
  note defs = addNode_def Let_def vis join_group_def stale_group_def
  show "sg_nodes (addNode n g) = omap_set (n_id n) n (sg_nodes g)"
    "sg_edges (addNode n g) = sg_edges g" "sg_edgesByNode (addNode n g) = sg_edgesByNode g"
    "sg_layers (addNode n g) = sg_layers g" "sg_layerRank (addNode n g) = sg_layerRank g"
    "sg_byLayer (addNode n g) = sg_byLayer (layerInsert n (g\<lparr>sg_nodes := omap_set (n_id n) n (sg_nodes g)\<rparr>))"
    "sg_groupChildren (addNode n g) = join_group n (sg_groupChildren g)"
    "sg_boundsCache (addNode n g) = sg_boundsCache g"
    "sg_index (addNode n g)
       = (if isVisible g n then index_insert (n_id n) (node_rect n) (sg_index g) else sg_index g)"
    "sg_bounds (addNode n g) = (if isVisible g n then growBounds (node_rect n) (sg_bounds g) else sg_bounds g)"
    by (simp_all add: defs split: option.split)
  show "set (sg_boundsStale (addNode n g)) = set (stale_group n (sg_boundsStale g))"
    by (auto simp: defs touchGroup_def split: option.split)
qed

lemma dropNode_writes:
  "sg_nodes (dropNode n g) = omap_delete (n_id n) (sg_nodes g)"
  "sg_edges (dropNode n g) = sg_edges g" "sg_edgesByNode (dropNode n g) = sg_edgesByNode g"
  "sg_layers (dropNode n g) = sg_layers g" "sg_layerRank (dropNode n g) = sg_layerRank g"
  "sg_byLayer (dropNode n g) = sg_byLayer (layerRemove n g)"
  "sg_groupChildren (dropNode n g) = leave_group n (sg_groupChildren g)"
  "sg_boundsCache (dropNode n g) = sg_boundsCache g"
  "set (sg_boundsStale (dropNode n g)) = set (stale_group n (sg_boundsStale g))"
  "sg_index (dropNode n g) = (if isVisible g n then index_remove (n_id n) (sg_index g) else sg_index g)"
  "sg_bounds (dropNode n g)
     = (if isVisible g n
        then sg_bounds (shrinkBounds (node_rect n) (g\<lparr>sg_nodes := omap_delete (n_id n) (sg_nodes g)\<rparr>))
        else sg_bounds g)"
proof -
  have vis: "isVisible (touchGroup x (h\<lparr>sg_groupChildren := c\<rparr>)) = isVisible h"
    "isVisible (layerRemove n h) = isVisible h" for x h c
    by (rule isVisible_cong; simp)+
  have lay: "sg_byLayer (layerRemove n (g\<lparr>sg_nodes := ns\<rparr>)) = sg_byLayer (layerRemove n g)" for ns
    by (simp add: layerRemove_def Let_def split: option.split)
  have shrink: "sg_bounds (shrinkBounds r h) = sg_bounds (shrinkBounds r h')"
    if "sg_nodes h = sg_nodes h'" "isVisible h = isVisible h'" "sg_bounds h = sg_bounds h'" for r h h'
    using that by (simp add: shrinkBounds_def recomputeBounds_def visible_rects_def Let_def)
  note defs = dropNode_def Let_def vis lay leave_group_def stale_group_def
  show "sg_nodes (dropNode n g) = omap_delete (n_id n) (sg_nodes g)"
    "sg_edges (dropNode n g) = sg_edges g" "sg_edgesByNode (dropNode n g) = sg_edgesByNode g"
    "sg_layers (dropNode n g) = sg_layers g" "sg_layerRank (dropNode n g) = sg_layerRank g"
    "sg_byLayer (dropNode n g) = sg_byLayer (layerRemove n g)"
    "sg_groupChildren (dropNode n g) = leave_group n (sg_groupChildren g)"
    "sg_boundsCache (dropNode n g) = sg_boundsCache g"
    "sg_index (dropNode n g) = (if isVisible g n then index_remove (n_id n) (sg_index g) else sg_index g)"
    by (simp_all add: defs split: option.split)
  show "set (sg_boundsStale (dropNode n g)) = set (stale_group n (sg_boundsStale g))"
    by (auto simp: defs touchGroup_def split: option.split)
  show "sg_bounds (dropNode n g)
     = (if isVisible g n
        then sg_bounds (shrinkBounds (node_rect n) (g\<lparr>sg_nodes := omap_delete (n_id n) (sg_nodes g)\<rparr>))
        else sg_bounds g)"
    by (auto simp: defs split: option.split intro!: shrink)
qed

lemma replaceGeometry_writes:
  assumes "isVisible g next = isVisible g prev"
  shows "sg_nodes (replaceGeometry prev next g) = omap_set (n_id next) next (sg_nodes g)"
    "sg_edges (replaceGeometry prev next g) = sg_edges g"
    "sg_edgesByNode (replaceGeometry prev next g) = sg_edgesByNode g"
    "sg_layers (replaceGeometry prev next g) = sg_layers g"
    "sg_layerRank (replaceGeometry prev next g) = sg_layerRank g"
    "sg_byLayer (replaceGeometry prev next g) = sg_byLayer g"
    "sg_groupChildren (replaceGeometry prev next g) = sg_groupChildren g"
    "sg_boundsCache (replaceGeometry prev next g) = sg_boundsCache g"
    "sg_boundsStale (replaceGeometry prev next g) = stale_group next (stale_group prev (sg_boundsStale g))"
    "sg_index (replaceGeometry prev next g)
       = (if isVisible g prev then index_update (n_id next) (node_rect next) (sg_index g)
          else index_remove (n_id next) (sg_index g))"
    "sg_bounds (replaceGeometry prev next g)
       = (if isVisible g prev
          then if touchesExtreme (node_rect prev) (sg_bounds g)
               then sg_bounds (recomputeBounds (g\<lparr>sg_nodes := omap_set (n_id next) next (sg_nodes g)\<rparr>))
               else growBounds (node_rect next) ((sg_bounds g)\<lparr>b_count := b_count (sg_bounds g) - 1\<rparr>)
          else sg_bounds g)"
proof -
  have vis: "isVisible (markNode n h) = isVisible h" for n h by (rule isVisible_cong; simp)
  have rec: "sg_bounds (recomputeBounds h) = sg_bounds (recomputeBounds h')"
    if "sg_nodes h = sg_nodes h'" "isVisible h = isVisible h'" "sg_bounds h = sg_bounds h'" for h h'
    using that by (simp add: recomputeBounds_def visible_rects_def Let_def)
  note defs = replaceGeometry_def Let_def vis assms
  show "sg_nodes (replaceGeometry prev next g) = omap_set (n_id next) next (sg_nodes g)"
    "sg_edges (replaceGeometry prev next g) = sg_edges g"
    "sg_edgesByNode (replaceGeometry prev next g) = sg_edgesByNode g"
    "sg_layers (replaceGeometry prev next g) = sg_layers g"
    "sg_layerRank (replaceGeometry prev next g) = sg_layerRank g"
    "sg_byLayer (replaceGeometry prev next g) = sg_byLayer g"
    "sg_groupChildren (replaceGeometry prev next g) = sg_groupChildren g"
    "sg_boundsCache (replaceGeometry prev next g) = sg_boundsCache g"
    "sg_boundsStale (replaceGeometry prev next g) = stale_group next (stale_group prev (sg_boundsStale g))"
    "sg_index (replaceGeometry prev next g)
       = (if isVisible g prev then index_update (n_id next) (node_rect next) (sg_index g)
          else index_remove (n_id next) (sg_index g))"
    by (simp_all add: defs)
  show "sg_bounds (replaceGeometry prev next g)
       = (if isVisible g prev
          then if touchesExtreme (node_rect prev) (sg_bounds g)
               then sg_bounds (recomputeBounds (g\<lparr>sg_nodes := omap_set (n_id next) next (sg_nodes g)\<rparr>))
               else growBounds (node_rect next) ((sg_bounds g)\<lparr>b_count := b_count (sg_bounds g) - 1\<rparr>)
          else sg_bounds g)"
    by (auto simp: defs intro!: rec)
qed

section \<open>The operations keep the invariant\<close>

lemma node_of_set: "sg_nodes h = omap_set i n (sg_nodes g) \<Longrightarrow> node_of h = (node_of g)(i \<mapsto> n)"
  by (simp add: node_of_def fun_eq_iff)

lemma node_of_delete: "sg_nodes h = omap_delete i (sg_nodes g) \<Longrightarrow> node_of h = (node_of g)(i := None)"
  by (simp add: node_of_def fun_eq_iff)

lemma node_of_keyed: "scene_ok g \<Longrightarrow> node_of g i = Some n \<Longrightarrow> n_id n = i"
  by (simp add: scene_ok_def keyed_by_def node_of_def)

lemma scene_ok_inv: "scene_ok g \<Longrightarrow> omap_inv (sg_nodes g)"
  by (simp add: scene_ok_def keyed_by_def)

lemma cache_ok_stale: "cache_ok N C cache S \<Longrightarrow> set S \<subseteq> set S' \<Longrightarrow> cache_ok N C cache S'"
  by (auto simp: cache_ok_def)

lemma addNode_ok:
  assumes ok: "scene_ok g" and new: "node_of g (n_id n) = None"
  shows "scene_ok (addNode n g)"
proof -
  let ?h = "addNode n g"
  have N: "node_of ?h = (node_of g)(n_id n \<mapsto> n)" by (rule node_of_set) (simp add: addNode_writes)
  have V: "isVisible ?h = isVisible g" by (rule isVisible_cong) (simp_all add: addNode_writes)
  have "keyed_by n_id (sg_nodes ?h)" using ok by (simp add: scene_ok_def addNode_writes keyed_by_set)
  moreover have "order_ok (node_of ?h) (sg_byLayer ?h)"
  proof -
    let ?g = "g\<lparr>sg_nodes := omap_set (n_id n) n (sg_nodes g)\<rparr>"
    have "node_of ?g = (node_of g)(n_id n \<mapsto> n)" by (rule node_of_set) simp
    then show ?thesis
      using layerInsert_order [of "node_of g" ?g n] ok new N node_of_keyed [OF ok]
      by (simp add: scene_ok_def addNode_writes)
  qed
  moreover have "members_ok (node_of ?h) (sg_groupChildren ?h)"
    using ok new join_group_members unfolding N by (simp add: scene_ok_def addNode_writes)
  moreover have "index_ok (isVisible ?h) (node_of ?h) (sg_index ?h)"
    using ok new index_ok_add index_ok_hidden unfolding N V by (simp add: scene_ok_def addNode_writes)
  moreover have "bounds_ok (isVisible ?h) (sg_nodes ?h) (sg_bounds ?h)"
    using ok new bounds_ok_add unfolding V by (simp add: scene_ok_def addNode_writes node_of_def)
  moreover have "cache_ok (node_of ?h) (sg_groupChildren ?h) (sg_boundsCache ?h) (sg_boundsStale ?h)"
    using ok new unfolding N addNode_writes
    by (intro join_group_cache) (auto simp: scene_ok_def addNode_writes)
  ultimately show ?thesis using ok by (simp add: scene_ok_def addNode_writes)
qed

lemma dropNode_ok:
  assumes ok: "scene_ok g" and old: "node_of g (n_id n) = Some n"
  shows "scene_ok (dropNode n g)"
proof -
  let ?h = "dropNode n g"
  have N: "node_of ?h = (node_of g)(n_id n := None)" by (rule node_of_delete) (simp add: dropNode_writes)
  have V: "isVisible ?h = isVisible g" by (rule isVisible_cong) (simp_all add: dropNode_writes)
  have "keyed_by n_id (sg_nodes ?h)" using ok by (simp add: scene_ok_def dropNode_writes keyed_by_delete)
  moreover have "order_ok (node_of ?h) (sg_byLayer ?h)"
    using ok old layerRemove_order unfolding N by (simp add: scene_ok_def dropNode_writes)
  moreover have "members_ok (node_of ?h) (sg_groupChildren ?h)"
    using ok old leave_group_members unfolding N by (simp add: scene_ok_def dropNode_writes)
  moreover have "index_ok (isVisible ?h) (node_of ?h) (sg_index ?h)"
    using ok old index_ok_drop index_ok_forget unfolding N V by (simp add: scene_ok_def dropNode_writes)
  moreover have "bounds_ok (isVisible ?h) (sg_nodes ?h) (sg_bounds ?h)"
  proof (cases "isVisible g n")
    case True
    then show ?thesis
      using shrinkBounds_ok [of "g\<lparr>sg_nodes := omap_delete (n_id n) (sg_nodes g)\<rparr>" "sg_nodes g" "n_id n" n]
        ok old scene_ok_inv [OF ok] unfolding V by (simp add: scene_ok_def dropNode_writes node_of_def)
  next
    case False
    then show ?thesis
      using ok old mset_values_del [OF scene_ok_inv [OF ok], of "n_id n" n] unfolding V
      by (simp add: scene_ok_def dropNode_writes node_of_def bounds_ok_def)
  qed
  moreover have "cache_ok (node_of ?h) (sg_groupChildren ?h) (sg_boundsCache ?h) (sg_boundsStale ?h)"
    using ok old unfolding N dropNode_writes
    by (intro leave_group_cache) (auto simp: scene_ok_def dropNode_writes)
  ultimately show ?thesis using ok by (simp add: scene_ok_def dropNode_writes)
qed

text \<open>A geometry update: same identity, layer, height, group and flags.\<close>

definition same_place :: "NodeView \<Rightarrow> NodeView \<Rightarrow> bool" where
  "same_place a b \<longleftrightarrow> n_id a = n_id b \<and> n_z a = n_z b \<and> n_layerId a = n_layerId b
     \<and> n_groupId a = n_groupId b \<and> n_hidden a = n_hidden b"

lemma same_place_visible: "same_place a b \<Longrightarrow> isVisible g a = isVisible g b"
  by (simp add: same_place_def isVisible_def)

lemma replaceGeometry_ok:
  assumes ok: "scene_ok g" and old: "node_of g (n_id prev) = Some prev" and same: "same_place next prev"
  shows "scene_ok (replaceGeometry prev next g)"
proof -
  let ?h = "replaceGeometry prev next g"
  have ids: "n_id next = n_id prev" using same by (simp add: same_place_def)
  note W = replaceGeometry_writes [OF same_place_visible [OF same]]
  have N: "node_of ?h = (node_of g)(n_id prev \<mapsto> next)" using node_of_set [OF W(1)] by (simp add: ids)
  have V: "isVisible ?h = isVisible g" by (rule isVisible_cong) (simp_all add: W)
  have "keyed_by n_id (sg_nodes ?h)" using ok by (simp add: scene_ok_def W keyed_by_set)
  moreover have "order_ok (node_of ?h) (sg_byLayer ?h)"
    using ok old same unfolding N W(6,7)
    by - (rule order_ok_cong [where N = "node_of g", rotated], auto simp: scene_ok_def same_place_def)
  moreover have "members_ok (node_of ?h) (sg_groupChildren ?h)"
    using ok old same unfolding N W(6,7)
    by - (rule members_ok_cong [where N = "node_of g", rotated], auto simp: scene_ok_def same_place_def)
  moreover have "index_ok (isVisible ?h) (node_of ?h) (sg_index ?h)"
  proof (cases "isVisible g prev")
    case True
    then have "isVisible g next" using same_place_visible [OF same] by simp
    moreover have "index_ok (isVisible g) (node_of g) (sg_index g)" using ok by (simp add: scene_ok_def)
    ultimately have "index_ok (isVisible g) ((node_of g)(n_id prev \<mapsto> next))
        (index_update (n_id prev) (node_rect next) (sg_index g))"
      using index_ok_move [of "isVisible g" "node_of g" "sg_index g" "next"] ids by simp
    with True show ?thesis unfolding N V W by (simp add: ids)
  next
    case False
    then have "\<not> isVisible g next" using same_place_visible [OF same] by simp
    moreover have "index_ok (isVisible g) ((node_of g)(n_id prev := None)) (index_remove (n_id prev) (sg_index g))"
      using ok by (simp add: scene_ok_def index_ok_drop)
    ultimately have "index_ok (isVisible g) ((node_of g)(n_id prev := None, n_id prev \<mapsto> next))
        (index_remove (n_id prev) (sg_index g))"
      using index_ok_hidden [of "isVisible g" "(node_of g)(n_id prev := None)" _ "next"] by (simp add: ids)
    with False show ?thesis unfolding N V W by (simp add: ids)
  qed
  moreover have "bounds_ok (isVisible ?h) (sg_nodes ?h) (sg_bounds ?h)"
  proof (cases "isVisible g prev \<and> touchesExtreme (node_rect prev) (sg_bounds g)")
    case True
    then show ?thesis
      using recomputeBounds_ok [of "g\<lparr>sg_nodes := omap_set (n_id next) next (sg_nodes g)\<rparr>"]
      unfolding V by (simp add: W)
  next
    case False
    then show ?thesis
      using replaceBounds_ok [of "isVisible g" "sg_nodes g" "sg_bounds g" "n_id prev" prev "next"] ok old
        scene_ok_inv [OF ok] same_place_visible [OF same]
      unfolding V by (cases "isVisible g prev") (simp_all add: scene_ok_def W node_of_def ids)
  qed
  moreover have "cache_ok (node_of ?h) (sg_groupChildren ?h) (sg_boundsCache ?h) (sg_boundsStale ?h)"
    unfolding N W
  proof (rule cache_ok_frame)
    show "cache_ok (node_of g) (sg_groupChildren g) (sg_boundsCache g) (sg_boundsStale g)"
      using ok by (simp add: scene_ok_def)
    fix gid
    assume "gid \<notin> set (stale_group next (stale_group prev (sg_boundsStale g)))"
    then have "gid \<notin> set (sg_boundsStale g)" "n_groupId prev \<noteq> Some gid" by (auto simp: stale_group_iff)
    moreover from this have "n_id prev \<notin> set (bucket_list (sg_groupChildren g) gid)"
      using ok old by (auto simp: scene_ok_def members_ok_def in_bucket_iff [symmetric])
    ultimately show "gid \<notin> set (sg_boundsStale g) \<and> omap_get (sg_boundsCache g) gid = omap_get (sg_boundsCache g) gid
        \<and> bucket_list (sg_groupChildren g) gid = bucket_list (sg_groupChildren g) gid
        \<and> (\<forall>i\<in>set (bucket_list (sg_groupChildren g) gid). ((node_of g)(n_id prev \<mapsto> next)) i = node_of g i)"
      by auto
  qed
  ultimately show ?thesis using ok by (simp add: scene_ok_def W)
qed


subsection \<open>Edges\<close>

lemma mark_edge_frame [simp]:
  "sg_nodes (mark_edge i g) = sg_nodes g" "sg_edges (mark_edge i g) = sg_edges g"
  "sg_layers (mark_edge i g) = sg_layers g" "sg_layerRank (mark_edge i g) = sg_layerRank g"
  "sg_byLayer (mark_edge i g) = sg_byLayer g" "sg_boundsStale (mark_edge i g) = sg_boundsStale g"
  "sg_edgesByNode (mark_edge i g) = sg_edgesByNode g" "sg_groupChildren (mark_edge i g) = sg_groupChildren g"
  "sg_boundsCache (mark_edge i g) = sg_boundsCache g" "sg_index (mark_edge i g) = sg_index g"
  "sg_bounds (mark_edge i g) = sg_bounds g"
  by (simp_all add: mark_edge_def)

lemma edge_fields_ok:
  assumes ok: "scene_ok g" and "keyed_by ed_id es" "incidence_ok (omap_get es) X"
    and h: "h = g\<lparr>sg_edges := es, sg_edgesByNode := X, sg_dirty := d\<rparr>"
  shows "scene_ok h"
proof -
  have "node_of h = node_of g" "isVisible h = isVisible g" by (simp_all add: h node_of_def fun_eq_iff)
  with ok assms(2,3) show ?thesis unfolding scene_ok_def by (simp add: h)
qed

lemma upsertEdge_ok:
  assumes ok: "scene_ok g"
  shows "scene_ok (upsertEdge e g)"
proof -
  let ?E = "omap_get (sg_edges g)"
  define g1 where "g1 = (case ?E (ed_id e) of None \<Rightarrow> g | Some old \<Rightarrow> unlinkEdge old g)"
  have inc: "incidence_ok ?E (sg_edgesByNode g)" and keyed: "keyed_by ed_id (sg_edges g)"
    using ok by (simp_all add: scene_ok_def)
  have g1: "g1 = g\<lparr>sg_edgesByNode := sg_edgesByNode g1\<rparr>"
    by (simp add: g1_def unlinkEdge_def split: option.split)
  have "incidence_ok (?E(ed_id e := None)) (sg_edgesByNode g1)"
  proof (cases "?E (ed_id e)")
    case None
    then show ?thesis using inc by (simp add: g1_def fun_upd_idem)
  next
    case (Some old)
    moreover from this keyed have "ed_id old = ed_id e" by (simp add: keyed_by_def)
    ultimately show ?thesis using unlinkEdge_incidence [OF inc, of old] by (simp add: g1_def)
  qed
  from linkEdge_incidence [OF this, of e]
  have "incidence_ok (?E(ed_id e \<mapsto> e)) (sg_edgesByNode (linkEdge e g1))" by simp
  moreover have "omap_get (omap_set (ed_id e) e (sg_edges g)) = ?E(ed_id e \<mapsto> e)" by (simp add: fun_eq_iff)
  moreover have "upsertEdge e g = g\<lparr>sg_edges := omap_set (ed_id e) e (sg_edges g),
      sg_edgesByNode := sg_edgesByNode (linkEdge e g1), sg_dirty := sg_dirty (upsertEdge e g)\<rparr>"
    unfolding upsertEdge_def Let_def g1_def [symmetric]
    by (subst (1 2 3 4) g1) (simp add: linkEdge_def mark_edge_def)
  ultimately show ?thesis
    by (intro edge_fields_ok [OF ok keyed_by_set [OF keyed], where X = "sg_edgesByNode (linkEdge e g1)"]) auto
qed

lemma removeEdge_ok:
  assumes ok: "scene_ok g"
  shows "scene_ok (removeEdge i g) \<and> node_of (removeEdge i g) = node_of g
    \<and> omap_get (sg_edges (removeEdge i g)) = (omap_get (sg_edges g))(i := None)"
proof (cases "omap_get (sg_edges g) i")
  case None
  then show ?thesis using ok by (simp add: removeEdge_def fun_upd_idem)
next
  case (Some e)
  let ?E = "omap_get (sg_edges g)"
  have inc: "incidence_ok ?E (sg_edgesByNode g)" and keyed: "keyed_by ed_id (sg_edges g)"
    using ok by (simp_all add: scene_ok_def)
  have id: "ed_id e = i" using Some keyed by (simp add: keyed_by_def)
  have E: "omap_get (omap_delete i (sg_edges g)) = ?E(i := None)" by (simp add: fun_eq_iff)
  have "incidence_ok (?E(i := None)) (sg_edgesByNode (unlinkEdge e g))"
    using unlinkEdge_incidence [OF inc, of e] Some by (simp add: id)
  moreover have "removeEdge i g = g\<lparr>sg_edges := omap_delete i (sg_edges g),
      sg_edgesByNode := sg_edgesByNode (unlinkEdge e g), sg_dirty := sg_dirty (removeEdge i g)\<rparr>"
    using Some by (simp add: removeEdge_def unlinkEdge_def mark_edge_def)
  ultimately have "scene_ok (removeEdge i g)"
    by (intro edge_fields_ok [OF ok keyed_by_delete [OF keyed], where X = "sg_edgesByNode (unlinkEdge e g)"])
      (auto simp: E)
  with Some show ?thesis
    by (simp add: removeEdge_def unlinkEdge_def fun_eq_iff node_of_def)
qed

lemma removeEdges_ok:
  "scene_ok g \<Longrightarrow> scene_ok (fold removeEdge is g) \<and> node_of (fold removeEdge is g) = node_of g
    \<and> omap_get (sg_edges (fold removeEdge is g)) = (omap_get (sg_edges g)) |` (- set is)"
proof (induction "is" arbitrary: g)
  case (Cons i "is")
  note one = removeEdge_ok [OF Cons.prems, of i]
  from Cons.IH [of "removeEdge i g"] one show ?case
    by (auto simp: restrict_map_def fun_eq_iff)
qed (simp add: restrict_map_def)

lemma removeNode_ok:
  assumes ok: "scene_ok g"
  shows "scene_ok (removeNode i g)"
proof (cases "node_of g i")
  case None
  then show ?thesis using ok by (simp add: removeNode_def)
next
  case (Some n)
  moreover have "scene_ok (fold removeEdge (incident g i) g)"
    "node_of (fold removeEdge (incident g i) g) = node_of g" using removeEdges_ok [OF ok] by auto
  ultimately show ?thesis using dropNode_ok node_of_keyed [OF ok Some] by (simp add: removeNode_def)
qed

lemma upsertNode_ok: "scene_ok g \<Longrightarrow> scene_ok (upsertNode n g)"
proof (cases "node_of g (n_id n)")
  case None
  then show "scene_ok g \<Longrightarrow> ?thesis" by (simp add: upsertNode_def addNode_ok)
next
  case (Some old)
  assume ok: "scene_ok g"
  have id: "n_id old = n_id n" using node_of_keyed [OF ok Some] .
  have "node_of (dropNode old g) = (node_of g)(n_id old := None)"
    by (rule node_of_delete) (simp add: dropNode_writes)
  with Some show ?thesis using addNode_ok dropNode_ok [OF ok, of old] id by (simp add: upsertNode_def)
qed

lemma moveNode_ok: "scene_ok g \<Longrightarrow> scene_ok (moveNode m g)"
  using node_of_keyed [of g "mv_id m"]
  by (auto simp: moveNode_def same_place_def split: option.split intro!: replaceGeometry_ok)

lemma moveNodes_ok: "scene_ok g \<Longrightarrow> scene_ok (fold moveNode ms g)"
  by (induction ms arbitrary: g) (simp_all add: moveNode_ok)

lemma resizeNode_ok: "scene_ok g \<Longrightarrow> scene_ok (resizeNode i w h x y g)"
  using node_of_keyed [of g i]
  by (auto simp: resizeNode_def same_place_def split: option.split intro!: replaceGeometry_ok)

subsection \<open>Groups\<close>

lemma upsertGroup_ok: "scene_ok g \<Longrightarrow> scene_ok (upsertGroup gr g)"
proof -
  assume ok: "scene_ok g"
  have same: "node_of (upsertGroup gr g) = node_of g" "isVisible (upsertGroup gr g) = isVisible g"
    by (simp_all add: upsertGroup_def node_of_def isVisible_def fun_eq_iff cong: option.case_cong)
  have "cache_ok (node_of g) (sg_groupChildren g) (sg_boundsCache g) (set_add (g_id gr) (sg_boundsStale g))"
    by (rule cache_ok_stale [where S = "sg_boundsStale g"]) (use ok in \<open>auto simp: scene_ok_def\<close>)
  with ok show ?thesis unfolding scene_ok_def same by (simp add: upsertGroup_def)
qed

text \<open>What holds in the middle of \<open>remove-group\<close>, while memberships are being taken away.\<close>

definition ungrouped_ok :: "scene_graph \<Rightarrow> bool" where
  "ungrouped_ok g \<longleftrightarrow>
     keyed_by n_id (sg_nodes g) \<and> keyed_by ed_id (sg_edges g)
     \<and> order_ok (node_of g) (sg_byLayer g)
     \<and> incidence_ok (omap_get (sg_edges g)) (sg_edgesByNode g)
     \<and> index_ok (isVisible g) (node_of g) (sg_index g)
     \<and> bounds_ok (isVisible g) (sg_nodes g) (sg_bounds g)"

lemma scene_ok_ungrouped:
  "scene_ok g \<longleftrightarrow> ungrouped_ok g \<and> members_ok (node_of g) (sg_groupChildren g)
     \<and> cache_ok (node_of g) (sg_groupChildren g) (sg_boundsCache g) (sg_boundsStale g)"
  by (auto simp: scene_ok_def ungrouped_ok_def)

lemma orphan_frame [simp]:
  "sg_edges (orphan i g) = sg_edges g" "sg_layers (orphan i g) = sg_layers g"
  "sg_layerRank (orphan i g) = sg_layerRank g" "sg_byLayer (orphan i g) = sg_byLayer g"
  "sg_edgesByNode (orphan i g) = sg_edgesByNode g" "sg_groupChildren (orphan i g) = sg_groupChildren g"
  "sg_boundsCache (orphan i g) = sg_boundsCache g" "sg_boundsStale (orphan i g) = sg_boundsStale g"
  "sg_index (orphan i g) = sg_index g" "sg_bounds (orphan i g) = sg_bounds g"
  by (simp_all add: orphan_def Let_def split: option.split)

lemma orphans_frame [simp]:
  "sg_edges (fold orphan is g) = sg_edges g" "sg_layers (fold orphan is g) = sg_layers g"
  "sg_layerRank (fold orphan is g) = sg_layerRank g" "sg_byLayer (fold orphan is g) = sg_byLayer g"
  "sg_edgesByNode (fold orphan is g) = sg_edgesByNode g" "sg_groupChildren (fold orphan is g) = sg_groupChildren g"
  "sg_boundsCache (fold orphan is g) = sg_boundsCache g" "sg_boundsStale (fold orphan is g) = sg_boundsStale g"
  "sg_index (fold orphan is g) = sg_index g" "sg_bounds (fold orphan is g) = sg_bounds g"
  by (induction "is" arbitrary: g) simp_all

definition no_group :: "NodeView \<Rightarrow> NodeView" where
  "no_group n = n\<lparr>n_groupId := None\<rparr>"

lemma no_group_sel [simp]:
  "n_id (no_group n) = n_id n" "n_z (no_group n) = n_z n" "n_layerId (no_group n) = n_layerId n"
  "node_rect (no_group n) = node_rect n" "n_groupId (no_group n) = None" "no_group (no_group n) = no_group n"
  "isVisible g (no_group n) = isVisible g n"
  by (simp_all add: no_group_def node_rect_def isVisible_def)

lemma orphan_node_of:
  "node_of (orphan i g) j = (if j = i then map_option no_group (node_of g j) else node_of g j)"
  by (auto simp: orphan_def node_of_def no_group_def Let_def split: option.split)

lemma orphans_node_of:
  "node_of (fold orphan is g) j = (if j \<in> set is then map_option no_group (node_of g j) else node_of g j)"
  by (induction "is" arbitrary: g) (auto simp: orphan_node_of option.map_comp o_def)

lemma orphan_ungrouped:
  assumes "ungrouped_ok g"
  shows "ungrouped_ok (orphan i g)"
proof (cases "node_of g i")
  case None
  then have "node_of (orphan i g) = node_of g" "sg_nodes (orphan i g) = sg_nodes g"
    by (simp_all add: fun_eq_iff orphan_node_of) (simp add: orphan_def)
  moreover have "isVisible (orphan i g) = isVisible g" by (rule isVisible_cong) simp_all
  ultimately show ?thesis using assms by (simp add: ungrouped_ok_def)
next
  case (Some n)
  then have nodes: "sg_nodes (orphan i g) = omap_set i (no_group n) (sg_nodes g)"
    by (simp add: orphan_def no_group_def Let_def)
  have V: "isVisible (orphan i g) = isVisible g" by (rule isVisible_cong) simp_all
  have inv: "omap_inv (sg_nodes g)" and get: "omap_get (sg_nodes g) i = Some n" and id: "n_id n = i"
    using assms Some by (auto simp: ungrouped_ok_def keyed_by_def node_of_def)
  have "order_ok (node_of (orphan i g)) (sg_byLayer g)"
    using assms by - (rule order_ok_cong [where N = "node_of g", rotated],
        auto simp: ungrouped_ok_def orphan_node_of option.map_comp o_def)
  moreover have "index_ok (isVisible g) (node_of (orphan i g)) (sg_index g)"
    using assms by - (rule index_ok_cong [where N = "node_of g" and V = "isVisible g", rotated],
        auto simp: ungrouped_ok_def orphan_node_of option.map_comp o_def)
  moreover have "bounds_ok (isVisible g) (sg_nodes (orphan i g)) (sg_bounds g)"
    using assms unfolding ungrouped_ok_def bounds_ok_def nodes mset_values_set [OF inv get]
      mset_values_del [OF inv get] by (cases "isVisible g n") simp_all
  moreover have "keyed_by n_id (sg_nodes (orphan i g))"
    using assms by (simp add: nodes ungrouped_ok_def keyed_by_set id)
  ultimately show ?thesis using assms by (simp add: ungrouped_ok_def V)
qed

lemma orphans_ungrouped: "ungrouped_ok g \<Longrightarrow> ungrouped_ok (fold orphan is g)"
  by (induction "is" arbitrary: g) (simp_all add: orphan_ungrouped)

lemma ungrouped_ok_cong:
  assumes "sg_nodes h = sg_nodes g" "sg_edges h = sg_edges g" "sg_byLayer h = sg_byLayer g"
    "sg_edgesByNode h = sg_edgesByNode g" "sg_index h = sg_index g" "sg_bounds h = sg_bounds g"
    "sg_layers h = sg_layers g" "sg_layerRank h = sg_layerRank g"
  shows "ungrouped_ok h = ungrouped_ok g"
proof -
  have "isVisible h = isVisible g" by (rule isVisible_cong) (use assms in simp_all)
  moreover have "node_of h = node_of g" using assms by (simp add: node_of_def fun_eq_iff)
  ultimately show ?thesis using assms by (simp add: ungrouped_ok_def)
qed

lemma removeGroup_writes:
  assumes "omap_has (sg_groups g) i"
  shows "sg_nodes (removeGroup i g) = sg_nodes (fold orphan (bucket_list (sg_groupChildren g) i) g)"
    "sg_edges (removeGroup i g) = sg_edges g" "sg_edgesByNode (removeGroup i g) = sg_edgesByNode g"
    "sg_layers (removeGroup i g) = sg_layers g" "sg_layerRank (removeGroup i g) = sg_layerRank g"
    "sg_byLayer (removeGroup i g) = sg_byLayer g" "sg_index (removeGroup i g) = sg_index g"
    "sg_bounds (removeGroup i g) = sg_bounds g"
    "bucket_list (sg_groupChildren (removeGroup i g)) gid
       = (if gid = i then [] else bucket_list (sg_groupChildren g) gid)"
    "buckets_ok (sg_groupChildren g) \<Longrightarrow> buckets_ok (sg_groupChildren (removeGroup i g))"
    "sg_boundsCache (removeGroup i g) = omap_delete i (sg_boundsCache g)"
    "sg_boundsStale (removeGroup i g) = set_del i (sg_boundsStale g)"
proof -
  have drop: "sg_nodes (fold orphan is (g\<lparr>sg_groups := x\<rparr>)) = sg_nodes (fold orphan is g)" for "is" x
  proof -
    have "fold orphan is (h\<lparr>sg_groups := x\<rparr>) = (fold orphan is h)\<lparr>sg_groups := x\<rparr>" for h
    proof (induction "is" arbitrary: h)
      case (Cons j js)
      have "orphan j (h\<lparr>sg_groups := x\<rparr>) = (orphan j h)\<lparr>sg_groups := x\<rparr>"
        by (simp add: orphan_def node_of_def Let_def split: option.split)
      with Cons show ?case by simp
    qed simp
    then show ?thesis by simp
  qed
  note defs = removeGroup_def Let_def assms bucket_list_def
  show "sg_nodes (removeGroup i g) = sg_nodes (fold orphan (bucket_list (sg_groupChildren g) i) g)"
    "sg_edges (removeGroup i g) = sg_edges g" "sg_edgesByNode (removeGroup i g) = sg_edgesByNode g"
    "sg_layers (removeGroup i g) = sg_layers g" "sg_layerRank (removeGroup i g) = sg_layerRank g"
    "sg_byLayer (removeGroup i g) = sg_byLayer g" "sg_index (removeGroup i g) = sg_index g"
    "sg_bounds (removeGroup i g) = sg_bounds g"
    "bucket_list (sg_groupChildren (removeGroup i g)) gid
       = (if gid = i then [] else bucket_list (sg_groupChildren g) gid)"
    "sg_boundsCache (removeGroup i g) = omap_delete i (sg_boundsCache g)"
    "sg_boundsStale (removeGroup i g) = set_del i (sg_boundsStale g)"
    by (simp_all add: defs drop split: option.split)
  show "buckets_ok (sg_groupChildren g) \<Longrightarrow> buckets_ok (sg_groupChildren (removeGroup i g))"
    by (auto simp: defs buckets_ok_def split: option.split)
qed

lemma removeGroup_ok:
  assumes ok: "scene_ok g"
  shows "scene_ok (removeGroup i g)"
proof (cases "omap_has (sg_groups g) i")
  case False
  then show ?thesis using ok by (simp add: removeGroup_def)
next
  case True
  let ?h = "removeGroup i g" and ?is = "bucket_list (sg_groupChildren g) i"
  note W = removeGroup_writes [OF True]
  have N: "node_of ?h j = (if j \<in> set ?is then map_option no_group (node_of g j) else node_of g j)" for j
    using orphans_node_of [of ?is g j] by (simp add: node_of_def W)
  have mem: "j \<in> set (bucket_list (sg_groupChildren g) gid) \<longleftrightarrow> (\<exists>n. node_of g j = Some n \<and> n_groupId n = Some gid)" for gid j
    using ok by (simp add: scene_ok_def members_ok_def in_bucket_iff)
  have "ungrouped_ok ?h"
    using orphans_ungrouped [of g ?is] ok ungrouped_ok_cong [of ?h "fold orphan ?is g"]
    by (simp add: scene_ok_ungrouped W)
  moreover have "members_ok (node_of ?h) (sg_groupChildren ?h)"
    using ok unfolding members_ok_def in_bucket_iff W(9)
    by (auto simp: N mem scene_ok_def members_ok_def W(10))
  moreover have "cache_ok (node_of ?h) (sg_groupChildren ?h) (sg_boundsCache ?h) (sg_boundsStale ?h)"
  proof (rule cache_ok_frame)
    show "cache_ok (node_of g) (sg_groupChildren g) (sg_boundsCache g) (sg_boundsStale g)"
      using ok by (simp add: scene_ok_def)
    fix gid
    assume a: "gid \<notin> set (sg_boundsStale ?h)" "omap_get (sg_boundsCache ?h) gid \<noteq> None"
    then have "gid \<noteq> i" by (auto simp: W)
    moreover have "j \<notin> set ?is" if "j \<in> set (bucket_list (sg_groupChildren g) gid)" for j
      using that \<open>gid \<noteq> i\<close> by (auto simp: mem)
    ultimately show "gid \<notin> set (sg_boundsStale g) \<and> omap_get (sg_boundsCache ?h) gid = omap_get (sg_boundsCache g) gid
        \<and> bucket_list (sg_groupChildren ?h) gid = bucket_list (sg_groupChildren g) gid
        \<and> (\<forall>j\<in>set (bucket_list (sg_groupChildren g) gid). node_of ?h j = node_of g j)"
      using a by (auto simp: W N)
  qed
  ultimately show ?thesis by (simp add: scene_ok_ungrouped)
qed

lemma child_views_eq: "child_views g ids = views_of (node_of g) ids"
  by (simp add: child_views_def views_of_def)

text \<open>The bounds of a group are the union of its members, whether cached or computed.\<close>

lemma groupBounds_ok:
  assumes ok: "scene_ok g"
  shows "fst (groupBounds i g) = union_rect (views_of (node_of g) (bucket_list (sg_groupChildren g) i))"
    and "scene_ok (snd (groupBounds i g))"
proof -
  let ?u = "union_rect (views_of (node_of g) (bucket_list (sg_groupChildren g) i))"
  have cache: "cache_ok (node_of g) (sg_groupChildren g) (sg_boundsCache g) (sg_boundsStale g)"
    using ok by (simp add: scene_ok_def)
  have views: "child_views (g\<lparr>sg_boundsStale := s\<rparr>) xs = views_of (node_of g) xs" for s xs
    by (simp add: child_views_def views_of_def node_of_def)
  have "fst (groupBounds i g) = ?u \<and> scene_ok (snd (groupBounds i g))"
  proof (cases "if i \<in> set (sg_boundsStale g) then None else omap_get (sg_boundsCache g) i")
    case (Some r)
    then have "?u = Some r" using cache by (simp add: cache_ok_def split: if_splits)
    with Some ok show ?thesis by (simp add: groupBounds_def)
  next
    case None
    let ?cache = "case ?u of None \<Rightarrow> omap_delete i (sg_boundsCache g) | Some r \<Rightarrow> omap_set i r (sg_boundsCache g)"
    have eq: "groupBounds i g
        = (?u, g\<lparr>sg_boundsStale := set_del i (sg_boundsStale g), sg_boundsCache := ?cache\<rparr>)"
      using None by (simp add: groupBounds_def Let_def views bucket_list_def [symmetric] split: option.split)
    have "cache_ok (node_of g) (sg_groupChildren g) ?cache (set_del i (sg_boundsStale g))"
      using cache by (auto simp: cache_ok_def split: option.splits if_splits)
    moreover have "node_of (snd (groupBounds i g)) = node_of g" by (simp add: eq node_of_def fun_eq_iff)
    moreover have "ungrouped_ok (snd (groupBounds i g))"
      using ok ungrouped_ok_cong [of "snd (groupBounds i g)" g] by (simp add: eq scene_ok_ungrouped)
    ultimately show ?thesis using ok by (simp add: scene_ok_ungrouped) (simp add: eq)
  qed
  then show "fst (groupBounds i g) = ?u" "scene_ok (snd (groupBounds i g))" by auto
qed

subsection \<open>Layers\<close>

lemma compareNodes_le_same_layer:
  "n_layerId a = n_layerId b \<Longrightarrow> zless a b \<Longrightarrow> compareNodes g a b \<le> 0"
  using compareNodes_same_layer [of a b g] by simp

lemma setLayerRank_frame [simp]:
  "sg_nodes (setLayerRank ls g) = sg_nodes g" "sg_edges (setLayerRank ls g) = sg_edges g"
  "sg_byLayer (setLayerRank ls g) = sg_byLayer g" "sg_boundsStale (setLayerRank ls g) = sg_boundsStale g"
  "sg_edgesByNode (setLayerRank ls g) = sg_edgesByNode g" "sg_groupChildren (setLayerRank ls g) = sg_groupChildren g"
  "sg_boundsCache (setLayerRank ls g) = sg_boundsCache g" "sg_index (setLayerRank ls g) = sg_index g"
  "sg_bounds (setLayerRank ls g) = sg_bounds g" "sg_dirty (setLayerRank ls g) = sg_dirty g"
  "sg_layers (setLayerRank ls g) = ls"
  by (simp_all add: setLayerRank_def)

text \<open>All nodes of a layer list share their layer, so re-sorting it for a new layer order moves nothing.\<close>

lemma sort_layer_id:
  assumes ok: "order_ok (node_of g) B" and nodes: "sg_nodes h = sg_nodes g" and xs: "(l, xs) \<in> set B"
  shows "sort_layer h xs = xs"
proof -
  have get: "omap_get B l = Some xs"
    using ok xs by (auto simp: order_ok_def buckets_ok_def omap_inv_def omap_get_def)
  then have bl: "bucket_list B l = xs" by (simp add: bucket_list_def)
  have N: "node_of h = node_of g" by (simp add: node_of_def nodes fun_eq_iff)
  have mem: "\<exists>n. node_of g i = Some n \<and> n_layerId n = l" if "i \<in> set xs" for i
  proof -
    have "in_bucket B l i" using that by (simp add: in_bucket_iff bl)
    with ok show ?thesis by (simp add: order_ok_def)
  qed
  have "sorted_wrt (\<lambda>i j. zless (the (node_of g i)) (the (node_of g j))) xs"
    using ok bl by (auto simp: order_ok_def)
  then show ?thesis
    unfolding sort_layer_def N
  proof (intro js_sort_sorted, elim sorted_wrt_mono_rel [rotated])
    fix i j
    assume "i \<in> set xs" "j \<in> set xs" "zless (the (node_of g i)) (the (node_of g j))"
    then show "(case (node_of g i, node_of g j) of (Some na, Some nb) \<Rightarrow> compareNodes h na nb | _ \<Rightarrow> 0) \<le> 0"
      using mem [of i] mem [of j] by (auto simp: compareNodes_le_same_layer)
  qed
qed

lemma reindex_fold:
  "fold reindex_node ns g = g\<lparr>sg_index := fold (\<lambda>n ix. if isVisible g n
     then index_insert (n_id n) (node_rect n) ix else index_remove (n_id n) ix) ns (sg_index g)\<rparr>"
  by (induction ns arbitrary: g) (simp_all add: reindex_node_def)

lemma reindex_index:
  "grid_ok ix \<Longrightarrow> distinct (map n_id ns) \<Longrightarrow>
   (let ix' = fold (\<lambda>n ix. if V n then index_insert (n_id n) (node_rect n) ix else index_remove (n_id n) ix) ns ix
    in grid_ok ix' \<and> (\<forall>n \<in> set ns. index_rectOf ix' (n_id n)
            = (if V n then Some (sanitize_rect (node_rect n)) else None))
       \<and> (\<forall>i. i \<notin> n_id ` set ns \<longrightarrow> index_rectOf ix' i = index_rectOf ix i))"
proof (induction ns arbitrary: ix)
  case (Cons n ns)
  let ?ix = "if V n then index_insert (n_id n) (node_rect n) ix else index_remove (n_id n) ix"
  have "grid_ok ?ix" using Cons.prems by (simp add: grid.inv_add grid.inv_drop)
  from Cons.IH [OF this] Cons.prems show ?case
    by (auto simp: Let_def grid.rect_add grid.rect_drop image_iff)
qed simp

lemma reindexVisibility_ok:
  assumes idx: "\<exists>V. index_ok V (node_of g) (sg_index g)" and keyed: "keyed_by n_id (sg_nodes g)"
  shows "index_ok (isVisible g) (node_of g) (sg_index (reindexVisibility g))"
    and "bounds_ok (isVisible g) (sg_nodes g) (sg_bounds (reindexVisibility g))"
proof -
  let ?ns = "omap_values (sg_nodes g)" and ?V = "isVisible g"
  define ix where "ix = fold (\<lambda>n ix. if ?V n then index_insert (n_id n) (node_rect n) ix
      else index_remove (n_id n) ix) ?ns (sg_index g)"
  have vals: "n \<in> set ?ns \<longleftrightarrow> node_of g (n_id n) = Some n" for n
    using keyed by (auto simp: keyed_by_def omap_values_get node_of_def)
  have keys: "map n_id ?ns = omap_keys (sg_nodes g)"
    using keyed by (auto simp: keyed_by_def omap_values_def omap_keys_def omap_get_def omap_inv_def)
  then have d: "distinct (map n_id ?ns)" using keyed by (simp add: keyed_by_def omap_inv_def omap_keys_def)
  have "grid_ok (sg_index g)" using idx by (auto simp: index_ok_def)
  note R = reindex_index [OF this d, of ?V, unfolded Let_def, folded ix_def]
  have "index_rectOf ix i = (case node_of g i of None \<Rightarrow> None
      | Some n \<Rightarrow> if ?V n then Some (sanitize_rect (node_rect n)) else None)" for i
  proof (cases "node_of g i")
    case None
    then have "i \<notin> n_id ` set ?ns" using vals by auto
    then show ?thesis using None R idx by (auto simp: index_ok_def)
  next
    case (Some n)
    then have "n \<in> set ?ns" "n_id n = i"
      using keyed by (auto simp: vals keyed_by_def node_of_def)
    then show ?thesis using Some R by auto
  qed
  then have "index_ok ?V (node_of g) ix" using R by (simp add: index_ok_def)
  moreover have "sg_index (reindexVisibility g) = ix"
    by (simp add: reindexVisibility_def Let_def reindex_fold ix_def)
  ultimately show "index_ok ?V (node_of g) (sg_index (reindexVisibility g))" by simp
  have "sg_bounds (reindexVisibility g) = sg_bounds (recomputeBounds (g\<lparr>sg_index := ix\<rparr>))"
    by (simp add: reindexVisibility_def Let_def reindex_fold ix_def)
  then show "bounds_ok ?V (sg_nodes g) (sg_bounds (reindexVisibility g))"
    using recomputeBounds_ok [of "g\<lparr>sg_index := ix\<rparr>"] by simp
qed

lemma reindexVisibility_frame [simp]:
  "sg_nodes (reindexVisibility g) = sg_nodes g" "sg_edges (reindexVisibility g) = sg_edges g"
  "sg_layers (reindexVisibility g) = sg_layers g" "sg_layerRank (reindexVisibility g) = sg_layerRank g"
  "sg_byLayer (reindexVisibility g) = sg_byLayer g" "sg_groupChildren (reindexVisibility g) = sg_groupChildren g"
  "sg_edgesByNode (reindexVisibility g) = sg_edgesByNode g" "sg_boundsCache (reindexVisibility g) = sg_boundsCache g"
  by (simp_all add: reindexVisibility_def Let_def reindex_fold)

lemma set_fold_set_add [simp]: "set (fold set_add xs ys) = set xs \<union> set ys"
  by (induction xs arbitrary: ys) auto

lemma reindexVisibility_stale: "set (sg_boundsStale g) \<subseteq> set (sg_boundsStale (reindexVisibility g))"
  by (auto simp: reindexVisibility_def Let_def reindex_fold)

lemma setLayers_ok:
  assumes ok: "scene_ok g"
  shows "scene_ok (setLayers ls g)"
proof -
  let ?g1 = "setLayerRank ls g"
  have "map (\<lambda>(l, xs). (l, sort_layer ?g1 xs)) (sg_byLayer g) = sg_byLayer g"
    using ok sort_layer_id [of g "sg_byLayer g" ?g1] by (intro map_idI) (auto simp: scene_ok_def)
  then have eq: "setLayers ls g = reindexVisibility ?g1" by (simp add: setLayers_def Let_def setLayerRank_def)
  have N: "node_of ?g1 = node_of g" "node_of (reindexVisibility ?g1) = node_of g"
    by (simp_all add: node_of_def fun_eq_iff)
  have V: "isVisible (reindexVisibility ?g1) = isVisible ?g1" by (rule isVisible_cong) simp_all
  have "\<exists>V. index_ok V (node_of ?g1) (sg_index ?g1)" using ok by (auto simp: scene_ok_def N)
  moreover have "keyed_by n_id (sg_nodes ?g1)" using ok by (simp add: scene_ok_def)
  moreover have "cache_ok (node_of g) (sg_groupChildren g) (sg_boundsCache g) (sg_boundsStale (reindexVisibility ?g1))"
    by (rule cache_ok_stale [where S = "sg_boundsStale g"])
      (use ok reindexVisibility_stale [of ?g1] in \<open>auto simp: scene_ok_def\<close>)
  ultimately show ?thesis
    using ok reindexVisibility_ok [of ?g1] unfolding eq scene_ok_def N V by simp
qed

section \<open>Reachable scenes\<close>

lemma apply_scene_ok:
  "scene_ok g \<Longrightarrow> scene_ok (apply_scene p g)"
  "scene_ok g \<Longrightarrow> scene_ok (apply_scenes ps g)"
  by (induction p g and ps g rule: apply_scene_apply_scenes.induct)
    (simp_all add: upsertNode_ok removeNode_ok moveNodes_ok resizeNode_ok upsertEdge_ok removeEdge_ok
      upsertGroup_ok removeGroup_ok setLayers_ok)

text \<open>What a host does with a scene graph between two paints.\<close>

datatype scene_action = A_patch ScenePatch | A_groupBounds GroupId | A_clearDirty

fun run_action :: "scene_action \<Rightarrow> scene_graph \<Rightarrow> scene_graph" where
  "run_action (A_patch p) g = (case applyPatch p g of Inl _ \<Rightarrow> g | Inr g' \<Rightarrow> g')"
| "run_action (A_groupBounds i) g = snd (groupBounds i g)"
| "run_action A_clearDirty g = clearDirty g"

lemma clearDirty_ok: "scene_ok g \<Longrightarrow> scene_ok (clearDirty g)"
proof -
  assume "scene_ok g"
  moreover have "isVisible (clearDirty g) = isVisible g" "node_of (clearDirty g) = node_of g"
    by (simp_all add: clearDirty_def node_of_def fun_eq_iff)
  ultimately show ?thesis unfolding scene_ok_def by (simp add: clearDirty_def)
qed

lemma run_action_ok: "scene_ok g \<Longrightarrow> scene_ok (run_action a g)"
  by (cases a) (auto simp: applyPatch_def apply_scene_ok groupBounds_ok clearDirty_ok split: option.split)

lemma run_actions_ok: "scene_ok g \<Longrightarrow> scene_ok (fold run_action as g)"
  by (induction "as" arbitrary: g) (simp_all add: run_action_ok)

lemma addNodes_ok:
  "scene_ok g \<Longrightarrow> distinct (map n_id ns) \<Longrightarrow> (\<forall>n \<in> set ns. node_of g (n_id n) = None) \<Longrightarrow> scene_ok (fold addNode ns g)"
proof (induction ns arbitrary: g)
  case (Cons n ns)
  have "node_of (addNode n g) = (node_of g)(n_id n \<mapsto> n)"
    by (rule node_of_set) (simp add: addNode_writes)
  moreover have "n_id m \<noteq> n_id n" if "m \<in> set ns" for m using Cons.prems(2) that by (metis distinct.simps(2) image_eqI list.simps(9) set_map)
  ultimately show ?case using Cons by (simp add: addNode_ok)
qed simp

lemma addNodes_edges [simp]: "sg_edges (fold addNode ns g) = sg_edges g"
  by (induction ns arbitrary: g) (simp_all add: addNode_writes)

definition link_new :: "EdgeView \<Rightarrow> scene_graph \<Rightarrow> scene_graph" where
  "link_new e g = linkEdge e (g\<lparr>sg_edges := omap_set (ed_id e) e (sg_edges g)\<rparr>)"

lemma link_new_ok:
  assumes ok: "scene_ok g" and "omap_get (sg_edges g) (ed_id e) = None"
  shows "scene_ok (link_new e g)"
proof -
  have "incidence_ok ((omap_get (sg_edges g))(ed_id e \<mapsto> e)) (sg_edgesByNode (linkEdge e g))"
    using assms by (intro linkEdge_incidence) (auto simp: scene_ok_def)
  moreover have "omap_get (omap_set (ed_id e) e (sg_edges g)) = (omap_get (sg_edges g))(ed_id e \<mapsto> e)"
    by (simp add: fun_eq_iff)
  ultimately show ?thesis
    using ok by (intro edge_fields_ok [OF ok, of "omap_set (ed_id e) e (sg_edges g)"
          "sg_edgesByNode (linkEdge e g)" _ "sg_dirty g"])
      (auto simp: scene_ok_def keyed_by_set link_new_def linkEdge_def)
qed

lemma link_news_ok:
  "scene_ok g \<Longrightarrow> distinct (map ed_id es) \<Longrightarrow> (\<forall>e \<in> set es. omap_get (sg_edges g) (ed_id e) = None)
    \<Longrightarrow> scene_ok (fold link_new es g)"
proof (induction es arbitrary: g)
  case (Cons e es)
  have "sg_edges (link_new e g) = omap_set (ed_id e) e (sg_edges g)" by (simp add: link_new_def linkEdge_def)
  moreover have "ed_id m \<noteq> ed_id e" if "m \<in> set es" for m using Cons.prems(2) that by (metis distinct.simps(2) image_eqI list.simps(9) set_map)
  ultimately show ?case using Cons by (simp add: link_new_ok)
qed simp

lemma scene_ok_other:
  assumes "scene_ok g" "h = g\<lparr>sg_groups := gs, sg_dirty := d\<rparr>"
  shows "scene_ok h"
proof -
  have "isVisible h = isVisible g" "node_of h = node_of g" by (simp_all add: assms(2) node_of_def fun_eq_iff)
  with assms show ?thesis unfolding scene_ok_def by simp
qed

lemma createSceneGraph_ok:
  assumes "distinct (map n_id (snap_nodes snap))" "distinct (map ed_id (snap_edges snap))"
    and "\<forall>c. cellSize = Some c \<longrightarrow> 0 < c"
  shows "scene_ok (createSceneGraph snap cellSize)"
proof -
  let ?g0 = "setLayerRank (snap_layers snap) (empty_scene cellSize)"
  have "scene_ok ?g0"
    using assms(3) createGridIndex_ok [of cellSize]
    by (simp add: scene_ok_def empty_scene_def keyed_by_def order_ok_def incidence_ok_def members_ok_def
        index_ok_def bounds_ok_def cache_ok_def buckets_ok_def in_bucket_def node_of_def bucket_list_def
        omap_values_def index_rectOf_def createGridIndex_def)
  then have "scene_ok (fold addNode (snap_nodes snap) ?g0)"
    using assms(1) by (intro addNodes_ok) (auto simp: node_of_def empty_scene_def)
  then have ok: "scene_ok (fold link_new (snap_edges snap) (fold addNode (snap_nodes snap) ?g0))" (is "scene_ok ?g2")
    using assms(2) by (intro link_news_ok) (auto simp: empty_scene_def)
  have groups: "\<exists>gs'. fold (\<lambda>gr g. g\<lparr>sg_groups := omap_set (g_id gr) gr (sg_groups g)\<rparr>) gs h = h\<lparr>sg_groups := gs'\<rparr>"
    for gs and h :: scene_graph
  proof (induction gs arbitrary: h)
    case Nil
    show ?case by (rule exI [of _ "sg_groups h"]) simp
  next
    case (Cons gr gs)
    from Cons [of "h\<lparr>sg_groups := omap_set (g_id gr) gr (sg_groups h)\<rparr>"] show ?case by simp
  qed
  obtain gs' where "createSceneGraph snap cellSize
      = ?g2\<lparr>sg_groups := gs', sg_dirty := (sg_dirty ?g2)\<lparr>dt_full := True\<rparr>\<rparr>"
    using groups [of "snap_groups snap" ?g2]
    by (auto simp: createSceneGraph_def Let_def link_new_def [symmetric] cong: fold_cong)
  then show ?thesis by (rule scene_ok_other [OF ok])
qed

end
