(* ===== verification/CanvasGraphSpec.thy ===== *)
theory CanvasGraphSpec
  imports CanvasGraphInv
begin

text \<open>
  What the scene graph promises its clients, proved from the invariant: the queries, the bounds, the
  derived structures, atomic bulk patches and complete repaint marks. \<open>compareNodes\<close> is an
  interpretation of \<open>js_comparator\<close>.
\<close>

section \<open>What the queries answer\<close>

interpretation node_order: js_comparator "compareNodes g" for g
proof
  fix x y z :: NodeView
  show "compareNodes g x y < 0 \<longleftrightarrow> 0 < compareNodes g y x"
    by (auto simp: compareNodes_def Let_def)
  show "compareNodes g x y \<le> 0 \<Longrightarrow> compareNodes g y z \<le> 0 \<Longrightarrow> compareNodes g x z \<le> 0"
    by (auto simp: compareNodes_def Let_def split: if_splits)
qed

lemma compareNodes_zero: "compareNodes g a b = 0 \<Longrightarrow> n_id a = n_id b"
  by (auto simp: compareNodes_def Let_def split: if_splits)

definition visible_nodes :: "scene_graph \<Rightarrow> NodeView set" where
  "visible_nodes g = {n. node_of g (n_id n) = Some n \<and> isVisible g n}"

lemma set_visibleNodes:
  "scene_ok g \<Longrightarrow> set (visibleNodes g ids) = {n \<in> visible_nodes g. n_id n \<in> set ids}"
proof -
  assume ok: "scene_ok g"
  have "n \<in> set (visibleNodes g ids) \<longleftrightarrow> (\<exists>i \<in> set ids. node_of g i = Some n \<and> isVisible g n)" for n
    by (induction ids) (auto simp: visibleNodes_def split: option.split)
  then show ?thesis using node_of_keyed [OF ok] by (auto simp: visible_nodes_def)
qed

lemma ids_visibleNodes:
  "scene_ok g \<Longrightarrow> map n_id (visibleNodes g ids)
     = filter (\<lambda>i. case node_of g i of None \<Rightarrow> False | Some n \<Rightarrow> isVisible g n) ids"
  by (induction ids) (auto simp: visibleNodes_def dest: node_of_keyed split: option.splits)

lemma sorted_nodes_strict:
  assumes "distinct (map n_id ns)"
  shows "sorted_wrt (\<lambda>a b. compareNodes g a b < 0) (js_sort (compareNodes g) ns)"
proof -
  let ?s = "js_sort (compareNodes g) ns"
  have "mset (map n_id ?s) = mset (map n_id ns)" by simp
  then have "distinct (map n_id ?s)" using assms mset_eq_imp_distinct_iff by blast
  then have "sorted_wrt (\<lambda>a b. n_id a \<noteq> n_id b) ?s"
    by (simp add: distinct_conv_nth sorted_wrt_iff_nth_less)
  with node_order.sorted_js_sort [of g ns] show ?thesis
    unfolding sorted_wrt_iff_nth_less using compareNodes_zero [of g] by (metis order_le_less)
qed

lemma rect_of_visible:
  "scene_ok g \<Longrightarrow> index_rectOf (sg_index g) i = Some r
     \<longleftrightarrow> (\<exists>n \<in> visible_nodes g. n_id n = i \<and> r = sanitize_rect (node_rect n))"
proof -
  assume ok: "scene_ok g"
  then have "index_rectOf (sg_index g) i = (case node_of g i of None \<Rightarrow> None
      | Some n \<Rightarrow> if isVisible g n then Some (sanitize_rect (node_rect n)) else None)"
    by (simp add: scene_ok_def index_ok_def)
  with node_of_keyed [OF ok, of i] show ?thesis by (cases "node_of g i") (auto simp: visible_nodes_def)
qed

lemma found_visible:
  assumes ok: "scene_ok g" and q: "0 \<le> rw q" "0 \<le> rh q"
  shows "set (visibleNodes g (queryRect q (sg_index g)))
      = {n \<in> visible_nodes g. rectsIntersect (sanitize_rect (node_rect n)) q}"
    and "distinct (map n_id (visibleNodes g (queryRect q (sg_index g))))"
proof -
  have grid: "grid_ok (sg_index g)" using ok by (simp add: scene_ok_def index_ok_def)
  have same: "m = n" if "m \<in> visible_nodes g" "n \<in> visible_nodes g" "n_id m = n_id n" for m n
    using that by (auto simp: visible_nodes_def)
  have "set (queryRect q (sg_index g)) = {i. \<exists>r. index_rectOf (sg_index g) i = Some r \<and> rectsIntersect r q}"
    by (rule grid.find_exact [OF grid q])
  then show "set (visibleNodes g (queryRect q (sg_index g)))
      = {n \<in> visible_nodes g. rectsIntersect (sanitize_rect (node_rect n)) q}"
  proof -
    assume Q: "set (queryRect q (sg_index g))
      = {i. \<exists>r. index_rectOf (sg_index g) i = Some r \<and> rectsIntersect r q}"
    have "n_id n \<in> set (queryRect q (sg_index g)) \<longleftrightarrow> rectsIntersect (sanitize_rect (node_rect n)) q"
      if n: "n \<in> visible_nodes g" for n
    proof
      assume "n_id n \<in> set (queryRect q (sg_index g))"
      then obtain m where "m \<in> visible_nodes g" "n_id m = n_id n"
        "rectsIntersect (sanitize_rect (node_rect m)) q"
        unfolding Q mem_Collect_eq rect_of_visible [OF ok] by blast
      with same [OF _ n] show "rectsIntersect (sanitize_rect (node_rect n)) q" by metis
    next
      assume "rectsIntersect (sanitize_rect (node_rect n)) q"
      with n show "n_id n \<in> set (queryRect q (sg_index g))"
        unfolding Q mem_Collect_eq rect_of_visible [OF ok] by blast
    qed
    then show ?thesis unfolding set_visibleNodes [OF ok] by blast
  qed
  show "distinct (map n_id (visibleNodes g (queryRect q (sg_index g))))"
    using queryRect_exact(2) [OF grid q] by (simp add: ids_visibleNodes [OF ok])
qed

text \<open>The loop of \<open>nodeAt\<close> keeps the topmost hit.\<close>

definition topmost :: "scene_graph \<Rightarrow> NodeView set \<Rightarrow> NodeView option \<Rightarrow> bool" where
  "topmost g S best \<longleftrightarrow>
     (case best of None \<Rightarrow> S = {} | Some b \<Rightarrow> b \<in> S \<and> (\<forall>n \<in> S. n = b \<or> compareNodes g n b < 0))"

definition node_hit :: "scene_graph \<Rightarrow> Vec2 \<Rightarrow> NodeView \<Rightarrow> bool" where
  "node_hit g p n \<longleftrightarrow> n \<in> visible_nodes g \<and> rectContainsPoint (node_rect n) p"

lemma topmost_insert:
  assumes "topmost g S (Some b)" "\<And>m. m \<in> S \<Longrightarrow> n_id m \<noteq> n_id n"
  shows "topmost g (insert n S) (if compareNodes g b n < 0 then Some n else Some b)"
proof (cases "compareNodes g b n < 0")
  case True
  have "compareNodes g m n < 0" if "m \<in> S" for m
  proof -
    have "compareNodes g m n \<le> 0"
      using that assms(1) True node_order.le_trans [of g m b n] by (auto simp: topmost_def)
    moreover have "compareNodes g m n \<noteq> 0" using compareNodes_zero [of g m n] assms(2) [OF that] by blast
    ultimately show ?thesis by simp
  qed
  with True show ?thesis by (simp add: topmost_def)
next
  case False
  have "b \<in> S" using assms(1) by (simp add: topmost_def)
  then have "compareNodes g b n \<noteq> 0" using compareNodes_zero [of g b n] assms(2) by blast
  with False have "compareNodes g n b < 0" using node_order.sign_swap [of g n b] by simp
  with False assms(1) show ?thesis by (simp add: topmost_def)
qed

lemma better_hit_topmost:
  assumes ok: "scene_ok g" and S: "topmost g S best" and new: "\<And>m. m \<in> S \<Longrightarrow> n_id m \<noteq> i"
  shows "topmost g (S \<union> {n. node_hit g p n \<and> n_id n = i}) (better_hit g p i best)"
proof (cases "\<exists>n. node_hit g p n \<and> n_id n = i")
  case False
  then have "S \<union> {n. node_hit g p n \<and> n_id n = i} = S" by blast
  moreover have "better_hit g p i best = best"
    using False node_of_keyed [OF ok, of i]
    by (auto simp: better_hit_def node_hit_def visible_nodes_def split: option.split)
  ultimately show ?thesis using S by (simp only:)
next
  case True
  then obtain n where n: "node_hit g p n" "n_id n = i" by blast
  then have one: "{n. node_hit g p n \<and> n_id n = i} = {n}" by (auto simp: node_hit_def visible_nodes_def)
  have step: "better_hit g p i best
      = (case best of None \<Rightarrow> Some n | Some b \<Rightarrow> if compareNodes g b n < 0 then Some n else best)"
    using n by (simp add: better_hit_def node_hit_def visible_nodes_def)
  show ?thesis
  proof (cases best)
    case None
    then have "better_hit g p i best = Some n" using step by simp
    moreover have "S = {}" using S None by (simp add: topmost_def)
    ultimately show ?thesis by (simp only: one) (simp add: topmost_def)
  next
    case (Some b)
    then have "better_hit g p i best = (if compareNodes g b n < 0 then Some n else Some b)" using step by simp
    moreover have "topmost g (insert n S) (if compareNodes g b n < 0 then Some n else Some b)"
      using topmost_insert [of g S b n] S new n Some by simp
    ultimately show ?thesis by (simp only: one Un_insert_right Un_empty_right)
  qed
qed

lemma nodeAt_fold:
  assumes ok: "scene_ok g"
  shows "distinct ids \<Longrightarrow> topmost g S best \<Longrightarrow> (\<forall>m \<in> S. n_id m \<notin> set ids)
    \<Longrightarrow> topmost g (S \<union> {n. node_hit g p n \<and> n_id n \<in> set ids}) (fold (better_hit g p) ids best)"
proof (induction ids arbitrary: S best)
  case (Cons i ids)
  let ?S = "S \<union> {n. node_hit g p n \<and> n_id n = i}"
  have "topmost g ?S (better_hit g p i best)"
    using Cons.prems by (intro better_hit_topmost [OF ok]) auto
  moreover have "\<forall>m \<in> ?S. n_id m \<notin> set ids" using Cons.prems by auto
  ultimately have "topmost g (?S \<union> {n. node_hit g p n \<and> n_id n \<in> set ids})
      (fold (better_hit g p) ids (better_hit g p i best))"
    using Cons.prems(1) by (intro Cons.IH) auto
  moreover have "?S \<union> {n. node_hit g p n \<and> n_id n \<in> set ids}
      = S \<union> {n. node_hit g p n \<and> n_id n \<in> set (i # ids)}" by auto
  ultimately show ?case by simp
qed simp

lemma nodeAt_topmost:
  assumes ok: "scene_ok g"
  shows "topmost g {n \<in> visible_nodes g. rectContainsPoint (sanitize_rect (node_rect n)) p
                                        \<and> rectContainsPoint (node_rect n) p} (nodeAt g p)"
proof -
  let ?ids = "queryPoint p (sg_index g)"
  have grid: "grid_ok (sg_index g)" using ok by (simp add: scene_ok_def index_ok_def)
  have "topmost g {} None" by (simp add: topmost_def)
  from nodeAt_fold [OF ok queryPoint_exact(2) [OF grid, of p] this, of p]
  have "topmost g {n. node_hit g p n \<and> n_id n \<in> set ?ids} (nodeAt g p)" by (simp add: nodeAt_def)
  moreover have "n_id n \<in> set ?ids \<longleftrightarrow> rectContainsPoint (sanitize_rect (node_rect n)) p"
    if "n \<in> visible_nodes g" for n
    using that unfolding queryPoint_exact(1) [OF grid] rect_of_visible [OF ok]
    by (auto simp: visible_nodes_def)
  then have "{n. node_hit g p n \<and> n_id n \<in> set ?ids} = {n \<in> visible_nodes g.
      rectContainsPoint (sanitize_rect (node_rect n)) p \<and> rectContainsPoint (node_rect n) p}"
    by (auto simp: node_hit_def)
  ultimately show ?thesis by simp
qed

section \<open>Bounds\<close>

lemma visible_rects_set:
  "scene_ok g \<Longrightarrow> set (visible_rects g) = node_rect ` visible_nodes g"
  by (auto simp: visible_rects_def visible_nodes_def scene_ok_def keyed_by_def omap_values_get node_of_def)

definition box_of :: "Rect set \<Rightarrow> Rect" where
  "box_of R =
     (let x0 = Min (rx ` R); y0 = Min (ry ` R);
          x1 = Max ((\<lambda>r. rx r + rw r) ` R); y1 = Max ((\<lambda>r. ry r + rh r) ` R)
      in \<lparr>rx = x0, ry = y0, rw = x1 - x0, rh = y1 - y0\<rparr>)"

lemma sceneBounds_box:
  assumes ok: "scene_ok g"
  shows "sceneBounds g = (if visible_nodes g = {} then \<lparr>rx = 0, ry = 0, rw = 0, rh = 0\<rparr>
                          else box_of (node_rect ` visible_nodes g))"
proof -
  define M where "M = mset (visible_rects g)"
  have "fits_bounds M (sg_bounds g)"
    using ok by (simp add: M_def scene_ok_def bounds_ok_def visible_rects_mset)
  moreover have "set_mset M = node_rect ` visible_nodes g" using visible_rects_set [OF ok] by (simp add: M_def)
  moreover have "M = {#} \<longleftrightarrow> visible_nodes g = {}" using calculation(2) by (metis image_is_empty set_mset_eq_empty_iff)
  ultimately show ?thesis
    by (auto simp: fits_bounds_def sceneBounds_def Let_def box_of_def no_bounds_def image_image)
qed

lemma fold_min_Min: "fold (\<lambda>m a. min a (f m)) ns (a::real) = Min (insert a (f ` set ns))"
proof (induction ns arbitrary: a)
  case (Cons n ns)
  then show ?case by (cases "ns = []") (simp_all add: min.assoc)
qed simp

lemma fold_max_Max: "fold (\<lambda>m a. max a (f m)) ns (a::real) = Max (insert a (f ` set ns))"
proof (induction ns arbitrary: a)
  case (Cons n ns)
  then show ?case by (cases "ns = []") (simp_all add: max.assoc)
qed simp

lemma union_rect_box:
  "union_rect ns = (if ns = [] then None else Some (box_of (node_rect ` set ns)))"
  by (cases ns) (simp_all add: box_of_def Let_def fold_min_Min fold_max_Max image_image node_rect_def)

section \<open>Repainting\<close>

text \<open>
  What a frame shows of an entity: the node, its rectangle, and for an edge its view and the
  rectangles it hangs from. A later state is covered when everything that looks different has been
  marked, with the rectangles of before and after; marks are only ever added between two clears.
\<close>

definition rect_at :: "scene_graph \<Rightarrow> NodeId \<Rightarrow> Rect option" where
  "rect_at g i = map_option node_rect (node_of g i)"

definition edge_look :: "scene_graph \<Rightarrow> EdgeId \<Rightarrow> (EdgeView \<times> Rect option \<times> Rect option) option" where
  "edge_look g e = map_option (\<lambda>d. (d, rect_at g (ed_from d), rect_at g (ed_to d))) (omap_get (sg_edges g) e)"

definition marks_grow :: "scene_graph \<Rightarrow> scene_graph \<Rightarrow> bool" where
  "marks_grow g h \<longleftrightarrow>
     set (dt_nodes (sg_dirty g)) \<subseteq> set (dt_nodes (sg_dirty h))
     \<and> set (dt_edges (sg_dirty g)) \<subseteq> set (dt_edges (sg_dirty h))
     \<and> set (dt_rects (sg_dirty g)) \<subseteq> set (dt_rects (sg_dirty h))
     \<and> (dt_full (sg_dirty g) \<longrightarrow> dt_full (sg_dirty h))"

definition repaint_covers :: "scene_graph \<Rightarrow> scene_graph \<Rightarrow> bool" where
  "repaint_covers g h \<longleftrightarrow>
     (\<forall>i. node_of h i \<noteq> node_of g i \<longrightarrow> i \<in> set (dt_nodes (sg_dirty h)))
     \<and> (\<forall>i r. rect_at h i \<noteq> rect_at g i \<longrightarrow> rect_at g i = Some r \<or> rect_at h i = Some r
           \<longrightarrow> r \<in> set (dt_rects (sg_dirty h)))
     \<and> (\<forall>e. edge_look h e \<noteq> edge_look g e \<longrightarrow> e \<in> set (dt_edges (sg_dirty h)))
     \<and> (sg_layers h \<noteq> sg_layers g \<longrightarrow> dt_full (sg_dirty h))"

definition repaints :: "scene_graph \<Rightarrow> scene_graph \<Rightarrow> bool" where
  "repaints g h \<longleftrightarrow> marks_grow g h \<and> repaint_covers g h"

lemma repaints_refl [simp]: "repaints g g"
  by (simp add: repaints_def marks_grow_def repaint_covers_def)

lemma repaints_trans: "repaints g h \<Longrightarrow> repaints h k \<Longrightarrow> repaints g k"
  unfolding repaints_def marks_grow_def repaint_covers_def
  by (intro conjI allI impI) (metis subset_iff)+

lemma markNode_dirty:
  "sg_dirty (markNode n g) =
     (let d = sg_dirty g in d\<lparr>dt_nodes := set_add (n_id n) (dt_nodes d), dt_rects := dt_rects d @ [node_rect n],
        dt_edges := fold set_add (incident g (n_id n)) (dt_edges d)\<rparr>)"
  by (simp add: markNode_def Let_def)

lemma markNode_dirty_cong:
  "sg_dirty h = sg_dirty g \<Longrightarrow> sg_edgesByNode h = sg_edgesByNode g
    \<Longrightarrow> sg_dirty (markNode n h) = sg_dirty (markNode n g)"
  unfolding markNode_dirty incident_def by simp

lemma addNode_dirty: "sg_dirty (addNode n g) = sg_dirty (markNode n g)"
  unfolding addNode_def Let_def by (rule markNode_dirty_cong; simp split: option.split)

lemma dropNode_dirty: "sg_dirty (dropNode n g) = sg_dirty (markNode n g)"
  unfolding dropNode_def Let_def by (rule markNode_dirty_cong; simp split: option.split)

lemma replaceGeometry_dirty:
  "sg_dirty (replaceGeometry prev next g) = sg_dirty (markNode next (markNode prev g))"
  unfolding replaceGeometry_def Let_def by (rule markNode_dirty_cong; simp)

lemma incident_iff:
  "scene_ok g \<Longrightarrow> e \<in> set (incident g i)
     \<longleftrightarrow> (\<exists>d. omap_get (sg_edges g) e = Some d \<and> (ed_from d = i \<or> ed_to d = i))"
  by (simp add: scene_ok_def incidence_ok_def incident_def [folded bucket_list_def] in_bucket_iff)

text \<open>A change of one node, with its edges untouched, is covered by marking it.\<close>

lemma node_change_repaints:
  assumes ok: "scene_ok g" and edges: "sg_edges h = sg_edges g" "sg_layers h = sg_layers g"
    and nodes: "\<And>j. j \<noteq> i \<Longrightarrow> node_of h j = node_of g j"
    and marks: "marks_grow g h" "i \<in> set (dt_nodes (sg_dirty h))"
      "set (incident g i) \<subseteq> set (dt_edges (sg_dirty h))"
    and rects: "\<And>n. node_of g i = Some n \<or> node_of h i = Some n \<Longrightarrow> node_rect n \<in> set (dt_rects (sg_dirty h))"
  shows "repaints g h"
proof -
  have rect: "rect_at h j = rect_at g j" if "j \<noteq> i" for j using nodes that by (simp add: rect_at_def)
  have "e \<in> set (dt_edges (sg_dirty h))" if "edge_look h e \<noteq> edge_look g e" for e
  proof -
    from that obtain d where d: "omap_get (sg_edges g) e = Some d"
      "rect_at h (ed_from d) \<noteq> rect_at g (ed_from d) \<or> rect_at h (ed_to d) \<noteq> rect_at g (ed_to d)"
      by (cases "omap_get (sg_edges g) e") (auto simp: edge_look_def edges)
    with rect have "ed_from d = i \<or> ed_to d = i" by metis
    with d(1) show ?thesis using marks(3) incident_iff [OF ok, of e i] by auto
  qed
  moreover have "r \<in> set (dt_rects (sg_dirty h))"
    if "rect_at h j \<noteq> rect_at g j" "rect_at g j = Some r \<or> rect_at h j = Some r" for j r
    using that rect [of j] rects by (cases "j = i") (auto simp: rect_at_def)
  moreover have "j = i" if "node_of h j \<noteq> node_of g j" for j using nodes that by blast
  ultimately show ?thesis
    using marks(1,2) edges unfolding repaints_def repaint_covers_def by blast
qed

lemma addNode_repaints:
  assumes "scene_ok g" "node_of g (n_id n) = None"
  shows "repaints g (addNode n g)"
proof -
  have "node_of (addNode n g) = (node_of g)(n_id n \<mapsto> n)" by (rule node_of_set) (simp add: addNode_writes)
  with assms show ?thesis
    by (intro node_change_repaints [where i = "n_id n"])
      (auto simp: addNode_writes addNode_dirty markNode_dirty marks_grow_def Let_def)
qed

lemma dropNode_repaints:
  assumes "scene_ok g" "node_of g (n_id n) = Some n"
  shows "repaints g (dropNode n g)"
proof -
  have "node_of (dropNode n g) = (node_of g)(n_id n := None)" by (rule node_of_delete) (simp add: dropNode_writes)
  with assms show ?thesis
    by (intro node_change_repaints [where i = "n_id n"])
      (auto simp: dropNode_writes dropNode_dirty markNode_dirty marks_grow_def Let_def)
qed

lemma replaceGeometry_repaints:
  assumes ok: "scene_ok g" and old: "node_of g (n_id prev) = Some prev" and same: "same_place next prev"
  shows "repaints g (replaceGeometry prev next g)"
proof -
  have ids: "n_id next = n_id prev" using same by (simp add: same_place_def)
  note W = replaceGeometry_writes [OF same_place_visible [OF same]]
  have "node_of (replaceGeometry prev next g) = (node_of g)(n_id prev \<mapsto> next)"
    using node_of_set [OF W(1)] by (simp add: ids)
  with ok old show ?thesis
    by (intro node_change_repaints [where i = "n_id prev"])
      (auto simp: W replaceGeometry_dirty markNode_dirty marks_grow_def Let_def ids)
qed

text \<open>A change of one edge is covered by marking it.\<close>

lemma edge_change_repaints:
  assumes "sg_nodes h = sg_nodes g" "sg_layers h = sg_layers g"
    and "\<And>j. j \<noteq> e \<Longrightarrow> omap_get (sg_edges h) j = omap_get (sg_edges g) j"
    and "sg_dirty h = (sg_dirty g)\<lparr>dt_edges := set_add e (dt_edges (sg_dirty g))\<rparr>"
  shows "repaints g h"
proof -
  have "node_of h = node_of g" using assms(1) by (simp add: node_of_def fun_eq_iff)
  then have "rect_at h = rect_at g" by (simp add: rect_at_def fun_eq_iff)
  then have "edge_look h j = edge_look g j" if "j \<noteq> e" for j
    using assms(3) [OF that] by (simp add: edge_look_def)
  with \<open>node_of h = node_of g\<close> \<open>rect_at h = rect_at g\<close> assms(2,4) show ?thesis
    by (auto simp: repaints_def marks_grow_def repaint_covers_def)
qed

lemma removeEdge_repaints: "repaints g (removeEdge i g)"
proof (cases "omap_get (sg_edges g) i")
  case (Some e)
  then show ?thesis
    by (intro edge_change_repaints [where e = i]) (simp_all add: removeEdge_def unlinkEdge_def mark_edge_def)
qed (simp add: removeEdge_def)

lemma upsertEdge_repaints: "repaints g (upsertEdge e g)"
  by (rule edge_change_repaints [where e = "ed_id e"])
    (simp_all add: upsertEdge_def Let_def linkEdge_def unlinkEdge_def mark_edge_def split: option.split)

lemma removeEdges_repaints: "repaints g (fold removeEdge is g)"
proof (induction "is" arbitrary: g)
  case (Cons i "is")
  from repaints_trans [OF removeEdge_repaints Cons] show ?case by simp
qed simp

lemma removeNode_repaints: "scene_ok g \<Longrightarrow> repaints g (removeNode i g)"
proof (cases "node_of g i")
  case (Some n)
  assume ok: "scene_ok g"
  let ?h = "fold removeEdge (incident g i) g"
  have "scene_ok ?h" "node_of ?h = node_of g" using removeEdges_ok [OF ok] by auto
  then have "repaints ?h (dropNode n ?h)" using Some node_of_keyed [OF ok Some] by (simp add: dropNode_repaints)
  with Some show ?thesis using repaints_trans [OF removeEdges_repaints] by (simp add: removeNode_def)
qed (simp add: removeNode_def)

lemma upsertNode_repaints: "scene_ok g \<Longrightarrow> repaints g (upsertNode n g)"
proof (cases "node_of g (n_id n)")
  case None
  then show "scene_ok g \<Longrightarrow> ?thesis" by (simp add: upsertNode_def addNode_repaints)
next
  case (Some old)
  assume ok: "scene_ok g"
  have id: "n_id old = n_id n" using node_of_keyed [OF ok Some] .
  have "node_of (dropNode old g) = (node_of g)(n_id old := None)"
    by (rule node_of_delete) (simp add: dropNode_writes)
  then have "repaints (dropNode old g) (addNode n (dropNode old g))"
    using dropNode_ok [OF ok, of old] Some id by (simp add: addNode_repaints)
  then show ?thesis
    using repaints_trans [OF dropNode_repaints [OF ok, of old]] Some id by (simp add: upsertNode_def)
qed

lemma moveNode_repaints: "scene_ok g \<Longrightarrow> repaints g (moveNode m g)"
  using node_of_keyed [of g "mv_id m"]
  by (auto simp: moveNode_def same_place_def split: option.split intro!: replaceGeometry_repaints)

lemma moveNodes_repaints: "scene_ok g \<Longrightarrow> repaints g (fold moveNode ms g)"
proof (induction ms arbitrary: g)
  case (Cons m ms)
  from repaints_trans [OF moveNode_repaints [OF Cons.prems] Cons.IH [OF moveNode_ok [OF Cons.prems]]]
  show ?case by simp
qed simp

lemma resizeNode_repaints: "scene_ok g \<Longrightarrow> repaints g (resizeNode i w h x y g)"
  using node_of_keyed [of g i]
  by (auto simp: resizeNode_def same_place_def split: option.split intro!: replaceGeometry_repaints)

lemma same_entities_repaints:
  assumes "sg_nodes h = sg_nodes g" "sg_edges h = sg_edges g" "marks_grow g h"
    and "sg_layers h \<noteq> sg_layers g \<Longrightarrow> dt_full (sg_dirty h)"
  shows "repaints g h"
proof -
  have "node_of h = node_of g" using assms(1) by (simp add: node_of_def fun_eq_iff)
  moreover from this have "edge_look h = edge_look g"
    using assms(2) by (simp add: edge_look_def rect_at_def fun_eq_iff cong: option.map_cong)
  ultimately show ?thesis using assms(3,4) by (auto simp: repaints_def repaint_covers_def rect_at_def)
qed

lemma setLayers_repaints: "repaints g (setLayers ls g)"
  by (rule same_entities_repaints)
    (simp_all add: setLayers_def Let_def reindexVisibility_def reindex_fold marks_grow_def)

lemma upsertGroup_repaints: "repaints g (upsertGroup gr g)"
  by (rule same_entities_repaints) (simp_all add: upsertGroup_def marks_grow_def)

lemma orphans_marks:
  "marks_grow g (fold orphan is g) \<and> set is \<subseteq> set (dt_nodes (sg_dirty (fold orphan is g)))"
proof (induction "is" arbitrary: g)
  case (Cons i "is")
  have "marks_grow g (orphan i g)" "i \<in> set (dt_nodes (sg_dirty (orphan i g)))"
    by (auto simp: marks_grow_def orphan_def Let_def split: option.split)
  with Cons [of "orphan i g"] show ?case by (auto simp: marks_grow_def)
qed (simp add: marks_grow_def)

lemma removeGroup_repaints:
  assumes ok: "scene_ok g"
  shows "repaints g (removeGroup i g)"
proof (cases "omap_has (sg_groups g) i")
  case False
  then show ?thesis by (simp add: removeGroup_def)
next
  case True
  let ?h = "removeGroup i g" and ?is = "bucket_list (sg_groupChildren g) i"
  let ?g = "g\<lparr>sg_groups := omap_delete i (sg_groups g)\<rparr>"
  have N: "node_of ?h j = (if j \<in> set ?is then map_option no_group (node_of g j) else node_of g j)" for j
    using orphans_node_of [of ?is g j] by (simp add: node_of_def removeGroup_writes [OF True])
  have D: "sg_dirty ?h = sg_dirty (fold orphan ?is ?g)"
    using True by (simp add: removeGroup_def Let_def bucket_list_def split: option.split)
  have M: "marks_grow g ?h" "set ?is \<subseteq> set (dt_nodes (sg_dirty ?h))"
    using orphans_marks [of ?g ?is] by (simp_all add: marks_grow_def D)
  have R: "rect_at ?h = rect_at g" by (auto simp: rect_at_def N fun_eq_iff option.map_comp o_def)
  then have "edge_look ?h = edge_look g"
    by (simp add: edge_look_def fun_eq_iff removeGroup_writes(2) [OF True] cong: option.map_cong)
  moreover have "j \<in> set ?is" if "node_of ?h j \<noteq> node_of g j" for j using that N [of j] by presburger
  ultimately show ?thesis
    using M R removeGroup_writes(4) [OF True] unfolding repaints_def repaint_covers_def by auto
qed

lemma apply_scene_repaints:
  "scene_ok g \<Longrightarrow> repaints g (apply_scene p g)"
  "scene_ok g \<Longrightarrow> repaints g (apply_scenes ps g)"
proof (induction p g and ps g rule: apply_scene_apply_scenes.induct)
  case (12 p ps g)
  from repaints_trans [OF "12.IH"(1) [OF "12.prems"] "12.IH"(2) [OF apply_scene_ok(1) [OF "12.prems"]]]
  show ?case by simp
qed (simp_all add: upsertNode_repaints removeNode_repaints moveNodes_repaints resizeNode_repaints
    upsertEdge_repaints removeEdge_repaints upsertGroup_repaints removeGroup_repaints setLayers_repaints)

lemma in_views_of: "n \<in> set (views_of N ids) \<longleftrightarrow> (\<exists>i \<in> set ids. N i = Some n)"
  by (induction ids) (auto simp: views_of_def split: option.split)

section \<open>Theorems\<close>

text \<open>Entity ids are unique in a snapshot, and the cell size of the index, when given, is positive.\<close>

definition snapshot_ok :: "SceneSnapshot \<Rightarrow> real option \<Rightarrow> bool" where
  "snapshot_ok snap cellSize \<longleftrightarrow>
     distinct (map n_id (snap_nodes snap)) \<and> distinct (map ed_id (snap_edges snap))
     \<and> (case cellSize of None \<Rightarrow> True | Some c \<Rightarrow> 0 < c)"

lemma scene_reachable_ok:
  "snapshot_ok snap cellSize \<Longrightarrow> scene_ok (fold run_action as (createSceneGraph snap cellSize))"
  by (intro run_actions_ok createSceneGraph_ok) (auto simp: snapshot_ok_def split: option.splits)

text \<open>C4. The derived structures never drift from the entities: after any history of patches
  (rejected ones included), bounds queries and clears, each layer list holds exactly the nodes of its
  layer in strict render order, the incidence sets hold exactly the edges at a node, and the
  membership sets hold exactly the nodes that name the group.\<close>

theorem scene_graph_derived:
  assumes "snapshot_ok snap cellSize"
  shows "let g = fold run_action as (createSceneGraph snap cellSize)
         in (\<forall>l. set (layer_list g l) = {i. \<exists>n. node_of g i = Some n \<and> n_layerId n = l}
               \<and> sorted_wrt (\<lambda>i j. compareNodes g (the (node_of g i)) (the (node_of g j)) < 0) (layer_list g l))
            \<and> (\<forall>i. set (incident g i) = {e. \<exists>d. omap_get (sg_edges g) e = Some d \<and> (ed_from d = i \<or> ed_to d = i)})
            \<and> (\<forall>gid i. i \<in> set (bucket_list (sg_groupChildren g) gid)
                 \<longleftrightarrow> (\<exists>n. node_of g i = Some n \<and> n_groupId n = Some gid))"
proof -
  define g where "g = fold run_action as (createSceneGraph snap cellSize)"
  have ok: "scene_ok g" unfolding g_def by (rule scene_reachable_ok [OF assms])
  have list: "layer_list g l = bucket_list (sg_byLayer g) l" for l
    by (simp add: layer_list_def bucket_list_def)
  have mem: "i \<in> set (layer_list g l) \<longleftrightarrow> (\<exists>n. node_of g i = Some n \<and> n_layerId n = l)" for i l
    using ok by (simp add: scene_ok_def order_ok_def in_bucket_iff list)
  have "sorted_wrt (\<lambda>i j. compareNodes g (the (node_of g i)) (the (node_of g j)) < 0) (layer_list g l)" for l
  proof (rule sorted_wrt_mono_rel)
    show "sorted_wrt (\<lambda>i j. zless (the (node_of g i)) (the (node_of g j))) (layer_list g l)"
      using ok by (simp add: scene_ok_def order_ok_def list)
    show "compareNodes g (the (node_of g i)) (the (node_of g j)) < 0"
      if "i \<in> set (layer_list g l)" "j \<in> set (layer_list g l)"
        "zless (the (node_of g i)) (the (node_of g j))" for i j
      using that unfolding mem by (auto simp: compareNodes_same_layer)
  qed
  then show ?thesis
    using mem ok incident_iff [OF ok]
    by (auto simp: g_def [symmetric] scene_ok_def members_ok_def in_bucket_iff)
qed

definition sample_scene_node :: "NodeId \<Rightarrow> real \<Rightarrow> real \<Rightarrow> NodeView" where
  "sample_scene_node i x z =
     \<lparr>n_id = i, n_kind = ''note'', n_x = x, n_y = 0, n_w = 100, n_h = 50, n_z = z, n_layerId = ''l'',
      n_groupId = Some ''g'', n_locked = False, n_hidden = False,
      n_glyph = \<lparr>gl_accent = \<lparr>col_r = 0, col_g = 0, col_b = 0, col_a = 1\<rparr>,
                 gl_fill = \<lparr>col_r = 0, col_g = 0, col_b = 0, col_a = 1\<rparr>, gl_icon = [], gl_title = [],
                 gl_badgeCount = 0, gl_thumbnailKey = None, gl_status = NS_none\<rparr>,
      n_domKey = [], n_visualVersion = 0\<rparr>"

definition sample_snapshot :: SceneSnapshot where
  "sample_snapshot =
     \<lparr>snap_nodes = [sample_scene_node ''a'' 0 2, sample_scene_node ''b'' 50 1], snap_edges = [],
      snap_groups = [], snap_layers = [\<lparr>l_id = ''l'', l_name = ''base'', l_visible = True, l_locked = False\<rparr>]\<rparr>"

lemma sample_snapshot_ok: "snapshot_ok sample_snapshot None"
  by (simp add: snapshot_ok_def sample_snapshot_def sample_scene_node_def)

theorem scene_graph_derived_witness:
  "let g = fold run_action [A_patch (P_remove_node ''b'')] (createSceneGraph sample_snapshot None)
   in \<forall>gid i. i \<in> set (bucket_list (sg_groupChildren g) gid)
        \<longleftrightarrow> (\<exists>n. node_of g i = Some n \<and> n_groupId n = Some gid)"
  using scene_graph_derived [OF sample_snapshot_ok, of "[A_patch (P_remove_node ''b'')]"]
  unfolding Let_def by blast

text \<open>C7. The queries are the specification: after any history, \<open>nodesIn\<close> and \<open>nodesContainedIn\<close>
  return exactly the visible nodes that scanning the scene would, each once and in strict render order,
  and \<open>nodeAt\<close> the topmost visible node under the point. (The index inflates nodes below the minimum
  size and clamps far-away ones, so \<open>nodesIn\<close> is about the sanitized rectangle.)\<close>

theorem scene_queries_exact:
  assumes "snapshot_ok snap cellSize" "0 \<le> rw q" "0 \<le> rh q"
  shows "let g = fold run_action as (createSceneGraph snap cellSize);
             near = {n \<in> visible_nodes g. rectsIntersect (sanitize_rect (node_rect n)) q};
             inside = {n \<in> near. rectContainsRect q (node_rect n)};
             under = {n \<in> visible_nodes g. rectContainsPoint (sanitize_rect (node_rect n)) p
                                        \<and> rectContainsPoint (node_rect n) p}
         in set (nodesIn g q) = near \<and> sorted_wrt (\<lambda>a b. compareNodes g a b < 0) (nodesIn g q)
            \<and> set (nodesContainedIn g q) = inside
            \<and> sorted_wrt (\<lambda>a b. compareNodes g a b < 0) (nodesContainedIn g q)
            \<and> (case nodeAt g p of None \<Rightarrow> under = {}
               | Some best \<Rightarrow> best \<in> under \<and> (\<forall>n \<in> under. n = best \<or> compareNodes g n best < 0))"
proof -
  define g where "g = fold run_action as (createSceneGraph snap cellSize)"
  have ok: "scene_ok g" unfolding g_def by (rule scene_reachable_ok [OF assms(1)])
  note F = found_visible [OF ok assms(2,3)]
  have "distinct (map n_id (filter P (visibleNodes g (queryRect q (sg_index g)))))" for P
    using F(2) by (rule distinct_map_filter)
  then show ?thesis
    using F nodeAt_topmost [OF ok, of p]
    by (simp add: g_def [symmetric] Let_def nodesIn_def nodesContainedIn_def sorted_nodes_strict topmost_def
        split: option.splits)
qed

theorem scene_queries_exact_witness:
  "let g = createSceneGraph sample_snapshot None; q = \<lparr>rx = 0, ry = 0, rw = 300, rh = 10\<rparr>
   in set (nodesIn g q) = {n \<in> visible_nodes g. rectsIntersect (sanitize_rect (node_rect n)) q}"
  using scene_queries_exact [OF sample_snapshot_ok, of "\<lparr>rx = 0, ry = 0, rw = 300, rh = 10\<rparr>" "[]"]
  by (simp add: Let_def)

text \<open>C28. The incrementally maintained bounds are exact: after any history \<open>sceneBounds\<close> is the
  bounding box of the visible nodes (the zero rectangle when there is none), and \<open>groupBounds\<close>, from
  its cache or computed, is the bounding box of the current members of the group.\<close>

theorem scene_bounds_exact:
  assumes "snapshot_ok snap cellSize"
  shows "let g = fold run_action as (createSceneGraph snap cellSize);
             members = {n. node_of g (n_id n) = Some n \<and> n_groupId n = Some gid}
         in sceneBounds g = (if visible_nodes g = {} then \<lparr>rx = 0, ry = 0, rw = 0, rh = 0\<rparr>
                             else box_of (node_rect ` visible_nodes g))
            \<and> fst (groupBounds gid g) = (if members = {} then None else Some (box_of (node_rect ` members)))"
proof -
  define g where "g = fold run_action as (createSceneGraph snap cellSize)"
  have ok: "scene_ok g" unfolding g_def by (rule scene_reachable_ok [OF assms])
  let ?views = "views_of (node_of g) (bucket_list (sg_groupChildren g) gid)"
  have mem: "i \<in> set (bucket_list (sg_groupChildren g) gid)
      \<longleftrightarrow> (\<exists>n. node_of g i = Some n \<and> n_groupId n = Some gid)" for i
    using ok by (simp add: scene_ok_def members_ok_def in_bucket_iff)
  have "n \<in> set ?views \<longleftrightarrow> node_of g (n_id n) = Some n \<and> n_groupId n = Some gid" for n
  proof
    assume "n \<in> set ?views"
    then obtain i where i: "i \<in> set (bucket_list (sg_groupChildren g) gid)" "node_of g i = Some n"
      unfolding in_views_of by blast
    moreover from i(2) have "n_id n = i" by (rule node_of_keyed [OF ok])
    ultimately show "node_of g (n_id n) = Some n \<and> n_groupId n = Some gid" using mem [of i] by simp
  next
    assume "node_of g (n_id n) = Some n \<and> n_groupId n = Some gid"
    with mem [of "n_id n"] have "n_id n \<in> set (bucket_list (sg_groupChildren g) gid)" "node_of g (n_id n) = Some n"
      by simp_all
    then show "n \<in> set ?views" unfolding in_views_of by (rule bexI [rotated])
  qed
  then have views: "set ?views = {n. node_of g (n_id n) = Some n \<and> n_groupId n = Some gid}" by blast
  then have "?views = [] \<longleftrightarrow> {n. node_of g (n_id n) = Some n \<and> n_groupId n = Some gid} = {}"
    by (metis set_empty)
  then show ?thesis
    using sceneBounds_box [OF ok] groupBounds_ok(1) [OF ok, of gid] views
    by (simp only: g_def [symmetric] Let_def union_rect_box)
qed

theorem scene_bounds_exact_witness:
  "let g = fold run_action [A_groupBounds ''g'', A_patch (P_remove_node ''b'')] (createSceneGraph sample_snapshot None);
       members = {n. node_of g (n_id n) = Some n \<and> n_groupId n = Some ''g''}
   in fst (groupBounds ''g'' g) = (if members = {} then None else Some (box_of (node_rect ` members)))"
  using scene_bounds_exact [OF sample_snapshot_ok, of "[A_groupBounds ''g'', A_patch (P_remove_node ''b'')]" "''g''"]
  unfolding Let_def by blast

lemma assertAllValid_None: "assertAllValid ps = None \<longleftrightarrow> list_all (\<lambda>p. assertValid p = None) ps"
  by (induction ps) (auto split: option.splits)


text \<open>C29. A repaint misses nothing: after any history, applying one more patch marks every node
  that changed, the old and the new rectangle of every node that appeared, moved, grew or went away,
  every edge that changed or hangs from such a node, and the whole frame when the layers changed.\<close>

theorem patch_repaint_covers:
  assumes "snapshot_ok snap cellSize" "applyPatch p (fold run_action as (createSceneGraph snap cellSize)) = Inr h"
  shows "repaint_covers (fold run_action as (createSceneGraph snap cellSize)) h"
  using apply_scene_repaints(1) [OF scene_reachable_ok [OF assms(1), of "as"], of p] assms(2)
  by (auto simp: applyPatch_def repaints_def split: option.splits)

theorem patch_repaint_covers_witness:
  "repaint_covers (createSceneGraph sample_snapshot None)
     (removeNode ''b'' (createSceneGraph sample_snapshot None))"
  using patch_repaint_covers [OF sample_snapshot_ok, of "P_remove_node ''b''" "[]"
      "removeNode ''b'' (createSceneGraph sample_snapshot None)"]
  by (simp add: applyPatch_def)

end
