(* ===== verification/RouteGeometry.thy ===== *)
theory RouteGeometry
  imports Prelude
begin

text \<open>
  The geometry the edge router works with: \<open>types.ts\<close>, \<open>geometry.ts\<close>, \<open>separation.ts\<close>, \<open>ports.ts\<close>,
  \<open>straight.ts\<close>, \<open>selfloop.ts\<close>, \<open>curved.ts\<close> and \<open>smart.ts\<close> of \<open>packages/domain/src/edges/routing\<close>.
  Coordinates are reals (rounding is not modelled), \<open>Infinity\<close> is \<open>None\<close>, a flattened polyline is
  the list \<open>[x0, y0, x1, y1, ...]\<close> of the source, and \<open>Math.atan2\<close> is the argument of a complex number.
\<close>

section \<open>Vocabulary\<close>

record route_pt =
  px :: real
  py :: real

datatype PortSide = PS_top | PS_right | PS_bottom | PS_left

record Port =
  port_side :: PortSide
  port_t :: real

text \<open>A requested side: \<open>'auto'\<close> is \<open>None\<close>.\<close>

record PortRequest =
  req_side :: "PortSide option"
  req_t :: real

record NodeBox =
  nb_id :: string
  nb_x :: real
  nb_y :: real
  nb_w :: real
  nb_h :: real
  nb_radius :: real

datatype PathCommand =
    MoveTo route_pt
  | LineTo route_pt
  | CubicTo route_pt route_pt route_pt
  | QuadTo route_pt route_pt

record BBox =
  minX :: real
  minY :: real
  maxX :: real
  maxY :: real

record OrientedPoint =
  op_x :: real
  op_y :: real
  op_angle :: real

definition pt :: "real \<Rightarrow> real \<Rightarrow> route_pt" where
  "pt x y = \<lparr>px = x, py = y\<rparr>"

definition oriented :: "real \<Rightarrow> real \<Rightarrow> real \<Rightarrow> OrientedPoint" where
  "oriented x y a = \<lparr>op_x = x, op_y = y, op_angle = a\<rparr>"

lemma pt_sel [simp]: "px (pt x y) = x" "py (pt x y) = y"
  by (simp_all add: pt_def)

lemma pt_eq [simp]: "pt x y = pt u v \<longleftrightarrow> x = u \<and> y = v"
  by (auto simp: pt_def)

lemma pt_collapse [simp]: "pt (px p) (py p) = p"
  by (simp add: pt_def)

lemma route_pt_eqI: "px p = px q \<Longrightarrow> py p = py q \<Longrightarrow> p = (q :: route_pt)"
  by simp

definition ENDPOINT_GAP :: real where "ENDPOINT_GAP = 2"
definition SEPARATION :: real where "SEPARATION = 18"
definition BUNDLE_THRESHOLD :: int where "BUNDLE_THRESHOLD = 7"
definition CLEARANCE :: real where "CLEARANCE = 12"

section \<open>Vectors\<close>

definition FLATTEN_TOLERANCE :: real where "FLATTEN_TOLERANCE = 35 / 100"
definition FLATTEN_MAX_SEGMENTS :: int where "FLATTEN_MAX_SEGMENTS = 64"
definition FLATTEN_DRAFT_SEGMENTS :: int where "FLATTEN_DRAFT_SEGMENTS = 8"
definition EPSILON :: real where "EPSILON = 1 / 1000000000"

definition hypot :: "real \<Rightarrow> real \<Rightarrow> real" where
  "hypot x y = sqrt (x * x + y * y)"

definition atan2 :: "real \<Rightarrow> real \<Rightarrow> real" where
  "atan2 y x = Arg (Complex x y)"

definition pt_sub :: "route_pt \<Rightarrow> route_pt \<Rightarrow> route_pt" where
  "pt_sub a b = pt (px a - px b) (py a - py b)"

definition pt_add :: "route_pt \<Rightarrow> route_pt \<Rightarrow> route_pt" where
  "pt_add a b = pt (px a + px b) (py a + py b)"

definition pt_scale :: "route_pt \<Rightarrow> real \<Rightarrow> route_pt" where
  "pt_scale a k = pt (px a * k) (py a * k)"

definition pt_length :: "route_pt \<Rightarrow> real" where
  "pt_length a = hypot (px a) (py a)"

definition pt_distance :: "route_pt \<Rightarrow> route_pt \<Rightarrow> real" where
  "pt_distance a b = hypot (px a - px b) (py a - py b)"

definition pt_normalize :: "route_pt \<Rightarrow> route_pt" where
  "pt_normalize a =
     (let len = pt_length a
      in if len < EPSILON then pt 1 0 else pt (px a / len) (py a / len))"

definition perpendicular :: "route_pt \<Rightarrow> route_pt" where
  "perpendicular a = pt (- py a) (px a)"

definition pt_dot :: "route_pt \<Rightarrow> route_pt \<Rightarrow> real" where
  "pt_dot a b = px a * px b + py a * py b"

definition pt_lerp :: "route_pt \<Rightarrow> route_pt \<Rightarrow> real \<Rightarrow> route_pt" where
  "pt_lerp a b t = pt (px a + (px b - px a) * t) (py a + (py b - py a) * t)"

definition centerOf :: "NodeBox \<Rightarrow> route_pt" where
  "centerOf b = pt (nb_x b + nb_w b / 2) (nb_y b + nb_h b / 2)"

section \<open>Beziers\<close>

definition cubicAt :: "route_pt \<Rightarrow> route_pt \<Rightarrow> route_pt \<Rightarrow> route_pt \<Rightarrow> real \<Rightarrow> route_pt" where
  "cubicAt p0 c0 c1 p1 t =
     (let u = 1 - t; a = u * u * u; b = 3 * u * u * t; c = 3 * u * t * t; d = t * t * t
      in pt (a * px p0 + b * px c0 + c * px c1 + d * px p1) (a * py p0 + b * py c0 + c * py c1 + d * py p1))"

definition quadraticAt :: "route_pt \<Rightarrow> route_pt \<Rightarrow> route_pt \<Rightarrow> real \<Rightarrow> route_pt" where
  "quadraticAt p0 c p1 t =
     (let u = 1 - t
      in pt (u * u * px p0 + 2 * u * t * px c + t * t * px p1) (u * u * py p0 + 2 * u * t * py c + t * t * py p1))"

definition cubicSegments :: "route_pt \<Rightarrow> route_pt \<Rightarrow> route_pt \<Rightarrow> route_pt \<Rightarrow> int \<Rightarrow> int" where
  "cubicSegments p0 c0 c1 p1 maxSegments =
     (let dev = pt_distance p0 c0 + pt_distance c0 c1 + pt_distance c1 p1 - pt_distance p0 p1
      in if dev \<le> FLATTEN_TOLERANCE then 2
         else (let n = \<lceil>sqrt (dev / FLATTEN_TOLERANCE) * 2\<rceil> in max 2 (min maxSegments n)))"

section \<open>Polylines\<close>

definition pushPoint :: "real list \<Rightarrow> route_pt \<Rightarrow> real list" where
  "pushPoint flat p =
     (let n = length flat
      in if 2 \<le> n \<and> \<bar>flat ! (n - 2) - px p\<bar> < EPSILON \<and> \<bar>flat ! (n - 1) - py p\<bar> < EPSILON then flat
         else flat @ [px p, py p])"

definition curve_samples :: "(real \<Rightarrow> route_pt) \<Rightarrow> int \<Rightarrow> route_pt list" where
  "curve_samples curve n = map (\<lambda>i. curve (of_int i / of_int n)) [1..n]"

fun flatten_command :: "int \<Rightarrow> real list \<times> route_pt \<Rightarrow> PathCommand \<Rightarrow> real list \<times> route_pt" where
  "flatten_command m (flat, cursor) (MoveTo p) = (pushPoint flat p, p)"
| "flatten_command m (flat, cursor) (LineTo p) = (pushPoint flat p, p)"
| "flatten_command m (flat, cursor) (CubicTo c0 c1 e) =
     (foldl pushPoint flat (curve_samples (cubicAt cursor c0 c1 e) (cubicSegments cursor c0 c1 e m)), e)"
| "flatten_command m (flat, cursor) (QuadTo c e) =
     (foldl pushPoint flat (curve_samples (quadraticAt cursor c e) (cubicSegments cursor c c e m)), e)"

definition flattenCommands :: "PathCommand list \<Rightarrow> int \<Rightarrow> real list" where
  "flattenCommands cmds maxSegments =
     (let (flat, cursor) = foldl (flatten_command maxSegments) ([], pt 0 0) cmds
      in if length flat < 4 then flat @ [px cursor, py cursor] else flat)"

definition pointCount :: "real list \<Rightarrow> nat" where
  "pointCount flat = length flat div 2"

definition pointAtIndex :: "real list \<Rightarrow> nat \<Rightarrow> route_pt" where
  "pointAtIndex flat i = pt (flat ! (i * 2)) (flat ! (i * 2 + 1))"

definition flat_points :: "real list \<Rightarrow> route_pt list" where
  "flat_points flat = map (pointAtIndex flat) [0..<pointCount flat]"

definition polylineLength :: "real list \<Rightarrow> real" where
  "polylineLength flat =
     foldl (\<lambda>total i. total + pt_distance (pointAtIndex flat (i - 1)) (pointAtIndex flat i)) 0 [1..<pointCount flat]"

text \<open>The box that starts at infinity is the box of the first point once a point has been seen.\<close>

definition grow_bbox :: "BBox \<Rightarrow> route_pt \<Rightarrow> BBox" where
  "grow_bbox b p =
     \<lparr>minX = (if px p < minX b then px p else minX b), minY = (if py p < minY b then py p else minY b),
      maxX = (if px p > maxX b then px p else maxX b), maxY = (if py p > maxY b then py p else maxY b)\<rparr>"

fun bboxOfPoints :: "route_pt list \<Rightarrow> BBox option" where
  "bboxOfPoints [] = None"
| "bboxOfPoints (p # ps) = Some (foldl grow_bbox \<lparr>minX = px p, minY = py p, maxX = px p, maxY = py p\<rparr> ps)"

definition polylineBBox :: "real list \<Rightarrow> BBox option" where
  "polylineBBox flat = bboxOfPoints (flat_points flat)"

fun walk_fraction :: "real list \<Rightarrow> nat \<Rightarrow> real \<Rightarrow> real \<Rightarrow> nat list \<Rightarrow> OrientedPoint option" where
  "walk_fraction flat count wanted walked [] = None"
| "walk_fraction flat count wanted walked (i # is) =
     (let a = pointAtIndex flat (i - 1); b = pointAtIndex flat i; seg = pt_distance a b
      in if seg < EPSILON then walk_fraction flat count wanted walked is
         else if walked + seg \<ge> wanted \<or> i = count - 1
         then (let local = (if seg < EPSILON then 0 else (wanted - walked) / seg);
                   p = pt_lerp a b (max 0 (min 1 local))
               in Some (oriented (px p) (py p) (atan2 (py b - py a) (px b - px a))))
         else walk_fraction flat count wanted (walked + seg) is)"

definition pointAtFraction :: "real list \<Rightarrow> real \<Rightarrow> OrientedPoint" where
  "pointAtFraction flat t =
     (let count = pointCount flat; first = pointAtIndex flat 0
      in if count < 2 then oriented (px first) (py first) 0
         else (let wanted = max 0 (min 1 t) * polylineLength flat
               in case walk_fraction flat count wanted 0 [1..<count] of
                 Some p \<Rightarrow> p
               | None \<Rightarrow> (let l = pointAtIndex flat (count - 1); prev = pointAtIndex flat (count - 2)
                          in oriented (px l) (py l) (atan2 (py l - py prev) (px l - px prev)))))"

text \<open>\<open>projectOnSegment\<close>: the squared distance and the clamped parameter.\<close>

definition projectOnSegment :: "route_pt \<Rightarrow> route_pt \<Rightarrow> route_pt \<Rightarrow> real \<times> real" where
  "projectOnSegment p a b =
     (let abx = px b - px a; aby = py b - py a; len2 = abx * abx + aby * aby;
          raw = (if len2 < EPSILON then 0 else ((px p - px a) * abx + (py p - py a) * aby) / len2);
          t = max 0 (min 1 raw); dx = px a + abx * t - px p; dy = py a + aby * t - py p
      in (dx * dx + dy * dy, t))"

definition smaller_d2 :: "real option \<Rightarrow> real \<Rightarrow> real option" where
  "smaller_d2 best d2 = (case best of None \<Rightarrow> Some d2 | Some b \<Rightarrow> if d2 < b then Some d2 else best)"

definition distanceToPolyline :: "real list \<Rightarrow> route_pt \<Rightarrow> real option" where
  "distanceToPolyline flat p =
     (let count = pointCount flat
      in if count = 0 then None
         else if count = 1 then Some (pt_distance p (pointAtIndex flat 0))
         else map_option sqrt
           (foldl (\<lambda>best i. smaller_d2 best (fst (projectOnSegment p (pointAtIndex flat (i - 1)) (pointAtIndex flat i))))
              None [1..<count]))"

section \<open>Boxes\<close>

definition boxToBBox :: "NodeBox \<Rightarrow> BBox" where
  "boxToBBox b = \<lparr>minX = nb_x b, minY = nb_y b, maxX = nb_x b + nb_w b, maxY = nb_y b + nb_h b\<rparr>"

definition inflate_bbox :: "BBox \<Rightarrow> real \<Rightarrow> BBox" where
  "inflate_bbox b d = \<lparr>minX = minX b - d, minY = minY b - d, maxX = maxX b + d, maxY = maxY b + d\<rparr>"

definition bboxIntersects :: "BBox \<Rightarrow> BBox \<Rightarrow> bool" where
  "bboxIntersects a b \<longleftrightarrow> minX a \<le> maxX b \<and> minX b \<le> maxX a \<and> minY a \<le> maxY b \<and> minY b \<le> maxY a"

definition bboxContains :: "BBox \<Rightarrow> route_pt \<Rightarrow> bool" where
  "bboxContains b p \<longleftrightarrow> px p \<ge> minX b \<and> px p \<le> maxX b \<and> py p \<ge> minY b \<and> py p \<le> maxY b"

section \<open>The common output of the routing modes\<close>

datatype RoutingMode = RM_straight | RM_curved | RM_orthogonal | RM_smart

datatype GeometryKind = GK_line | GK_bezier | GK_poly

text \<open>The box is \<open>None\<close> for a polyline without points, whose box is inside out in the source.\<close>

record EdgeGeometry =
  eg_kind :: GeometryKind
  eg_mode :: RoutingMode
  eg_flat :: "real list"
  eg_cmds :: "PathCommand list"
  eg_bbox :: "BBox option"
  eg_length :: real
  eg_start :: OrientedPoint
  eg_end :: OrientedPoint
  eg_label :: OrientedPoint
  eg_degraded :: bool
  eg_revision :: nat

section \<open>Facts about the primitives\<close>

text \<open>The box of a list of points contains each of them.\<close>

lemma grow_bbox_contains:
  "bboxContains (foldl grow_bbox b ps) q" if "bboxContains b q \<or> q \<in> set ps"
  using that
proof (induction ps arbitrary: b)
  case (Cons p ps)
  have "bboxContains (grow_bbox b p) p" by (simp add: grow_bbox_def bboxContains_def)
  moreover have "bboxContains b q \<Longrightarrow> bboxContains (grow_bbox b p) q" by (auto simp: grow_bbox_def bboxContains_def)
  ultimately show ?case using Cons by auto
qed simp

lemma bboxOfPoints_contains: "bboxOfPoints ps = Some b \<Longrightarrow> p \<in> set ps \<Longrightarrow> bboxContains b p"
proof (cases ps)
  case (Cons q qs)
  assume "bboxOfPoints ps = Some b" "p \<in> set ps"
  moreover have "bboxContains \<lparr>minX = px q, minY = py q, maxX = px q, maxY = py q\<rparr> q" by (simp add: bboxContains_def)
  ultimately show ?thesis
    using grow_bbox_contains [of "\<lparr>minX = px q, minY = py q, maxX = px q, maxY = py q\<rparr>" p qs] Cons by auto
qed simp

text \<open>The box is tight: each border carries a point.\<close>

definition tight_bbox :: "BBox \<Rightarrow> route_pt set \<Rightarrow> bool" where
  "tight_bbox b S \<longleftrightarrow> minX b \<in> px ` S \<and> maxX b \<in> px ` S \<and> minY b \<in> py ` S \<and> maxY b \<in> py ` S"

lemma grow_bbox_tight: "tight_bbox b S \<Longrightarrow> tight_bbox (foldl grow_bbox b ps) (S \<union> set ps)"
proof (induction ps arbitrary: b S)
  case (Cons p ps)
  have "tight_bbox (grow_bbox b p) (insert p S)" using Cons.prems by (auto simp: tight_bbox_def grow_bbox_def)
  from Cons.IH [OF this] show ?case by simp
qed simp

lemma bboxOfPoints_tight: "bboxOfPoints ps = Some b \<Longrightarrow> tight_bbox b (set ps)"
proof (cases ps)
  case (Cons p qs)
  assume "bboxOfPoints ps = Some b"
  moreover have "tight_bbox \<lparr>minX = px p, minY = py p, maxX = px p, maxY = py p\<rparr> {p}" by (simp add: tight_bbox_def)
  ultimately show ?thesis using grow_bbox_tight [of _ "{p}" qs] Cons by auto
qed simp

text \<open>
  \<open>projectOnSegment\<close> finds the nearest point of the segment, unless the segment is degenerate without
  being a point (the square of its length under \<open>EPSILON\<close>).
\<close>

definition square_dist :: "route_pt \<Rightarrow> route_pt \<Rightarrow> real" where
  "square_dist p q = (px p - px q) * (px p - px q) + (py p - py q) * (py p - py q)"

definition solid_segment :: "route_pt \<Rightarrow> route_pt \<Rightarrow> bool" where
  "solid_segment a b \<longleftrightarrow> a = b \<or> EPSILON \<le> square_dist a b"

lemma projectOnSegment_point:
  "0 \<le> snd (projectOnSegment p a b) \<and> snd (projectOnSegment p a b) \<le> 1
   \<and> fst (projectOnSegment p a b) = square_dist p (pt_lerp a b (snd (projectOnSegment p a b)))"
  by (simp add: projectOnSegment_def Let_def square_dist_def pt_lerp_def) (simp add: algebra_simps)

lemma parabola_min:
  fixes L D t s :: real
  assumes "0 < L" "t = max 0 (min 1 (D / L))" "0 \<le> s" "s \<le> 1"
  shows "t * t * L - 2 * t * D \<le> s * s * L - 2 * s * D"
proof -
  have "(s - t) * ((s + t) * L - 2 * D) \<ge> 0"
  proof (cases "D \<le> 0")
    case True
    then have "D / L \<le> 0" using assms(1) by (rule divide_nonpos_pos)
    then have "t = 0" using assms(2) by simp
    have "0 \<le> s * L" using assms by (simp add: zero_le_mult_iff)
    then have "0 \<le> s * (s * L - 2 * D)" using True assms by (intro mult_nonneg_nonneg) linarith+
    then show ?thesis using \<open>t = 0\<close> by simp
  next
    case False
    show ?thesis
    proof (cases "L \<le> D")
      case True
      then have t: "t = 1" using assms by (simp add: min_def max_def le_divide_eq)
      have "(s + 1) * L \<le> 2 * L" using assms by (intro mult_right_mono) auto
      then have "(s + 1) * L - 2 * D \<le> 0" using True by simp
      then show ?thesis using assms(4) t mult_nonpos_nonpos [of "s - 1" "(s + 1) * L - 2 * D"] by simp
    next
      case inner: False
      then have t: "t = D / L" using False assms by (auto simp: min_def max_def divide_le_eq le_divide_eq)
      then have "t * L = D" using assms(1) by simp
      then have "(s + t) * L - 2 * D = (s - t) * L" by (simp add: algebra_simps)
      then have "(s - t) * ((s + t) * L - 2 * D) = ((s - t) * (s - t)) * L" by simp
      also have "0 \<le> \<dots>" using mult_nonneg_nonneg [OF zero_le_square less_imp_le [OF assms(1)]] .
      finally show ?thesis .
    qed
  qed
  then show ?thesis by (simp add: algebra_simps)
qed

lemma projectOnSegment_nearest:
  assumes "solid_segment a b" "0 \<le> s" "s \<le> 1"
  shows "fst (projectOnSegment p a b) \<le> square_dist p (pt_lerp a b s)"
proof (cases "a = b")
  case True
  then show ?thesis by (simp add: projectOnSegment_def Let_def square_dist_def pt_lerp_def) (simp add: algebra_simps)
next
  case False
  define X Y U V where d: "X = px b - px a" "Y = py b - py a" "U = px p - px a" "V = py p - py a"
  define L where "L = X * X + Y * Y"
  define D where "D = U * X + V * Y"
  have L: "EPSILON \<le> L" using assms(1) False by (simp add: solid_segment_def square_dist_def L_def d algebra_simps)
  then have pos: "0 < L" by (simp add: EPSILON_def)
  have dist: "square_dist p (pt_lerp a b r) = U * U + V * V + (r * r * L - 2 * r * D)" for r
    by (simp add: square_dist_def pt_lerp_def L_def D_def d algebra_simps)
  have t: "snd (projectOnSegment p a b) = max 0 (min 1 (D / L))"
    using L by (simp add: projectOnSegment_def Let_def L_def D_def d not_less)
  show ?thesis
    using parabola_min [OF pos refl assms(2,3), of D] unfolding conjunct2 [OF conjunct2 [OF projectOnSegment_point]] dist t
    by simp
qed

end
