(* ===== verification/RouteModes.thy ===== *)
theory RouteModes
  imports RouteGeometry
begin

text \<open>
  The shapes that need no search: parallel-edge separation (\<open>separation.ts\<close>), ports (\<open>ports.ts\<close>), straight
  and curved runs (\<open>straight.ts\<close>, \<open>curved.ts\<close>), self-loops (\<open>selfloop.ts\<close>) and the smart chooser
  (\<open>smart.ts\<close>), of \<open>packages/domain/src/edges/routing\<close>.
\<close>

section \<open>Separation of parallel edges\<close>

definition siblingOffset :: "int \<Rightarrow> int \<Rightarrow> real \<Rightarrow> real" where
  "siblingOffset index count sep =
     (if count \<le> 1 then 0
      else (let clamped = max 0 (min (count - 1) index)
            in (of_int clamped - (of_int count - 1) / 2) * sep))"

definition isBundled :: "int \<Rightarrow> bool" where
  "isBundled count \<longleftrightarrow> count > BUNDLE_THRESHOLD"

definition bundleWidth :: "int \<Rightarrow> real" where
  "bundleWidth count = 3 / 2 + log 2 (of_int (max 1 count))"

definition EXPANDED_BUNDLE_SEPARATION :: real where "EXPANDED_BUNDLE_SEPARATION = 12"

definition bundledSeparation :: "int \<Rightarrow> real \<Rightarrow> real \<Rightarrow> real" where
  "bundledSeparation count density sep =
     (if \<not> isBundled count then sep else sep * (1 - max 0 (min 1 density)))"

section \<open>Ports\<close>

definition HYSTERESIS_MARGIN :: real where "HYSTERESIS_MARGIN = 12 / 100"

fun sideNormal :: "PortSide \<Rightarrow> route_pt" where
  "sideNormal PS_top = pt 0 (- 1)"
| "sideNormal PS_right = pt 1 0"
| "sideNormal PS_bottom = pt 0 1"
| "sideNormal PS_left = pt (- 1) 0"

fun TIE_ORDER :: "PortSide \<Rightarrow> nat" where
  "TIE_ORDER PS_right = 0"
| "TIE_ORDER PS_left = 1"
| "TIE_ORDER PS_top = 2"
| "TIE_ORDER PS_bottom = 3"

definition PORT_SIDES :: "PortSide list" where
  "PORT_SIDES = [PS_top, PS_right, PS_bottom, PS_left]"

definition sideTangent :: "PortSide \<Rightarrow> route_pt" where
  "sideTangent s = (if s = PS_top \<or> s = PS_bottom then pt 1 0 else pt 0 1)"

definition sideLength :: "NodeBox \<Rightarrow> PortSide \<Rightarrow> real" where
  "sideLength b s = (if s = PS_top \<or> s = PS_bottom then nb_w b else nb_h b)"

definition portPoint :: "NodeBox \<Rightarrow> Port \<Rightarrow> route_pt" where
  "portPoint b port =
     (let t = max 0 (min 1 (port_t port))
      in case port_side port of
        PS_top \<Rightarrow> pt (nb_x b + nb_w b * t) (nb_y b)
      | PS_bottom \<Rightarrow> pt (nb_x b + nb_w b * t) (nb_y b + nb_h b)
      | PS_left \<Rightarrow> pt (nb_x b) (nb_y b + nb_h b * t)
      | PS_right \<Rightarrow> pt (nb_x b + nb_w b) (nb_y b + nb_h b * t))"

text \<open>The state of the side loop: the best side and its score, none yet being \<open>-Infinity\<close>.\<close>

definition better_side :: "route_pt \<Rightarrow> PortSide \<times> real option \<Rightarrow> PortSide \<Rightarrow> PortSide \<times> real option" where
  "better_side d best s =
     (let score = pt_dot (sideNormal s) d
      in case snd best of
        None \<Rightarrow> (s, Some score)
      | Some b \<Rightarrow>
          if score > b + 1 / 1000000 \<or> \<bar>score - b\<bar> \<le> 1 / 1000000 \<and> TIE_ORDER s < TIE_ORDER (fst best)
          then (s, Some score) else best)"

definition best_side :: "route_pt \<Rightarrow> PortSide \<times> real option" where
  "best_side d = foldl (better_side d) (PS_right, None) PORT_SIDES"

definition box_delta :: "NodeBox \<Rightarrow> NodeBox \<Rightarrow> route_pt" where
  "box_delta self other =
     pt (px (centerOf other) - px (centerOf self)) (py (centerOf other) - py (centerOf self))"

definition resolve_side :: "route_pt \<Rightarrow> PortSide option \<Rightarrow> PortSide" where
  "resolve_side d previous =
     (let (best, score) = best_side d
      in case (previous, score) of
        (Some prev, Some s) \<Rightarrow> if prev \<noteq> best \<and> s - pt_dot (sideNormal prev) d < HYSTERESIS_MARGIN then prev else best
      | _ \<Rightarrow> best)"

definition resolvePort :: "NodeBox \<Rightarrow> NodeBox \<Rightarrow> bool \<Rightarrow> PortSide option \<Rightarrow> Port" where
  "resolvePort self other orthogonal previous =
     (let delta = box_delta self other; side = resolve_side (pt_normalize delta) previous
      in if orthogonal then \<lparr>port_side = side, port_t = 1 / 2\<rparr>
         else (let len = max 1 (sideLength self side)
               in \<lparr>port_side = side,
                   port_t = max (15 / 100) (min (85 / 100) (1 / 2 + pt_dot (sideTangent side) delta / (2 * len)))\<rparr>))"

definition materializePort :: "NodeBox \<Rightarrow> NodeBox \<Rightarrow> PortRequest \<Rightarrow> bool \<Rightarrow> PortSide option \<Rightarrow> Port" where
  "materializePort self other request orthogonal previous =
     (case req_side request of
        Some s \<Rightarrow> \<lparr>port_side = s, port_t = req_t request\<rparr>
      | None \<Rightarrow> resolvePort self other orthogonal previous)"

section \<open>Straight runs\<close>

record StraightInput =
  st_p0 :: route_pt
  st_p1 :: route_pt
  st_waypoints :: "route_pt list"
  st_siblingIndex :: int
  st_siblingCount :: int
  st_separation :: real

fun polyline_commands :: "route_pt list \<Rightarrow> PathCommand list" where
  "polyline_commands [] = []"
| "polyline_commands (p # ps) = MoveTo p # map LineTo ps"

definition routeStraight :: "StraightInput \<Rightarrow> PathCommand list" where
  "routeStraight input =
     (let offset = siblingOffset (st_siblingIndex input) (st_siblingCount input) (st_separation input);
          shift = (if offset = 0 then pt 0 0
                   else pt_scale (perpendicular (pt_normalize (pt_sub (st_p1 input) (st_p0 input)))) offset);
          points = [pt_add (st_p0 input) shift] @ map (\<lambda>w. pt_add w shift) (st_waypoints input)
                     @ [pt_add (st_p1 input) shift]
      in polyline_commands points)"

section \<open>Curved runs\<close>

definition MIN_CONTROL_REACH :: real where "MIN_CONTROL_REACH = 24"
definition MAX_CONTROL_REACH :: real where "MAX_CONTROL_REACH = 220"
definition CONTROL_SHIFT_FOR_MID :: real where "CONTROL_SHIFT_FOR_MID = 8 / 3"

record CurvedInput =
  cu_p0 :: route_pt
  cu_p1 :: route_pt
  cu_n0 :: route_pt
  cu_n1 :: route_pt
  cu_waypoints :: "route_pt list"
  cu_curvature :: real
  cu_siblingIndex :: int
  cu_siblingCount :: int
  cu_separation :: real

definition controlReach :: "CurvedInput \<Rightarrow> real" where
  "controlReach input =
     (let d = pt_distance (cu_p0 input) (cu_p1 input);
          k = max MIN_CONTROL_REACH (min MAX_CONTROL_REACH (d * cu_curvature input));
          facing = pt_dot (cu_n0 input) (cu_n1 input) < - (1 / 2)
      in if facing \<and> d < 2 * k then d / 2 else k)"

definition spline_segment ::
  "route_pt list \<Rightarrow> real \<Rightarrow> route_pt option \<Rightarrow> route_pt option \<Rightarrow> nat \<Rightarrow> PathCommand" where
  "spline_segment points tension startTangent endTangent i =
     (let n = length points; p0 = points ! i; p1 = points ! (i + 1);
          span = pt_distance p0 p1;
          t0 = (if i = 0 then pt_scale (case startTangent of Some t \<Rightarrow> t | None \<Rightarrow> pt_normalize (pt_sub p1 p0)) 1
                else pt_scale (pt_normalize (pt_sub p1 (points ! (i - 1)))) 1);
          t1 = (if i + 2 < n then pt_scale (pt_normalize (pt_sub (points ! (i + 2)) p0)) 1
                else pt_scale (case endTangent of Some t \<Rightarrow> t | None \<Rightarrow> pt_normalize (pt_sub p1 p0)) 1);
          reach = span * tension * (2 / 3)
      in CubicTo (pt_add p0 (pt_scale t0 reach)) (pt_sub p1 (pt_scale t1 reach)) p1)"

definition catmullRomToBezier ::
  "route_pt list \<Rightarrow> real \<Rightarrow> route_pt option \<Rightarrow> route_pt option \<Rightarrow> PathCommand list" where
  "catmullRomToBezier points tension startTangent endTangent =
     MoveTo (points ! 0) # map (spline_segment points tension startTangent endTangent) [0..<length points - 1]"

definition routeCurved :: "CurvedInput \<Rightarrow> PathCommand list" where
  "routeCurved input =
     (let offset = siblingOffset (cu_siblingIndex input) (cu_siblingCount input) (cu_separation input);
          perp = perpendicular (pt_normalize (pt_sub (cu_p1 input) (cu_p0 input)));
          shift = pt_scale perp (offset * CONTROL_SHIFT_FOR_MID)
      in if cu_waypoints input = []
         then (let k = controlReach input;
                   c0 = pt_add (pt_add (cu_p0 input) (pt_scale (cu_n0 input) k)) shift;
                   c1 = pt_add (pt_add (cu_p1 input) (pt_scale (cu_n1 input) k)) shift
               in [MoveTo (cu_p0 input), CubicTo c0 c1 (cu_p1 input)])
         else (let through = [cu_p0 input] @ map (\<lambda>w. pt_add w (pt_scale perp offset)) (cu_waypoints input) @ [cu_p1 input]
               in catmullRomToBezier through (1 / 2) (Some (cu_n0 input)) (Some (pt_scale (cu_n1 input) (- 1)))))"

section \<open>Self-loops\<close>

definition SIDE_CYCLE :: "PortSide list" where
  "SIDE_CYCLE = [PS_right, PS_top, PS_left, PS_bottom]"

definition SELF_LOOP_RADIUS :: int where "SELF_LOOP_RADIUS = 34"
definition SELF_LOOP_RING_STEP :: int where "SELF_LOOP_RING_STEP = 18"

definition selfLoopSide :: "int \<Rightarrow> PortSide" where
  "selfLoopSide index = SIDE_CYCLE ! nat (index mod 4)"

definition selfLoopRadius :: "int \<Rightarrow> int" where
  "selfLoopRadius index = SELF_LOOP_RADIUS + (max 0 index div 4) * SELF_LOOP_RING_STEP"

definition routeSelfLoop :: "NodeBox \<Rightarrow> int \<Rightarrow> PathCommand list" where
  "routeSelfLoop b index =
     (let side = selfLoopSide index; r = of_int (selfLoopRadius index);
          p0 = portPoint b \<lparr>port_side = side, port_t = 35 / 100\<rparr>;
          p1 = portPoint b \<lparr>port_side = side, port_t = 65 / 100\<rparr>;
          n = sideNormal side; t = sideTangent side;
          c0 = pt_add (pt_add p0 (pt_scale n (r * (14 / 10)))) (pt_scale t (- r * (4 / 10)));
          c1 = pt_add (pt_add p1 (pt_scale n (r * (14 / 10)))) (pt_scale t (r * (4 / 10)))
      in [MoveTo p0, CubicTo c0 c1 p1])"

section \<open>The smart chooser\<close>

datatype EdgeCategory =
  Cat_identity | Cat_social | Cat_infrastructure | Cat_code | Cat_reasoning | Cat_structural | Cat_temporal

definition SMART_STRAIGHT_DISTANCE :: real where "SMART_STRAIGHT_DISTANCE = 40"
definition SMART_ALIGN_TOLERANCE :: real where "SMART_ALIGN_TOLERANCE = 24"
definition STRAIGHT_DEGRADE_LENGTH :: real where "STRAIGHT_DEGRADE_LENGTH = 40"

definition ORTHOGONAL_CATEGORIES :: "EdgeCategory list" where
  "ORTHOGONAL_CATEGORIES = [Cat_infrastructure, Cat_code, Cat_temporal]"

text \<open>The injected \<open>ObstacleSource\<close> is its \<open>query\<close> function.\<close>

type_synonym obstacle_source = "BBox \<Rightarrow> NodeBox list"

record SmartDecision =
  sd_mode :: RoutingMode
  sd_obstacles :: nat
  sd_push :: "nat option"

definition corridorBBox :: "NodeBox \<Rightarrow> NodeBox \<Rightarrow> BBox" where
  "corridorBBox source target =
     (let a = centerOf source; b = centerOf target
      in \<lparr>minX = min (px a) (px b), minY = min (py a) (py b), maxX = max (px a) (px b), maxY = max (py a) (py b)\<rparr>)"

definition countObstacles :: "NodeBox \<Rightarrow> NodeBox \<Rightarrow> obstacle_source option \<Rightarrow> nat" where
  "countObstacles source target obstacles =
     (case obstacles of None \<Rightarrow> 0
      | Some query \<Rightarrow>
          (let bbox = corridorBBox source target
           in length (filter (\<lambda>b. nb_id b \<noteq> nb_id source \<and> nb_id b \<noteq> nb_id target \<and> bboxIntersects bbox (boxToBBox b))
                (query bbox))))"

definition chooseSmartMode ::
  "NodeBox \<Rightarrow> NodeBox \<Rightarrow> EdgeCategory option \<Rightarrow> obstacle_source option \<Rightarrow> SmartDecision" where
  "chooseSmartMode source target category obstacleSource =
     (let a = centerOf source; b = centerOf target; d = hypot (px b - px a) (py b - py a);
          aligned = (\<bar>px b - px a\<bar> < SMART_ALIGN_TOLERANCE \<or> \<bar>py b - py a\<bar> < SMART_ALIGN_TOLERANCE);
          obstacles = countObstacles source target obstacleSource;
          decide = (\<lambda>mode push. \<lparr>sd_mode = mode, sd_obstacles = obstacles, sd_push = push\<rparr>)
      in if d < SMART_STRAIGHT_DISTANCE then decide RM_straight None
         else if aligned \<and> obstacles = 0 then decide RM_straight None
         else if obstacles = 0 then decide RM_curved None
         else if obstacles \<le> 2
         then (if (\<exists>c \<in> set_option category. c \<in> set ORTHOGONAL_CATEGORIES) then decide RM_orthogonal None
               else decide RM_curved (Some (40 + 12 * obstacles)))
         else decide RM_orthogonal None)"

definition degradesToStraight :: "real \<Rightarrow> real \<Rightarrow> bool" where
  "degradesToStraight worldLength zoom \<longleftrightarrow> worldLength * zoom < STRAIGHT_DEGRADE_LENGTH"

section \<open>Facts\<close>

text \<open>A group of parallel edges is centred on the line one edge would take, its members one step apart.\<close>

lemma siblingOffset_mirror:
  "1 \<le> n \<Longrightarrow> 0 \<le> i \<Longrightarrow> i < n \<Longrightarrow> siblingOffset i n sep + siblingOffset (n - 1 - i) n sep = 0"
  by (auto simp: siblingOffset_def Let_def min_def max_def field_simps)

lemma siblingOffset_step:
  "0 \<le> i \<Longrightarrow> i + 1 < n \<Longrightarrow> siblingOffset (i + 1) n sep = siblingOffset i n sep + sep"
proof -
  assume i: "0 \<le> i" "i + 1 < n"
  then have "max 0 (min (n - 1) (i + 1)) = i + 1" "max 0 (min (n - 1) i) = i" by auto
  then show ?thesis using i by (simp add: siblingOffset_def Let_def algebra_simps)
qed

lemma bundledSeparation_bounds: "0 \<le> sep \<Longrightarrow> 0 \<le> bundledSeparation n d sep \<and> bundledSeparation n d sep \<le> sep"
  by (auto simp: bundledSeparation_def min_def max_def mult_left_le)

text \<open>Self-loops on one card: two different indices never share side and radius.\<close>

lemma selfLoop_distinct:
  assumes "0 \<le> i" "0 \<le> j" "selfLoopSide i = selfLoopSide j" "selfLoopRadius i = selfLoopRadius j"
  shows "i = j"
proof -
  have "i div 4 = j div 4" using assms by (simp add: selfLoopRadius_def SELF_LOOP_RING_STEP_def)
  moreover have "i mod 4 = j mod 4"
  proof -
    have side: "selfLoopSide k = (if k mod 4 = 0 then PS_right else if k mod 4 = 1 then PS_top else if k mod 4 = 2 then PS_left else PS_bottom)" for k
    proof -
      have "k mod 4 \<in> {0, 1, 2, 3}" by (auto simp: mod_eq_0_iff_dvd) presburger
      then show ?thesis by (auto simp: selfLoopSide_def SIDE_CYCLE_def)
    qed
    have "k mod 4 \<in> {0, 1, 2, 3}" for k :: int by (auto simp: mod_eq_0_iff_dvd) presburger
    from this [of i] this [of j] show ?thesis using assms(3) unfolding side by (auto split: if_splits)
  qed
  ultimately show ?thesis by (metis mult_div_mod_eq)
qed

text \<open>A port lies on the border of its card, on the side it names.\<close>

definition on_side :: "NodeBox \<Rightarrow> PortSide \<Rightarrow> route_pt \<Rightarrow> bool" where
  "on_side b s p \<longleftrightarrow>
     nb_x b \<le> px p \<and> px p \<le> nb_x b + nb_w b \<and> nb_y b \<le> py p \<and> py p \<le> nb_y b + nb_h b
     \<and> (case s of PS_top \<Rightarrow> py p = nb_y b | PS_bottom \<Rightarrow> py p = nb_y b + nb_h b
          | PS_left \<Rightarrow> px p = nb_x b | PS_right \<Rightarrow> px p = nb_x b + nb_w b)"

lemma portPoint_on_side:
  "0 \<le> nb_w b \<Longrightarrow> 0 \<le> nb_h b \<Longrightarrow> on_side b (port_side q) (portPoint b q)"
  by (auto simp: on_side_def portPoint_def Let_def max_def min_def mult_left_le split: PortSide.splits)

text \<open>A side chosen without a previous one faces the other card: no side is more than the tolerance better.\<close>

lemma best_side_score: "\<exists>s score. best_side d = (s, Some score) \<and> score = pt_dot (sideNormal s) d"
  by (simp add: best_side_def PORT_SIDES_def better_side_def Let_def)

lemma best_side_best:
  "best_side d = (s, Some score) \<Longrightarrow> pt_dot (sideNormal s') d \<le> score + 3 / 1000000"
  by (cases s') (auto simp: best_side_def PORT_SIDES_def better_side_def Let_def pt_dot_def abs_if split: if_splits)

lemma resolvePort_slides: "15 / 100 \<le> port_t (resolvePort a b o' p) \<and> port_t (resolvePort a b o' p) \<le> 85 / 100"
proof -
  have "15 / 100 \<le> max (15 / 100) (min (85 / 100) x) \<and> max (15 / 100) (min (85 / 100) x) \<le> 85 / 100" for x :: real
    by (simp add: max_def min_def)
  then show ?thesis unfolding resolvePort_def Let_def by (cases o') simp_all
qed

text \<open>The side changes during a drag only for a clear gain.\<close>

lemma resolve_side_hysteresis:
  "resolve_side d (Some prev) \<noteq> prev \<Longrightarrow>
     pt_dot (sideNormal prev) d + HYSTERESIS_MARGIN \<le> pt_dot (sideNormal (resolve_side d (Some prev))) d"
  using best_side_score [of d] by (auto simp: resolve_side_def Let_def split: if_splits)

end
