(* ===== verification/RouteHeap.thy ===== *)
theory RouteHeap
  imports Prelude "HOL-Library.Multiset"
begin

text \<open>
  The class \<open>BinaryHeap\<close> at the end of \<open>packages/domain/src/edges/routing/orthogonal.ts\<close>, the queue of
  the router: two parallel arrays, here one list of identifiers with their costs. The interface
  \<open>cost_queue\<close> says what the search relies on and is interpreted on the class.
\<close>

type_synonym id_heap = "(nat \<times> real) list"

definition heap_swap :: "nat \<Rightarrow> nat \<Rightarrow> id_heap \<Rightarrow> id_heap" where
  "heap_swap a b h = h[a := h ! b, b := h ! a]"

definition heap_cost :: "id_heap \<Rightarrow> nat \<Rightarrow> real" where
  "heap_cost h i = snd (h ! i)"

definition heap_parent :: "nat \<Rightarrow> nat" where
  "heap_parent i = (i - 1) div 2"

function sift_up :: "nat \<Rightarrow> id_heap \<Rightarrow> id_heap" where
  "sift_up i h =
     (if i = 0 \<or> heap_cost h (heap_parent i) \<le> heap_cost h i then h
      else sift_up (heap_parent i) (heap_swap i (heap_parent i) h))"
  by pat_completeness auto
termination
  by (relation "measure fst") (auto simp: heap_parent_def)

declare sift_up.simps [simp del]

definition heap_push :: "nat \<Rightarrow> real \<Rightarrow> id_heap \<Rightarrow> id_heap" where
  "heap_push i cost h = sift_up (length h) (h @ [(i, cost)])"

definition smaller_child :: "nat \<Rightarrow> id_heap \<Rightarrow> nat" where
  "smaller_child i h =
     (let l = i * 2 + 1; r = l + 1;
          smallest = (if l < length h \<and> heap_cost h l < heap_cost h i then l else i)
      in if r < length h \<and> heap_cost h r < heap_cost h smallest then r else smallest)"

lemma smaller_child_bounds: "smaller_child i h \<noteq> i \<Longrightarrow> i < smaller_child i h \<and> smaller_child i h < length h"
  by (auto simp: smaller_child_def Let_def split: if_splits)

lemma length_heap_swap [simp]: "length (heap_swap a b h) = length h"
  by (simp add: heap_swap_def)

function sift_down :: "nat \<Rightarrow> id_heap \<Rightarrow> id_heap" where
  "sift_down i h =
     (if smaller_child i h = i then h
      else sift_down (smaller_child i h) (heap_swap i (smaller_child i h) h))"
  by pat_completeness auto
termination
proof (relation "measure (\<lambda>(i, h). length h - i)")
  fix i h
  assume "smaller_child i h \<noteq> i"
  then show "((smaller_child i h, heap_swap i (smaller_child i h) h), i, h) \<in> measure (\<lambda>(i, h). length h - i)"
    using smaller_child_bounds [of i h] by (auto simp: diff_less_mono2)
qed simp

declare sift_down.simps [simp del]

text \<open>\<open>pop\<close>; the class answers \<open>undefined\<close> for an empty heap, here \<open>None\<close>.\<close>

definition heap_pop :: "id_heap \<Rightarrow> (nat \<times> id_heap) option" where
  "heap_pop h =
     (if h = [] then None
      else (let rest = butlast h
            in Some (fst (hd h), if rest = [] then [] else sift_down 0 (rest[0 := last h]))))"

section \<open>The heap order\<close>

definition heap_ok :: "id_heap \<Rightarrow> bool" where
  "heap_ok h \<longleftrightarrow> (\<forall>i < length h. 0 < i \<longrightarrow> heap_cost h (heap_parent i) \<le> heap_cost h i)"

lemma heap_parent_less: "0 < i \<Longrightarrow> heap_parent i < i"
  by (auto simp: heap_parent_def)

lemma heap_cost_swap:
  "a < length h \<Longrightarrow> b < length h \<Longrightarrow>
     heap_cost (heap_swap a b h) k = (if k = a then heap_cost h b else if k = b then heap_cost h a else heap_cost h k)"
  by (auto simp: heap_swap_def heap_cost_def nth_list_update)

lemma mset_heap_swap: "a < length h \<Longrightarrow> b < length h \<Longrightarrow> mset (heap_swap a b h) = mset h"
  unfolding heap_swap_def by (metis mset_swap)

lemma sift_up_ok:
  assumes "i < length h"
    and "\<forall>j < length h. 0 < j \<and> j \<noteq> i \<longrightarrow> heap_cost h (heap_parent j) \<le> heap_cost h j"
    and "\<forall>j < length h. 0 < j \<and> heap_parent j = i \<and> 0 < i \<longrightarrow> heap_cost h (heap_parent i) \<le> heap_cost h j"
  shows "heap_ok (sift_up i h) \<and> mset (sift_up i h) = mset h"
  using assms
proof (induction i h rule: sift_up.induct)
  case (1 i h)
  show ?case
  proof (cases "i = 0 \<or> heap_cost h (heap_parent i) \<le> heap_cost h i")
    case True
    then show ?thesis using "1.prems" by (subst (1 2) sift_up.simps) (auto simp: heap_ok_def)
  next
    case False
    let ?p = "heap_parent i" and ?h = "heap_swap i (heap_parent i) h"
    have p: "?p < i" "?p < length h" using False heap_parent_less [of i] "1.prems"(1) by auto
    note cost = heap_cost_swap [OF "1.prems"(1) p(2)]
    have below: "\<forall>j < length ?h. 0 < j \<and> j \<noteq> ?p \<longrightarrow> heap_cost ?h (heap_parent j) \<le> heap_cost ?h j"
    proof (intro allI impI)
      fix j assume j: "j < length ?h" "0 < j \<and> j \<noteq> ?p"
      show "heap_cost ?h (heap_parent j) \<le> heap_cost ?h j"
      proof (cases "j = i")
        case True
        then show ?thesis using cost False p by simp
      next
        case ji: False
        then have old: "heap_cost h (heap_parent j) \<le> heap_cost h j" using "1.prems"(2) j by simp
        show ?thesis
          using cost ji j old False "1.prems"(3) by (cases "heap_parent j = i"; cases "heap_parent j = ?p") auto
      qed
    qed
    moreover have "\<forall>j < length ?h. 0 < j \<and> heap_parent j = ?p \<and> 0 < ?p \<longrightarrow> heap_cost ?h (heap_parent ?p) \<le> heap_cost ?h j"
    proof (intro allI impI)
      fix j assume j: "j < length ?h" "0 < j \<and> heap_parent j = ?p \<and> 0 < ?p"
      have pp: "heap_cost h (heap_parent ?p) \<le> heap_cost h ?p" using "1.prems"(2) p j by auto
      have "heap_parent ?p < ?p" using j heap_parent_less by simp
      then have 1: "heap_cost ?h (heap_parent ?p) = heap_cost h (heap_parent ?p)" using cost p by simp
      show "heap_cost ?h (heap_parent ?p) \<le> heap_cost ?h j"
      proof (cases "j = i")
        case True
        then show ?thesis using 1 cost pp by simp
      next
        case ji: False
        then have "j \<noteq> ?p" using j heap_parent_less [of j] by auto
        then have "heap_cost ?h j = heap_cost h j" using ji cost by simp
        moreover have "heap_cost h ?p \<le> heap_cost h j" using "1.prems"(2) j ji by auto
        ultimately show ?thesis using 1 pp by simp
      qed
    qed
    ultimately have "heap_ok (sift_up ?p ?h) \<and> mset (sift_up ?p ?h) = mset ?h"
      using "1.IH" [OF False] p by simp
    then show ?thesis using False mset_heap_swap "1.prems"(1) p by (subst (1 2) sift_up.simps) simp
  qed
qed

lemma smaller_child_least:
  "j < length h \<Longrightarrow> 0 < j \<Longrightarrow> heap_parent j = i \<Longrightarrow> heap_cost h (smaller_child i h) \<le> heap_cost h j"
proof -
  assume j: "j < length h" "0 < j" "heap_parent j = i"
  then have "j = i * 2 + 1 \<or> j = i * 2 + 2" by (auto simp: heap_parent_def)
  with j show ?thesis by (auto simp: smaller_child_def Let_def)
qed

lemma smaller_child_parent: "smaller_child i h \<noteq> i \<Longrightarrow> heap_parent (smaller_child i h) = i"
  by (auto simp: smaller_child_def heap_parent_def Let_def split: if_splits)

lemma smaller_child_cost: "smaller_child i h \<noteq> i \<Longrightarrow> heap_cost h (smaller_child i h) < heap_cost h i"
  by (auto simp: smaller_child_def Let_def split: if_splits)

lemma sift_down_ok:
  assumes "i < length h"
    and "\<forall>j < length h. 0 < j \<and> heap_parent j \<noteq> i \<longrightarrow> heap_cost h (heap_parent j) \<le> heap_cost h j"
    and "\<forall>j < length h. 0 < j \<and> heap_parent j = i \<and> 0 < i \<longrightarrow> heap_cost h (heap_parent i) \<le> heap_cost h j"
  shows "heap_ok (sift_down i h) \<and> mset (sift_down i h) = mset h"
  using assms
proof (induction i h rule: sift_down.induct)
  case (1 i h)
  show ?case
  proof (cases "smaller_child i h = i")
    case True
    have "heap_cost h (heap_parent j) \<le> heap_cost h j" if "j < length h" "0 < j" for j
      using that "1.prems"(2) smaller_child_least [OF that refl] True by (cases "heap_parent j = i") auto
    then show ?thesis using True by (subst (1 2) sift_down.simps) (auto simp: heap_ok_def)
  next
    case False
    let ?c = "smaller_child i h" and ?h = "heap_swap i (smaller_child i h) h"
    have c: "i < ?c" "?c < length h" "heap_parent ?c = i" "heap_cost h ?c < heap_cost h i"
      using False smaller_child_bounds smaller_child_parent smaller_child_cost by auto
    note cost = heap_cost_swap [OF "1.prems"(1) c(2)]
    have "\<forall>j < length ?h. 0 < j \<and> heap_parent j \<noteq> ?c \<longrightarrow> heap_cost ?h (heap_parent j) \<le> heap_cost ?h j"
    proof (intro allI impI)
      fix j assume j: "j < length ?h" "0 < j \<and> heap_parent j \<noteq> ?c"
      show "heap_cost ?h (heap_parent j) \<le> heap_cost ?h j"
      proof (cases "heap_parent j = i")
        case True
        then have "heap_cost h ?c \<le> heap_cost h j" using smaller_child_least j by simp
        moreover have "j \<noteq> i" using True j heap_parent_less [of j] by auto
        ultimately show ?thesis using cost True c j by auto
      next
        case ne: False
        then have old: "heap_cost h (heap_parent j) \<le> heap_cost h j" using "1.prems"(2) j by simp
        show ?thesis
        proof (cases "j = i")
          case True
          then have "heap_cost h (heap_parent i) \<le> heap_cost h ?c" using "1.prems"(3) c j by auto
          moreover have "heap_parent i \<noteq> i" using True j heap_parent_less [of i] by auto
          ultimately show ?thesis using True cost j by simp
        next
          case ji: False
          have "j \<noteq> ?c" using ne c by auto
          with ji ne j old show ?thesis by (simp add: cost)
        qed
      qed
    qed
    moreover have "\<forall>j < length ?h. 0 < j \<and> heap_parent j = ?c \<and> 0 < ?c \<longrightarrow> heap_cost ?h (heap_parent ?c) \<le> heap_cost ?h j"
    proof (intro allI impI)
      fix j assume j: "j < length ?h" "0 < j \<and> heap_parent j = ?c \<and> 0 < ?c"
      then have "?c < j" using heap_parent_less by metis
      moreover have "heap_cost h ?c \<le> heap_cost h j" using "1.prems"(2) j c by (metis length_heap_swap nat_neq_iff)
      ultimately show "heap_cost ?h (heap_parent ?c) \<le> heap_cost ?h j" using cost c by simp
    qed
    ultimately have "heap_ok (sift_down ?c ?h) \<and> mset (sift_down ?c ?h) = mset ?h"
      using "1.IH" [OF False] c by simp
    then show ?thesis using False mset_heap_swap [OF "1.prems"(1) c(2)] by (subst (1 2) sift_down.simps) simp
  qed
qed

lemma heap_root_least: "heap_ok h \<Longrightarrow> i < length h \<Longrightarrow> heap_cost h 0 \<le> heap_cost h i"
proof (induction i rule: less_induct)
  case (less i)
  show ?case
  proof (cases "i = 0")
    case False
    then have "heap_cost h 0 \<le> heap_cost h (heap_parent i)" using less heap_parent_less [of i] by auto
    then show ?thesis using less.prems False by (auto simp: heap_ok_def)
  qed simp
qed

lemma heap_push_ok: "heap_ok h \<Longrightarrow> heap_ok (heap_push i c h) \<and> mset (heap_push i c h) = add_mset (i, c) (mset h)"
proof -
  assume ok: "heap_ok h"
  let ?h = "h @ [(i, c)]"
  have cost: "heap_cost ?h j = heap_cost h j" if "j < length h" for j using that by (simp add: heap_cost_def nth_append)
  have "heap_cost ?h (heap_parent j) \<le> heap_cost ?h j" if "j < length ?h" "0 < j \<and> j \<noteq> length h" for j
    using that ok cost heap_parent_less [of j] by (auto simp: heap_ok_def)
  moreover have "heap_parent j \<noteq> length h" if "j < length ?h" "0 < j" for j
    using that heap_parent_less [of j] by auto
  ultimately have "heap_ok (sift_up (length h) ?h) \<and> mset (sift_up (length h) ?h) = mset ?h"
    by (intro sift_up_ok) auto
  then show ?thesis by (simp add: heap_push_def)
qed

lemma heap_pop_ok:
  assumes "heap_ok h" "heap_pop h = Some (i, h')"
  shows "\<exists>c. mset h = add_mset (i, c) (mset h') \<and> heap_ok h' \<and> (\<forall>e \<in> set h. c \<le> snd e)"
proof -
  have ne: "h \<noteq> []" using assms(2) by (auto simp: heap_pop_def)
  let ?rest = "butlast h"
  have i: "hd h = (i, snd (hd h))" using assms(2) ne by (auto simp: heap_pop_def Let_def prod_eq_iff)
  have least: "\<forall>e \<in> set h. snd (hd h) \<le> snd e"
  proof
    fix e assume "e \<in> set h"
    then obtain k where "k < length h" "e = h ! k" by (auto simp: in_set_conv_nth)
    then show "snd (hd h) \<le> snd e" using heap_root_least [OF assms(1)] ne by (simp add: heap_cost_def hd_conv_nth)
  qed
  show ?thesis
  proof (cases "?rest = []")
    case True
    then have "h = [hd h]" using ne by (metis append_butlast_last_id append_Nil list.sel(1))
    moreover have "h' = []" using True assms(2) ne by (auto simp: heap_pop_def Let_def)
    ultimately have "mset h = add_mset (i, snd (hd h)) (mset h')" using i by (metis mset.simps)
    then show ?thesis using least \<open>h' = []\<close> by (auto simp: heap_ok_def)
  next
    case False
    let ?h = "?rest[0 := last h]"
    have h': "h' = sift_down 0 ?h" using assms(2) ne False by (auto simp: heap_pop_def Let_def)
    have len: "length ?h = length h - 1" "0 < length ?h" using False by (simp_all del: butlast.simps add: length_greater_0_conv [symmetric] del: length_greater_0_conv)
    have cost: "heap_cost ?h j = heap_cost h j" if "j < length ?h" "0 < j" for j
      using that len by (simp add: heap_cost_def nth_butlast)
    have "heap_cost ?h (heap_parent j) \<le> heap_cost ?h j" if "j < length ?h" "0 < j \<and> heap_parent j \<noteq> 0" for j
      using that cost [of j] cost [of "heap_parent j"] heap_parent_less [of j] assms(1) len by (auto simp: heap_ok_def)
    then have ok: "heap_ok h' \<and> mset h' = mset ?h" unfolding h' using len by (intro sift_down_ok) auto
    obtain r rs where r: "?rest = r # rs" using False by (cases ?rest) auto
    then have "h = r # rs @ [last h]" using ne by (metis append_butlast_last_id append_Cons)
    moreover have "?h = last h # rs" using r by simp
    ultimately have "mset h = add_mset (hd h) (mset ?h)" by (metis add_mset_commute list.sel(1) mset.simps(2) mset_append union_mset_add_mset_right mset.simps(1) add.right_neutral)
    then show ?thesis using ok least i by metis
  qed
qed

section \<open>The queue interface\<close>

locale cost_queue =
  fixes push :: "nat \<Rightarrow> real \<Rightarrow> 'q \<Rightarrow> 'q"
    and pop :: "'q \<Rightarrow> (nat \<times> 'q) option"
    and entries :: "'q \<Rightarrow> (nat \<times> real) multiset"
    and ok :: "'q \<Rightarrow> bool"
  assumes push_ok: "ok q \<Longrightarrow> ok (push i c q) \<and> entries (push i c q) = add_mset (i, c) (entries q)"
    and pop_None: "pop q = None \<longleftrightarrow> entries q = {#}"
    and pop_Some: "ok q \<Longrightarrow> pop q = Some (i, q') \<Longrightarrow>
       \<exists>c. entries q = add_mset (i, c) (entries q') \<and> ok q' \<and> (\<forall>e \<in># entries q. c \<le> snd e)"
begin

lemma pop_ids: "ok q \<Longrightarrow> pop q = Some (i, q') \<Longrightarrow> fst ` set_mset (entries q) = insert i (fst ` set_mset (entries q')) \<and> ok q'"
  using pop_Some [of q i q'] by auto

lemma push_ids: "ok q \<Longrightarrow> fst ` set_mset (entries (push i c q)) = insert i (fst ` set_mset (entries q))"
  using push_ok [of q i c] by auto

lemma pop_size: "ok q \<Longrightarrow> pop q = Some (i, q') \<Longrightarrow> size (entries q') < size (entries q)"
  using pop_Some [of q i q'] by auto

end

interpretation heap: cost_queue heap_push heap_pop mset heap_ok
proof
  show "heap_ok q \<Longrightarrow> heap_ok (heap_push i c q) \<and> mset (heap_push i c q) = add_mset (i, c) (mset q)" for q i c
    by (rule heap_push_ok)
  show "heap_pop q = None \<longleftrightarrow> mset q = {#}" for q by (simp add: heap_pop_def Let_def)
  show "\<exists>c. mset q = add_mset (i, c) (mset q') \<and> heap_ok q' \<and> (\<forall>e \<in># mset q. c \<le> snd e)"
    if "heap_ok q" "heap_pop q = Some (i, q')" for q i q'
    using heap_pop_ok [OF that] by simp
qed

end
