(* ===== verification/RouteOrthogonal.thy ===== *)
theory RouteOrthogonal
  imports RouteGeometry RouteHeap
begin

text \<open>
  The orthogonal router, \<open>packages/domain/src/edges/routing/orthogonal.ts\<close>: the lattice of the obstacle
  borders, the cheap shapes tried first, the search over the lattice and the four post-processing steps.
  An unreached score (\<open>Infinity\<close>) and an absent predecessor (\<open>-1\<close>) are \<open>None\<close>; the clock is a function
  from the number of the reading to its value.
\<close>

definition TURN_PENALTY :: real where "TURN_PENALTY = 30"
definition EXPANSION_BUDGET :: nat where "EXPANSION_BUDGET = 4000"
definition TIME_BUDGET_MS :: real where "TIME_BUDGET_MS = 6"
definition LANE_PITCH :: real where "LANE_PITCH = 6"
definition REGION_MARGIN :: real where "REGION_MARGIN = 240"

text \<open>The tolerance written \<open>1e-6\<close> throughout the file.\<close>

definition EPS :: real where "EPS = 1 / 1000000"

section \<open>The lattice\<close>

record ObstacleGrid =
  og_xs :: "real list"
  og_ys :: "real list"
  og_blocked :: "bool list"
  og_boxes :: "BBox list"

definition routingRegion :: "route_pt \<Rightarrow> route_pt \<Rightarrow> real \<Rightarrow> BBox" where
  "routingRegion p0 p1 margin =
     inflate_bbox \<lparr>minX = min (px p0) (px p1), minY = min (py p0) (py p1),
              maxX = max (px p0) (px p1), maxY = max (py p0) (py p1)\<rparr> margin"

definition inflateBoxes :: "NodeBox list \<Rightarrow> real \<Rightarrow> BBox list" where
  "inflateBoxes boxes clearance = map (\<lambda>b. inflate_bbox (boxToBBox b) clearance) boxes"

function first_greater_loop :: "real list \<Rightarrow> real \<Rightarrow> nat \<Rightarrow> nat \<Rightarrow> nat" where
  "first_greater_loop vs v lo hi =
     (if lo < hi
      then (let mid = (lo + hi) div 2
            in if vs ! mid > v + EPS then first_greater_loop vs v lo mid
               else first_greater_loop vs v (mid + 1) hi)
      else lo)"
  by pat_completeness auto
termination
  by (relation "measure (\<lambda>(vs, v, lo, hi). hi - lo)") auto

definition firstStrictlyGreater :: "real list \<Rightarrow> real \<Rightarrow> nat" where
  "firstStrictlyGreater vs v = first_greater_loop vs v 0 (length vs)"

function last_less_loop :: "real list \<Rightarrow> real \<Rightarrow> nat \<Rightarrow> nat \<Rightarrow> nat" where
  "last_less_loop vs v lo hi =
     (if lo < hi
      then (let mid = (lo + hi) div 2
            in if vs ! mid < v - EPS then last_less_loop vs v (mid + 1) hi
               else last_less_loop vs v lo mid)
      else lo)"
  by pat_completeness auto
termination
  by (relation "measure (\<lambda>(vs, v, lo, hi). hi - lo)") auto

declare first_greater_loop.simps [simp del] last_less_loop.simps [simp del]

definition lastStrictlyLess :: "real list \<Rightarrow> real \<Rightarrow> int" where
  "lastStrictlyLess vs v = int (last_less_loop vs v 0 (length vs)) - 1"

definition push_unique :: "real list \<Rightarrow> real \<Rightarrow> real list" where
  "push_unique out v = (if out = [] \<or> \<bar>last out - v\<bar> > EPS then out @ [v] else out)"

definition uniqueSorted :: "real list \<Rightarrow> real list" where
  "uniqueSorted vs = foldl push_unique [] (sort vs)"

text \<open>\<open>blocked.fill(1, from, to)\<close>\<close>

definition fill_range :: "nat \<Rightarrow> nat \<Rightarrow> bool list \<Rightarrow> bool list" where
  "fill_range a b marks = map (\<lambda>i. marks ! i \<or> a \<le> i \<and> i < b) [0..<length marks]"

definition mark_box :: "real list \<Rightarrow> real list \<Rightarrow> bool list \<Rightarrow> BBox \<Rightarrow> bool list" where
  "mark_box xs ys marks b =
     (let ix0 = firstStrictlyGreater xs (minX b); ix1 = lastStrictlyLess xs (maxX b)
      in if int ix0 > ix1 then marks
         else (let iy0 = firstStrictlyGreater ys (minY b); iy1 = lastStrictlyLess ys (maxY b)
               in if int iy0 > iy1 then marks
                  else foldl (\<lambda>marks iy. fill_range (iy * length xs + ix0) (iy * length xs + nat ix1 + 1) marks)
                         marks [iy0..<nat iy1 + 1]))"

definition buildObstacleGrid :: "BBox \<Rightarrow> NodeBox list \<Rightarrow> route_pt \<Rightarrow> route_pt \<Rightarrow> real \<Rightarrow> ObstacleGrid" where
  "buildObstacleGrid region boxes p0 p1 clearance =
     (let inflated = inflateBoxes boxes clearance;
          xs = uniqueSorted ([minX region, maxX region, px p0, px p1] @ concat (map (\<lambda>b. [minX b, maxX b]) inflated));
          ys = uniqueSorted ([minY region, maxY region, py p0, py p1] @ concat (map (\<lambda>b. [minY b, maxY b]) inflated))
      in \<lparr>og_xs = xs, og_ys = ys,
          og_blocked = foldl (mark_box xs ys) (replicate (length xs * length ys) False) inflated,
          og_boxes = inflated\<rparr>)"

definition box_blocks :: "route_pt \<Rightarrow> route_pt \<Rightarrow> BBox \<Rightarrow> bool" where
  "box_blocks a b box =
     (let lowX = min (px a) (px b); highX = max (px a) (px b); lowY = min (py a) (py b); highY = max (py a) (py b);
          horizontal = (\<bar>py a - py b\<bar> < EPS); vertical = (\<bar>px a - px b\<bar> < EPS);
          spanX = min highX (maxX box) - max lowX (minX box);
          spanY = min highY (maxY box) - max lowY (minY box)
      in if spanX \<le> EPS \<and> spanY \<le> EPS then False
         else if horizontal then spanX > EPS \<and> py a > minY box + EPS \<and> py a < maxY box - EPS
         else if vertical then spanY > EPS \<and> px a > minX box + EPS \<and> px a < maxX box - EPS
         else spanX > EPS \<and> spanY > EPS)"

definition segmentBlockedBoxes :: "BBox list \<Rightarrow> route_pt \<Rightarrow> route_pt \<Rightarrow> bool" where
  "segmentBlockedBoxes boxes a b \<longleftrightarrow> list_ex (box_blocks a b) boxes"

definition segmentBlocked :: "ObstacleGrid \<Rightarrow> route_pt \<Rightarrow> route_pt \<Rightarrow> bool" where
  "segmentBlocked grid a b = segmentBlockedBoxes (og_boxes grid) a b"

definition latticePointBlocked :: "ObstacleGrid \<Rightarrow> nat \<Rightarrow> nat \<Rightarrow> bool" where
  "latticePointBlocked grid ix iy = og_blocked grid ! (iy * length (og_xs grid) + ix)"

section \<open>Cheap shapes\<close>

definition cheapCandidates :: "route_pt \<Rightarrow> route_pt \<Rightarrow> route_pt list list" where
  "cheapCandidates p0 p1 =
     (let dx = \<bar>px p1 - px p0\<bar>; dy = \<bar>py p1 - py p0\<bar>
      in if dx < EPS \<or> dy < EPS then [[p0, p1]]
         else (let mx = (px p0 + px p1) / 2; my = (py p0 + py p1) / 2;
                   zHorizontal = [p0, pt mx (py p0), pt mx (py p1), p1];
                   zVertical = [p0, pt (px p0) my, pt (px p1) my, p1];
                   lHorizontal = [p0, pt (px p1) (py p0), p1];
                   lVertical = [p0, pt (px p0) (py p1), p1]
               in if dx \<ge> dy then [zHorizontal, lHorizontal, lVertical, zVertical]
                  else [zVertical, lVertical, lHorizontal, zHorizontal]))"

fun run_clear :: "BBox list \<Rightarrow> route_pt list \<Rightarrow> bool" where
  "run_clear boxes (a # b # ps) = (\<not> segmentBlockedBoxes boxes a b \<and> run_clear boxes (b # ps))"
| "run_clear boxes ps = True"

definition firstClearRoute :: "BBox list \<Rightarrow> route_pt \<Rightarrow> route_pt \<Rightarrow> route_pt list option" where
  "firstClearRoute boxes p0 p1 = List.find (run_clear boxes) (cheapCandidates p0 p1)"

definition zRoute :: "route_pt \<Rightarrow> route_pt \<Rightarrow> route_pt list" where
  "zRoute p0 p1 =
     (let dx = \<bar>px p1 - px p0\<bar>; dy = \<bar>py p1 - py p0\<bar>
      in if dx < EPS \<or> dy < EPS then [p0, p1]
         else if dx \<ge> dy
         then (let mx = (px p0 + px p1) / 2 in [p0, pt mx (py p0), pt mx (py p1), p1])
         else (let my = (py p0 + py p1) / 2 in [p0, pt (px p0) my, pt (px p1) my, p1]))"

definition corridorIsClear :: "ObstacleGrid \<Rightarrow> route_pt \<Rightarrow> route_pt \<Rightarrow> bool" where
  "corridorIsClear grid p0 p1 = run_clear (og_boxes grid) (zRoute p0 p1)"

section \<open>The search\<close>

definition isTurn :: "nat \<Rightarrow> nat \<Rightarrow> nat \<Rightarrow> nat \<Rightarrow> bool" where
  "isTurn w a b c \<longleftrightarrow> (a div w = b div w) \<noteq> (b div w = c div w)"

definition heuristic :: "ObstacleGrid \<Rightarrow> nat \<times> nat \<Rightarrow> nat \<times> nat \<Rightarrow> real" where
  "heuristic grid a b =
     \<bar>og_xs grid ! fst a - og_xs grid ! fst b\<bar> + \<bar>og_ys grid ! snd a - og_ys grid ! snd b\<bar>"

definition nearer :: "real list \<Rightarrow> real \<Rightarrow> nat \<times> real option \<Rightarrow> nat \<Rightarrow> nat \<times> real option" where
  "nearer vs v best i =
     (let d = \<bar>vs ! i - v\<bar>
      in case snd best of None \<Rightarrow> (i, Some d) | Some b \<Rightarrow> if d < b then (i, Some d) else best)"

definition nearestIndex :: "real list \<Rightarrow> real \<Rightarrow> nat" where
  "nearestIndex vs v = fst (foldl (nearer vs v) (0, None) [0..<length vs])"

definition nearestLattice :: "ObstacleGrid \<Rightarrow> route_pt \<Rightarrow> nat \<times> nat" where
  "nearestLattice grid p = (nearestIndex (og_xs grid) (px p), nearestIndex (og_ys grid) (py p))"

definition lattice_index :: "ObstacleGrid \<Rightarrow> nat \<times> nat \<Rightarrow> nat" where
  "lattice_index grid c = snd c * length (og_xs grid) + fst c"

definition lattice_point :: "ObstacleGrid \<Rightarrow> nat \<Rightarrow> route_pt" where
  "lattice_point grid i =
     pt (og_xs grid ! (i mod length (og_xs grid))) (og_ys grid ! (i div length (og_xs grid)))"

definition NEIGHBOURS :: "(int \<times> int) list" where
  "NEIGHBOURS = [(1, 0), (- 1, 0), (0, 1), (0, - 1)]"

record search_state =
  gScore :: "real option list"
  cameFrom :: "nat option list"
  closed_marks :: "bool list"
  open_heap :: id_heap
  expansions :: nat

definition start_search :: "ObstacleGrid \<Rightarrow> nat \<times> nat \<Rightarrow> nat \<times> nat \<Rightarrow> search_state" where
  "start_search grid start goal =
     (let size = length (og_xs grid) * length (og_ys grid); i = lattice_index grid start
      in \<lparr>gScore = (replicate size None)[i := Some 0], cameFrom = replicate size None,
          closed_marks = replicate size False, open_heap = heap_push i (heuristic grid start goal) [],
          expansions = 0\<rparr>)"

text \<open>One iteration of the loop over \<open>NEIGHBOURS\<close>; \<open>prev\<close> is read once, before the loop.\<close>

definition neighbour_of :: "ObstacleGrid \<Rightarrow> nat \<Rightarrow> int \<times> int \<Rightarrow> (nat \<times> nat) option" where
  "neighbour_of grid current d =
     (let w = length (og_xs grid);
          nx = int (current mod w) + fst d; ny = int (current div w) + snd d
      in if nx < 0 \<or> ny < 0 \<or> nx \<ge> int w \<or> ny \<ge> int (length (og_ys grid)) then None
         else Some (nat nx, nat ny))"

definition relax ::
  "ObstacleGrid \<Rightarrow> nat \<times> nat \<Rightarrow> nat \<Rightarrow> nat option \<Rightarrow> search_state \<Rightarrow> int \<times> int \<Rightarrow> search_state" where
  "relax grid goal current prev st d =
     (case neighbour_of grid current d of None \<Rightarrow> st
      | Some c \<Rightarrow>
         (let nIdx = lattice_index grid c
          in if og_blocked grid ! nIdx \<or> closed_marks st ! nIdx then st
             else (let cur = lattice_point grid current; nxt = pt (og_xs grid ! fst c) (og_ys grid ! snd c)
                   in if segmentBlocked grid cur nxt then st
                      else case gScore st ! current of None \<Rightarrow> st
                      | Some g \<Rightarrow>
                         (let turn = (case prev of None \<Rightarrow> 0
                                      | Some p \<Rightarrow> if isTurn (length (og_xs grid)) p current nIdx then TURN_PENALTY else 0);
                              tentative = g + hypot (px nxt - px cur) (py nxt - py cur) + turn
                          in if (\<exists>old \<in> set_option (gScore st ! nIdx). old \<le> tentative) then st
                             else st\<lparr>gScore := (gScore st)[nIdx := Some tentative],
                                     cameFrom := (cameFrom st)[nIdx := Some current],
                                     open_heap := heap_push nIdx (tentative + heuristic grid c goal) (open_heap st)\<rparr>))))"

definition expand_node :: "ObstacleGrid \<Rightarrow> nat \<times> nat \<Rightarrow> nat \<Rightarrow> search_state \<Rightarrow> search_state" where
  "expand_node grid goal current st =
     foldl (relax grid goal current (cameFrom st ! current)) st NEIGHBOURS"

definition close_node :: "nat \<Rightarrow> search_state \<Rightarrow> search_state" where
  "close_node current st =
     st\<lparr>closed_marks := (closed_marks st)[current := True], expansions := expansions st + 1\<rparr>"

lemma expansions_relax [simp]: "expansions (relax grid goal current prev st d) = expansions st"
  by (simp add: relax_def Let_def split: option.splits prod.splits)

lemma expansions_expand [simp]: "expansions (expand_node grid goal current st) = expansions st"
  by (simp add: expand_node_def NEIGHBOURS_def)

datatype search_end = Found | Out_of_budget | Exhausted

lemma heap_pop_shrinks: "heap_pop h = Some (i, h') \<Longrightarrow> length h' < length h"
proof -
  assume "heap_pop h = Some (i, h')"
  moreover have "length (sift_down j r) = length r" for j r
  proof (induction j r rule: sift_down.induct)
    case (1 j r)
    then show ?case by (subst sift_down.simps) simp
  qed
  ultimately show ?thesis by (auto simp: heap_pop_def Let_def split: if_splits)
qed

text \<open>
  The \<open>while\<close> loop. Reading number 0 of the clock sets the deadline, and each expansion within the
  budget reads it once more.
\<close>

function search_loop ::
  "ObstacleGrid \<Rightarrow> nat \<times> nat \<Rightarrow> (nat \<Rightarrow> real) \<Rightarrow> search_state \<Rightarrow> search_end \<times> search_state" where
  "search_loop grid goal now st =
     (case heap_pop (open_heap st) of None \<Rightarrow> (Exhausted, st)
      | Some (current, rest) \<Rightarrow>
         (let st1 = st\<lparr>open_heap := rest\<rparr>
          in if current = lattice_index grid goal then (Found, st1)
             else if closed_marks st1 ! current then search_loop grid goal now st1
             else (let st2 = close_node current st1
                   in if expansions st2 > EXPANSION_BUDGET \<or> now (expansions st2) > now 0 + TIME_BUDGET_MS
                      then (Out_of_budget, st2)
                      else search_loop grid goal now (expand_node grid goal current st2))))"
  by pat_completeness auto

termination
  by (relation "measures [\<lambda>(grid, goal, now, st). EXPANSION_BUDGET + 1 - expansions st,
        \<lambda>(grid, goal, now, st). length (open_heap st)]")
     (auto simp: heap_pop_shrinks close_node_def)

declare search_loop.simps [simp del]

text \<open>The walk back over \<open>cameFrom\<close>, from the goal to the start.\<close>

partial_function (option) trace_back :: "nat option list \<Rightarrow> nat \<Rightarrow> nat \<Rightarrow> nat list option" where
  "trace_back from start i =
     (if i = start then Some [i]
      else case from ! i of None \<Rightarrow> Some [i]
           | Some p \<Rightarrow> Option.bind (trace_back from start p) (\<lambda>rest. Some (i # rest)))"

section \<open>Post-processing\<close>

definition same_pt :: "route_pt \<Rightarrow> route_pt \<Rightarrow> bool" where
  "same_pt a b \<longleftrightarrow> \<bar>px a - px b\<bar> < EPS \<and> \<bar>py a - py b\<bar> < EPS"

definition collinear_run :: "route_pt \<Rightarrow> route_pt \<Rightarrow> route_pt \<Rightarrow> bool" where
  "collinear_run a b c \<longleftrightarrow>
     \<bar>py a - py b\<bar> < EPS \<and> \<bar>py b - py c\<bar> < EPS \<or> \<bar>px a - px b\<bar> < EPS \<and> \<bar>px b - px c\<bar> < EPS"

text \<open>One point of \<open>collapseCollinear\<close>; \<open>out\<close> is kept last point first.\<close>

fun collapse_push :: "route_pt list \<Rightarrow> route_pt \<Rightarrow> route_pt list" where
  "collapse_push [] p = [p]"
| "collapse_push (b # out) p =
     (if same_pt b p then b # out
      else case out of [] \<Rightarrow> [p, b]
           | a # out' \<Rightarrow> if collinear_run a b p then p # out else p # b # out)"

definition collapseCollinear :: "route_pt list \<Rightarrow> route_pt list" where
  "collapseCollinear points = rev (foldl collapse_push [] points)"

definition simplify_clear :: "ObstacleGrid option \<Rightarrow> route_pt \<Rightarrow> route_pt \<Rightarrow> bool" where
  "simplify_clear grid a b = (case grid of None \<Rightarrow> True | Some g \<Rightarrow> \<not> segmentBlocked g a b)"

definition find_corner :: "ObstacleGrid option \<Rightarrow> route_pt \<Rightarrow> route_pt \<Rightarrow> route_pt option" where
  "find_corner grid a d =
     List.find (\<lambda>c. \<not> (same_pt c a \<or> same_pt c d) \<and> simplify_clear grid a c \<and> simplify_clear grid c d)
       [pt (px a) (py d), pt (px d) (py a)]"

fun simplify_pass :: "ObstacleGrid option \<Rightarrow> route_pt list \<Rightarrow> route_pt list" where
  "simplify_pass grid (a # b # c # d # ps) =
     (case find_corner grid a d of
        Some corner \<Rightarrow> a # corner # simplify_pass grid (d # ps)
      | None \<Rightarrow> a # simplify_pass grid (b # c # d # ps))"
| "simplify_pass grid ps = ps"

definition simplify :: "ObstacleGrid option \<Rightarrow> route_pt list \<Rightarrow> route_pt list" where
  "simplify grid points =
     (let once = collapseCollinear (simplify_pass grid points)
      in collapseCollinear (simplify_pass grid once))"

record OrthogonalResult =
  or_points :: "route_pt list"
  or_degraded :: bool

definition routeOrthogonal :: "ObstacleGrid \<Rightarrow> route_pt \<Rightarrow> route_pt \<Rightarrow> (nat \<Rightarrow> real) \<Rightarrow> OrthogonalResult option" where
  "routeOrthogonal grid from to now =
     (let start = nearestLattice grid from; goal = nearestLattice grid to;
          fallback = Some \<lparr>or_points = zRoute from to, or_degraded = True\<rparr>
      in if length (og_xs grid) * length (og_ys grid) = 0 then fallback
         else case search_loop grid goal now (start_search grid start goal) of
           (Found, st) \<Rightarrow>
             map_option (\<lambda>path. \<lparr>or_points =
                 simplify (Some grid) (collapseCollinear (from # rev (map (lattice_point grid) path) @ [to])),
                 or_degraded = False\<rparr>)
               (trace_back (cameFrom st) (lattice_index grid start) (lattice_index grid goal))
         | _ \<Rightarrow> fallback)"

text \<open>\<open>Math.round\<close> rounds half up.\<close>

definition snap_value :: "real \<Rightarrow> real \<Rightarrow> real" where
  "snap_value pitch v = of_int \<lfloor>v / pitch + 1 / 2\<rfloor> * pitch"

definition snap_segment :: "real \<Rightarrow> route_pt list \<Rightarrow> nat \<Rightarrow> route_pt list" where
  "snap_segment pitch out i =
     (let a = out ! i; b = out ! (i + 1)
      in if \<bar>px a - px b\<bar> < EPS
         then (let x = snap_value pitch (px a) in out[i := pt x (py a), i + 1 := pt x (py b)])
         else if \<bar>py a - py b\<bar> < EPS
         then (let y = snap_value pitch (py a) in out[i := pt (px a) y, i + 1 := pt (px b) y])
         else out)"

definition snapToLanes :: "route_pt list \<Rightarrow> real \<Rightarrow> route_pt list" where
  "snapToLanes points pitch =
     (if length points \<le> 3 then points
      else foldl (snap_segment pitch) points [1..<length points - 2])"

definition towards :: "route_pt \<Rightarrow> route_pt \<Rightarrow> real \<Rightarrow> route_pt" where
  "towards from to d =
     (let l = pt_distance from to
      in if l < EPS then from
         else pt (px from + ((px to - px from) / l) * d) (py from + ((py to - py from) / l) * d))"

definition round_corner :: "route_pt list \<Rightarrow> real \<Rightarrow> nat \<Rightarrow> PathCommand list" where
  "round_corner points radius i =
     (let prev = points ! (i - 1); corner = points ! i; nxt = points ! (i + 1);
          rIn = min radius (pt_distance prev corner / 2);
          rOut = min radius (pt_distance corner nxt / 2)
      in [LineTo (towards corner prev rIn), QuadTo corner (towards corner nxt rOut)])"

definition roundCorners :: "route_pt list \<Rightarrow> real \<Rightarrow> PathCommand list" where
  "roundCorners points radius =
     (if length points < 3 \<or> radius \<le> 0 then MoveTo (points ! 0) # map LineTo (tl points)
      else [MoveTo (points ! 0)] @ concat (map (round_corner points radius) [1..<length points - 1])
             @ [LineTo (last points)])"

end
