(* ===== verification/RouteSearch.thy ===== *)
theory RouteSearch
  imports RouteOrthogonal
begin

text \<open>
  What the lattice search of \<open>RouteOrthogonal\<close> guarantees: the invariant of its arrays, the meaning of
  each of its three ends, and the walk back to the start.
\<close>

abbreviation lattice_size :: "ObstacleGrid \<Rightarrow> nat" where
  "lattice_size grid \<equiv> length (og_xs grid) * length (og_ys grid)"

text \<open>An admissible move of the search.\<close>

definition lattice_step :: "ObstacleGrid \<Rightarrow> nat \<Rightarrow> nat \<Rightarrow> bool" where
  "lattice_step grid i j \<longleftrightarrow>
     (\<exists>d \<in> set NEIGHBOURS. \<exists>c. neighbour_of grid i d = Some c \<and> j = lattice_index grid c
        \<and> \<not> og_blocked grid ! j \<and> \<not> segmentBlocked grid (lattice_point grid i) (lattice_point grid j))"

abbreviation lattice_path :: "ObstacleGrid \<Rightarrow> nat \<Rightarrow> nat \<Rightarrow> bool" where
  "lattice_path grid \<equiv> (lattice_step grid)\<^sup>*\<^sup>*"

lemma neighbour_of_bounds:
  "neighbour_of grid i d = Some c \<Longrightarrow> fst c < length (og_xs grid) \<and> snd c < length (og_ys grid)"
  by (auto simp: neighbour_of_def Let_def nat_less_iff split: if_splits)

lemma lattice_index_less: "fst c < length (og_xs grid) \<Longrightarrow> snd c < length (og_ys grid) \<Longrightarrow> lattice_index grid c < lattice_size grid"
proof -
  assume a: "fst c < length (og_xs grid)" "snd c < length (og_ys grid)"
  have "snd c * length (og_xs grid) + fst c < Suc (snd c) * length (og_xs grid)" using a by simp
  also have "\<dots> \<le> length (og_ys grid) * length (og_xs grid)" using a by (intro mult_le_mono1) simp
  finally show ?thesis by (simp add: lattice_index_def mult.commute)
qed

lemma lattice_point_index:
  "fst c < length (og_xs grid) \<Longrightarrow> lattice_point grid (lattice_index grid c) = pt (og_xs grid ! fst c) (og_ys grid ! snd c)"
  by (cases "length (og_xs grid) = 0") (auto simp: lattice_point_def lattice_index_def)

lemma lattice_step_less: "lattice_step grid i j \<Longrightarrow> j < lattice_size grid"
  by (auto simp: lattice_step_def dest!: neighbour_of_bounds intro: lattice_index_less)

text \<open>The walk that \<open>cameFrom\<close> describes, newest point first: every predecessor is closed.\<close>

inductive trail :: "ObstacleGrid \<Rightarrow> nat option list \<Rightarrow> bool list \<Rightarrow> nat \<Rightarrow> nat \<Rightarrow> nat list \<Rightarrow> bool"
  for grid preds marks start where
  trail_start: "trail grid preds marks start start [start]"
| trail_step: "trail grid preds marks start p path \<Longrightarrow> i \<noteq> start \<Longrightarrow> preds ! i = Some p \<Longrightarrow> marks ! p
     \<Longrightarrow> lattice_step grid p i \<Longrightarrow> trail grid preds marks start i (i # path)"

inductive_cases trail_Cons: "trail grid preds marks start i (j # path)"

lemma trail_trace_back: "trail grid preds marks start i path \<Longrightarrow> trace_back preds start i = Some path"
  by (induction rule: trail.induct) (simp_all add: trace_back.simps [of preds start])

lemma trail_ends: "trail grid preds marks start i path \<Longrightarrow> path \<noteq> [] \<and> hd path = i \<and> last path = start"
  by (induction rule: trail.induct) auto

lemma trail_steps: "trail grid preds marks start i path \<Longrightarrow> successively (\<lambda>j p. lattice_step grid p j) path"
proof (induction rule: trail.induct)
  case (trail_step p path i)
  then show ?case using trail_ends [OF trail_step.hyps(1)] by (cases path) auto
qed simp

lemma trail_frame:
  assumes "trail grid preds marks start i path" "i \<noteq> n" "\<not> marks ! n"
  shows "trail grid (preds[n := v]) marks start i path"
  using assms
proof (induction rule: trail.induct)
  case (trail_step p path i)
  moreover have "p \<noteq> n" using trail_step by auto
  ultimately show ?case by (auto intro!: trail.trail_step)
qed (simp add: trail.trail_start)

lemma trail_mono:
  "trail grid preds marks start i path \<Longrightarrow> (\<And>k. marks ! k \<Longrightarrow> marks' ! k) \<Longrightarrow> trail grid preds marks' start i path"
  by (induction rule: trail.induct) (auto intro: trail.intros)

section \<open>The invariant\<close>

abbreviation open_ids :: "search_state \<Rightarrow> nat set" where
  "open_ids st \<equiv> fst ` set (open_heap st)"

definition search_ok :: "ObstacleGrid \<Rightarrow> nat \<Rightarrow> search_state \<Rightarrow> bool" where
  "search_ok grid start st \<longleftrightarrow>
     length (gScore st) = lattice_size grid \<and> length (cameFrom st) = lattice_size grid
     \<and> length (closed_marks st) = lattice_size grid \<and> heap_ok (open_heap st)
     \<and> start < lattice_size grid \<and> gScore st ! start \<noteq> None
     \<and> (\<forall>i \<in> open_ids st. i < lattice_size grid \<and> gScore st ! i \<noteq> None)
     \<and> (\<forall>i < lattice_size grid. closed_marks st ! i \<longrightarrow> gScore st ! i \<noteq> None)
     \<and> (\<forall>i < lattice_size grid. gScore st ! i \<noteq> None
          \<longrightarrow> (\<exists>path. trail grid (cameFrom st) (closed_marks st) start i path))
     \<and> expansions st = length (filter id (closed_marks st))"

lemma search_ok_trail:
  "search_ok grid start st \<Longrightarrow> i < lattice_size grid \<Longrightarrow> gScore st ! i \<noteq> None
     \<Longrightarrow> \<exists>path. trail grid (cameFrom st) (closed_marks st) start i path"
  by (simp add: search_ok_def)

lemma search_ok_closed:
  "search_ok grid start st \<Longrightarrow> i < lattice_size grid \<Longrightarrow> closed_marks st ! i \<Longrightarrow> gScore st ! i \<noteq> None"
  by (simp add: search_ok_def)

definition frontier_ok :: "ObstacleGrid \<Rightarrow> search_state \<Rightarrow> bool" where
  "frontier_ok grid st \<longleftrightarrow>
     (\<forall>i < lattice_size grid. gScore st ! i \<noteq> None \<longrightarrow> closed_marks st ! i \<or> i \<in> open_ids st)"

definition expanded_ok :: "ObstacleGrid \<Rightarrow> nat set \<Rightarrow> search_state \<Rightarrow> bool" where
  "expanded_ok grid S st \<longleftrightarrow>
     (\<forall>i \<in> S. \<forall>j. lattice_step grid i j \<longrightarrow> gScore st ! j \<noteq> None)"

definition closed_set :: "ObstacleGrid \<Rightarrow> search_state \<Rightarrow> nat set" where
  "closed_set grid st = {i. i < lattice_size grid \<and> closed_marks st ! i}"

section \<open>One relaxation\<close>

lemma heap_push_ids: "heap_ok h \<Longrightarrow> fst ` set (heap_push i c h) = insert i (fst ` set h)"
  using heap.push_ids [of h i c] by simp

definition relax_update :: "ObstacleGrid \<Rightarrow> nat \<times> nat \<Rightarrow> nat \<Rightarrow> nat \<times> nat \<Rightarrow> real \<Rightarrow> search_state \<Rightarrow> search_state" where
  "relax_update grid goal current c tentative st =
     st\<lparr>gScore := (gScore st)[lattice_index grid c := Some tentative],
        cameFrom := (cameFrom st)[lattice_index grid c := Some current],
        open_heap := heap_push (lattice_index grid c) (tentative + heuristic grid c goal) (open_heap st)\<rparr>"

lemma relax_cases:
  obtains (same) "relax grid goal current prev st d = st"
      "\<And>c. neighbour_of grid current d = Some c \<Longrightarrow> \<not> og_blocked grid ! lattice_index grid c
         \<Longrightarrow> \<not> segmentBlocked grid (lattice_point grid current) (lattice_point grid (lattice_index grid c))
         \<Longrightarrow> closed_marks st ! lattice_index grid c \<or> gScore st ! current = None \<or> gScore st ! lattice_index grid c \<noteq> None"
  | (update) c t where "neighbour_of grid current d = Some c" "\<not> og_blocked grid ! lattice_index grid c"
      "\<not> closed_marks st ! lattice_index grid c"
      "\<not> segmentBlocked grid (lattice_point grid current) (lattice_point grid (lattice_index grid c))"
      "relax grid goal current prev st d = relax_update grid goal current c t st"
proof (cases "neighbour_of grid current d")
  case None
  then show ?thesis using same by (simp add: relax_def)
next
  case (Some c)
  have p: "lattice_point grid (lattice_index grid c) = pt (og_xs grid ! fst c) (og_ys grid ! snd c)"
    using neighbour_of_bounds [OF Some] lattice_point_index by blast
  show ?thesis
  proof (cases "og_blocked grid ! lattice_index grid c \<or> closed_marks st ! lattice_index grid c
      \<or> segmentBlocked grid (lattice_point grid current) (lattice_point grid (lattice_index grid c))
      \<or> gScore st ! current = None")
    case True
    then show ?thesis using same Some p by (auto simp: relax_def Let_def)
  next
    case False
    then obtain g where g: "gScore st ! current = Some g" by auto
    define t where "t = g + hypot (og_xs grid ! fst c - px (lattice_point grid current))
        (og_ys grid ! snd c - py (lattice_point grid current))
        + (case prev of None \<Rightarrow> 0 | Some p \<Rightarrow> if isTurn (length (og_xs grid)) p current (lattice_index grid c) then TURN_PENALTY else 0)"
    have r: "relax grid goal current prev st d
        = (if \<exists>old \<in> set_option (gScore st ! lattice_index grid c). old \<le> t then st
           else relax_update grid goal current c t st)"
      using False Some p g by (simp add: relax_def Let_def relax_update_def t_def)
    show ?thesis
    proof (cases "\<exists>old \<in> set_option (gScore st ! lattice_index grid c). old \<le> t")
      case True
      then show ?thesis using r Some by (intro same) auto
    next
      case new: False
      then show ?thesis using r False by (intro update [OF Some]) auto
    qed
  qed
qed

lemma update_ok:
  assumes ok: "search_ok grid start st" and cur: "current < lattice_size grid" "closed_marks st ! current"
    and c: "neighbour_of grid current d = Some c" "d \<in> set NEIGHBOURS" "\<not> og_blocked grid ! lattice_index grid c"
      "\<not> closed_marks st ! lattice_index grid c"
      "\<not> segmentBlocked grid (lattice_point grid current) (lattice_point grid (lattice_index grid c))"
  shows "search_ok grid start (relax_update grid goal current c t st)"
proof -
  let ?n = "lattice_index grid c" and ?st = "relax_update grid goal current c t st"
  have n: "?n < lattice_size grid" using neighbour_of_bounds [OF c(1)] lattice_index_less by blast
  have step: "lattice_step grid current ?n" using c unfolding lattice_step_def by blast
  have hp: "heap_ok (open_heap st)" using ok by (simp add: search_ok_def)
  have heap: "heap_ok (open_heap ?st)" "open_ids ?st = insert ?n (open_ids st)"
    using heap_push_ok [OF hp] heap_push_ids [OF hp] by (simp_all add: relax_update_def)
  obtain path where path: "trail grid (cameFrom st) (closed_marks st) start current path"
    using ok cur by (auto simp: search_ok_def)
  have ne: "current \<noteq> ?n" using cur c by auto
  have trails: "\<exists>path. trail grid (cameFrom ?st) (closed_marks ?st) start i path"
    if i: "i < lattice_size grid" "gScore ?st ! i \<noteq> None" for i
  proof (cases "i = ?n")
    case True
    show ?thesis
    proof (cases "?n = start")
      case False
      have "trail grid ((cameFrom st)[?n := Some current]) (closed_marks st) start ?n (?n # path)"
        using trail_frame [OF path ne c(4)] False n ok cur step
        by (intro trail.trail_step) (auto simp: search_ok_def)
      then show ?thesis using True by (auto simp: relax_update_def)
    qed (use True trail_start in blast)
  next
    case False
    then have "gScore st ! i \<noteq> None" using i(2) by (simp add: relax_update_def)
    then obtain path' where "trail grid (cameFrom st) (closed_marks st) start i path'"
      using search_ok_trail [OF ok i(1)] by blast
    from trail_frame [OF this False c(4), of "Some current"]
    show ?thesis by (auto simp: relax_update_def)
  qed
  have "\<forall>i \<in> open_ids ?st. i < lattice_size grid \<and> gScore ?st ! i \<noteq> None"
    unfolding heap(2) using ok n by (auto simp: relax_update_def search_ok_def nth_list_update)
  moreover have "\<forall>i < lattice_size grid. closed_marks ?st ! i \<longrightarrow> gScore ?st ! i \<noteq> None"
    using ok n by (auto simp: relax_update_def search_ok_def nth_list_update)
  moreover have "gScore ?st ! start \<noteq> None" using ok n by (auto simp: relax_update_def search_ok_def nth_list_update)
  ultimately show ?thesis unfolding search_ok_def using ok heap(1) trails
    by (simp add: search_ok_def) (simp add: relax_update_def)
qed

definition relax_keeps :: "ObstacleGrid \<Rightarrow> nat \<Rightarrow> search_state \<Rightarrow> search_state \<Rightarrow> bool" where
  "relax_keeps grid start st st' \<longleftrightarrow>
     search_ok grid start st' \<and> closed_marks st' = closed_marks st
     \<and> (frontier_ok grid st \<longrightarrow> frontier_ok grid st')
     \<and> (\<forall>i. gScore st ! i \<noteq> None \<longrightarrow> gScore st' ! i \<noteq> None)"

lemma relax_keeps_refl: "search_ok grid start st \<Longrightarrow> relax_keeps grid start st st"
  by (simp add: relax_keeps_def)

lemma relax_keeps_trans: "relax_keeps grid start a b \<Longrightarrow> relax_keeps grid start b c \<Longrightarrow> relax_keeps grid start a c"
  by (auto simp: relax_keeps_def)

lemma relax_step:
  assumes ok: "search_ok grid start st" and cur: "current < lattice_size grid" "closed_marks st ! current"
    and d: "d \<in> set NEIGHBOURS"
  shows "relax_keeps grid start st (relax grid goal current prev st d)
     \<and> (\<forall>c. neighbour_of grid current d = Some c \<and> \<not> og_blocked grid ! lattice_index grid c
          \<and> \<not> segmentBlocked grid (lattice_point grid current) (lattice_point grid (lattice_index grid c))
          \<longrightarrow> gScore (relax grid goal current prev st d) ! lattice_index grid c \<noteq> None)"
proof (cases rule: relax_cases [of grid goal current prev st d])
  case same
  moreover have "gScore st ! lattice_index grid c \<noteq> None"
    if "neighbour_of grid current d = Some c" "closed_marks st ! lattice_index grid c" for c
    using that ok neighbour_of_bounds [OF that(1)] lattice_index_less by (auto simp: search_ok_def)
  moreover have "gScore st ! current \<noteq> None" using search_ok_closed [OF ok] cur by simp
  ultimately show ?thesis using relax_keeps_refl [OF ok] by metis
next
  case (update c t)
  let ?st = "relax_update grid goal current c t st"
  have n: "lattice_index grid c < lattice_size grid" using neighbour_of_bounds [OF update(1)] lattice_index_less by blast
  have hp: "heap_ok (open_heap st)" using ok by (simp add: search_ok_def)
  have "search_ok grid start ?st" using update_ok [OF ok cur update(1) d update(2,3,4)] .
  moreover have "gScore st ! i \<noteq> None \<Longrightarrow> gScore ?st ! i \<noteq> None" for i
    using n ok by (cases "i = lattice_index grid c") (auto simp: relax_update_def search_ok_def)
  moreover have "frontier_ok grid ?st" if old: "frontier_ok grid st"
    unfolding frontier_ok_def
  proof (intro allI impI)
    fix i assume "i < lattice_size grid" "gScore ?st ! i \<noteq> None"
    then show "closed_marks ?st ! i \<or> i \<in> open_ids ?st"
      using old heap_push_ids [OF hp]
      by (cases "i = lattice_index grid c") (auto simp: frontier_ok_def relax_update_def)
  qed
  moreover have "gScore ?st ! lattice_index grid c \<noteq> None" using n ok by (simp add: relax_update_def search_ok_def)
  ultimately show ?thesis unfolding update(5) using update(1) by (auto simp: relax_keeps_def relax_update_def)
qed

lemma relax_fold:
  assumes "search_ok grid start st" "current < lattice_size grid" "closed_marks st ! current" "set ds \<subseteq> set NEIGHBOURS"
  shows "relax_keeps grid start st (foldl (relax grid goal current prev) st ds)
     \<and> (\<forall>d \<in> set ds. \<forall>c. neighbour_of grid current d = Some c \<and> \<not> og_blocked grid ! lattice_index grid c
          \<and> \<not> segmentBlocked grid (lattice_point grid current) (lattice_point grid (lattice_index grid c))
          \<longrightarrow> gScore (foldl (relax grid goal current prev) st ds) ! lattice_index grid c \<noteq> None)"
  using assms
proof (induction ds rule: rev_induct)
  case (snoc d ds)
  let ?mid = "foldl (relax grid goal current prev) st ds"
  have mid: "relax_keeps grid start st ?mid" using snoc by simp
  have now: "relax_keeps grid start ?mid (relax grid goal current prev ?mid d)
     \<and> (\<forall>c. neighbour_of grid current d = Some c \<and> \<not> og_blocked grid ! lattice_index grid c
          \<and> \<not> segmentBlocked grid (lattice_point grid current) (lattice_point grid (lattice_index grid c))
          \<longrightarrow> gScore (relax grid goal current prev ?mid d) ! lattice_index grid c \<noteq> None)"
    using mid snoc.prems by (intro relax_step) (auto simp: relax_keeps_def)
  then show ?case using mid snoc relax_keeps_trans by (auto simp: relax_keeps_def)
qed (simp add: relax_keeps_refl)

lemma expand_step:
  assumes "search_ok grid start st" "current < lattice_size grid" "closed_marks st ! current"
  shows "relax_keeps grid start st (expand_node grid goal current st)
     \<and> expanded_ok grid {current} (expand_node grid goal current st)"
  using relax_fold [OF assms order_refl, of goal "cameFrom st ! current"]
  by (auto simp: expand_node_def expanded_ok_def lattice_step_def)

section \<open>The loop\<close>

definition loop_ok :: "ObstacleGrid \<Rightarrow> nat \<Rightarrow> nat \<Rightarrow> search_state \<Rightarrow> bool" where
  "loop_ok grid start goal st \<longleftrightarrow>
     search_ok grid start st \<and> frontier_ok grid st \<and> expanded_ok grid (closed_set grid st) st
     \<and> \<not> closed_marks st ! goal \<and> expansions st \<le> EXPANSION_BUDGET"

lemma pop_ok:
  assumes "search_ok grid start st" "heap_pop (open_heap st) = Some (current, rest)"
  shows "search_ok grid start (st\<lparr>open_heap := rest\<rparr>) \<and> open_ids st = insert current (fst ` set rest)
    \<and> current < lattice_size grid \<and> gScore st ! current \<noteq> None"
proof -
  have ids: "open_ids st = insert current (fst ` set rest)" and rest: "heap_ok rest"
    using assms heap.pop_ids [of "open_heap st" current rest] by (simp_all add: search_ok_def)
  have all: "\<forall>i \<in> open_ids st. i < lattice_size grid \<and> gScore st ! i \<noteq> None"
    using assms(1) by (simp add: search_ok_def)
  then have "search_ok grid start (st\<lparr>open_heap := rest\<rparr>)"
    using assms(1) rest ids by (simp add: search_ok_def)
  then show ?thesis using all ids by simp
qed

lemma filter_set_True:
  "i < length bs \<Longrightarrow> \<not> bs ! i \<Longrightarrow> length (filter id (bs[i := True])) = Suc (length (filter id bs))"
proof (induction bs arbitrary: i)
  case (Cons b bs)
  then show ?case by (cases i) auto
qed simp

lemma close_ok:
  assumes "search_ok grid start st" "current < lattice_size grid" "gScore st ! current \<noteq> None" "\<not> closed_marks st ! current"
  shows "search_ok grid start (close_node current st)"
proof -
  have "\<exists>path. trail grid (cameFrom st) ((closed_marks st)[current := True]) start i path"
    if i: "i < lattice_size grid" "gScore st ! i \<noteq> None" for i
  proof -
    obtain path where "trail grid (cameFrom st) (closed_marks st) start i path"
      using search_ok_trail [OF assms(1) i] by blast
    then have "trail grid (cameFrom st) ((closed_marks st)[current := True]) start i path"
      using assms by (rule_tac trail_mono) (auto simp: search_ok_def nth_list_update)
    then show ?thesis by blast
  qed
  then show ?thesis using assms
    by (simp add: search_ok_def close_node_def filter_set_True) (simp add: nth_list_update)
qed

lemma iteration_ok:
  assumes ok: "loop_ok grid start goal st" and pop: "heap_pop (open_heap st) = Some (current, rest)"
    and ne: "current \<noteq> goal"
  shows "closed_marks st ! current \<Longrightarrow> loop_ok grid start goal (st\<lparr>open_heap := rest\<rparr>)"
    and "\<not> closed_marks st ! current \<Longrightarrow> expansions st + 1 \<le> EXPANSION_BUDGET \<Longrightarrow>
      loop_ok grid start goal (expand_node grid g current (close_node current (st\<lparr>open_heap := rest\<rparr>)))"
proof -
  let ?st = "st\<lparr>open_heap := rest\<rparr>"
  have popped: "search_ok grid start ?st" "open_ids st = insert current (fst ` set rest)"
    "current < lattice_size grid" "gScore st ! current \<noteq> None"
    using pop_ok [OF _ pop, of grid start] ok unfolding loop_ok_def by blast+
  show "loop_ok grid start goal ?st" if "closed_marks st ! current"
    using ok popped that by (auto simp: loop_ok_def frontier_ok_def expanded_ok_def closed_set_def)
  show "loop_ok grid start goal (expand_node grid g current (close_node current ?st))"
    if open_: "\<not> closed_marks st ! current" and budget: "expansions st + 1 \<le> EXPANSION_BUDGET"
  proof -
    let ?cl = "close_node current ?st" and ?ex = "expand_node grid g current (close_node current ?st)"
    have len: "length (closed_marks st) = lattice_size grid" using ok by (simp add: loop_ok_def search_ok_def)
    have cl: "search_ok grid start ?cl" using close_ok [OF popped(1)] popped open_ by simp
    have marked: "closed_marks ?cl ! current" using popped len by (simp add: close_node_def)
    have front: "frontier_ok grid ?cl"
      unfolding frontier_ok_def
    proof (intro allI impI)
      fix i assume "i < lattice_size grid" "gScore ?cl ! i \<noteq> None"
      then show "closed_marks ?cl ! i \<or> i \<in> open_ids ?cl"
        using ok popped(2) len by (cases "i = current") (auto simp: loop_ok_def frontier_ok_def close_node_def)
    qed
    have ex: "relax_keeps grid start ?cl ?ex" "expanded_ok grid {current} ?ex"
      using expand_step [OF cl popped(3) marked] by auto
    have "expanded_ok grid (closed_set grid ?ex) ?ex"
      unfolding expanded_ok_def
    proof (intro ballI allI impI)
      fix i j assume i: "i \<in> closed_set grid ?ex" and step: "lattice_step grid i j"
      show "gScore ?ex ! j \<noteq> None"
      proof (cases "i = current")
        case True
        then show ?thesis using ex(2) step by (auto simp: expanded_ok_def)
      next
        case False
        then have "i \<in> closed_set grid st" using i ex(1) by (auto simp: closed_set_def relax_keeps_def close_node_def)
        then have "gScore ?cl ! j \<noteq> None" using ok step by (auto simp: loop_ok_def expanded_ok_def close_node_def)
        then show ?thesis using ex(1) by (auto simp: relax_keeps_def)
      qed
    qed
    moreover have "\<not> closed_marks ?ex ! goal" using ok ne ex(1) by (auto simp: loop_ok_def relax_keeps_def close_node_def)
    ultimately show ?thesis using ex(1) front budget by (auto simp: loop_ok_def relax_keeps_def close_node_def)
  qed
qed

text \<open>When the queue is empty, the closed nodes are closed under admissible moves and miss the goal.\<close>

lemma exhausted_unreachable:
  assumes ok: "loop_ok grid start goal st" and empty: "heap_pop (open_heap st) = None"
  shows "\<not> lattice_path grid start goal"
proof
  have no_ids: "open_heap st = []" using empty heap.pop_None [of "open_heap st"] by simp
  have start: "start \<in> closed_set grid st"
    using ok no_ids by (auto simp: loop_ok_def search_ok_def frontier_ok_def closed_set_def)
  assume "lattice_path grid start goal"
  then have "goal \<in> closed_set grid st"
  proof (induction rule: rtranclp_induct)
    case (step i j)
    then have "gScore st ! j \<noteq> None" using ok by (auto simp: loop_ok_def expanded_ok_def)
    then show ?case using ok no_ids lattice_step_less [OF step(2)] by (auto simp: loop_ok_def frontier_ok_def closed_set_def)
  qed (rule start)
  then show False using ok by (auto simp: loop_ok_def closed_set_def)
qed

definition search_result :: "ObstacleGrid \<Rightarrow> nat \<Rightarrow> nat \<Rightarrow> (nat \<Rightarrow> real) \<Rightarrow> search_end \<times> search_state \<Rightarrow> bool" where
  "search_result grid start goal now r \<longleftrightarrow>
     expansions (snd r) \<le> min (EXPANSION_BUDGET + 1) (lattice_size grid)
     \<and> (case fst r of
          Found \<Rightarrow> \<exists>path. trail grid (cameFrom (snd r)) (closed_marks (snd r)) start goal path
        | Exhausted \<Rightarrow> \<not> lattice_path grid start goal
        | Out_of_budget \<Rightarrow> EXPANSION_BUDGET < expansions (snd r) \<or> now 0 + TIME_BUDGET_MS < now (expansions (snd r)))"

lemma expansions_le_size: "search_ok grid start st \<Longrightarrow> expansions st \<le> lattice_size grid"
  using length_filter_le [of id "closed_marks st"] by (simp add: search_ok_def)

lemma search_loop_result:
  "loop_ok grid start (lattice_index grid goal) st \<Longrightarrow>
     search_result grid start (lattice_index grid goal) now (search_loop grid goal now st)"
proof (induction grid goal now st rule: search_loop.induct)
  case (1 grid goal now st)
  let ?goal = "lattice_index grid goal"
  have ok: "search_ok grid start st" using "1.prems" by (simp add: loop_ok_def)
  show ?case
  proof (cases "heap_pop (open_heap st)")
    case None
    then show ?thesis using exhausted_unreachable [OF "1.prems" None] expansions_le_size [OF ok] "1.prems"
      by (simp add: search_loop.simps [of grid goal now st] search_result_def loop_ok_def)
  next
    case (Some r)
    obtain current rest where r: "r = (current, rest)" by (cases r)
    note pop = Some [unfolded r]
    let ?st = "st\<lparr>open_heap := rest\<rparr>"
    note popped = pop_ok [OF ok pop]
    consider (goal) "current = ?goal" | (skip) "current \<noteq> ?goal" "closed_marks st ! current"
      | (expand) "current \<noteq> ?goal" "\<not> closed_marks st ! current" by blast
    then show ?thesis
    proof cases
      case goal
      then show ?thesis using popped search_ok_trail [of grid start ?st current] expansions_le_size [OF ok] "1.prems" pop
        by (simp add: search_loop.simps [of grid goal now st] search_result_def loop_ok_def)
    next
      case skip
      then show ?thesis using "1.IH"(1) [OF pop refl refl] iteration_ok(1) [OF "1.prems" pop] pop
        by (simp add: search_loop.simps [of grid goal now st])
    next
      case expand
      let ?cl = "close_node current ?st"
      have cl: "search_ok grid start ?cl" using close_ok popped expand by simp
      show ?thesis
      proof (cases "expansions ?cl > EXPANSION_BUDGET \<or> now (expansions ?cl) > now 0 + TIME_BUDGET_MS")
        case True
        then show ?thesis using expand pop expansions_le_size [OF cl] "1.prems"
          by (auto simp: search_loop.simps [of grid goal now st] search_result_def loop_ok_def close_node_def Let_def)
      next
        case False
        then have "loop_ok grid start ?goal (expand_node grid goal current ?cl)"
          using iteration_ok(2) [OF "1.prems" pop] expand by (simp add: close_node_def)
        then show ?thesis using "1.IH"(2) [OF pop refl refl] expand pop False
          by (simp add: search_loop.simps [of grid goal now st] Let_def)
      qed
    qed
  qed
qed

lemma start_ok:
  assumes "fst start < length (og_xs grid)" "snd start < length (og_ys grid)"
  shows "loop_ok grid (lattice_index grid start) g (start_search grid start goal)
     \<or> \<not> g < lattice_size grid"
proof (cases "g < lattice_size grid")
  case True
  let ?i = "lattice_index grid start" and ?st = "start_search grid start goal"
  have i: "?i < lattice_size grid" using assms by (rule lattice_index_less)
  have heap: "heap_ok (open_heap ?st)" "open_ids ?st = {?i}"
    using heap_push_ok [of "[]"] heap_push_ids [of "[]"] by (simp_all add: start_search_def Let_def heap_ok_def)
  have g: "gScore ?st ! j \<noteq> None \<longleftrightarrow> j = ?i" if "j < lattice_size grid" for j
    using that i by (cases "j = ?i") (auto simp: start_search_def Let_def)
  have "search_ok grid ?i ?st"
    unfolding search_ok_def using heap i g trail_start [of grid "cameFrom ?st" "closed_marks ?st" ?i]
    by (simp add: start_search_def Let_def) blast
  moreover have "frontier_ok grid ?st" using heap g by (auto simp: frontier_ok_def)
  ultimately show ?thesis using True
    by (auto simp: loop_ok_def expanded_ok_def closed_set_def start_search_def Let_def)
qed simp

end
