(* ===== verification/RouteClear.thy ===== *)
theory RouteClear
  imports RouteSearch
begin

text \<open>
  What the orthogonal router returns: the lattice of \<open>buildObstacleGrid\<close> against its naive reading, and
  the path of \<open>routeOrthogonal\<close> from end to end.
\<close>

section \<open>The lattice coordinates\<close>

definition spaced :: "real list \<Rightarrow> bool" where
  "spaced xs \<longleftrightarrow> sorted_wrt (\<lambda>a b. a + EPS < b) xs"

lemma EPS_pos [simp]: "0 < EPS"
  by (simp add: EPS_def)

lemma spaced_nth: "spaced xs \<Longrightarrow> i < j \<Longrightarrow> j < length xs \<Longrightarrow> xs ! i + EPS < xs ! j"
  unfolding spaced_def using sorted_wrt_nth_less [of "\<lambda>a b. a + EPS < b" xs i j] by simp

lemma spaced_sorted: "spaced xs \<Longrightarrow> sorted xs"
  unfolding spaced_def by (erule sorted_wrt_mono_rel [rotated]) (use EPS_pos in linarith)

lemma spaced_apart: "spaced xs \<Longrightarrow> a \<in> set xs \<Longrightarrow> b \<in> set xs \<Longrightarrow> \<bar>a - b\<bar> \<le> EPS \<Longrightarrow> a = b"
proof -
  assume s: "spaced xs" and ab: "a \<in> set xs" "b \<in> set xs" "\<bar>a - b\<bar> \<le> EPS"
  obtain i j where "i < length xs" "j < length xs" "a = xs ! i" "b = xs ! j" using ab by (auto simp: in_set_conv_nth)
  then show ?thesis using ab(3) spaced_nth [OF s, of i j] spaced_nth [OF s, of j i] by (cases i j rule: linorder_cases) auto
qed

lemma uniqueSorted_fold:
  "spaced out \<Longrightarrow> sorted vs \<Longrightarrow> (\<forall>a \<in> set out. \<forall>v \<in> set vs. a \<le> v) \<Longrightarrow>
     spaced (foldl push_unique out vs) \<and> set (foldl push_unique out vs) \<subseteq> set out \<union> set vs"
proof (induction vs arbitrary: out)
  case (Cons v vs)
  have "spaced (push_unique out v) \<and> set (push_unique out v) \<subseteq> insert v (set out)"
  proof (cases "out = [] \<or> \<bar>last out - v\<bar> > EPS")
    case True
    have "a + EPS < v" if "a \<in> set out" for a
    proof -
      have "out \<noteq> []" using that by auto
      moreover have "a \<le> last out" using spaced_sorted [OF Cons.prems(1)] that \<open>out \<noteq> []\<close>
        by (metis in_set_conv_nth last_conv_nth less_Suc_eq_le diff_Suc_1 Suc_diff_1 length_greater_0_conv sorted_nth_mono diff_less zero_less_one)
      moreover have "last out \<le> v" using Cons.prems(3) \<open>out \<noteq> []\<close> by auto
      ultimately show ?thesis using True by auto
    qed
    then show ?thesis using True Cons.prems(1) by (auto simp: push_unique_def spaced_def sorted_wrt_append)
  qed (use Cons.prems in \<open>auto simp: push_unique_def\<close>)
  then show ?case using Cons.IH [of "push_unique out v"] Cons.prems by fastforce
qed simp

lemma uniqueSorted_spaced: "spaced (uniqueSorted vs)" and uniqueSorted_subset: "set (uniqueSorted vs) \<subseteq> set vs"
  using uniqueSorted_fold [of "[]" "sort vs"] by (auto simp: uniqueSorted_def spaced_def)

section \<open>The binary searches\<close>

lemma first_greater_loop_iff:
  assumes "sorted xs" "lo \<le> hi" "hi \<le> length xs"
    "\<forall>i < lo. xs ! i \<le> v + EPS" "\<forall>i. hi \<le> i \<and> i < length xs \<longrightarrow> v + EPS < xs ! i"
  shows "first_greater_loop xs v lo hi \<le> length xs
    \<and> (\<forall>i < length xs. first_greater_loop xs v lo hi \<le> i \<longleftrightarrow> v + EPS < xs ! i)"
  using assms
proof (induction xs v lo hi rule: first_greater_loop.induct)
  case (1 xs v lo hi)
  show ?case
  proof (cases "lo < hi")
    case True
    let ?m = "(lo + hi) div 2"
    have m: "lo \<le> ?m" "?m < hi" using True by auto
    show ?thesis
    proof (cases "v + EPS < xs ! ?m")
      case above: True
      have "\<forall>i. ?m \<le> i \<and> i < length xs \<longrightarrow> v + EPS < xs ! i"
        using above "1.prems"(1) by (meson less_le_trans sorted_nth_mono)
      then show ?thesis using "1.IH"(1) [OF True refl] above True m "1.prems"
        by (simp add: first_greater_loop.simps [of xs v lo hi] Let_def)
    next
      case below: False
      have "\<forall>i < Suc ?m. xs ! i \<le> v + EPS"
      proof (intro allI impI)
        fix i assume "i < Suc ?m"
        then have "xs ! i \<le> xs ! ?m" using "1.prems"(1,3) m by (intro sorted_nth_mono) auto
        then show "xs ! i \<le> v + EPS" using below by simp
      qed
      then show ?thesis using "1.IH"(2) [OF True refl] below True m "1.prems"
        by (simp add: first_greater_loop.simps [of xs v lo hi] Let_def)
    qed
  next
    case False
    then have "first_greater_loop xs v lo hi = lo" by (subst first_greater_loop.simps) simp
    moreover have "lo = hi" using False "1.prems"(2) by simp
    moreover have "lo \<le> i \<longleftrightarrow> v + EPS < xs ! i" if "i < length xs" for i
      using that "1.prems"(4) [rule_format, of i] "1.prems"(5) [rule_format, of i] \<open>lo = hi\<close> by (cases "i < lo") auto
    ultimately show ?thesis using "1.prems"(3) by simp
  qed
qed

lemma firstStrictlyGreater_iff:
  "sorted xs \<Longrightarrow> i < length xs \<Longrightarrow> firstStrictlyGreater xs v \<le> i \<longleftrightarrow> v + EPS < xs ! i"
  using first_greater_loop_iff [of xs 0 "length xs" v] by (simp add: firstStrictlyGreater_def)

lemma last_less_loop_iff:
  assumes "sorted xs" "lo \<le> hi" "hi \<le> length xs"
    "\<forall>i < lo. xs ! i < v - EPS" "\<forall>i. hi \<le> i \<and> i < length xs \<longrightarrow> v - EPS \<le> xs ! i"
  shows "last_less_loop xs v lo hi \<le> length xs
    \<and> (\<forall>i < length xs. i < last_less_loop xs v lo hi \<longleftrightarrow> xs ! i < v - EPS)"
  using assms
proof (induction xs v lo hi rule: last_less_loop.induct)
  case (1 xs v lo hi)
  show ?case
  proof (cases "lo < hi")
    case True
    let ?m = "(lo + hi) div 2"
    have m: "lo \<le> ?m" "?m < hi" using True by auto
    show ?thesis
    proof (cases "xs ! ?m < v - EPS")
      case below: True
      have "\<forall>i < Suc ?m. xs ! i < v - EPS"
      proof (intro allI impI)
        fix i assume "i < Suc ?m"
        then have "xs ! i \<le> xs ! ?m" using "1.prems"(1,3) m by (intro sorted_nth_mono) auto
        then show "xs ! i < v - EPS" using below by simp
      qed
      then show ?thesis using "1.IH"(1) [OF True refl] below True m "1.prems"
        by (simp add: last_less_loop.simps [of xs v lo hi] Let_def)
    next
      case above: False
      have "\<forall>i. ?m \<le> i \<and> i < length xs \<longrightarrow> v - EPS \<le> xs ! i"
        using above "1.prems"(1) by (meson not_less order_trans sorted_nth_mono)
      then show ?thesis using "1.IH"(2) [OF True refl] above True m "1.prems"
        by (simp add: last_less_loop.simps [of xs v lo hi] Let_def)
    qed
  next
    case False
    then have "last_less_loop xs v lo hi = lo" by (subst last_less_loop.simps) simp
    moreover have "lo = hi" using False "1.prems"(2) by simp
    moreover have "i < lo \<longleftrightarrow> xs ! i < v - EPS" if "i < length xs" for i
      using that "1.prems"(4) [rule_format, of i] "1.prems"(5) [rule_format, of i] \<open>lo = hi\<close> by (cases "i < lo") auto
    ultimately show ?thesis using "1.prems"(3) by simp
  qed
qed

lemma lastStrictlyLess_iff:
  "sorted xs \<Longrightarrow> i < length xs \<Longrightarrow> int i \<le> lastStrictlyLess xs v \<longleftrightarrow> xs ! i < v - EPS"
  using last_less_loop_iff [of xs 0 "length xs" v] by (auto simp: lastStrictlyLess_def)

lemma lastStrictlyLess_less: "sorted xs \<Longrightarrow> lastStrictlyLess xs v < int (length xs)"
  using last_less_loop_iff [of xs 0 "length xs" v] by (auto simp: lastStrictlyLess_def)

section \<open>Marking\<close>

definition strictly_inside :: "BBox \<Rightarrow> real \<Rightarrow> real \<Rightarrow> bool" where
  "strictly_inside b x y \<longleftrightarrow>
     minX b + EPS < x \<and> x < maxX b - EPS \<and> minY b + EPS < y \<and> y < maxY b - EPS"

lemma fill_range_nth: "i < length marks \<Longrightarrow> fill_range a b marks ! i \<longleftrightarrow> marks ! i \<or> a \<le> i \<and> i < b"
  by (simp add: fill_range_def)

lemma length_fill_range [simp]: "length (fill_range a b marks) = length marks"
  by (simp add: fill_range_def)

lemma fill_rows:
  "length (foldl (\<lambda>marks r. fill_range (f r) (g r) marks) marks rows) = length marks
   \<and> (\<forall>i < length marks. foldl (\<lambda>marks r. fill_range (f r) (g r) marks) marks rows ! i
        \<longleftrightarrow> marks ! i \<or> (\<exists>r \<in> set rows. f r \<le> i \<and> i < g r))"
  by (induction rows arbitrary: marks) (auto simp: fill_range_nth)

lemma row_col:
  fixes w :: nat
  assumes "ix < w" "b < w"
  shows "r * w + a \<le> iy * w + ix \<and> iy * w + ix < r * w + b + 1 \<longleftrightarrow> r = iy \<and> a \<le> ix \<and> ix \<le> b"
proof
  assume h: "r * w + a \<le> iy * w + ix \<and> iy * w + ix < r * w + b + 1"
  have "r = iy"
  proof (rule ccontr)
    assume "r \<noteq> iy"
    then consider "r < iy" | "iy < r" by linarith
    then show False
    proof cases
      case 1
      then have "(r + 1) * w \<le> iy * w" by (intro mult_le_mono1) simp
      then show False using h assms by simp
    next
      case 2
      then have "(iy + 1) * w \<le> r * w" by (intro mult_le_mono1) simp
      then show False using h assms by simp
    qed
  qed
  then show "r = iy \<and> a \<le> ix \<and> ix \<le> b" using h by simp
qed auto

lemma mark_box_nth:
  assumes s: "sorted xs" "sorted ys" and len: "length marks = length xs * length ys"
    and i: "ix < length xs" "iy < length ys"
  shows "length (mark_box xs ys marks b) = length marks"
    and "mark_box xs ys marks b ! (iy * length xs + ix) \<longleftrightarrow>
      marks ! (iy * length xs + ix) \<or> strictly_inside b (xs ! ix) (ys ! iy)"
proof -
  let ?w = "length xs" and ?k = "iy * length xs + ix"
  define x0 x1 y0 y1 where d: "x0 = firstStrictlyGreater xs (minX b)" "x1 = lastStrictlyLess xs (maxX b)"
    "y0 = firstStrictlyGreater ys (minY b)" "y1 = lastStrictlyLess ys (maxY b)"
  have inside: "strictly_inside b (xs ! ix) (ys ! iy) \<longleftrightarrow> x0 \<le> ix \<and> int ix \<le> x1 \<and> y0 \<le> iy \<and> int iy \<le> y1"
    unfolding strictly_inside_def d using firstStrictlyGreater_iff lastStrictlyLess_iff s i by auto
  have k: "?k < length marks" using i len
    by (metis lattice_index_def lattice_index_less fst_conv snd_conv ObstacleGrid.select_convs(1,2))
  have eq: "mark_box xs ys marks b = (if int x0 > x1 \<or> int y0 > y1 then marks
      else foldl (\<lambda>marks r. fill_range (r * ?w + x0) (r * ?w + nat x1 + 1) marks) marks [y0..<nat y1 + 1])"
    by (simp only: mark_box_def Let_def d) simp
  show "length (mark_box xs ys marks b) = length marks" unfolding eq by (simp only: fill_rows [THEN conjunct1] split: if_split) simp
  show "mark_box xs ys marks b ! ?k \<longleftrightarrow> marks ! ?k \<or> strictly_inside b (xs ! ix) (ys ! iy)"
  proof (cases "int x0 > x1 \<or> int y0 > y1")
    case True
    then show ?thesis unfolding eq inside by auto
  next
    case False
    have "nat x1 < ?w" using lastStrictlyLess_less [OF s(1), of "maxX b"] i by (auto simp: d)
    then have rows: "mark_box xs ys marks b ! ?k \<longleftrightarrow> marks ! ?k
        \<or> (\<exists>r \<in> set [y0..<nat y1 + 1]. r = iy \<and> x0 \<le> ix \<and> ix \<le> nat x1)"
      unfolding eq using False k fill_rows [of "\<lambda>r. r * ?w + x0" "\<lambda>r. r * ?w + nat x1 + 1" marks "[y0..<nat y1 + 1]"]
        row_col [OF i(1), of "nat x1" _ x0 iy] by auto
    show ?thesis unfolding rows inside using False by auto
  qed
qed

lemma mark_boxes:
  assumes s: "sorted xs" "sorted ys" and i: "ix < length xs" "iy < length ys"
  shows "length marks = length xs * length ys \<Longrightarrow>
    foldl (mark_box xs ys) marks bs ! (iy * length xs + ix) \<longleftrightarrow>
      marks ! (iy * length xs + ix) \<or> (\<exists>b \<in> set bs. strictly_inside b (xs ! ix) (ys ! iy))"
  by (induction bs arbitrary: marks) (auto simp: mark_box_nth [OF s _ i])

lemma lattice_marks:
  assumes "ix < length (og_xs (buildObstacleGrid region boxes p0 p1 clearance))"
    and "iy < length (og_ys (buildObstacleGrid region boxes p0 p1 clearance))"
  shows "latticePointBlocked (buildObstacleGrid region boxes p0 p1 clearance) ix iy \<longleftrightarrow>
    (\<exists>b \<in> set boxes. strictly_inside (inflate_bbox (boxToBBox b) clearance)
       (og_xs (buildObstacleGrid region boxes p0 p1 clearance) ! ix)
       (og_ys (buildObstacleGrid region boxes p0 p1 clearance) ! iy))"
proof -
  have k: "iy * length xs + ix < length xs * length ys" if "ix < length xs" "iy < length ys" for xs ys :: "real list"
    using that by (metis lattice_index_def lattice_index_less fst_conv snd_conv ObstacleGrid.select_convs(1,2))
  show ?thesis using assms
    by (simp add: latticePointBlocked_def buildObstacleGrid_def Let_def mark_boxes [OF spaced_sorted spaced_sorted]
        uniqueSorted_spaced inflateBoxes_def k)
qed

text \<open>C24. The windowed marking of the lattice equals the test of every lattice point against every obstacle.\<close>

theorem lattice_marks_exact:
  assumes "ix < length (og_xs (buildObstacleGrid region boxes p0 p1 clearance))"
    and "iy < length (og_ys (buildObstacleGrid region boxes p0 p1 clearance))"
  shows "latticePointBlocked (buildObstacleGrid region boxes p0 p1 clearance) ix iy \<longleftrightarrow>
    (\<exists>b \<in> set boxes. strictly_inside (inflate_bbox (boxToBBox b) clearance)
       (og_xs (buildObstacleGrid region boxes p0 p1 clearance) ! ix)
       (og_ys (buildObstacleGrid region boxes p0 p1 clearance) ! iy))"
  using assms by (rule lattice_marks)

section \<open>The nearest lattice point\<close>

lemma nearer_fold:
  "foldl (nearer vs v) (0, None) [0..<Suc k] = (i, best) \<Longrightarrow>
     i \<le> k \<and> best = Some \<bar>vs ! i - v\<bar> \<and> (\<forall>j \<le> k. \<bar>vs ! i - v\<bar> \<le> \<bar>vs ! j - v\<bar>)"
proof (induction k arbitrary: i best)
  case 0
  then show ?case by (auto simp: nearer_def)
next
  case (Suc k)
  obtain i' best' where b: "foldl (nearer vs v) (0, None) [0..<Suc k] = (i', best')" by fastforce
  note ih = Suc.IH [OF b]
  have "nearer vs v (i', best') (Suc k) = (i, best)" using Suc.prems b by simp
  then show ?case using ih by (auto simp: nearer_def Let_def le_Suc_eq split: if_splits)
qed

lemma nearestIndex_nearest:
  assumes "vs \<noteq> []"
  shows "nearestIndex vs v < length vs"
    and "j < length vs \<Longrightarrow> \<bar>vs ! nearestIndex vs v - v\<bar> \<le> \<bar>vs ! j - v\<bar>"
proof -
  obtain k where k: "length vs = Suc k" using assms by (cases vs) auto
  obtain i best where b: "foldl (nearer vs v) (0, None) [0..<Suc k] = (i, best)" by fastforce
  have i: "nearestIndex vs v = i" using b by (simp add: nearestIndex_def k)
  show "nearestIndex vs v < length vs"
    and "j < length vs \<Longrightarrow> \<bar>vs ! nearestIndex vs v - v\<bar> \<le> \<bar>vs ! j - v\<bar>"
    using nearer_fold [OF b] by (auto simp: i k)
qed

lemma nearestIndex_exact: "v \<in> set vs \<Longrightarrow> vs ! nearestIndex vs v = v"
  using nearestIndex_nearest(2) [of vs _ v] by (fastforce simp: in_set_conv_nth)

lemma nearestLattice_bounds:
  "lattice_size grid \<noteq> 0 \<Longrightarrow> fst (nearestLattice grid p) < length (og_xs grid) \<and> snd (nearestLattice grid p) < length (og_ys grid)"
  using nearestIndex_nearest(1) by (simp add: nearestLattice_def)

lemma nearestLattice_point:
  "lattice_size grid \<noteq> 0 \<Longrightarrow> px p \<in> set (og_xs grid) \<Longrightarrow> py p \<in> set (og_ys grid) \<Longrightarrow>
     lattice_point grid (lattice_index grid (nearestLattice grid p)) = p"
  using nearestLattice_bounds [of grid p]
  by (simp add: lattice_point_index) (simp add: nearestLattice_def nearestIndex_exact)

section \<open>The decision of the search\<close>

definition lattice_ends :: "ObstacleGrid \<Rightarrow> route_pt \<Rightarrow> nat" where
  "lattice_ends grid p = lattice_index grid (nearestLattice grid p)"

lemma start_search_ok:
  "lattice_size grid \<noteq> 0 \<Longrightarrow> loop_ok grid (lattice_ends grid p) (lattice_ends grid q)
     (start_search grid (nearestLattice grid p) goal)"
  using start_ok [of "nearestLattice grid p" grid "lattice_ends grid q" goal] nearestLattice_bounds [of grid p]
    lattice_index_less [of "nearestLattice grid q" grid] nearestLattice_bounds [of grid q]
  by (simp add: lattice_ends_def)

lemma routeOrthogonal_cases:
  obtains (empty) "lattice_size grid = 0" "routeOrthogonal grid a b now = Some \<lparr>or_points = zRoute a b, or_degraded = True\<rparr>"
  | (fallback) r st where "lattice_size grid \<noteq> 0" "r \<noteq> Found"
      "search_result grid (lattice_ends grid a) (lattice_ends grid b) now (r, st)"
      "routeOrthogonal grid a b now = Some \<lparr>or_points = zRoute a b, or_degraded = True\<rparr>"
  | (found) st path where "lattice_size grid \<noteq> 0"
      "search_result grid (lattice_ends grid a) (lattice_ends grid b) now (Found, st)"
      "trail grid (cameFrom st) (closed_marks st) (lattice_ends grid a) (lattice_ends grid b) path"
      "routeOrthogonal grid a b now = Some \<lparr>or_points =
         simplify (Some grid) (collapseCollinear (a # rev (map (lattice_point grid) path) @ [b])), or_degraded = False\<rparr>"
proof (cases "lattice_size grid = 0")
  case True
  then show ?thesis using empty by (simp add: routeOrthogonal_def Let_def)
next
  case False
  let ?st = "start_search grid (nearestLattice grid a) (nearestLattice grid b)"
  obtain r st where r: "search_loop grid (nearestLattice grid b) now ?st = (r, st)" by fastforce
  have res: "search_result grid (lattice_ends grid a) (lattice_ends grid b) now (r, st)"
    using search_loop_result [of grid "lattice_ends grid a" "nearestLattice grid b" ?st now]
      start_search_ok [OF False, of a b "nearestLattice grid b"] r by (simp add: lattice_ends_def)
  show ?thesis
  proof (cases "r = Found")
    case True
    then obtain path where path: "trail grid (cameFrom st) (closed_marks st) (lattice_ends grid a) (lattice_ends grid b) path"
      using res by (auto simp: search_result_def)
    then show ?thesis using found [OF False _ path] res True r False trail_trace_back [OF path]
      by (simp add: routeOrthogonal_def Let_def lattice_ends_def)
  next
    case ne: False
    then show ?thesis using fallback [OF False ne res] r False
      by (cases r) (simp_all add: routeOrthogonal_def Let_def)
  qed
qed

lemma routeOrthogonal_found:
  assumes "routeOrthogonal grid a b now = Some r" "\<not> or_degraded r"
  shows "\<exists>(st :: search_state) path. lattice_size grid \<noteq> 0
    \<and> trail grid (cameFrom st) (closed_marks st) (lattice_ends grid a) (lattice_ends grid b) path
    \<and> or_points r = simplify (Some grid) (collapseCollinear (a # rev (map (lattice_point grid) path) @ [b]))"
proof (cases rule: routeOrthogonal_cases [of grid a b now])
  case (found st path)
  then have "or_points r = simplify (Some grid) (collapseCollinear (a # rev (map (lattice_point grid) path) @ [b]))"
    using assms(1) by simp
  then show ?thesis using found by blast
qed (use assms in auto)

lemma trail_lattice_path: "trail grid preds marks start i path \<Longrightarrow> lattice_path grid start i"
  by (induction rule: trail.induct) (auto intro: rtranclp.rtrancl_into_rtrancl)

lemma search_total: "routeOrthogonal grid a b now \<noteq> None"
  by (cases rule: routeOrthogonal_cases [of grid a b now]) simp_all

lemma search_sound:
  assumes "routeOrthogonal grid a b now = Some r" "\<not> or_degraded r"
  shows "lattice_path grid (lattice_ends grid a) (lattice_ends grid b)"
  using routeOrthogonal_found [OF assms] trail_lattice_path by blast

lemma search_complete:
  assumes "lattice_path grid (lattice_ends grid a) (lattice_ends grid b)" "0 < lattice_size grid"
    "lattice_size grid \<le> EXPANSION_BUDGET" "\<And>n. now n \<le> now 0 + TIME_BUDGET_MS"
  shows "\<exists>r. routeOrthogonal grid a b now = Some r \<and> \<not> or_degraded r"
proof (cases rule: routeOrthogonal_cases [of grid a b now])
  case (fallback r st)
  have "\<not> now 0 + TIME_BUDGET_MS < now (expansions st)" using assms(4) by (simp add: not_less)
  then show ?thesis using fallback(2,3) assms(1,3) by (cases r) (auto simp: search_result_def)
qed (use assms in auto)

text \<open>C8. The search always returns; within its two budgets it succeeds exactly when there is a way.\<close>

theorem search_decides_reachability:
  assumes "0 < lattice_size grid" "lattice_size grid \<le> EXPANSION_BUDGET" "\<forall>n. now n \<le> now 0 + TIME_BUDGET_MS"
  shows "\<exists>r. routeOrthogonal grid a b now = Some r
    \<and> (\<not> or_degraded r \<longleftrightarrow> lattice_path grid (lattice_ends grid a) (lattice_ends grid b))"
proof -
  obtain r where r: "routeOrthogonal grid a b now = Some r" using search_total by fast
  then show ?thesis using search_sound [OF r] search_complete [of grid a b now] assms by auto
qed

section \<open>Clear runs\<close>

definition on_lattice :: "ObstacleGrid \<Rightarrow> route_pt \<Rightarrow> bool" where
  "on_lattice grid p \<longleftrightarrow> px p \<in> set (og_xs grid) \<and> py p \<in> set (og_ys grid)"

definition axis_parallel :: "route_pt \<Rightarrow> route_pt \<Rightarrow> bool" where
  "axis_parallel a b \<longleftrightarrow> px a = px b \<or> py a = py b"

definition clear_segment :: "ObstacleGrid \<Rightarrow> route_pt \<Rightarrow> route_pt \<Rightarrow> bool" where
  "clear_segment grid a b \<longleftrightarrow> axis_parallel a b \<and> \<not> segmentBlocked grid a b"

definition clear_run :: "ObstacleGrid \<Rightarrow> route_pt list \<Rightarrow> bool" where
  "clear_run grid ps \<longleftrightarrow> (\<forall>p \<in> set ps. on_lattice grid p) \<and> successively (clear_segment grid) ps"

text \<open>The lattices the router builds: coordinates apart, obstacles wider than the tolerance.\<close>

definition wide_grid :: "ObstacleGrid \<Rightarrow> bool" where
  "wide_grid grid \<longleftrightarrow> spaced (og_xs grid) \<and> spaced (og_ys grid)
     \<and> (\<forall>b \<in> set (og_boxes grid). minX b + 2 * EPS < maxX b \<and> minY b + 2 * EPS < maxY b)"

lemma lattice_near:
  assumes "wide_grid grid" "on_lattice grid a" "on_lattice grid b"
  shows "\<bar>px a - px b\<bar> < EPS \<longleftrightarrow> px a = px b" "\<bar>py a - py b\<bar> < EPS \<longleftrightarrow> py a = py b"
  using assms spaced_apart [of "og_xs grid" "px a" "px b"] spaced_apart [of "og_ys grid" "py a" "py b"]
  by (auto simp: wide_grid_def on_lattice_def)

lemma same_pt_lattice: "wide_grid grid \<Longrightarrow> on_lattice grid a \<Longrightarrow> on_lattice grid b \<Longrightarrow> same_pt a b \<longleftrightarrow> a = b"
  using lattice_near [of grid a b] by (auto simp: same_pt_def)

lemma degenerate_span: "min v h - max v l \<le> EPS" for v h l :: real
  using less_imp_le [OF EPS_pos] by (auto simp: min_def max_def)

lemma box_blocks_row:
  assumes "py a = py b"
  shows "box_blocks a b box \<longleftrightarrow>
    EPS < min (max (px a) (px b)) (maxX box) - max (min (px a) (px b)) (minX box)
    \<and> minY box + EPS < py a \<and> py a < maxY box - EPS"
  using assms degenerate_span [of "py b" "maxY box" "minY box"] by (auto simp: box_blocks_def Let_def)

lemma box_blocks_column:
  assumes "px a = px b" "py a = py b \<or> EPS < \<bar>py a - py b\<bar>"
  shows "box_blocks a b box \<longleftrightarrow>
    EPS < min (max (py a) (py b)) (maxY box) - max (min (py a) (py b)) (minY box)
    \<and> minX box + EPS < px a \<and> px a < maxX box - EPS"
proof (cases "py a = py b")
  case True
  then show ?thesis using assms(1) degenerate_span by (auto simp: box_blocks_def Let_def not_less)
next
  case False
  then show ?thesis using assms degenerate_span [of "px b" "maxX box" "minX box"]
    by (auto simp: box_blocks_def Let_def)
qed

text \<open>Two clear pieces of a straight run make a clear run, because no obstacle is as thin as the tolerance.\<close>

lemma overlap_join:
  fixes a b p m M :: real
  assumes "m + 2 * EPS < M" "a = b \<or> EPS < \<bar>a - b\<bar>" "b = p \<or> EPS < \<bar>b - p\<bar>"
    and "min (max a b) M - max (min a b) m \<le> EPS" "min (max b p) M - max (min b p) m \<le> EPS"
  shows "min (max a p) M - max (min a p) m \<le> EPS"
  using assms EPS_pos by (auto simp: min_def max_def abs_if split: if_splits)

lemma lattice_apart:
  assumes "wide_grid grid" "on_lattice grid a" "on_lattice grid b"
  shows "px a = px b \<or> EPS < \<bar>px a - px b\<bar>" "py a = py b \<or> EPS < \<bar>py a - py b\<bar>"
  using assms spaced_apart [of "og_xs grid" "px a" "px b"] spaced_apart [of "og_ys grid" "py a" "py b"]
  by (auto simp: wide_grid_def on_lattice_def not_less)

lemma clear_join:
  assumes g: "wide_grid grid" and on: "on_lattice grid a" "on_lattice grid b" "on_lattice grid p"
    and ab: "clear_segment grid a b" and bp: "clear_segment grid b p" and run: "collinear_run a b p"
  shows "clear_segment grid a p"
proof -
  have boxes: "minX box + 2 * EPS < maxX box" "minY box + 2 * EPS < maxY box" if "box \<in> set (og_boxes grid)" for box
    using g that by (auto simp: wide_grid_def)
  consider "py a = py b" "py b = py p" | "px a = px b" "px b = px p"
    using run lattice_near [OF g on(1,2)] lattice_near [OF g on(2,3)] by (auto simp: collinear_run_def)
  then show ?thesis
  proof cases
    case 1
    have "\<not> box_blocks a p box" if box: "box \<in> set (og_boxes grid)" for box
    proof
      assume "box_blocks a p box"
      moreover have "\<not> box_blocks a b box" "\<not> box_blocks b p box"
        using ab bp box by (auto simp: clear_segment_def segmentBlocked_def segmentBlockedBoxes_def list_ex_iff)
      ultimately show False
        using overlap_join [OF boxes(1) [OF box] lattice_apart(1) [OF g on(1,2)] lattice_apart(1) [OF g on(2,3)]] 1
        by (auto simp: box_blocks_row)
    qed
    then show ?thesis using 1 by (auto simp: clear_segment_def segmentBlocked_def segmentBlockedBoxes_def list_ex_iff axis_parallel_def)
  next
    case 2
    have "\<not> box_blocks a p box" if box: "box \<in> set (og_boxes grid)" for box
    proof
      assume blocked: "box_blocks a p box"
      have free: "\<not> box_blocks a b box" "\<not> box_blocks b p box"
        using ab bp box by (auto simp: clear_segment_def segmentBlocked_def segmentBlockedBoxes_def list_ex_iff)
      note col = box_blocks_column [of _ _ box]
      have 3: "box_blocks a p box \<longleftrightarrow> EPS < min (max (py a) (py p)) (maxY box) - max (min (py a) (py p)) (minY box)
          \<and> minX box + EPS < px a \<and> px a < maxX box - EPS"
        using col [of a p] 2 lattice_apart(2) [OF g on(1,3)] by simp
      have 4: "box_blocks a b box \<longleftrightarrow> EPS < min (max (py a) (py b)) (maxY box) - max (min (py a) (py b)) (minY box)
          \<and> minX box + EPS < px a \<and> px a < maxX box - EPS"
        using col [of a b] 2 lattice_apart(2) [OF g on(1,2)] by simp
      have 5: "box_blocks b p box \<longleftrightarrow> EPS < min (max (py b) (py p)) (maxY box) - max (min (py b) (py p)) (minY box)
          \<and> minX box + EPS < px b \<and> px b < maxX box - EPS"
        using col [of b p] 2 lattice_apart(2) [OF g on(2,3)] by simp
      show False
        using blocked free overlap_join [OF boxes(2) [OF box] lattice_apart(2) [OF g on(1,2)] lattice_apart(2) [OF g on(2,3)]] 2
        unfolding 3 4 5 by (simp add: not_less)
    qed
    then show ?thesis using 2 by (auto simp: clear_segment_def segmentBlocked_def segmentBlockedBoxes_def list_ex_iff axis_parallel_def)
  qed
qed

section \<open>Post-processing keeps a run clear\<close>

lemma clear_run_simps [simp]:
  "clear_run grid []"
  "clear_run grid [p] \<longleftrightarrow> on_lattice grid p"
  "clear_run grid (a # b # ps) \<longleftrightarrow> on_lattice grid a \<and> clear_segment grid a b \<and> clear_run grid (b # ps)"
  by (auto simp: clear_run_def)

lemma clear_segment_sym: "clear_segment grid a b \<longleftrightarrow> clear_segment grid b a"
  if "wide_grid grid" "on_lattice grid a" "on_lattice grid b"
proof -
  have "box_blocks a b box = box_blocks b a box" if "axis_parallel a b" for box
    using that lattice_near [OF \<open>wide_grid grid\<close> \<open>on_lattice grid a\<close> \<open>on_lattice grid b\<close>]
    by (auto simp: box_blocks_def Let_def axis_parallel_def abs_minus_commute min.commute max.commute)
  then show ?thesis
    by (auto simp: clear_segment_def axis_parallel_def segmentBlocked_def segmentBlockedBoxes_def list_ex_iff)
qed

text \<open>The invariant of \<open>collapseCollinear\<close>: the points pushed so far, read backwards, are a clear run.\<close>

lemma collapse_push_clear:
  assumes g: "wide_grid grid" and out: "clear_run grid (rev (b # out))" and p: "on_lattice grid p" "clear_segment grid b p"
  shows "clear_run grid (rev (collapse_push (b # out) p)) \<and> hd (collapse_push (b # out) p) = p
     \<and> last (collapse_push (b # out) p) = last (b # out) \<and> collapse_push (b # out) p \<noteq> []"
proof -
  have app: "clear_run grid (ps @ [x]) \<longleftrightarrow> clear_run grid ps \<and> on_lattice grid x \<and> (ps \<noteq> [] \<longrightarrow> clear_segment grid (last ps) x)" for ps x
    by (auto simp: clear_run_def successively_append_iff)
  have b: "on_lattice grid b" using out by (simp add: app)
  show ?thesis
  proof (cases "same_pt b p")
    case True
    then have "b = p" using same_pt_lattice [OF g b p(1)] by simp
    then show ?thesis using out True by simp
  next
    case False
    show ?thesis
    proof (cases out)
      case Nil
      then show ?thesis using False b p by simp
    next
      case (Cons a out')
      have a: "on_lattice grid a" "clear_segment grid a b"
        using app [of "rev out' @ [a]" b] app [of "rev out'" a] out Cons by simp_all
      show ?thesis
      proof (cases "collinear_run a b p")
        case True
        then show ?thesis using False Cons out p clear_join [OF g a(1) b p(1) a(2) p(2)]
          app [of "rev out' @ [a]" p] app [of "rev out' @ [a]" b] app [of "rev out'" a] by simp
      next
        case apart: False
        then show ?thesis using False Cons out p app [of "rev out' @ [a, b]" p] by simp
      qed
    qed
  qed
qed

lemma collapse_fold_clear:
  assumes g: "wide_grid grid"
  shows "clear_run grid (rev out) \<Longrightarrow> out \<noteq> [] \<Longrightarrow> clear_run grid (hd out # ps) \<Longrightarrow>
    clear_run grid (rev (foldl collapse_push out ps)) \<and> hd (foldl collapse_push out ps) = last (hd out # ps)
    \<and> last (foldl collapse_push out ps) = last out \<and> foldl collapse_push out ps \<noteq> []"
proof (induction ps arbitrary: out)
  case (Cons p ps)
  obtain b out' where out: "out = b # out'" using Cons.prems(2) by (cases out) auto
  have p: "on_lattice grid p" "clear_segment grid b p" using Cons.prems(3) out by (cases ps; simp)+
  note push = collapse_push_clear [OF g _ p, of out']
  then show ?case using Cons.IH [of "collapse_push out p"] Cons.prems out by simp
qed simp

lemma collapse_clear:
  assumes "wide_grid grid" "clear_run grid ps" "ps \<noteq> []"
  shows "clear_run grid (collapseCollinear ps) \<and> hd (collapseCollinear ps) = hd ps
    \<and> last (collapseCollinear ps) = last ps \<and> collapseCollinear ps \<noteq> []"
proof -
  obtain p qs where ps: "ps = p # qs" using assms(3) by (cases ps) auto
  have "on_lattice grid p" using assms(2) ps by (cases qs) auto
  then show ?thesis using collapse_fold_clear [OF assms(1), of "[p]" qs] assms(2) ps
    by (simp add: collapseCollinear_def hd_rev last_rev)
qed

lemma find_corner_clear:
  assumes "find_corner (Some grid) a d = Some c" "on_lattice grid a" "on_lattice grid d"
  shows "on_lattice grid c \<and> clear_segment grid a c \<and> clear_segment grid c d"
  using assms by (auto simp: find_corner_def simplify_clear_def on_lattice_def clear_segment_def axis_parallel_def split: if_splits)

lemma simplify_pass_clear:
  "clear_run grid ps \<Longrightarrow> clear_run grid (simplify_pass (Some grid) ps)
     \<and> (ps \<noteq> [] \<longrightarrow> simplify_pass (Some grid) ps \<noteq> [] \<and> hd (simplify_pass (Some grid) ps) = hd ps
          \<and> last (simplify_pass (Some grid) ps) = last ps)"
proof (induction "Some grid" ps rule: simplify_pass.induct)
  case (1 a b c d ps)
  have on: "on_lattice grid a" "on_lattice grid d" using 1(3) by (cases ps; simp)+
  show ?case
  proof (cases "find_corner (Some grid) a d")
    case None
    then have ih: "clear_run grid (simplify_pass (Some grid) (b # c # d # ps))"
      "simplify_pass (Some grid) (b # c # d # ps) \<noteq> []" "hd (simplify_pass (Some grid) (b # c # d # ps)) = b"
      "last (simplify_pass (Some grid) (b # c # d # ps)) = last (b # c # d # ps)" using 1 by simp_all
    then obtain qs where "simplify_pass (Some grid) (b # c # d # ps) = b # qs" by (metis list.collapse)
    then show ?thesis using None 1(3) ih by simp
  next
    case (Some e)
    have ih: "clear_run grid (simplify_pass (Some grid) (d # ps))" "simplify_pass (Some grid) (d # ps) \<noteq> []"
      "hd (simplify_pass (Some grid) (d # ps)) = d" "last (simplify_pass (Some grid) (d # ps)) = last (d # ps)"
      using 1(2) [OF Some] 1(3) by simp_all
    then obtain qs where "simplify_pass (Some grid) (d # ps) = d # qs" by (metis list.collapse)
    then show ?thesis using Some on find_corner_clear [OF Some on] ih by simp
  qed
qed simp_all

lemma simplify_clear_run:
  assumes "wide_grid grid" "clear_run grid ps" "ps \<noteq> []"
  shows "clear_run grid (simplify (Some grid) ps) \<and> simplify (Some grid) ps \<noteq> []
    \<and> hd (simplify (Some grid) ps) = hd ps \<and> last (simplify (Some grid) ps) = last ps"
proof -
  have step: "clear_run grid (collapseCollinear (simplify_pass (Some grid) qs))
      \<and> collapseCollinear (simplify_pass (Some grid) qs) \<noteq> []
      \<and> hd (collapseCollinear (simplify_pass (Some grid) qs)) = hd qs
      \<and> last (collapseCollinear (simplify_pass (Some grid) qs)) = last qs"
    if "clear_run grid qs" "qs \<noteq> []" for qs
    using simplify_pass_clear [OF that(1)] collapse_clear [OF assms(1)] that(2) by simp
  show ?thesis using step [OF assms(2,3)] step by (simp add: simplify_def Let_def)
qed

section \<open>The whole route\<close>

lemma lattice_point_on: "i < lattice_size grid \<Longrightarrow> on_lattice grid (lattice_point grid i)"
proof -
  assume i: "i < lattice_size grid"
  then have "0 < length (og_xs grid)" by (cases "length (og_xs grid)") auto
  moreover from this have "i div length (og_xs grid) < length (og_ys grid)"
    using i by (simp add: div_less_iff_less_mult mult.commute)
  ultimately show ?thesis by (simp add: on_lattice_def lattice_point_def)
qed

lemma neighbour_axis:
  assumes "d \<in> set NEIGHBOURS" "neighbour_of grid i d = Some c"
  shows "axis_parallel (lattice_point grid i) (lattice_point grid (lattice_index grid c))"
proof -
  have "px (lattice_point grid i) = og_xs grid ! fst c \<or> py (lattice_point grid i) = og_ys grid ! snd c"
    using assms by (auto simp: NEIGHBOURS_def neighbour_of_def lattice_point_def Let_def split: if_splits)
  then show ?thesis using neighbour_of_bounds [OF assms(2)] by (simp add: axis_parallel_def lattice_point_index)
qed

lemma lattice_step_clear: "lattice_step grid i j \<Longrightarrow> clear_segment grid (lattice_point grid i) (lattice_point grid j)"
  using neighbour_axis by (auto simp: lattice_step_def clear_segment_def)

lemma trail_clear:
  assumes "trail grid preds marks start i path" "start < lattice_size grid"
  shows "clear_run grid (rev (map (lattice_point grid) path))"
  using assms
proof (induction rule: trail.induct)
  case trail_start
  then show ?case by (simp add: lattice_point_on)
next
  case (trail_step p path i)
  have "path \<noteq> []" "hd path = p" using trail_ends [OF trail_step(1)] by auto
  then show ?case using trail_step lattice_step_clear [OF trail_step(5)] lattice_step_less [OF trail_step(5)] lattice_point_on
    by (auto simp: clear_run_def successively_append_iff last_rev hd_map)
qed

lemma clear_run_ends:
  assumes "wide_grid grid" "clear_run grid ps" "ps \<noteq> []"
  shows "clear_run grid (hd ps # ps @ [last ps])"
proof -
  have self: "clear_segment grid p p" if "on_lattice grid p" for p
    by (simp add: clear_segment_def axis_parallel_def segmentBlocked_def segmentBlockedBoxes_def list_ex_iff
        box_blocks_row not_less degenerate_span)
  have on: "on_lattice grid (hd ps)" "on_lattice grid (last ps)" using assms by (auto simp: clear_run_def)
  then show ?thesis using assms self [OF on(1)] self [OF on(2)]
    by (auto simp: clear_run_def successively_Cons successively_append_iff)
qed

lemma clear_run_points: "clear_run grid ps \<Longrightarrow> run_clear (og_boxes grid) ps \<and> successively axis_parallel ps"
  by (induction ps rule: induct_list012) (auto simp: clear_segment_def segmentBlocked_def)

lemma buildObstacleGrid_wide:
  assumes "\<forall>b \<in> set boxes. 0 \<le> nb_w b \<and> 0 \<le> nb_h b" "EPS < clearance"
  shows "wide_grid (buildObstacleGrid region boxes p q clearance)"
  using assms by (auto simp: wide_grid_def buildObstacleGrid_def Let_def uniqueSorted_spaced inflateBoxes_def inflate_bbox_def boxToBBox_def
      intro: add_strict_increasing2)

text \<open>C5. A route that is not degraded runs from port to port, axis-parallel, clear of every obstacle.\<close>

theorem route_keeps_clear:
  assumes "\<forall>b \<in> set boxes. 0 \<le> nb_w b \<and> 0 \<le> nb_h b" "EPS < clearance"
    and "grid = buildObstacleGrid region boxes a b clearance"
    and "on_lattice grid a" "on_lattice grid b"
    and "routeOrthogonal grid a b now = Some r" "\<not> or_degraded r"
  shows "hd (or_points r) = a \<and> last (or_points r) = b
    \<and> successively axis_parallel (or_points r) \<and> run_clear (inflateBoxes boxes clearance) (or_points r)"
proof -
  have g: "wide_grid grid" using buildObstacleGrid_wide assms by blast
  have boxes: "og_boxes grid = inflateBoxes boxes clearance" using assms(3) by (simp add: buildObstacleGrid_def Let_def)
  obtain st :: search_state and path where size: "lattice_size grid \<noteq> 0"
    and path: "trail grid (cameFrom st) (closed_marks st) (lattice_ends grid a) (lattice_ends grid b) path"
    and r: "or_points r = simplify (Some grid) (collapseCollinear (a # rev (map (lattice_point grid) path) @ [b]))"
    using routeOrthogonal_found [OF assms(6,7)] by blast
  let ?run = "rev (map (lattice_point grid) path)"
  have at_ends: "lattice_point grid (lattice_ends grid a) = a" "lattice_point grid (lattice_ends grid b) = b"
    using nearestLattice_point [OF size] assms(4,5) by (simp_all add: lattice_ends_def on_lattice_def)
  have start: "lattice_ends grid a < lattice_size grid"
    using nearestLattice_bounds [OF size, of a] lattice_index_less by (simp add: lattice_ends_def)
  note ends = trail_ends [OF path]
  have run: "?run \<noteq> []" "hd ?run = a" "last ?run = b"
    using ends at_ends by (simp_all add: hd_rev last_rev last_map hd_map)
  have "clear_run grid (a # ?run @ [b])" using clear_run_ends [OF g trail_clear [OF path start] run(1)] run by simp
  from simplify_clear_run [OF g] collapse_clear [OF g this]
  show ?thesis using clear_run_points [of grid "or_points r"] by (simp add: r boxes)
qed

section \<open>Lanes\<close>

lemma snap_segment_frame:
  "length (snap_segment pitch out i) = length out \<and> (k \<noteq> i \<and> k \<noteq> i + 1 \<longrightarrow> snap_segment pitch out i ! k = out ! k)"
  by (simp add: snap_segment_def Let_def)

lemma snap_fold_frame:
  "length (foldl (snap_segment pitch) out is) = length out
   \<and> ((\<forall>i \<in> set is. k \<noteq> i \<and> k \<noteq> i + 1) \<longrightarrow> foldl (snap_segment pitch) out is ! k = out ! k)"
proof (induction "is" arbitrary: out)
  case (Cons i "is")
  then show ?case using snap_segment_frame [of pitch out i k] by simp
qed simp

text \<open>Snapping to lanes keeps the number of points and both ends.\<close>

lemma snapToLanes_ends:
  "length (snapToLanes ps pitch) = length ps
   \<and> (ps \<noteq> [] \<longrightarrow> hd (snapToLanes ps pitch) = hd ps \<and> last (snapToLanes ps pitch) = last ps)"
proof (cases "length ps \<le> 3")
  case False
  let ?f = "foldl (snap_segment pitch) ps [1..<length ps - 2]"
  have "length ?f = length ps" "?f ! 0 = ps ! 0" "?f ! (length ps - 1) = ps ! (length ps - 1)"
    using snap_fold_frame [of pitch ps "[1..<length ps - 2]" 0]
      snap_fold_frame [of pitch ps "[1..<length ps - 2]" "length ps - 1"] by auto
  moreover from this have "?f \<noteq> []" using False by auto
  ultimately show ?thesis using False by (simp add: snapToLanes_def hd_conv_nth last_conv_nth)
qed (simp add: snapToLanes_def)

text \<open>A snapped value is a multiple of the pitch at most half a pitch away, and snapping it again changes nothing.\<close>

lemma snap_value_near:
  assumes "0 < pitch"
  shows "\<bar>snap_value pitch v - v\<bar> \<le> pitch / 2" "snap_value pitch (snap_value pitch v) = snap_value pitch v"
proof -
  let ?k = "\<lfloor>v / pitch + 1 / 2\<rfloor>"
  have "of_int ?k \<le> v / pitch + 1 / 2" "v / pitch + 1 / 2 \<le> of_int ?k + 1" by linarith+
  then have "of_int ?k * pitch \<le> (v / pitch + 1 / 2) * pitch" "(v / pitch + 1 / 2) * pitch \<le> (of_int ?k + 1) * pitch"
    using assms by (auto intro!: mult_right_mono)
  moreover have "(v / pitch + 1 / 2) * pitch = v + pitch / 2" using assms by (simp add: distrib_right)
  ultimately have "of_int ?k * pitch \<le> v + pitch / 2" "v + pitch / 2 \<le> (of_int ?k + 1) * pitch" by simp_all
  then show "\<bar>snap_value pitch v - v\<bar> \<le> pitch / 2" by (simp add: snap_value_def abs_if algebra_simps)
  have "\<lfloor>(of_int ?k :: real) + 1 / 2\<rfloor> = ?k" by linarith
  then show "snap_value pitch (snap_value pitch v) = snap_value pitch v" using assms by (simp add: snap_value_def)
qed

section \<open>A sample board\<close>

text \<open>Two endpoints in a row with one card between them.\<close>

definition sample_box :: NodeBox where
  "sample_box = \<lparr>nb_id = ''c'', nb_x = 40, nb_y = - 10, nb_w = 20, nb_h = 20, nb_radius = 4\<rparr>"

definition sample_lattice :: ObstacleGrid where
  "sample_lattice =
     buildObstacleGrid (routingRegion (pt 0 0) (pt 100 0) REGION_MARGIN) [sample_box] (pt 0 0) (pt 100 0) CLEARANCE"

lemma push_unique_simps:
  "push_unique [] v = [v]"
  "push_unique (a # out) v = (if \<bar>last (a # out) - v\<bar> > EPS then a # out @ [v] else a # out)"
  by (simp_all add: push_unique_def)

lemmas sample_defs = sample_lattice_def buildObstacleGrid_def Let_def routingRegion_def inflate_bbox_def inflateBoxes_def
  boxToBBox_def sample_box_def REGION_MARGIN_def CLEARANCE_def

lemma sample_lattice_simps:
  "og_xs sample_lattice = [-240, 0, 28, 72, 100, 340]"
  "og_ys sample_lattice = [-240, -22, 0, 22, 240]"
  "og_boxes sample_lattice = [\<lparr>minX = 28, minY = - 22, maxX = 72, maxY = 22\<rparr>]"
  by (simp_all add: sample_defs uniqueSorted_def push_unique_simps EPS_def)

lemma lattice_marks_exact_witness:
  "latticePointBlocked (buildObstacleGrid (routingRegion (pt 0 0) (pt 100 0) REGION_MARGIN)
     [sample_box\<lparr>nb_x := - 10, nb_w := 120\<rparr>] (pt 0 0) (pt 100 0) CLEARANCE) 2 2"
proof -
  let ?r = "routingRegion (pt 0 0) (pt 100 0) REGION_MARGIN" and ?b = "[sample_box\<lparr>nb_x := - 10, nb_w := 120\<rparr>]"
  note grid = buildObstacleGrid_def Let_def routingRegion_def inflate_bbox_def inflateBoxes_def boxToBBox_def
    sample_box_def REGION_MARGIN_def CLEARANCE_def uniqueSorted_def push_unique_simps EPS_def
  have xs: "og_xs (buildObstacleGrid ?r ?b (pt 0 0) (pt 100 0) CLEARANCE) = [-240, -22, 0, 100, 122, 340]"
    and ys: "og_ys (buildObstacleGrid ?r ?b (pt 0 0) (pt 100 0) CLEARANCE) = [-240, -22, 0, 22, 240]"
    by (simp_all add: grid)
  have "2 < length (og_xs (buildObstacleGrid ?r ?b (pt 0 0) (pt 100 0) CLEARANCE))"
    "2 < length (og_ys (buildObstacleGrid ?r ?b (pt 0 0) (pt 100 0) CLEARANCE))"
    unfolding xs ys by simp_all
  from lattice_marks_exact [OF this] show ?thesis
    unfolding xs ys by (simp add: strictly_inside_def inflate_bbox_def boxToBBox_def sample_box_def CLEARANCE_def EPS_def)
qed

lemma sample_step:
  assumes "d \<in> set NEIGHBOURS" "neighbour_of sample_lattice i d = Some (x, y)"
    and "\<not> strictly_inside \<lparr>minX = 28, minY = - 22, maxX = 72, maxY = 22\<rparr>
           (og_xs sample_lattice ! x) (og_ys sample_lattice ! y)"
    and "\<not> box_blocks (lattice_point sample_lattice i) (pt (og_xs sample_lattice ! x) (og_ys sample_lattice ! y))
           \<lparr>minX = 28, minY = - 22, maxX = 72, maxY = 22\<rparr>"
  shows "lattice_step sample_lattice i (y * 6 + x)"
proof -
  have b: "x < length (og_xs sample_lattice)" "y < length (og_ys sample_lattice)"
    using neighbour_of_bounds [OF assms(2)] by simp_all
  have len: "length (og_xs sample_lattice) = 6" by (simp add: sample_lattice_simps)
  have "\<not> latticePointBlocked sample_lattice x y"
    using lattice_marks [OF b [unfolded sample_lattice_def]] assms(3)
    unfolding sample_lattice_def [symmetric] by (simp add: sample_defs del: One_nat_def)
  then have "\<not> og_blocked sample_lattice ! (y * 6 + x)" unfolding latticePointBlocked_def len .
  moreover have "lattice_index sample_lattice (x, y) = y * 6 + x" by (simp add: lattice_index_def sample_lattice_simps)
  moreover have "\<not> segmentBlocked sample_lattice (lattice_point sample_lattice i) (lattice_point sample_lattice (lattice_index sample_lattice (x, y)))"
    using assms(4) b by (simp add: segmentBlocked_def segmentBlockedBoxes_def sample_lattice_simps(3) lattice_point_index)
  ultimately show ?thesis using assms(1,2) unfolding lattice_step_def
    by (intro bexI [of _ d] exI [of _ "(x, y)"])
       auto
qed

lemma sample_path: "lattice_path sample_lattice 13 16"
proof -
  note route = NEIGHBOURS_def neighbour_of_def sample_lattice_simps strictly_inside_def lattice_point_def box_blocks_def EPS_def Let_def
  have "lattice_step sample_lattice 13 19" using sample_step [of "(0, 1)" 13 1 3] by (simp add: route)
  moreover have "lattice_step sample_lattice 19 20" using sample_step [of "(1, 0)" 19 2 3] by (simp add: route)
  moreover have "lattice_step sample_lattice 20 21" using sample_step [of "(1, 0)" 20 3 3] by (simp add: route)
  moreover have "lattice_step sample_lattice 21 22" using sample_step [of "(1, 0)" 21 4 3] by (simp add: route)
  moreover have "lattice_step sample_lattice 22 16" using sample_step [of "(0, -1)" 22 4 2] by (simp add: route)
  ultimately show ?thesis by (meson converse_rtranclp_into_rtranclp rtranclp.rtrancl_refl)
qed

lemma sample_ends:
  "lattice_ends sample_lattice (pt 0 0) = 13" "lattice_ends sample_lattice (pt 100 0) = 16"
  by (simp_all add: lattice_ends_def nearestLattice_def nearestIndex_def sample_lattice_simps nearer_def Let_def
      lattice_index_def upt_rec)

theorem search_decides_reachability_witness:
  "\<exists>r. routeOrthogonal sample_lattice (pt 0 0) (pt 100 0) (\<lambda>n. 0) = Some r \<and> \<not> or_degraded r"
  using search_decides_reachability [of sample_lattice "\<lambda>n. 0" "pt 0 0" "pt 100 0"] sample_path
  by (simp add: sample_ends sample_lattice_simps EXPANSION_BUDGET_def TIME_BUDGET_MS_def)

lemma sample_found: "\<exists>r. routeOrthogonal sample_lattice (pt 0 0) (pt 100 0) (\<lambda>n. 0) = Some r \<and> \<not> or_degraded r"
  using search_complete [of sample_lattice "pt 0 0" "pt 100 0" "\<lambda>n. 0"] sample_path
  by (simp add: sample_ends sample_lattice_simps EXPANSION_BUDGET_def TIME_BUDGET_MS_def)

theorem route_keeps_clear_witness:
  "\<exists>r. routeOrthogonal sample_lattice (pt 0 0) (pt 100 0) (\<lambda>n. 0) = Some r
     \<and> hd (or_points r) = pt 0 0 \<and> last (or_points r) = pt 100 0 \<and> successively axis_parallel (or_points r)
     \<and> run_clear [\<lparr>minX = 28, minY = - 22, maxX = 72, maxY = 22\<rparr>] (or_points r)"
proof -
  obtain r where r: "routeOrthogonal sample_lattice (pt 0 0) (pt 100 0) (\<lambda>n. 0) = Some r" "\<not> or_degraded r"
    using sample_found by blast
  have on: "on_lattice sample_lattice (pt 0 0)" "on_lattice sample_lattice (pt 100 0)"
    by (simp_all add: on_lattice_def sample_lattice_simps)
  have boxes: "\<forall>b \<in> set [sample_box]. 0 \<le> nb_w b \<and> 0 \<le> nb_h b" "EPS < CLEARANCE"
    by (simp_all add: sample_box_def EPS_def CLEARANCE_def)
  have inflated: "inflateBoxes [sample_box] CLEARANCE = [\<lparr>minX = 28, minY = - 22, maxX = 72, maxY = 22\<rparr>]"
    by (simp add: inflateBoxes_def inflate_bbox_def boxToBBox_def sample_box_def CLEARANCE_def)
  show ?thesis using route_keeps_clear [OF boxes sample_lattice_def on r] r(1) unfolding inflated by blast
qed

end
