(* ===== verification/RouteCache.thy ===== *)
theory RouteCache
  imports RouteGeometry
begin

text \<open>
  Route caching, \<open>packages/domain/src/edges/routing/cache.ts\<close>: the key of a route and the bounded LRU
  with its two indexes. A \<open>Map\<close> is an \<open>omap\<close> (its order is the order of use), a \<open>Set\<close> a list without
  repetition. The cached value is of any type.
\<close>

section \<open>Keys\<close>

definition GEOM_QUANTUM :: real where "GEOM_QUANTUM = 1"

definition quantize :: "real \<Rightarrow> int" where
  "quantize v = \<lfloor>v / GEOM_QUANTUM + 1 / 2\<rfloor>"

definition nodeGeomHash :: "NodeBox \<Rightarrow> string" where
  "nodeGeomHash b =
     int_str (quantize (nb_x b)) @ '','' @ int_str (quantize (nb_y b)) @ '','' @
     int_str (quantize (nb_w b)) @ '','' @ int_str (quantize (nb_h b))"

definition waypointsHash :: "route_pt list \<Rightarrow> string" where
  "waypointsHash ws = join_with '';'' (map (\<lambda>w. int_str (quantize (px w)) @ ''/'' @ int_str (quantize (py w))) ws)"

datatype RouteQuality = RQ_draft | RQ_full

fun quality_str :: "RouteQuality \<Rightarrow> string" where
  "quality_str RQ_draft = ''draft''"
| "quality_str RQ_full = ''full''"

fun mode_str :: "RoutingMode \<Rightarrow> string" where
  "mode_str RM_straight = ''straight''"
| "mode_str RM_curved = ''curved''"
| "mode_str RM_orthogonal = ''orthogonal''"
| "mode_str RM_smart = ''smart''"

record RouteKeyInput =
  rk_edgeId :: string
  rk_version :: int
  rk_source :: NodeBox
  rk_target :: NodeBox
  rk_resolvedMode :: RoutingMode
  rk_siblingIndex :: int
  rk_siblingCount :: int
  rk_manualRoute :: bool
  rk_waypoints :: "route_pt list"
  rk_obstacleEpoch :: int
  rk_quality :: RouteQuality
  rk_separation :: "real option"

definition routeKey :: "RouteKeyInput \<Rightarrow> string" where
  "routeKey i =
     (let tail = (if rk_manualRoute i then ''w:'' @ waypointsHash (rk_waypoints i)
                  else ''w:'' @ waypointsHash (rk_waypoints i) @ '':e:'' @ int_str (rk_obstacleEpoch i))
      in join_with '':''
           [rk_edgeId i, int_str (rk_version i), nodeGeomHash (rk_source i), nodeGeomHash (rk_target i),
            mode_str (rk_resolvedMode i), int_str (rk_siblingIndex i) @ ''/'' @ int_str (rk_siblingCount i),
            int_str (quantize (case rk_separation i of Some s \<Rightarrow> s | None \<Rightarrow> 0)), quality_str (rk_quality i), tail])"

section \<open>The cache\<close>

record 'g route_cache =
  rc_entries :: "(string, 'g) omap"
  rc_byNode :: "(string, string list) omap"
  rc_keyByEdge :: "(string, string) omap"
  rc_epoch :: nat
  rc_hitCount :: nat
  rc_missCount :: nat
  rc_capacity :: int

definition new_cache :: "int \<Rightarrow> 'g route_cache" where
  "new_cache capacity =
     \<lparr>rc_entries = [], rc_byNode = [], rc_keyByEdge = [], rc_epoch = 0, rc_hitCount = 0, rc_missCount = 0,
      rc_capacity = capacity\<rparr>"

definition rcache_get :: "string \<Rightarrow> 'g route_cache \<Rightarrow> 'g option \<times> 'g route_cache" where
  "rcache_get key c =
     (case omap_get (rc_entries c) key of
        None \<Rightarrow> (None, c\<lparr>rc_missCount := rc_missCount c + 1\<rparr>)
      | Some found \<Rightarrow>
          (Some found, c\<lparr>rc_entries := omap_set key found (omap_delete key (rc_entries c)),
                         rc_hitCount := rc_hitCount c + 1\<rparr>))"

definition rcache_link :: "string \<Rightarrow> string \<Rightarrow> 'g route_cache \<Rightarrow> 'g route_cache" where
  "rcache_link nodeId edgeId c =
     c\<lparr>rc_byNode :=
        (case omap_get (rc_byNode c) nodeId of
           None \<Rightarrow> omap_set nodeId [edgeId] (rc_byNode c)
         | Some es \<Rightarrow> omap_set nodeId (if edgeId \<in> set es then es else es @ [edgeId]) (rc_byNode c))\<rparr>"

text \<open>The eviction loop: the first key goes until the size is within the capacity, or nothing is left.\<close>

function evict :: "int \<Rightarrow> (string, 'g) omap \<Rightarrow> (string, 'g) omap" where
  "evict capacity entries =
     (if int (length entries) > capacity
      then (case entries of [] \<Rightarrow> entries | e # es \<Rightarrow> evict capacity (omap_delete (fst e) entries))
      else entries)"
  by pat_completeness auto
termination
  by (relation "measure (\<lambda>(c, es). length es)") (auto simp: omap_delete_def le_imp_less_Suc)

declare evict.simps [simp del]

definition rcache_set :: "string \<Rightarrow> 'g \<Rightarrow> string \<Rightarrow> string \<Rightarrow> string \<Rightarrow> 'g route_cache \<Rightarrow> 'g route_cache" where
  "rcache_set key geometry edge a b c =
     (let dropped = (case omap_get (rc_keyByEdge c) edge of
                       Some previous \<Rightarrow> if previous \<noteq> key then omap_delete previous (rc_entries c) else rc_entries c
                     | None \<Rightarrow> rc_entries c);
          c1 = c\<lparr>rc_entries := omap_set key geometry dropped, rc_keyByEdge := omap_set edge key (rc_keyByEdge c)\<rparr>;
          c2 = rcache_link b edge (rcache_link a edge c1)
      in c2\<lparr>rc_entries := evict (rc_capacity c2) (rc_entries c2)\<rparr>)"

definition invalidateEdge :: "string \<Rightarrow> 'g route_cache \<Rightarrow> nat \<times> 'g route_cache" where
  "invalidateEdge edge c =
     (case omap_get (rc_keyByEdge c) edge of
        None \<Rightarrow> (0, c)
      | Some key \<Rightarrow>
          (if omap_has (rc_entries c) key then 1 else 0,
           c\<lparr>rc_keyByEdge := omap_delete edge (rc_keyByEdge c), rc_entries := omap_delete key (rc_entries c)\<rparr>))"

definition invalidateNode :: "string \<Rightarrow> 'g route_cache \<Rightarrow> nat \<times> 'g route_cache" where
  "invalidateNode node c =
     (case omap_get (rc_byNode c) node of
        None \<Rightarrow> (0, c)
      | Some edges \<Rightarrow>
          foldl (\<lambda>(dropped, c) e. let (n, c') = invalidateEdge e c in (dropped + n, c')) (0, c) edges)"

definition bumpObstacleEpoch :: "'g route_cache \<Rightarrow> nat \<times> 'g route_cache" where
  "bumpObstacleEpoch c = (rc_epoch c + 1, c\<lparr>rc_epoch := rc_epoch c + 1\<rparr>)"

definition rcache_clear :: "'g route_cache \<Rightarrow> 'g route_cache" where
  "rcache_clear c = c\<lparr>rc_entries := [], rc_byNode := [], rc_keyByEdge := []\<rparr>"

definition rcache_size :: "'g route_cache \<Rightarrow> nat" where
  "rcache_size c = length (rc_entries c)"

section \<open>Keys are exact\<close>

lemma int_str_chars: "c \<in> set (int_str i) \<Longrightarrow> is_digit c \<or> c = CHR ''-''"
  by (auto simp: int_str_def dest: nat_str_digits split: if_splits)

lemma nat_str_inj: "nat_str m = nat_str n \<Longrightarrow> m = n"
  by (metis dec_val_nat_str of_nat_eq_iff)

lemma minus_not_digit: "\<not> is_digit (CHR ''-'')"
  by (simp add: is_digit_def code_unit_def)

lemma int_str_inj [simp]: "int_str i = int_str j \<longleftrightarrow> i = j"
proof
  assume e: "int_str i = int_str j"
  have neg: "nat_str n \<noteq> CHR ''-'' # s" for n s
    using nat_str_digits [of "CHR ''-''" n] minus_not_digit by (metis list.set_intros(1))
  show "i = j" using e neg neg [symmetric] by (auto simp: int_str_def dest!: nat_str_inj split: if_splits)
qed simp

lemma int_str_sep: "sep \<in> set '',/;:'' \<Longrightarrow> sep \<notin> set (int_str i)"
  using int_str_chars [of sep i] by (auto simp: is_digit_def code_unit_def)

lemma nodeGeomHash_iff:
  "nodeGeomHash a = nodeGeomHash b \<longleftrightarrow>
     quantize (nb_x a) = quantize (nb_x b) \<and> quantize (nb_y a) = quantize (nb_y b)
     \<and> quantize (nb_w a) = quantize (nb_w b) \<and> quantize (nb_h a) = quantize (nb_h b)"
  by (simp add: nodeGeomHash_def append_sep_eq int_str_sep)

lemma waypointsHash_iff:
  "waypointsHash ws = waypointsHash vs \<longleftrightarrow>
     map (\<lambda>w. (quantize (px w), quantize (py w))) ws = map (\<lambda>w. (quantize (px w), quantize (py w))) vs"
proof -
  define f where "f = (\<lambda>w :: route_pt. int_str (quantize (px w)) @ ''/'' @ int_str (quantize (py w)))"
  have f_iff: "f a = f b \<longleftrightarrow> quantize (px a) = quantize (px b) \<and> quantize (py a) = quantize (py b)" for a b
    by (simp add: f_def append_sep_eq int_str_sep)
  have f_sep: "CHR '';'' \<notin> set (f a)" for a by (simp add: f_def int_str_sep)
  have f_ne: "f a \<noteq> []" for a by (simp add: f_def)
  have empty: "join_with '';'' (map f us) = [] \<longleftrightarrow> us = []" for us
    by (cases us; cases "tl us") (auto simp: f_ne)
  have "waypointsHash ws = waypointsHash vs \<longleftrightarrow> map f ws = map f vs"
  proof
    assume e: "waypointsHash ws = waypointsHash vs"
    have e': "join_with '';'' (map f ws) = join_with '';'' (map f vs)" using e by (simp add: waypointsHash_def f_def)
    show "map f ws = map f vs"
    proof (cases "ws = [] \<or> vs = []")
      case True
      then show ?thesis using e' empty by (metis map_is_Nil_conv)
    next
      case False
      have "map f us = split_on (CHR '';'') (join_with '';'' (map f us))" if "us \<noteq> []" for us
        using that f_sep by (intro split_on_join [symmetric]) auto
      then show ?thesis using False e' by metis
    qed
  qed (simp add: waypointsHash_def f_def)
  also have "\<dots> \<longleftrightarrow> map (\<lambda>w. (quantize (px w), quantize (py w))) ws = map (\<lambda>w. (quantize (px w), quantize (py w))) vs"
  proof (induction ws arbitrary: vs)
    case (Cons w ws)
    then show ?case by (cases vs) (auto simp: f_iff)
  qed auto
  finally show ?thesis .
qed

definition key_parts :: "RouteKeyInput \<Rightarrow> string list" where
  "key_parts i =
     [rk_edgeId i, int_str (rk_version i), nodeGeomHash (rk_source i), nodeGeomHash (rk_target i),
      mode_str (rk_resolvedMode i), int_str (rk_siblingIndex i) @ ''/'' @ int_str (rk_siblingCount i),
      int_str (quantize (case rk_separation i of Some s \<Rightarrow> s | None \<Rightarrow> 0)), quality_str (rk_quality i),
      ''w'', waypointsHash (rk_waypoints i)]
     @ (if rk_manualRoute i then [] else [''e'', int_str (rk_obstacleEpoch i)])"

lemma routeKey_parts: "routeKey i = join_with '':'' (key_parts i)"
  by (simp add: routeKey_def key_parts_def Let_def)

lemma mode_str_iff [simp]: "mode_str a = mode_str b \<longleftrightarrow> a = b"
  by (cases a; cases b) simp_all

lemma quality_str_iff [simp]: "quality_str a = quality_str b \<longleftrightarrow> a = b"
  by (cases a; cases b) simp_all

lemma waypointsHash_sep: "CHR '':'' \<notin> set (waypointsHash ws)"
proof -
  have "c \<notin> set (join_with s us)" if "c \<notin> set s" "\<forall>u \<in> set us. c \<notin> set u" for c and s :: string and us
    using that by (induction s us rule: join_with.induct) auto
  then show ?thesis by (simp add: waypointsHash_def int_str_sep)
qed

lemma key_parts_sep: "CHR '':'' \<notin> set (rk_edgeId i) \<Longrightarrow> p \<in> set (key_parts i) \<Longrightarrow> CHR '':'' \<notin> set p"
  by (auto simp: key_parts_def nodeGeomHash_def int_str_sep waypointsHash_sep split: if_splits)
     (cases "rk_resolvedMode i"; cases "rk_quality i"; simp)+

definition same_route :: "RouteKeyInput \<Rightarrow> RouteKeyInput \<Rightarrow> bool" where
  "same_route a b \<longleftrightarrow>
     rk_edgeId a = rk_edgeId b \<and> rk_version a = rk_version b
     \<and> nodeGeomHash (rk_source a) = nodeGeomHash (rk_source b) \<and> nodeGeomHash (rk_target a) = nodeGeomHash (rk_target b)
     \<and> rk_resolvedMode a = rk_resolvedMode b
     \<and> rk_siblingIndex a = rk_siblingIndex b \<and> rk_siblingCount a = rk_siblingCount b
     \<and> quantize (case rk_separation a of Some s \<Rightarrow> s | None \<Rightarrow> 0) = quantize (case rk_separation b of Some s \<Rightarrow> s | None \<Rightarrow> 0)
     \<and> rk_quality a = rk_quality b
     \<and> map (\<lambda>w. (quantize (px w), quantize (py w))) (rk_waypoints a) = map (\<lambda>w. (quantize (px w), quantize (py w))) (rk_waypoints b)
     \<and> rk_manualRoute a = rk_manualRoute b \<and> (rk_manualRoute a \<or> rk_obstacleEpoch a = rk_obstacleEpoch b)"

lemma key_parts_iff: "key_parts a = key_parts b \<longleftrightarrow> same_route a b"
  by (auto simp: key_parts_def same_route_def append_sep_eq int_str_sep waypointsHash_iff split: if_splits)


section \<open>The invariant of the cache\<close>

datatype 'g rcache_op =
    COp_get string
  | COp_set string 'g string string string
  | COp_invalidateNode string
  | COp_invalidateEdge string
  | COp_bump
  | COp_clear

fun rcache_step :: "'g rcache_op \<Rightarrow> 'g route_cache \<Rightarrow> 'g route_cache" where
  "rcache_step (COp_get k) c = snd (rcache_get k c)"
| "rcache_step (COp_set k v e a b) c = rcache_set k v e a b c"
| "rcache_step (COp_invalidateNode n) c = snd (invalidateNode n c)"
| "rcache_step (COp_invalidateEdge e) c = snd (invalidateEdge e c)"
| "rcache_step COp_bump c = snd (bumpObstacleEpoch c)"
| "rcache_step COp_clear c = rcache_clear c"

definition rcache_run :: "int \<Rightarrow> 'g rcache_op list \<Rightarrow> 'g route_cache" where
  "rcache_run capacity ops = foldl (\<lambda>c op. rcache_step op c) (new_cache capacity) ops"

text \<open>The value given to a key by the last \<open>set\<close>.\<close>

fun last_set :: "'g rcache_op list \<Rightarrow> string \<Rightarrow> 'g option" where
  "last_set [] k = None"
| "last_set (COp_set j v e a b # ops) k =
     (case last_set ops k of Some u \<Rightarrow> Some u | None \<Rightarrow> if j = k then Some v else None)"
| "last_set (op # ops) k = last_set ops k"

lemma last_set_snoc:
  "last_set (ops @ [op]) k = (case op of COp_set j v e a b \<Rightarrow> if j = k then Some v else last_set ops k | _ \<Rightarrow> last_set ops k)"
proof (induction ops)
  case Nil
  then show ?case by (cases op) auto
next
  case (Cons p ops)
  then show ?case by (cases p; cases op) auto
qed

definition linked :: "'g route_cache \<Rightarrow> string \<Rightarrow> string \<Rightarrow> bool" where
  "linked c node edge \<longleftrightarrow> (\<exists>es. omap_get (rc_byNode c) node = Some es \<and> edge \<in> set es)"

definition owned :: "'g route_cache \<Rightarrow> bool" where
  "owned c \<longleftrightarrow> (\<forall>k. omap_get (rc_entries c) k \<noteq> None \<longrightarrow> (\<exists>e. omap_get (rc_keyByEdge c) e = Some k))"

definition rcache_ok :: "int \<Rightarrow> 'g rcache_op list \<Rightarrow> 'g route_cache \<Rightarrow> bool" where
  "rcache_ok capacity ops c \<longleftrightarrow>
     omap_inv (rc_entries c) \<and> omap_inv (rc_keyByEdge c) \<and> rc_capacity c = capacity
     \<and> int (rcache_size c) \<le> max 0 capacity \<and> owned c
     \<and> (\<forall>k v. omap_get (rc_entries c) k = Some v \<longrightarrow> last_set ops k = Some v)"

lemma omap_delete_absent: "omap_get m k = None \<Longrightarrow> omap_delete k m = m"
  by (force simp: omap_get_def omap_delete_def map_of_eq_None_iff intro!: filter_True)

lemma length_omap_delete: "omap_inv m \<Longrightarrow> omap_has m k \<Longrightarrow> Suc (length (omap_delete k m)) = length m"
proof (induction m)
  case (Cons e m)
  show ?case
  proof (cases "fst e = k")
    case True
    then have "omap_get m k = None" using Cons.prems(1) by (auto simp: omap_inv_def omap_get_def map_of_eq_None_iff)
    then show ?thesis using True omap_delete_absent [of m k] by (cases e) (simp add: omap_delete_def)
  next
    case False
    then show ?thesis using Cons by (cases e) (simp add: omap_delete_def omap_inv_def omap_has_def)
  qed
qed (simp add: omap_has_def)

lemma length_omap_delete_le: "length (omap_delete k m) \<le> length m"
  by (simp add: omap_delete_def)

lemma evict_Nil [simp]: "evict capacity [] = []"
  by (subst evict.simps) simp

lemma evict_ok:
  "omap_inv m \<Longrightarrow> omap_inv (evict capacity m) \<and> int (length (evict capacity m)) \<le> max 0 capacity
     \<and> (\<forall>k v. omap_get (evict capacity m) k = Some v \<longrightarrow> omap_get m k = Some v)"
proof (induction capacity m rule: evict.induct)
  case (1 capacity m)
  show ?case
  proof (cases "int (length m) > capacity")
    case False
    then show ?thesis using 1(2) by (simp add: evict.simps [of capacity m])
  next
    case True
    show ?thesis
    proof (cases m)
      case Nil
      then show ?thesis by simp
    next
      case (Cons e es)
      then have "evict capacity m = evict capacity (omap_delete (fst e) m)" using True by (subst evict.simps) simp
      then show ?thesis using 1(1) [OF True Cons] 1(2) by (metis omap_get_delete omap_inv_delete option.distinct(1))
    qed
  qed
qed

lemma rcache_get_ok: "rcache_ok cap ops c \<Longrightarrow> rcache_ok cap (ops @ [COp_get k]) (snd (rcache_get k c))"
proof -
  assume ok: "rcache_ok cap ops c"
  show ?thesis
  proof (cases "omap_get (rc_entries c) k")
    case None
    then show ?thesis using ok by (simp add: rcache_get_def rcache_ok_def owned_def rcache_size_def last_set_snoc)
  next
    case (Some v)
    then have "omap_has (rc_entries c) k" by (simp add: omap_has_iff)
    then have "Suc (length (omap_delete k (rc_entries c))) = length (rc_entries c)"
      using ok by (intro length_omap_delete) (simp_all add: rcache_ok_def)
    moreover have "\<not> omap_has (omap_delete k (rc_entries c)) k" by (simp add: omap_has_iff)
    ultimately have "length (omap_set k v (omap_delete k (rc_entries c))) = length (rc_entries c)"
      by (simp add: omap_set_def)
    then show ?thesis using ok Some by (auto simp: rcache_get_def rcache_ok_def owned_def rcache_size_def last_set_snoc)
  qed
qed

lemma rcache_link_simps [simp]:
  "rc_entries (rcache_link n e c) = rc_entries c" "rc_keyByEdge (rcache_link n e c) = rc_keyByEdge c"
  "rc_capacity (rcache_link n e c) = rc_capacity c"
  by (simp_all add: rcache_link_def)

lemma linked_cache_link: "linked (rcache_link n e c) m f \<longleftrightarrow> linked c m f \<or> m = n \<and> f = e"
  by (auto simp: linked_def rcache_link_def split: option.splits if_splits)

lemma rcache_set_ok: "rcache_ok cap ops c \<Longrightarrow> rcache_ok cap (ops @ [COp_set k v e a b]) (rcache_set k v e a b c)"
proof -
  assume ok: "rcache_ok cap ops c"
  define m where "m = (case omap_get (rc_keyByEdge c) e of Some p \<Rightarrow> if p \<noteq> k then omap_delete p (rc_entries c) else rc_entries c
      | None \<Rightarrow> rc_entries c)"
  have m: "omap_inv m" "\<And>j u. omap_get m j = Some u \<Longrightarrow> omap_get (rc_entries c) j = Some u"
    "\<And>j u. omap_get m j = Some u \<Longrightarrow> omap_get (rc_keyByEdge c) e = Some j \<Longrightarrow> j = k"
    using ok by (auto simp: m_def rcache_ok_def split: option.splits if_splits)
  let ?c = "rcache_set k v e a b c" and ?m = "omap_set k v m"
  have entries: "rc_entries ?c = evict (rc_capacity c) ?m" "rc_keyByEdge ?c = omap_set e k (rc_keyByEdge c)"
    "rc_capacity ?c = rc_capacity c"
    by (simp_all add: rcache_set_def Let_def m_def)
  have ev: "omap_inv (evict cap ?m)" "int (length (evict cap ?m)) \<le> max 0 cap"
    "\<And>j u. omap_get (evict cap ?m) j = Some u \<Longrightarrow> omap_get ?m j = Some u"
    using evict_ok [of ?m cap] m(1) by auto
  have old: "omap_inv (rc_keyByEdge c)" "rc_capacity c = cap" "owned c"
    "\<And>j u. omap_get (rc_entries c) j = Some u \<Longrightarrow> last_set ops j = Some u"
    using ok by (auto simp: rcache_ok_def)
  have has_owner: "\<exists>f. omap_get (rc_keyByEdge ?c) f = Some j" if j: "omap_get (rc_entries ?c) j = Some u" for j u
  proof (cases "j = k")
    case True
    then show ?thesis by (auto simp: entries)
  next
    case False
    then have u: "omap_get m j = Some u" using j ev(3) by (fastforce simp: entries old)
    then obtain f where "omap_get (rc_keyByEdge c) f = Some j" using m(2) old(3) by (fastforce simp: owned_def)
    moreover from this have "f \<noteq> e" using m(3) [OF u] False by auto
    ultimately show ?thesis by (auto simp: entries)
  qed
  have "owned ?c" unfolding owned_def using has_owner by blast
  moreover have "last_set (ops @ [COp_set k v e a b]) j = Some u" if "omap_get (rc_entries ?c) j = Some u" for j u
    using that ev(3) m(2) old(4) by (fastforce simp: entries old last_set_snoc split: if_splits)
  ultimately show ?thesis using ev old unfolding rcache_ok_def rcache_size_def by (simp add: entries)
qed

lemma invalidateEdge_ok: "rcache_ok cap ops c \<Longrightarrow> rcache_ok cap ops (snd (invalidateEdge e c))"
proof -
  assume ok: "rcache_ok cap ops c"
  show ?thesis
  proof (cases "omap_get (rc_keyByEdge c) e")
    case (Some k)
    have "length (omap_delete k (rc_entries c)) \<le> length (rc_entries c)" by (rule length_omap_delete_le)
    moreover have "owned (c\<lparr>rc_keyByEdge := omap_delete e (rc_keyByEdge c), rc_entries := omap_delete k (rc_entries c)\<rparr>)"
      unfolding owned_def
    proof (intro allI impI)
      fix j assume j: "omap_get (rc_entries (c\<lparr>rc_keyByEdge := omap_delete e (rc_keyByEdge c), rc_entries := omap_delete k (rc_entries c)\<rparr>)) j \<noteq> None"
      then obtain f where "omap_get (rc_keyByEdge c) f = Some j" using ok by (auto simp: rcache_ok_def owned_def split: if_splits)
      then show "\<exists>f. omap_get (rc_keyByEdge (c\<lparr>rc_keyByEdge := omap_delete e (rc_keyByEdge c), rc_entries := omap_delete k (rc_entries c)\<rparr>)) f = Some j"
        using j Some by (intro exI [of _ f]) (auto split: if_splits)
    qed
    ultimately show ?thesis using ok Some by (auto simp: invalidateEdge_def rcache_ok_def rcache_size_def split: if_splits)
  qed (use ok in \<open>simp add: invalidateEdge_def\<close>)
qed

lemma invalidateEdge_effect:
  "omap_get (rc_keyByEdge (snd (invalidateEdge e c))) f = (if f = e then None else omap_get (rc_keyByEdge c) f)"
  "rc_byNode (snd (invalidateEdge e c)) = rc_byNode c"
  by (auto simp: invalidateEdge_def split: option.splits)

lemma invalidateEdge_count:
  "omap_inv (rc_entries c) \<Longrightarrow> fst (invalidateEdge e c) + rcache_size (snd (invalidateEdge e c)) = rcache_size c"
  using length_omap_delete [of "rc_entries c"] omap_delete_absent [of "rc_entries c"]
  by (auto simp: invalidateEdge_def rcache_size_def omap_has_iff split: option.splits)

lemma invalidate_fold:
  assumes "rcache_ok cap ops c"
  shows "rcache_ok cap ops (snd (foldl (\<lambda>(d, c) e. let (n, c') = invalidateEdge e c in (d + n, c')) (d, c) es))
    \<and> rc_byNode (snd (foldl (\<lambda>(d, c) e. let (n, c') = invalidateEdge e c in (d + n, c')) (d, c) es)) = rc_byNode c
    \<and> (\<forall>e. omap_get (rc_keyByEdge (snd (foldl (\<lambda>(d, c) e. let (n, c') = invalidateEdge e c in (d + n, c')) (d, c) es))) e
         = (if e \<in> set es then None else omap_get (rc_keyByEdge c) e))
    \<and> fst (foldl (\<lambda>(d, c) e. let (n, c') = invalidateEdge e c in (d + n, c')) (d, c) es)
        + rcache_size (snd (foldl (\<lambda>(d, c) e. let (n, c') = invalidateEdge e c in (d + n, c')) (d, c) es)) = d + rcache_size c"
  using assms
proof (induction es arbitrary: c d)
  case (Cons e es)
  obtain n c' where e: "invalidateEdge e c = (n, c')" by fastforce
  have ok: "rcache_ok cap ops c'" using invalidateEdge_ok [OF Cons.prems, of e] e by simp
  have "n + rcache_size c' = rcache_size c" using invalidateEdge_count [of c e] Cons.prems e by (simp add: rcache_ok_def)
  then show ?case using Cons.IH [OF ok, of "d + n"] invalidateEdge_effect [where e = e and c = c] e by auto
qed simp

lemma invalidateNode_ok:
  assumes "rcache_ok cap ops c"
  shows "rcache_ok cap ops (snd (invalidateNode n c)) \<and> rc_byNode (snd (invalidateNode n c)) = rc_byNode c
    \<and> (\<forall>e. omap_get (rc_keyByEdge (snd (invalidateNode n c))) e
         = (if linked c n e then None else omap_get (rc_keyByEdge c) e))
    \<and> fst (invalidateNode n c) + rcache_size (snd (invalidateNode n c)) = rcache_size c"
proof (cases "omap_get (rc_byNode c) n")
  case None
  then show ?thesis using assms by (simp add: invalidateNode_def linked_def)
next
  case (Some es)
  then show ?thesis using invalidate_fold [OF assms, of 0 es] by (simp add: invalidateNode_def linked_def)
qed

lemma rcache_ok_other:
  "rcache_ok cap ops c \<Longrightarrow> last_set (ops @ [op]) = last_set ops \<Longrightarrow> rcache_ok cap (ops @ [op]) c"
  by (simp add: rcache_ok_def)

lemma rcache_run_ok: "rcache_ok capacity ops (rcache_run capacity ops)"
proof (induction ops rule: rev_induct)
  case Nil
  then show ?case by (simp add: rcache_run_def new_cache_def rcache_ok_def rcache_size_def owned_def)
next
  case (snoc op ops)
  let ?c = "rcache_run capacity ops"
  have run: "rcache_run capacity (ops @ [op]) = rcache_step op ?c" by (simp add: rcache_run_def)
  show ?case
  proof (cases op)
    case (COp_get k)
    then show ?thesis using rcache_get_ok [OF snoc] run by simp
  next
    case (COp_set k v e a b)
    then show ?thesis using rcache_set_ok [OF snoc] run by simp
  next
    case (COp_invalidateNode n)
    then show ?thesis using invalidateNode_ok [OF snoc] run rcache_ok_other [of capacity ops _ op] by (simp add: last_set_snoc fun_eq_iff)
  next
    case (COp_invalidateEdge e)
    then show ?thesis using invalidateEdge_ok [OF snoc] run rcache_ok_other [of capacity ops _ op] by (simp add: last_set_snoc fun_eq_iff)
  next
    case COp_bump
    then show ?thesis using snoc run by (auto simp: bumpObstacleEpoch_def rcache_ok_def rcache_size_def owned_def last_set_snoc)
  next
    case COp_clear
    then show ?thesis using snoc run by (auto simp: rcache_clear_def rcache_ok_def rcache_size_def owned_def)
  qed
qed



definition sample_key :: "route_pt list \<Rightarrow> RouteKeyInput" where
  "sample_key ws =
     (let b = \<lparr>nb_id = ''a'', nb_x = 0, nb_y = 0, nb_w = 20, nb_h = 20, nb_radius = 4\<rparr>
      in \<lparr>rk_edgeId = ''e1'', rk_version = 1, rk_source = b, rk_target = b, rk_resolvedMode = RM_curved,
          rk_siblingIndex = 0, rk_siblingCount = 1, rk_manualRoute = True, rk_waypoints = ws, rk_obstacleEpoch = 0,
          rk_quality = RQ_full, rk_separation = None\<rparr>)"


end
