(* ===== verification/RouteEdge.thy ===== *)
theory RouteEdge
  imports RouteModes RouteClear RouteCache
begin

text \<open>
  Endpoint clipping and the router itself, \<open>clip.ts\<close> and \<open>route.ts\<close> of
  \<open>packages/domain/src/edges/routing\<close>. \<open>Float32Array.from\<close> rounds each coordinate by the argument
  \<open>f32\<close>, the clock of the search is the argument \<open>now\<close>, and the module's revision counter is passed in
  and returned.
\<close>

section \<open>Clipping\<close>

definition BISECTIONS :: nat where "BISECTIONS = 6"

definition insideRoundedBox :: "route_pt \<Rightarrow> NodeBox \<Rightarrow> real \<Rightarrow> bool" where
  "insideRoundedBox p b gap =
     (let lx = nb_x b - gap; ly = nb_y b - gap; hx = nb_x b + nb_w b + gap; hy = nb_y b + nb_h b + gap
      in if px p < lx \<or> px p > hx \<or> py p < ly \<or> py p > hy then False
         else (let r = min (nb_radius b + gap) (min ((hx - lx) / 2) ((hy - ly) / 2))
               in if r \<le> 0 then True
                  else (let cx = (if px p < lx + r then lx + r else if px p > hx - r then hx - r else px p);
                            cy = (if py p < ly + r then ly + r else if py p > hy - r then hy - r else py p)
                        in if cx = px p \<or> cy = py p then True else hypot (px p - cx) (py p - cy) \<le> r)))"

fun bisect_loop :: "nat \<Rightarrow> NodeBox \<Rightarrow> real \<Rightarrow> route_pt \<Rightarrow> route_pt \<Rightarrow> route_pt" where
  "bisect_loop 0 b gap lo hi = hi"
| "bisect_loop (Suc n) b gap lo hi =
     (let mid = pt_lerp lo hi (1 / 2)
      in if insideRoundedBox mid b gap then bisect_loop n b gap mid hi else bisect_loop n b gap lo mid)"

definition bisect :: "route_pt \<Rightarrow> route_pt \<Rightarrow> NodeBox \<Rightarrow> real \<Rightarrow> route_pt" where
  "bisect inside outside b gap = bisect_loop BISECTIONS b gap inside outside"

record ClipResult =
  cr_flat :: "real list"
  cr_start :: OrientedPoint
  cr_end :: OrientedPoint

fun find_index :: "('a \<Rightarrow> bool) \<Rightarrow> 'a list \<Rightarrow> nat option" where
  "find_index P [] = None"
| "find_index P (x # xs) = (if P x then Some 0 else map_option Suc (find_index P xs))"

definition find_last_index :: "('a \<Rightarrow> bool) \<Rightarrow> 'a list \<Rightarrow> nat option" where
  "find_last_index P xs = List.find (\<lambda>i. P (xs ! i)) (rev [0..<length xs])"

definition flatten_points :: "route_pt list \<Rightarrow> real list" where
  "flatten_points ps = concat (map (\<lambda>p. [px p, py p]) ps)"

text \<open>\<open>firstDistinct\<close> from either end: the points are given in the order of the walk, the anchor first.\<close>

definition firstDistinct :: "route_pt list \<Rightarrow> route_pt option" where
  "firstDistinct walk = List.find (\<lambda>p. pt_distance p (hd walk) > 1 / 1000000) (tl walk)"

definition clip_head :: "route_pt list \<Rightarrow> NodeBox \<Rightarrow> real \<Rightarrow> route_pt \<times> route_pt list" where
  "clip_head points source gap =
     (case find_index (\<lambda>p. \<not> insideRoundedBox p source gap) points of
        Some k \<Rightarrow>
          if k > 0
          then (let s = bisect (points ! (k - 1)) (points ! k) source gap in (s, s # drop k points))
          else (points ! 0, points)
      | None \<Rightarrow> (points ! 0, points))"

definition clip_tail :: "route_pt list \<Rightarrow> NodeBox \<Rightarrow> real \<Rightarrow> route_pt \<times> route_pt list" where
  "clip_tail head target gap =
     (case find_last_index (\<lambda>p. \<not> insideRoundedBox p target gap) head of
        Some k \<Rightarrow>
          if k < length head - 1
          then (let e = bisect (head ! (k + 1)) (head ! k) target gap in (e, take (k + 1) head @ [e]))
          else (last head, head)
      | None \<Rightarrow> (last head, head))"

definition coalesce :: "'a option \<Rightarrow> 'a \<Rightarrow> 'a" where
  "coalesce o' d = (case o' of Some x \<Rightarrow> x | None \<Rightarrow> d)"

definition clipToBoxes :: "real list \<Rightarrow> NodeBox \<Rightarrow> NodeBox \<Rightarrow> real \<Rightarrow> ClipResult" where
  "clipToBoxes flat source target gap =
     (let points = flat_points flat
      in if length points < 2
         then (let only = (if points = [] then pt 0 0 else hd points); one = oriented (px only) (py only) 0
               in \<lparr>cr_flat = [px only, py only, px only, py only], cr_start = one, cr_end = one\<rparr>)
         else (let (startPoint, head) = clip_head points source gap;
                   (endPoint, tail0) = clip_tail head target gap;
                   tail = (if length tail0 < 2 then [startPoint, endPoint] else tail0);
                   a = hd tail; b = coalesce (firstDistinct tail) (tail ! 1);
                   z = last tail; y = coalesce (firstDistinct (rev tail)) (tail ! (length tail - 2))
               in \<lparr>cr_flat = flatten_points tail,
                   cr_start = oriented (px a) (py a) (atan2 (py b - py a) (px b - px a)),
                   cr_end = oriented (px z) (py z) (atan2 (py z - py y) (px z - px y))\<rparr>))"

fun walk_trim_loop :: "real \<Rightarrow> route_pt \<Rightarrow> route_pt list \<Rightarrow> route_pt list option" where
  "walk_trim_loop remaining a [] = None"
| "walk_trim_loop remaining a (b # ps) =
     (let seg = pt_distance a b
      in if seg \<ge> remaining then Some (pt_lerp a b (if seg = 0 then 0 else remaining / seg) # b # ps)
         else walk_trim_loop (remaining - seg) b ps)"

definition walkTrim :: "route_pt list \<Rightarrow> real \<Rightarrow> route_pt list" where
  "walkTrim points amount =
     (if amount \<le> 0 then points
      else case walk_trim_loop amount (hd points) (tl points) of
        Some ps \<Rightarrow> ps
      | None \<Rightarrow> [pt_lerp (hd points) (last points) (1 / 2), last points])"

definition trimPolyline :: "real list \<Rightarrow> real \<Rightarrow> real \<Rightarrow> real list" where
  "trimPolyline flat startTrim endTrim =
     (let points = flat_points flat
      in if length points < 2 then flat
         else flatten_points (rev (walkTrim (rev (walkTrim points startTrim)) endTrim)))"

section \<open>Route inputs\<close>

record RouteInput =
  ri_source :: NodeBox
  ri_target :: NodeBox
  ri_srcPort :: PortRequest
  ri_dstPort :: PortRequest
  ri_waypoints :: "route_pt list"
  ri_manualRoute :: bool
  ri_mode :: RoutingMode
  ri_siblingIndex :: int
  ri_siblingCount :: int
  ri_separation :: real
  ri_obstacles :: "obstacle_source option"
  ri_curvature :: real
  ri_cornerRadius :: real
  ri_zoom :: real
  ri_draft :: bool
  ri_labelPosition :: real

record RouteOptions =
  ro_category :: "EdgeCategory option"
  ro_previousSource :: "PortSide option"
  ro_previousTarget :: "PortSide option"

definition resolveMode :: "RouteInput \<Rightarrow> RouteOptions \<Rightarrow> RoutingMode" where
  "resolveMode input options =
     (if ri_manualRoute input then (if ri_mode input = RM_orthogonal then RM_orthogonal else RM_curved)
      else (let span = pt_distance (centerOf (ri_source input)) (centerOf (ri_target input))
            in if degradesToStraight span (ri_zoom input) then RM_straight
               else if ri_mode input \<noteq> RM_smart then ri_mode input
               else sd_mode (chooseSmartMode (ri_source input) (ri_target input) (ro_category options) (ri_obstacles input))))"

section \<open>Building the commands\<close>

definition MAX_REGION_OBSTACLES :: nat where "MAX_REGION_OBSTACLES = 16"

definition corridorDistance :: "NodeBox \<Rightarrow> route_pt \<Rightarrow> route_pt \<Rightarrow> real" where
  "corridorDistance b p0 p1 =
     (let cx = nb_x b + nb_w b / 2; cy = nb_y b + nb_h b / 2; dx = px p1 - px p0; dy = py p1 - py p0;
          lengthSq = dx * dx + dy * dy;
          t = (if lengthSq = 0 then 0
               else min 1 (max 0 (((cx - px p0) * dx + (cy - py p0) * dy) / lengthSq)));
          ex = px p0 + t * dx - cx; ey = py p0 + t * dy - cy
      in ex * ex + ey * ey)"

text \<open>The inner \<open>while\<close> walks left over the costs that are larger.\<close>

fun insert_pos :: "real \<Rightarrow> real list \<Rightarrow> nat \<Rightarrow> nat" where
  "insert_pos cost costs 0 = 0"
| "insert_pos cost costs (Suc i) = (if costs ! i > cost then insert_pos cost costs i else Suc i)"

definition splice_in :: "nat \<Rightarrow> 'a \<Rightarrow> 'a list \<Rightarrow> 'a list" where
  "splice_in i x xs = take i xs @ [x] @ drop i xs"

definition keep_nearest :: "(NodeBox \<Rightarrow> real) \<Rightarrow> NodeBox list \<times> real list \<Rightarrow> NodeBox \<Rightarrow> NodeBox list \<times> real list" where
  "keep_nearest f st b =
     (let (kept, keptCost) = st; cost = f b
      in if length kept = MAX_REGION_OBSTACLES \<and> cost \<ge> keptCost ! (length kept - 1) then (kept, keptCost)
         else (let i = insert_pos cost keptCost (length kept);
                   kept' = splice_in i b kept; keptCost' = splice_in i cost keptCost
               in if length kept' > MAX_REGION_OBSTACLES then (butlast kept', butlast keptCost')
                  else (kept', keptCost')))"

definition nearestObstacles :: "NodeBox list \<Rightarrow> route_pt \<Rightarrow> route_pt \<Rightarrow> NodeBox list" where
  "nearestObstacles boxes p0 p1 =
     (if length boxes \<le> MAX_REGION_OBSTACLES then boxes
      else fst (foldl (keep_nearest (\<lambda>b. corridorDistance b p0 p1)) ([], []) boxes))"

text \<open>One leg: its points and whether it is degraded; \<open>None\<close> would be a search that does not return.\<close>

definition orthogonalLeg :: "RouteInput \<Rightarrow> (nat \<Rightarrow> real) \<Rightarrow> route_pt \<Rightarrow> route_pt \<Rightarrow> (route_pt list \<times> bool) option" where
  "orthogonalLeg input now start end' =
     (case ri_obstacles input of None \<Rightarrow> Some (zRoute start end', False)
      | Some query \<Rightarrow>
          (let region = routingRegion start end' REGION_MARGIN;
               boxes = nearestObstacles
                 (filter (\<lambda>b. nb_id b \<noteq> nb_id (ri_source input) \<and> nb_id b \<noteq> nb_id (ri_target input)) (query region))
                 start end'
           in case firstClearRoute (inflateBoxes boxes CLEARANCE) start end' of
                Some cheap \<Rightarrow> Some (cheap, False)
              | None \<Rightarrow>
                  map_option (\<lambda>r. (snapToLanes (or_points r) LANE_PITCH, or_degraded r))
                    (routeOrthogonal (buildObstacleGrid region boxes start end' CLEARANCE) start end' now)))"

fun orthogonal_legs ::
  "RouteInput \<Rightarrow> (nat \<Rightarrow> real) \<Rightarrow> route_pt list \<Rightarrow> (route_pt list \<times> bool) option" where
  "orthogonal_legs input now (a # b # stops) =
     Option.bind (orthogonalLeg input now a b) (\<lambda>(points, degraded).
       map_option (\<lambda>(rest, d). (points @ rest, degraded \<or> d)) (orthogonal_legs input now (b # stops)))"
| "orthogonal_legs input now stops = Some ([], False)"

definition orthogonalCommands ::
  "RouteInput \<Rightarrow> (nat \<Rightarrow> real) \<Rightarrow> route_pt \<Rightarrow> route_pt \<Rightarrow> route_pt \<Rightarrow> route_pt \<Rightarrow> (PathCommand list \<times> bool) option" where
  "orthogonalCommands input now p0 p1 n0 n1 =
     (let start = pt_add p0 (pt_scale n0 CLEARANCE); end' = pt_add p1 (pt_scale n1 CLEARANCE)
      in if ri_waypoints input \<noteq> []
         then map_option (\<lambda>(points, degraded).
                (roundCorners (collapseCollinear (p0 # points @ [p1])) (ri_cornerRadius input), degraded))
              (orthogonal_legs input now (start # ri_waypoints input @ [end']))
         else map_option (\<lambda>(points, degraded). (roundCorners (p0 # points @ [p1]) (ri_cornerRadius input), degraded))
              (orthogonalLeg input now start end'))"

definition waypointsWithAuto :: "RouteInput \<Rightarrow> route_pt \<Rightarrow> route_pt \<Rightarrow> route_pt list" where
  "waypointsWithAuto input p0 p1 =
     (if ri_waypoints input \<noteq> [] \<or> ri_mode input \<noteq> RM_smart then ri_waypoints input
      else case sd_push (chooseSmartMode (ri_source input) (ri_target input) None (ri_obstacles input)) of
        None \<Rightarrow> ri_waypoints input
      | Some push \<Rightarrow>
          [pt_add (pt ((px p0 + px p1) / 2) ((py p0 + py p1) / 2))
             (pt_scale (perpendicular (pt_normalize (pt_sub p1 p0))) (of_nat push))])"

definition buildCommands ::
  "RouteInput \<Rightarrow> (nat \<Rightarrow> real) \<Rightarrow> RoutingMode \<Rightarrow> route_pt \<Rightarrow> route_pt \<Rightarrow> route_pt \<Rightarrow> route_pt
     \<Rightarrow> (PathCommand list \<times> bool) option" where
  "buildCommands input now mode p0 p1 n0 n1 =
     (if ri_manualRoute input
      then Some (catmullRomToBezier (p0 # ri_waypoints input @ [p1]) (1 / 2) (Some n0) (Some (pt_scale n1 (- 1))), False)
      else if mode = RM_orthogonal then orthogonalCommands input now p0 p1 n0 n1
      else if mode = RM_curved
      then Some (routeCurved \<lparr>cu_p0 = p0, cu_p1 = p1, cu_n0 = n0, cu_n1 = n1,
                   cu_waypoints = waypointsWithAuto input p0 p1, cu_curvature = ri_curvature input,
                   cu_siblingIndex = ri_siblingIndex input, cu_siblingCount = ri_siblingCount input,
                   cu_separation = ri_separation input\<rparr>, False)
      else Some (routeStraight \<lparr>st_p0 = p0, st_p1 = p1, st_waypoints = ri_waypoints input,
                   st_siblingIndex = ri_siblingIndex input, st_siblingCount = ri_siblingCount input,
                   st_separation = ri_separation input\<rparr>, False))"

section \<open>The router\<close>

record RouteResult =
  rr_geometry :: EdgeGeometry
  rr_srcPort :: Port
  rr_dstPort :: Port

definition finish_route ::
  "(real \<Rightarrow> real) \<Rightarrow> RouteInput \<Rightarrow> PathCommand list \<Rightarrow> GeometryKind \<Rightarrow> RoutingMode \<Rightarrow> nat \<Rightarrow> bool \<Rightarrow> EdgeGeometry" where
  "finish_route f32 input cmds kind mode revision degraded =
     (let maxSegments = (if ri_draft input then FLATTEN_DRAFT_SEGMENTS else FLATTEN_MAX_SEGMENTS);
          raw = flattenCommands cmds maxSegments;
          clipped = (if nb_id (ri_source input) = nb_id (ri_target input)
                     then \<lparr>cr_flat = raw, cr_start = pointAtFraction raw 0, cr_end = pointAtFraction raw 1\<rparr>
                     else clipToBoxes raw (ri_source input) (ri_target input) ENDPOINT_GAP);
          flat = map f32 (cr_flat clipped)
      in \<lparr>eg_kind = kind, eg_mode = mode, eg_flat = flat, eg_cmds = cmds, eg_bbox = polylineBBox flat,
          eg_length = polylineLength flat, eg_start = cr_start clipped, eg_end = cr_end clipped,
          eg_label = pointAtFraction flat (ri_labelPosition input), eg_degraded = degraded,
          eg_revision = revision\<rparr>)"

definition selfLoopGeometry :: "(real \<Rightarrow> real) \<Rightarrow> RouteInput \<Rightarrow> nat \<Rightarrow> RouteResult" where
  "selfLoopGeometry f32 input revision =
     \<lparr>rr_geometry = finish_route f32 input (routeSelfLoop (ri_source input) (ri_siblingIndex input)) GK_bezier RM_curved revision False,
      rr_srcPort = \<lparr>port_side = PS_right, port_t = 35 / 100\<rparr>,
      rr_dstPort = \<lparr>port_side = PS_right, port_t = 65 / 100\<rparr>\<rparr>"

definition geometry_kind :: "RoutingMode \<Rightarrow> GeometryKind" where
  "geometry_kind mode = (if mode = RM_curved then GK_bezier else if mode = RM_orthogonal then GK_poly else GK_line)"

text \<open>\<open>route\<close>; the first component is the new value of \<open>revisionCounter\<close>.\<close>

definition route ::
  "(real \<Rightarrow> real) \<Rightarrow> (nat \<Rightarrow> real) \<Rightarrow> RouteInput \<Rightarrow> RouteOptions \<Rightarrow> nat \<Rightarrow> nat \<times> RouteResult option" where
  "route f32 now input options revisionCounter =
     (let revision = revisionCounter + 1
      in (revision,
          if nb_id (ri_source input) = nb_id (ri_target input) then Some (selfLoopGeometry f32 input revision)
          else (let resolvedMode = resolveMode input options; orthogonal = (resolvedMode = RM_orthogonal);
                    srcPort = materializePort (ri_source input) (ri_target input) (ri_srcPort input) orthogonal
                                (ro_previousSource options);
                    dstPort = materializePort (ri_target input) (ri_source input) (ri_dstPort input) orthogonal
                                (ro_previousTarget options);
                    p0 = portPoint (ri_source input) srcPort; p1 = portPoint (ri_target input) dstPort;
                    n0 = sideNormal (port_side srcPort); n1 = sideNormal (port_side dstPort)
                in map_option (\<lambda>(cmds, degraded).
                     \<lparr>rr_geometry = finish_route f32 input cmds (geometry_kind resolvedMode) resolvedMode revision degraded,
                      rr_srcPort = srcPort, rr_dstPort = dstPort\<rparr>)
                   (buildCommands input now resolvedMode p0 p1 n0 n1))))"

section \<open>The nearest obstacles\<close>

lemma insert_pos_spec:
  "insert_pos c cs n \<le> n \<and> (\<forall>j. insert_pos c cs n \<le> j \<and> j < n \<longrightarrow> c < cs ! j)
   \<and> (0 < insert_pos c cs n \<longrightarrow> cs ! (insert_pos c cs n - 1) \<le> c)"
  by (induction n) (auto simp: less_Suc_eq)

lemma sorted_splice:
  assumes "sorted cs"
  shows "sorted (splice_in (insert_pos c cs (length cs)) c cs)"
proof -
  let ?p = "insert_pos c cs (length cs)"
  note spec = insert_pos_spec [of c cs "length cs"]
  have low: "x \<le> c" if x: "x \<in> set (take ?p cs)" for x
  proof -
    obtain j where j: "j < ?p" "j < length cs" "x = cs ! j" using x by (auto simp: in_set_conv_nth)
    then have "cs ! j \<le> cs ! (?p - 1)" using assms spec by (intro sorted_nth_mono) auto
    then show ?thesis using j spec by force
  qed
  have high: "c \<le> x" if x: "x \<in> set (drop ?p cs)" for x
  proof -
    obtain j where j: "j < length cs - ?p" "x = cs ! (?p + j)" using x spec by (auto simp: in_set_conv_nth)
    then have "c < cs ! (?p + j)" using spec by auto
    then show ?thesis using j by simp
  qed
  have "sorted (take ?p cs)" "sorted (drop ?p cs)" using assms by (simp_all add: sorted_wrt_take sorted_wrt_drop)
  then show ?thesis using low high by (fastforce simp: splice_in_def sorted_append)
qed

lemma mset_splice_in [simp]: "mset (splice_in i x xs) = add_mset x (mset xs)"
  by (simp add: splice_in_def) (metis append_take_drop_id mset_append)

lemma map_splice: "map f (splice_in i x xs) = splice_in i (f x) (map f xs)"
  by (simp add: splice_in_def take_map drop_map)

lemma length_splice [simp]: "length (splice_in i x xs) = Suc (length xs)"
  by (metis length_map mset_splice_in size_add_mset size_mset)

definition nearest_prefix :: "(NodeBox \<Rightarrow> real) \<Rightarrow> NodeBox list \<Rightarrow> NodeBox list \<Rightarrow> bool" where
  "nearest_prefix f boxes kept \<longleftrightarrow>
     sorted (map f kept) \<and> length kept = min MAX_REGION_OBSTACLES (length boxes)
     \<and> (\<exists>rest. mset boxes = mset kept + rest \<and> (\<forall>r \<in># rest. \<forall>k \<in> set kept. f k \<le> f r))"

lemma keep_nearest_step:
  assumes "nearest_prefix f boxes kept" "keep_nearest f (kept, map f kept) b = (kept', costs')"
  shows "nearest_prefix f (boxes @ [b]) kept' \<and> costs' = map f kept'"
proof -
  obtain rest where rest: "mset boxes = mset kept + rest" "\<forall>r \<in># rest. \<forall>k \<in> set kept. f k \<le> f r"
    using assms(1) by (auto simp: nearest_prefix_def)
  have len: "length kept = min MAX_REGION_OBSTACLES (length boxes)" and s: "sorted (map f kept)"
    using assms(1) by (auto simp: nearest_prefix_def)
  have dropped: "rest = {#} \<or> length kept = MAX_REGION_OBSTACLES"
    using len arg_cong [OF rest(1), of size] by (cases "rest = {#}") (auto simp: min_def split: if_splits)
  define k1 where "k1 = splice_in (insert_pos (f b) (map f kept) (length kept)) b kept"
  have k1: "sorted (map f k1)" "mset k1 = add_mset b (mset kept)" "length k1 = Suc (length kept)"
    using sorted_splice [OF s, of "f b"] by (simp_all add: k1_def map_splice)
  define skip where "skip \<longleftrightarrow> length kept = MAX_REGION_OBSTACLES \<and> f b \<ge> map f kept ! (length kept - 1)"
  have eq: "keep_nearest f (kept, map f kept) b =
      (if skip then (kept, map f kept)
       else if length k1 > MAX_REGION_OBSTACLES then (butlast k1, butlast (map f k1)) else (k1, map f k1))"
    by (simp only: keep_nearest_def Let_def prod.case k1_def map_splice length_map skip_def)
  show ?thesis
  proof (cases skip)
    case skipped: True
    then have True: "length kept = MAX_REGION_OBSTACLES \<and> f b \<ge> map f kept ! (length kept - 1)" unfolding skip_def .
    then have "kept \<noteq> []" by (auto simp: MAX_REGION_OBSTACLES_def)
    have "f k \<le> f b" if k: "k \<in> set kept" for k
    proof -
      obtain j where "j < length kept" "k = kept ! j" using k by (auto simp: in_set_conv_nth)
      then have "map f kept ! j \<le> map f kept ! (length kept - 1)" using s by (intro sorted_nth_mono) auto
      then show ?thesis using True \<open>j < length kept\<close> \<open>k = kept ! j\<close> by auto
    qed
    moreover have "kept' = kept" "costs' = map f kept" using assms(2) eq skipped by auto
    ultimately show ?thesis using rest len s True unfolding nearest_prefix_def
      by (intro conjI exI [of _ "add_mset b rest"]) auto
  next
    case False
    show ?thesis
    proof (cases "length k1 > MAX_REGION_OBSTACLES")
      case short: False
      then have "rest = {#}" using dropped k1 by auto
      moreover have "kept' = k1" "costs' = map f k1" using assms(2) eq False short by auto
      ultimately show ?thesis using rest len k1 short unfolding nearest_prefix_def
        by (intro conjI exI [of _ "{#}"]) auto
    next
      case full: True
      have ne: "k1 \<noteq> []" using k1(3) by auto
      have out: "kept' = butlast k1" "costs' = map f (butlast k1)" using assms(2) eq False full by (auto simp: map_butlast)
      have split: "mset k1 = add_mset (last k1) (mset (butlast k1))"
        by (metis append_butlast_last_id mset.simps ne union_mset_add_mset_right mset_append add.right_neutral)
      have sk: "sorted (map f (butlast k1 @ [last k1]))" using k1(1) ne by simp
      then have last: "\<forall>k \<in> set (butlast k1). f k \<le> f (last k1)" by (auto simp: sorted_append)
      have "mset (boxes @ [b]) = mset (butlast k1) + add_mset (last k1) rest"
        using rest(1) k1(2) split by simp
      moreover have "\<forall>r \<in># add_mset (last k1) rest. \<forall>k \<in> set (butlast k1). f k \<le> f r"
      proof (intro ballI)
        fix r k assume r: "r \<in># add_mset (last k1) rest" and k: "k \<in> set (butlast k1)"
        show "f k \<le> f r"
        proof (cases "r = last k1")
          case True
          then show ?thesis using last k by simp
        next
          case other: False
          then have r: "r \<in># rest" using r by simp
          show ?thesis
          proof (cases "last k1 \<in> set kept")
            case True
            then show ?thesis using rest(2) r last k by force
          next
            case new: False
            have "last k1 \<in># mset k1" using ne by simp
            then have "last k1 = b" using k1(2) new by auto
            then have "mset (butlast k1) = mset kept" using k1(2) split by simp
            then have "set (butlast k1) = set kept" by (metis set_mset_mset)
            then show ?thesis using rest(2) r k by simp
          qed
        qed
      qed
      moreover have "sorted (map f (butlast k1))" using sk by (simp add: sorted_append)
      moreover have "length (butlast k1) = min MAX_REGION_OBSTACLES (length (boxes @ [b]))" using full k1 len by auto
      ultimately show ?thesis unfolding nearest_prefix_def out by blast
    qed
  qed
qed

lemma keep_nearest_fold:
  "\<exists>kept. foldl (keep_nearest f) ([], []) boxes = (kept, map f kept) \<and> nearest_prefix f boxes kept"
proof (induction boxes rule: rev_induct)
  case Nil
  then show ?case by (simp add: nearest_prefix_def)
next
  case (snoc b boxes)
  then obtain kept where "foldl (keep_nearest f) ([], []) boxes = (kept, map f kept)" "nearest_prefix f boxes kept" by blast
  then show ?case using keep_nearest_step [of f boxes kept b] by (metis foldl_Cons foldl_Nil foldl_append surj_pair)
qed

text \<open>The bounded selection keeps the nearest obstacles, at most \<open>MAX_REGION_OBSTACLES\<close> of them.\<close>

theorem nearestObstacles_nearest:
  "length (nearestObstacles boxes p0 p1) = min MAX_REGION_OBSTACLES (length boxes)
   \<and> (\<exists>rest. mset boxes = mset (nearestObstacles boxes p0 p1) + rest
        \<and> (\<forall>r \<in># rest. \<forall>k \<in> set (nearestObstacles boxes p0 p1). corridorDistance k p0 p1 \<le> corridorDistance r p0 p1))"
proof (cases "length boxes \<le> MAX_REGION_OBSTACLES")
  case False
  then show ?thesis using keep_nearest_fold [of "\<lambda>b. corridorDistance b p0 p1" boxes]
    by (auto simp: nearestObstacles_def nearest_prefix_def)
qed (auto simp: nearestObstacles_def)

section \<open>Clipping\<close>

lemma bisect_loop_border:
  "\<not> insideRoundedBox hi b gap \<Longrightarrow> insideRoundedBox lo b gap \<Longrightarrow>
     \<not> insideRoundedBox (bisect_loop n b gap lo hi) b gap
     \<and> (\<exists>l. insideRoundedBox l b gap
          \<and> px (bisect_loop n b gap lo hi) - px l = (px hi - px lo) / 2 ^ n
          \<and> py (bisect_loop n b gap lo hi) - py l = (py hi - py lo) / 2 ^ n)"
proof (induction n arbitrary: lo hi)
  case 0
  then show ?case by (intro conjI exI [of _ lo]) simp_all
next
  case (Suc n)
  let ?mid = "pt_lerp lo hi (1 / 2)"
  have half: "px hi - px ?mid = (px hi - px lo) / 2" "py hi - py ?mid = (py hi - py lo) / 2"
    "px ?mid - px lo = (px hi - px lo) / 2" "py ?mid - py lo = (py hi - py lo) / 2"
    by (simp_all add: pt_lerp_def field_simps)
  show ?case
  proof (cases "insideRoundedBox ?mid b gap")
    case True
    then show ?thesis using Suc.IH [OF Suc.prems(1) True] by (simp add: Let_def half)
  next
    case False
    then show ?thesis using Suc.IH [OF False Suc.prems(2)] by (simp add: Let_def half)
  qed
qed

lemma find_index_Some:
  "find_index P xs = Some k \<Longrightarrow> k < length xs \<and> P (xs ! k) \<and> (\<forall>j < k. \<not> P (xs ! j))"
proof (induction xs arbitrary: k)
  case (Cons x xs)
  show ?case
  proof (cases "P x")
    case False
    then obtain j where "find_index P xs = Some j" "k = Suc j" using Cons.prems by auto
    then show ?thesis using Cons.IH [of j] False by (auto simp: nth_Cons' less_Suc_eq_0_disj)
  qed (use Cons.prems in auto)
qed simp

lemma find_index_None: "find_index P xs = None \<longleftrightarrow> (\<forall>x \<in> set xs. \<not> P x)"
  by (induction xs) auto

text \<open>
  A path that starts inside the source card and leaves it is cut where it crosses the border, within
  one part in \<open>2 ^ BISECTIONS\<close> of the segment that crosses it.
\<close>

theorem clip_starts_at_border:
  assumes "insideRoundedBox (hd points) source gap" "\<exists>p \<in> set points. \<not> insideRoundedBox p source gap"
  shows "\<exists>k. 0 < k \<and> k < length points \<and> (\<forall>j < k. insideRoundedBox (points ! j) source gap)
    \<and> snd (clip_head points source gap) = fst (clip_head points source gap) # drop k points
    \<and> \<not> insideRoundedBox (fst (clip_head points source gap)) source gap
    \<and> (\<exists>l. insideRoundedBox l source gap
         \<and> \<bar>px (fst (clip_head points source gap)) - px l\<bar> = \<bar>px (points ! k) - px (points ! (k - 1))\<bar> / 64
         \<and> \<bar>py (fst (clip_head points source gap)) - py l\<bar> = \<bar>py (points ! k) - py (points ! (k - 1))\<bar> / 64)"
proof -
  obtain k where k: "find_index (\<lambda>p. \<not> insideRoundedBox p source gap) points = Some k"
    using assms(2) find_index_None [of "\<lambda>p. \<not> insideRoundedBox p source gap" points] by fastforce
  note spec = find_index_Some [OF k]
  have ne: "points \<noteq> []" using assms(2) by auto
  have pos: "0 < k" using spec assms(1) ne by (cases k) (auto simp: hd_conv_nth)
  have in_: "insideRoundedBox (points ! (k - 1)) source gap" using spec pos by auto
  have cut: "fst (clip_head points source gap) = bisect_loop 6 source gap (points ! (k - 1)) (points ! k)"
    "snd (clip_head points source gap) = fst (clip_head points source gap) # drop k points"
    using k pos by (simp_all add: clip_head_def Let_def bisect_def BISECTIONS_def)
  from bisect_loop_border [of "points ! k" source gap "points ! (k - 1)" 6] spec in_
  obtain l where l: "\<not> insideRoundedBox (fst (clip_head points source gap)) source gap" "insideRoundedBox l source gap"
    "px (fst (clip_head points source gap)) - px l = (px (points ! k) - px (points ! (k - 1))) / 64"
    "py (fst (clip_head points source gap)) - py l = (py (points ! k) - py (points ! (k - 1))) / 64"
    by (auto simp: cut(1))
  have "\<bar>px (fst (clip_head points source gap)) - px l\<bar> = \<bar>px (points ! k) - px (points ! (k - 1))\<bar> / 64"
    "\<bar>py (fst (clip_head points source gap)) - py l\<bar> = \<bar>py (points ! k) - py (points ! (k - 1))\<bar> / 64"
    unfolding l(3,4) by simp_all
  then show ?thesis using pos spec cut(2) l(1,2) by blast
qed

section \<open>What every route satisfies\<close>

lemma pushPoint_even: "even (length flat) \<Longrightarrow> even (length (pushPoint flat p)) \<and> length flat \<le> length (pushPoint flat p)"
  by (simp add: pushPoint_def Let_def)

lemma pushPoint_fold:
  "even (length flat) \<Longrightarrow> even (length (foldl pushPoint flat ps)) \<and> length flat \<le> length (foldl pushPoint flat ps)"
proof (induction ps arbitrary: flat)
  case (Cons p ps)
  have a: "even (length (pushPoint flat p))" "length flat \<le> length (pushPoint flat p)"
    using pushPoint_even [OF Cons.prems, of p] by auto
  show ?case using a(2) Cons.IH [OF a(1)] by simp
qed simp

lemma flatten_command_even:
  "even (length (fst st)) \<Longrightarrow>
     even (length (fst (flatten_command m st c))) \<and> length (fst st) \<le> length (fst (flatten_command m st c))"
  by (cases st; cases c) (auto simp: pushPoint_even pushPoint_fold)

lemma flatten_fold:
  "even (length (fst st)) \<Longrightarrow>
     even (length (fst (foldl (flatten_command m) st cs))) \<and> length (fst st) \<le> length (fst (foldl (flatten_command m) st cs))"
proof (induction cs arbitrary: st)
  case (Cons c cs)
  have a: "even (length (fst (flatten_command m st c)))" "length (fst st) \<le> length (fst (flatten_command m st c))"
    using flatten_command_even [OF Cons.prems, of m c] by auto
  show ?case using a(2) Cons.IH [OF a(1)] by simp
qed simp

definition starts_path :: "PathCommand list \<Rightarrow> bool" where
  "starts_path cmds \<longleftrightarrow> (\<exists>p cs. cmds = MoveTo p # cs)"

lemma flattenCommands_points:
  assumes "starts_path cmds"
  shows "4 \<le> length (flattenCommands cmds m) \<and> even (length (flattenCommands cmds m))"
proof -
  obtain p cs where cmds: "cmds = MoveTo p # cs" using assms by (auto simp: starts_path_def)
  obtain flat cursor where f: "foldl (flatten_command m) ([], pt 0 0) cmds = (flat, cursor)" by fastforce
  have "2 \<le> length flat \<and> even (length flat)"
    using flatten_fold [of "(pushPoint [] p, p)" m cs] f by (simp add: cmds pushPoint_def)
  then show ?thesis using f by (cases "length flat = 2 \<or> length flat = 3") (auto simp: flattenCommands_def)
qed

lemma starts_path_simps [simp]:
  "starts_path (routeSelfLoop b i)" "starts_path (catmullRomToBezier ps t u v)" "starts_path (roundCorners ps r)"
  "starts_path (routeStraight i')" "starts_path (routeCurved c)"
  by (auto simp: starts_path_def routeSelfLoop_def catmullRomToBezier_def roundCorners_def routeStraight_def
      routeCurved_def Let_def)

lemma length_flatten_points [simp]: "length (flatten_points ps) = 2 * length ps"
  by (induction ps) (auto simp: flatten_points_def)

lemma clipToBoxes_points: "4 \<le> length (cr_flat (clipToBoxes flat s t gap)) \<and> even (length (cr_flat (clipToBoxes flat s t gap)))"
  by (auto simp: clipToBoxes_def Let_def split: prod.splits)

lemma orthogonalLeg_returns:
  "\<exists>ps d. orthogonalLeg input now a b = Some (ps, d) \<and> (d \<longrightarrow> ri_obstacles input \<noteq> None)"
proof (cases "ri_obstacles input")
  case (Some query)
  define region where "region = routingRegion a b REGION_MARGIN"
  define boxes where "boxes = nearestObstacles
      (filter (\<lambda>b. nb_id b \<noteq> nb_id (ri_source input) \<and> nb_id b \<noteq> nb_id (ri_target input)) (query region)) a b"
  obtain r where "routeOrthogonal (buildObstacleGrid region boxes a b CLEARANCE) a b now = Some r"
    using search_total by fast
  then show ?thesis using Some
    by (cases "firstClearRoute (inflateBoxes boxes CLEARANCE) a b")
       (auto simp: orthogonalLeg_def Let_def region_def [symmetric] boxes_def [symmetric] intro: exI [of _ False])
qed (auto simp: orthogonalLeg_def intro: exI [of _ False])

lemma orthogonal_legs_return:
  "\<exists>ps d. orthogonal_legs input now stops = Some (ps, d) \<and> (d \<longrightarrow> ri_obstacles input \<noteq> None)"
proof (induction input now stops rule: orthogonal_legs.induct)
  case (1 input now a b stops)
  obtain ps d where leg: "orthogonalLeg input now a b = Some (ps, d)" "d \<longrightarrow> ri_obstacles input \<noteq> None"
    using orthogonalLeg_returns by blast
  then show ?case using 1 [OF leg(1) refl] by auto
qed auto

lemma buildCommands_returns:
  "\<exists>cmds d. buildCommands input now mode p0 p1 n0 n1 = Some (cmds, d) \<and> starts_path cmds
     \<and> (d \<longrightarrow> mode = RM_orthogonal \<and> ri_obstacles input \<noteq> None)"
proof (cases "\<not> ri_manualRoute input \<and> mode = RM_orthogonal")
  case True
  let ?s = "pt_add p0 (pt_scale n0 CLEARANCE)" and ?e = "pt_add p1 (pt_scale n1 CLEARANCE)"
  obtain ps d where "orthogonalLeg input now ?s ?e = Some (ps, d)" "d \<longrightarrow> ri_obstacles input \<noteq> None"
    using orthogonalLeg_returns by blast
  moreover obtain qs e where "orthogonal_legs input now (?s # ri_waypoints input @ [?e]) = Some (qs, e)"
    "e \<longrightarrow> ri_obstacles input \<noteq> None" using orthogonal_legs_return by blast
  ultimately show ?thesis using True by (auto simp: buildCommands_def orthogonalCommands_def Let_def)
qed (auto simp: buildCommands_def)

lemma smart_mode_concrete: "sd_mode (chooseSmartMode s t c q) \<noteq> RM_smart"
  by (simp add: chooseSmartMode_def Let_def)

lemma resolveMode_concrete: "resolveMode input options \<noteq> RM_smart"
  by (auto simp: resolveMode_def Let_def smart_mode_concrete)

lemma four_halves: "4 \<le> n \<Longrightarrow> 2 \<le> n div (2 :: nat)"
  by simp

lemma finish_route_ok:
  "starts_path cmds \<Longrightarrow> 2 \<le> pointCount (eg_flat (finish_route f32 input cmds k mode r d))
     \<and> even (length (eg_flat (finish_route f32 input cmds k mode r d)))
     \<and> eg_bbox (finish_route f32 input cmds k mode r d) = polylineBBox (eg_flat (finish_route f32 input cmds k mode r d))
     \<and> eg_mode (finish_route f32 input cmds k mode r d) = mode
     \<and> eg_degraded (finish_route f32 input cmds k mode r d) = d
     \<and> eg_revision (finish_route f32 input cmds k mode r d) = r"
  using flattenCommands_points clipToBoxes_points by (simp add: finish_route_def Let_def pointCount_def four_halves)


section \<open>Samples and divergences\<close>

definition sample_card :: "string \<Rightarrow> real \<Rightarrow> real \<Rightarrow> real \<Rightarrow> NodeBox" where
  "sample_card i x y r = \<lparr>nb_id = i, nb_x = x, nb_y = y, nb_w = 20, nb_h = 20, nb_radius = r\<rparr>"

definition sample_input :: RouteInput where
  "sample_input =
     \<lparr>ri_source = sample_card ''a'' 0 0 4, ri_target = sample_card ''a'' 0 0 4,
      ri_srcPort = \<lparr>req_side = None, req_t = 1 / 2\<rparr>, ri_dstPort = \<lparr>req_side = None, req_t = 1 / 2\<rparr>,
      ri_waypoints = [], ri_manualRoute = False, ri_mode = RM_smart, ri_siblingIndex = 1, ri_siblingCount = 2,
      ri_separation = SEPARATION, ri_obstacles = None, ri_curvature = 35 / 100, ri_cornerRadius = 8, ri_zoom = 1,
      ri_draft = False, ri_labelPosition = 1 / 2\<rparr>"

lemma clip_starts_at_border_witness:
  "\<not> insideRoundedBox (fst (clip_head [pt 10 10, pt 74 10] (sample_card ''a'' 0 0 0) 0)) (sample_card ''a'' 0 0 0) 0"
proof -
  have "insideRoundedBox (hd [pt 10 10, pt 74 10]) (sample_card ''a'' 0 0 0) 0"
    "\<exists>p \<in> set [pt 10 10, pt 74 10]. \<not> insideRoundedBox p (sample_card ''a'' 0 0 0) 0"
    by (simp_all add: insideRoundedBox_def sample_card_def Let_def)
  from clip_starts_at_border [OF this] show ?thesis by blast
qed



end
