(* ===== verification/RouteHit.thy ===== *)
theory RouteHit
  imports RouteGeometry
begin

text \<open>
  Hit-testing and waypoint editing, \<open>hit-test.ts\<close> and \<open>waypoints.ts\<close> of
  \<open>packages/domain/src/edges/routing\<close>: which edge is under the pointer, and where in the list of
  waypoints a new one belongs.
\<close>

section \<open>Picking an edge\<close>

definition HIT_TOLERANCE :: real where "HIT_TOLERANCE = 6"
definition HIT_TOLERANCE_WIDE :: real where "HIT_TOLERANCE_WIDE = 10"

definition hitTolerance :: "real \<Rightarrow> bool \<Rightarrow> real" where
  "hitTolerance zoom wide = (if wide then HIT_TOLERANCE_WIDE else HIT_TOLERANCE) / max zoom (1 / 1000)"

definition bboxHit :: "BBox \<Rightarrow> route_pt \<Rightarrow> real \<Rightarrow> bool" where
  "bboxHit b p tolerance \<longleftrightarrow>
     px p \<ge> minX b - tolerance \<and> px p \<le> maxX b + tolerance
     \<and> py p \<ge> minY b - tolerance \<and> py p \<le> maxY b + tolerance"

text \<open>\<open>Infinity\<close> is \<open>None\<close>; a box that is inside out rejects every point.\<close>

definition distanceToEdge :: "EdgeGeometry \<Rightarrow> route_pt \<Rightarrow> real \<Rightarrow> real option" where
  "distanceToEdge g p tolerance =
     (case eg_bbox g of None \<Rightarrow> None
      | Some b \<Rightarrow> if \<not> bboxHit b p tolerance then None else distanceToPolyline (eg_flat g) p)"

definition isEdgeHit :: "EdgeGeometry \<Rightarrow> route_pt \<Rightarrow> real \<Rightarrow> bool" where
  "isEdgeHit g p tolerance = (case distanceToEdge g p tolerance of None \<Rightarrow> False | Some d \<Rightarrow> d \<le> tolerance)"

record NearestOnEdge =
  ne_point :: route_pt
  ne_t :: real
  ne_distance :: real

text \<open>The state of the loop of \<open>nearestPointOnEdge\<close>: best squared distance, its index and parameter, the
  lengths so far and their total.\<close>

record nearest_scan =
  ns_best :: "real option"
  ns_index :: nat
  ns_t :: real
  ns_lengths :: "real list"
  ns_total :: real

definition nearest_step :: "real list \<Rightarrow> route_pt \<Rightarrow> nearest_scan \<Rightarrow> nat \<Rightarrow> nearest_scan" where
  "nearest_step flat p s i =
     (let a = pointAtIndex flat (i - 1); b = pointAtIndex flat i;
          total = ns_total s + hypot (px b - px a) (py b - py a);
          s1 = s\<lparr>ns_total := total, ns_lengths := ns_lengths s @ [total]\<rparr>;
          (d2, t) = projectOnSegment p a b
      in if (case ns_best s of None \<Rightarrow> True | Some best \<Rightarrow> d2 < best)
         then s1\<lparr>ns_best := Some d2, ns_index := i, ns_t := t\<rparr> else s1)"

definition nearestPointOnEdge :: "EdgeGeometry \<Rightarrow> route_pt \<Rightarrow> NearestOnEdge" where
  "nearestPointOnEdge g p =
     (let flat = eg_flat g; count = pointCount flat; first = pointAtIndex flat 0
      in if count < 2 then \<lparr>ne_point = first, ne_t = 0, ne_distance = hypot (px p - px first) (py p - py first)\<rparr>
         else (let s = foldl (nearest_step flat p)
                     \<lparr>ns_best = None, ns_index = 1, ns_t = 0, ns_lengths = [0], ns_total = 0\<rparr> [1..<count];
                   a = pointAtIndex flat (ns_index s - 1); b = pointAtIndex flat (ns_index s);
                   point = pt (px a + (px b - px a) * ns_t s) (py a + (py b - py a) * ns_t s);
                   before = ns_lengths s ! (ns_index s - 1);
                   segment = ns_lengths s ! ns_index s - before
               in \<lparr>ne_point = point,
                   ne_t = (if ns_total s = 0 then 0 else (before + segment * ns_t s) / ns_total s),
                   ne_distance = (case ns_best s of None \<Rightarrow> 0 | Some d2 \<Rightarrow> sqrt d2)\<rparr>))"

record EdgeHitCandidate =
  ec_id :: string
  ec_geometry :: EdgeGeometry
  ec_priority :: "real option"

record pick_state =
  pk_best :: "EdgeHitCandidate option"
  pk_distance :: "real option"
  pk_priority :: "real option"

definition candidate_priority :: "EdgeHitCandidate \<Rightarrow> real" where
  "candidate_priority c = (case ec_priority c of Some v \<Rightarrow> v | None \<Rightarrow> 0)"

definition pick_step :: "route_pt \<Rightarrow> real \<Rightarrow> pick_state \<Rightarrow> EdgeHitCandidate \<Rightarrow> pick_state" where
  "pick_step p tolerance s c =
     (case distanceToEdge (ec_geometry c) p tolerance of None \<Rightarrow> s
      | Some d \<Rightarrow>
          if d > tolerance then s
          else (let priority = candidate_priority c
                in if (case pk_priority s of None \<Rightarrow> True | Some best \<Rightarrow> priority > best)
                     \<or> pk_priority s = Some priority \<and> (case pk_distance s of None \<Rightarrow> True | Some best \<Rightarrow> d < best)
                   then \<lparr>pk_best = Some c, pk_distance = Some d, pk_priority = Some priority\<rparr> else s))"

definition pickEdge :: "EdgeHitCandidate list \<Rightarrow> route_pt \<Rightarrow> real \<Rightarrow> EdgeHitCandidate option" where
  "pickEdge candidates p tolerance =
     pk_best (foldl (pick_step p tolerance) \<lparr>pk_best = None, pk_distance = None, pk_priority = None\<rparr> candidates)"

section \<open>Waypoints\<close>

definition WAYPOINT_HIT_PX :: real where "WAYPOINT_HIT_PX = 8"

definition waypoint_chain :: "route_pt list \<Rightarrow> route_pt \<Rightarrow> route_pt \<Rightarrow> route_pt list" where
  "waypoint_chain waypoints p0 p1 = p0 # waypoints @ [p1]"

definition insert_step :: "route_pt list \<Rightarrow> route_pt \<Rightarrow> nat \<times> real option \<Rightarrow> nat \<Rightarrow> nat \<times> real option" where
  "insert_step points p best i =
     (let d2 = fst (projectOnSegment p (points ! (i - 1)) (points ! i))
      in if (case snd best of None \<Rightarrow> True | Some b \<Rightarrow> d2 < b) then (i - 1, Some d2) else best)"

definition waypointInsertIndex :: "route_pt list \<Rightarrow> route_pt \<Rightarrow> route_pt \<Rightarrow> route_pt \<Rightarrow> nat" where
  "waypointInsertIndex waypoints p0 p1 p =
     (let points = waypoint_chain waypoints p0 p1
      in fst (foldl (insert_step points p) (0, None) [1..<length points]))"

definition insertWaypoint :: "route_pt list \<Rightarrow> route_pt \<Rightarrow> route_pt \<Rightarrow> route_pt \<Rightarrow> route_pt list" where
  "insertWaypoint waypoints p0 p1 p =
     (let i = waypointInsertIndex waypoints p0 p1 p in take i waypoints @ [p] @ drop i waypoints)"

definition moveWaypoint :: "route_pt list \<Rightarrow> int \<Rightarrow> route_pt \<Rightarrow> route_pt list" where
  "moveWaypoint waypoints index p =
     (if index < 0 \<or> index \<ge> int (length waypoints) then waypoints else waypoints[nat index := p])"

definition removeWaypoint :: "route_pt list \<Rightarrow> int \<Rightarrow> route_pt list" where
  "removeWaypoint waypoints index =
     (if index < 0 \<or> index \<ge> int (length waypoints) then waypoints
      else take (nat index) waypoints @ drop (Suc (nat index)) waypoints)"

definition nearestWaypoint :: "route_pt list \<Rightarrow> route_pt \<Rightarrow> real \<Rightarrow> nat option" where
  "nearestWaypoint waypoints p tolerance =
     fst (foldl (\<lambda>(best, bestD2) i.
            let w = waypoints ! i; d2 = (px w - px p) ^ 2 + (py w - py p) ^ 2
            in if d2 \<le> bestD2 then (Some i, d2) else (best, bestD2))
          (None, tolerance * tolerance) [0..<length waypoints])"

definition waypointsInsideBoxes :: "route_pt list \<Rightarrow> NodeBox list \<Rightarrow> nat list" where
  "waypointsInsideBoxes waypoints boxes =
     filter (\<lambda>i. list_ex (\<lambda>b. px (waypoints ! i) \<ge> nb_x b \<and> px (waypoints ! i) \<le> nb_x b + nb_w b
                 \<and> py (waypoints ! i) \<ge> nb_y b \<and> py (waypoints ! i) \<le> nb_y b + nb_h b) boxes)
       [0..<length waypoints]"

section \<open>The distance to a polyline\<close>

definition on_polyline :: "real list \<Rightarrow> route_pt \<Rightarrow> bool" where
  "on_polyline flat q \<longleftrightarrow>
     (\<exists>i s. 0 < i \<and> i < pointCount flat \<and> 0 \<le> s \<and> s \<le> 1
        \<and> q = pt_lerp (pointAtIndex flat (i - 1)) (pointAtIndex flat i) s)"

definition solid_polyline :: "real list \<Rightarrow> bool" where
  "solid_polyline flat \<longleftrightarrow>
     (\<forall>i. 0 < i \<and> i < pointCount flat \<longrightarrow> solid_segment (pointAtIndex flat (i - 1)) (pointAtIndex flat i))"

lemma smaller_d2_min: "smaller_d2 best d = Some (case best of None \<Rightarrow> d | Some b \<Rightarrow> min b d)"
  by (auto simp: smaller_d2_def min_def split: option.splits)

lemma fold_smaller:
  "foldl (\<lambda>best i. smaller_d2 best (f i)) init is =
     (if is = [] then init
      else Some (case init of None \<Rightarrow> Min (f ` set is) | Some b \<Rightarrow> min b (Min (f ` set is))))"
proof (induction "is" rule: rev_induct)
  case (snoc i "is")
  show ?case
  proof (cases "is = []")
    case True
    show ?thesis unfolding True by (simp add: smaller_d2_min split: option.split)
  next
    case False
    then have m: "Min (f ` set (is @ [i])) = min (Min (f ` set is)) (f i)" by (simp add: min.commute)
    show ?thesis unfolding m using snoc False
      by (simp add: smaller_d2_min min.assoc split: option.split)
  qed
qed simp

lemma distanceToPolyline_least:
  assumes "2 \<le> pointCount flat" "solid_polyline flat"
  obtains d q where "distanceToPolyline flat p = Some d" "on_polyline flat q" "d = sqrt (square_dist p q)"
    "\<And>q'. on_polyline flat q' \<Longrightarrow> d \<le> sqrt (square_dist p q')"
proof -
  let ?is = "[1..<pointCount flat]"
  define f where "f = (\<lambda>i. fst (projectOnSegment p (pointAtIndex flat (i - 1)) (pointAtIndex flat i)))"
  have ne: "set ?is \<noteq> {}" "?is \<noteq> []" using assms(1) by auto
  have d: "distanceToPolyline flat p = Some (sqrt (Min (f ` set ?is)))"
    using assms(1) ne(2) fold_smaller [of f None ?is] by (simp add: distanceToPolyline_def Let_def f_def)
  have "Min (f ` set ?is) \<in> f ` set ?is" using ne by (intro Min_in) auto
  then obtain i where i: "i \<in> set ?is" "Min (f ` set ?is) = f i" by blast
  then have i: "0 < i" "i < pointCount flat" "Min (f ` set ?is) = f i" by auto
  let ?t = "snd (projectOnSegment p (pointAtIndex flat (i - 1)) (pointAtIndex flat i))"
  let ?q = "pt_lerp (pointAtIndex flat (i - 1)) (pointAtIndex flat i) ?t"
  note proj = projectOnSegment_point [of p "pointAtIndex flat (i - 1)" "pointAtIndex flat i"]
  have q: "on_polyline flat ?q" unfolding on_polyline_def using i proj by blast
  have "f i = square_dist p ?q" using proj by (simp add: f_def)
  moreover have "sqrt (Min (f ` set ?is)) \<le> sqrt (square_dist p q')" if q': "on_polyline flat q'" for q'
  proof -
    obtain j s where j: "0 < j" "j < pointCount flat" "0 \<le> s" "s \<le> 1"
      "q' = pt_lerp (pointAtIndex flat (j - 1)) (pointAtIndex flat j) s" using q' by (auto simp: on_polyline_def)
    have "Min (f ` set ?is) \<le> f j" using j by (intro Min_le) auto
    also have "\<dots> \<le> square_dist p q'"
      using projectOnSegment_nearest [of "pointAtIndex flat (j - 1)" "pointAtIndex flat j" s p] assms(2) j
      by (auto simp: f_def solid_polyline_def)
    finally show ?thesis by simp
  qed
  ultimately show ?thesis using that [OF d q] i by simp
qed

lemma square_dist_nonneg: "0 \<le> square_dist p q"
  by (simp add: square_dist_def)

lemma coordinate_le_dist: "\<bar>px p - px q\<bar> \<le> sqrt (square_dist p q)" "\<bar>py p - py q\<bar> \<le> sqrt (square_dist p q)"
  by (auto intro!: real_le_rsqrt simp: square_dist_def power2_eq_square)

lemma lerp_between:
  fixes u v :: real
  assumes "0 \<le> s" "s \<le> 1" "l \<le> u" "u \<le> h" "l \<le> v" "v \<le> h"
  shows "l \<le> u + (v - u) * s \<and> u + (v - u) * s \<le> h"
proof -
  have e: "u + (v - u) * s = (1 - s) * u + s * v" by (simp add: algebra_simps)
  have "(1 - s) * l + s * l \<le> (1 - s) * u + s * v" "(1 - s) * u + s * v \<le> (1 - s) * h + s * h"
    using assms by (intro add_mono mult_left_mono; simp)+
  then show ?thesis unfolding e by (simp add: algebra_simps)
qed

lemma on_polyline_in_bbox:
  assumes "polylineBBox flat = Some b" "on_polyline flat q"
  shows "bboxContains b q"
proof -
  obtain i s where i: "0 < i" "i < pointCount flat" "0 \<le> s" "s \<le> 1"
    "q = pt_lerp (pointAtIndex flat (i - 1)) (pointAtIndex flat i) s" using assms(2) by (auto simp: on_polyline_def)
  have "bboxContains b (pointAtIndex flat j)" if "j < pointCount flat" for j
    using bboxOfPoints_contains [of "flat_points flat" b] assms(1) that by (simp add: polylineBBox_def flat_points_def)
  then have "bboxContains b (pointAtIndex flat (i - 1))" "bboxContains b (pointAtIndex flat i)" using i by simp_all
  then have "minX b \<le> px q \<and> px q \<le> maxX b" "minY b \<le> py q \<and> py q \<le> maxY b"
    unfolding i(5) pt_lerp_def pt_sel bboxContains_def by (intro lerp_between [OF i(3,4)]; simp)+
  then show ?thesis by (simp add: bboxContains_def)
qed

text \<open>C18. The quick rejection by the box never loses a hit: an edge is hit exactly when one of its points is near.\<close>

theorem edge_hit_exact:
  assumes "eg_bbox g = polylineBBox (eg_flat g)" "2 \<le> pointCount (eg_flat g)" "solid_polyline (eg_flat g)"
  shows "isEdgeHit g p tolerance \<longleftrightarrow> (\<exists>q. on_polyline (eg_flat g) q \<and> sqrt (square_dist p q) \<le> tolerance)"
proof -
  obtain d q where d: "distanceToPolyline (eg_flat g) p = Some d" "on_polyline (eg_flat g) q" "d = sqrt (square_dist p q)"
    "\<And>q'. on_polyline (eg_flat g) q' \<Longrightarrow> d \<le> sqrt (square_dist p q')"
    using distanceToPolyline_least [OF assms(2,3)] by blast
  have "flat_points (eg_flat g) \<noteq> []" using assms(2) by (simp add: flat_points_def)
  then obtain b where b: "eg_bbox g = Some b" using assms(1) by (cases "flat_points (eg_flat g)") (auto simp: polylineBBox_def)
  have box: "bboxHit b p tolerance" if "sqrt (square_dist p q') \<le> tolerance" "on_polyline (eg_flat g) q'" for q'
    using on_polyline_in_bbox [of "eg_flat g" b q'] that(2) b assms(1) coordinate_le_dist [of p q'] that(1)
    by (auto simp: bboxHit_def bboxContains_def abs_if split: if_splits)
  show ?thesis
  proof
    assume "isEdgeHit g p tolerance"
    then show "\<exists>q. on_polyline (eg_flat g) q \<and> sqrt (square_dist p q) \<le> tolerance"
      using d(1,2,3) b by (auto simp: isEdgeHit_def distanceToEdge_def split: if_splits)
  next
    assume "\<exists>q. on_polyline (eg_flat g) q \<and> sqrt (square_dist p q) \<le> tolerance"
    then obtain q' where q': "on_polyline (eg_flat g) q'" "sqrt (square_dist p q') \<le> tolerance" by blast
    then show "isEdgeHit g p tolerance"
      using box d(1) d(4) [OF q'(1)] b by (simp add: isEdgeHit_def distanceToEdge_def)
  qed
qed

section \<open>Picking and inserting\<close>

definition pick_beats :: "real \<times> real \<Rightarrow> real \<times> real \<Rightarrow> bool" where
  "pick_beats a b \<longleftrightarrow> fst a > fst b \<or> fst a = fst b \<and> snd a < snd b"

definition pick_run :: "route_pt \<Rightarrow> real \<Rightarrow> EdgeHitCandidate list \<Rightarrow> pick_state" where
  "pick_run p tolerance cs =
     foldl (pick_step p tolerance) \<lparr>pk_best = None, pk_distance = None, pk_priority = None\<rparr> cs"

lemma pick_fold:
  "(pk_best (pick_run p tolerance cs) = None \<longrightarrow> pk_priority (pick_run p tolerance cs) = None \<and> (\<forall>c \<in> set cs. \<not> isEdgeHit (ec_geometry c) p tolerance))
    \<and> (\<forall>c. pk_best (pick_run p tolerance cs) = Some c \<longrightarrow> c \<in> set cs \<and> isEdgeHit (ec_geometry c) p tolerance
        \<and> pk_priority (pick_run p tolerance cs) = Some (candidate_priority c) \<and> pk_distance (pick_run p tolerance cs) = distanceToEdge (ec_geometry c) p tolerance
        \<and> (\<forall>c' \<in> set cs. \<forall>d d'. distanceToEdge (ec_geometry c) p tolerance = Some d
             \<and> distanceToEdge (ec_geometry c') p tolerance = Some d' \<and> d' \<le> tolerance
             \<longrightarrow> \<not> pick_beats (candidate_priority c', d') (candidate_priority c, d)))"
proof (induction cs rule: rev_induct)
  case Nil
  then show ?case by (simp add: pick_run_def)
next
  case (snoc c cs)
  have step: "pick_run p tolerance (cs @ [c]) = pick_step p tolerance (pick_run p tolerance cs) c" by (simp add: pick_run_def)
  show ?case
  proof (cases "distanceToEdge (ec_geometry c) p tolerance")
    case None
    then show ?thesis using snoc.IH unfolding step by (auto simp: pick_step_def isEdgeHit_def)
  next
    case (Some d)
    show ?thesis
    proof (cases "d > tolerance")
      case True
      then show ?thesis using snoc.IH Some unfolding step by (auto simp: pick_step_def isEdgeHit_def)
    next
      case near: False
      show ?thesis
      proof (cases "pk_best (pick_run p tolerance cs)")
        case None
        then show ?thesis using snoc.IH Some near unfolding step
          by (auto simp: pick_step_def isEdgeHit_def Let_def pick_beats_def)
      next
        case old: (Some b)
        then obtain e where e: "distanceToEdge (ec_geometry b) p tolerance = Some e"
          using snoc.IH by (auto simp: isEdgeHit_def split: option.splits)
        then show ?thesis using snoc.IH old Some near unfolding step
          by (auto simp: pick_step_def isEdgeHit_def Let_def pick_beats_def)
      qed
    qed
  qed
qed

text \<open>The edge picked is hit, and no candidate that is hit has a higher priority, nor the same priority and is nearer.\<close>

lemma pickEdge_best:
  "pickEdge cs p tolerance = Some c \<Longrightarrow> c \<in> set cs \<and> isEdgeHit (ec_geometry c) p tolerance
     \<and> (\<forall>c' \<in> set cs. \<forall>d d'. distanceToEdge (ec_geometry c) p tolerance = Some d
          \<and> distanceToEdge (ec_geometry c') p tolerance = Some d' \<and> d' \<le> tolerance
          \<longrightarrow> \<not> pick_beats (candidate_priority c', d') (candidate_priority c, d))"
  using pick_fold [of p tolerance cs] by (simp add: pickEdge_def pick_run_def)

lemma pickEdge_None: "pickEdge cs p tolerance = None \<Longrightarrow> c \<in> set cs \<Longrightarrow> \<not> isEdgeHit (ec_geometry c) p tolerance"
  using pick_fold [of p tolerance cs] by (simp add: pickEdge_def pick_run_def)

lemma waypointInsertIndex_le: "waypointInsertIndex ws p0 p1 p \<le> length ws"
proof -
  have bound: "fst (foldl (insert_step points p) (k, best) is) \<le> n"
    if "k \<le> n" "\<forall>i \<in> set is. i \<le> Suc n" for points k best "is" n
    using that by (induction "is" arbitrary: k best) (auto simp: insert_step_def Let_def)
  show ?thesis unfolding waypointInsertIndex_def Let_def
    by (rule bound) (auto simp: waypoint_chain_def)
qed

text \<open>Removing the waypoint that was just inserted gives the list back.\<close>

lemma insert_then_remove:
  "removeWaypoint (insertWaypoint ws p0 p1 p) (int (waypointInsertIndex ws p0 p1 p)) = ws
   \<and> insertWaypoint ws p0 p1 p ! waypointInsertIndex ws p0 p1 p = p"
  using waypointInsertIndex_le [of ws p0 p1 p]
  by (simp add: removeWaypoint_def insertWaypoint_def Let_def nth_append min_def)

definition sample_geometry :: EdgeGeometry where
  "sample_geometry =
     \<lparr>eg_kind = GK_line, eg_mode = RM_straight, eg_flat = [0, 0, 10, 0], eg_cmds = [MoveTo (pt 0 0), LineTo (pt 10 0)],
      eg_bbox = polylineBBox [0, 0, 10, 0], eg_length = 10, eg_start = oriented 0 0 0, eg_end = oriented 10 0 0,
      eg_label = oriented 5 0 0, eg_degraded = False, eg_revision = 1\<rparr>"

theorem edge_hit_exact_witness: "isEdgeHit sample_geometry (pt 5 3) 6"
proof -
  have "solid_polyline (eg_flat sample_geometry)" "2 \<le> pointCount (eg_flat sample_geometry)"
    by (auto simp: sample_geometry_def solid_polyline_def pointCount_def solid_segment_def square_dist_def
        pointAtIndex_def EPSILON_def less_Suc_eq)
  moreover have "on_polyline (eg_flat sample_geometry) (pt 5 0)"
    unfolding on_polyline_def sample_geometry_def
    by (intro exI [of _ 1] exI [of _ "1 / 2"]) (simp add: pointCount_def pointAtIndex_def pt_lerp_def)
  moreover have "sqrt (square_dist (pt 5 3) (pt 5 0)) \<le> 6" by (simp add: square_dist_def)
  ultimately show ?thesis using edge_hit_exact [of sample_geometry "pt 5 3" 6] by (auto simp: sample_geometry_def)
qed

end
