(* ===== verification/RouteLabels.thy ===== *)
theory RouteLabels
  imports RouteGeometry JsSort
begin

text \<open>
  Edge labels, \<open>packages/domain/src/edges/routing/labels.ts\<close>: the anchor, the priority order, the uniform
  hash over screen boxes and the placement loop. The hash is a client structure of its own contract
  \<open>overlap_index\<close>, on which the placement theorem rests. The text of a label is its list of code points.
\<close>

definition LABEL_T_OFFSETS :: "real list" where
  "LABEL_T_OFFSETS = [0, - (12 / 100), 12 / 100, - (24 / 100), 24 / 100, - (36 / 100), 36 / 100]"
definition LABEL_PERP_OFFSETS :: "real list" where
  "LABEL_PERP_OFFSETS = [0, - 14, 14, - 26, 26]"
definition LABEL_CELL_W :: real where "LABEL_CELL_W = 48"
definition LABEL_CELL_H :: real where "LABEL_CELL_H = 24"
definition LABEL_BUDGET :: nat where "LABEL_BUDGET = 250"
definition LABEL_MAX_CHARS_L2 :: nat where "LABEL_MAX_CHARS_L2 = 28"
definition LABEL_MAX_CHARS_L3 :: nat where "LABEL_MAX_CHARS_L3 = 48"

definition labelAnchor :: "EdgeGeometry \<Rightarrow> real \<Rightarrow> route_pt \<Rightarrow> OrientedPoint" where
  "labelAnchor g t offset =
     (let base = pointAtFraction (eg_flat g) t; c = cos (op_angle base); s = sin (op_angle base)
      in oriented (op_x base + px offset * c - py offset * s) (op_y base + px offset * s + py offset * c) (op_angle base))"

definition ellipsis :: nat where "ellipsis = 8230"

definition truncateLabel :: "nat list \<Rightarrow> nat \<Rightarrow> nat list" where
  "truncateLabel text maxChars =
     (if length text \<le> maxChars then text else take (max 1 (maxChars - 1)) text @ [ellipsis])"

record ScreenBox =
  sb_x :: real
  sb_y :: real
  sb_w :: real
  sb_h :: real

record LabelCandidate =
  lc_id :: string
  lc_text :: "nat list"
  lc_geometry :: EdgeGeometry
  lc_t :: real
  lc_selected :: "bool option"
  lc_hovered :: "bool option"
  lc_confidenceRank :: "real option"
  lc_weight :: "real option"

record PlaceLabelsOptions =
  po_toScreen :: "route_pt \<Rightarrow> route_pt"
  po_measure :: "LabelCandidate \<Rightarrow> real \<times> real"
  po_nodeBoxes :: "ScreenBox list option"
  po_budget :: "nat option"

record PlacedLabel =
  pl_id :: string
  pl_box :: ScreenBox
  pl_t :: real
  pl_dotFallback :: bool

section \<open>Priority\<close>

definition label_flag :: "LabelCandidate \<Rightarrow> real" where
  "label_flag c = (if lc_selected c = Some True then 2 else if lc_hovered c = Some True then 1 else 0)"

definition number_or_zero :: "real option \<Rightarrow> real" where
  "number_or_zero v = (case v of Some x \<Rightarrow> x | None \<Rightarrow> 0)"

definition compareLabelPriority :: "LabelCandidate \<Rightarrow> LabelCandidate \<Rightarrow> real" where
  "compareLabelPriority a b =
     (if label_flag a \<noteq> label_flag b then label_flag b - label_flag a
      else if number_or_zero (lc_confidenceRank a) \<noteq> number_or_zero (lc_confidenceRank b)
      then number_or_zero (lc_confidenceRank b) - number_or_zero (lc_confidenceRank a)
      else if number_or_zero (lc_weight a) \<noteq> number_or_zero (lc_weight b)
      then number_or_zero (lc_weight b) - number_or_zero (lc_weight a)
      else if lc_id a < lc_id b then - 1 else if lc_id a > lc_id b then 1 else 0)"

interpretation label_order: js_comparator compareLabelPriority
proof
  show "compareLabelPriority x y < 0 \<longleftrightarrow> 0 < compareLabelPriority y x" for x y
    by (auto simp: compareLabelPriority_def)
  show "compareLabelPriority x z \<le> 0" if "compareLabelPriority x y \<le> 0" "compareLabelPriority y z \<le> 0" for x y z
    using that by (auto simp: compareLabelPriority_def not_less split: if_splits)
qed

section \<open>The uniform hash\<close>

definition boxes_overlap :: "ScreenBox \<Rightarrow> ScreenBox \<Rightarrow> bool" where
  "boxes_overlap a b \<longleftrightarrow>
     sb_x a < sb_x b + sb_w b \<and> sb_x b < sb_x a + sb_w a \<and> sb_y a < sb_y b + sb_h b \<and> sb_y b < sb_y a + sb_h a"

record UniformHash =
  uh_cellW :: real
  uh_cellH :: real
  uh_cells :: "((int \<times> int), ScreenBox list) omap"

definition new_hash :: "real \<Rightarrow> real \<Rightarrow> UniformHash" where
  "new_hash cellW cellH = \<lparr>uh_cellW = cellW, uh_cellH = cellH, uh_cells = []\<rparr>"

text \<open>The key \<open>x:y\<close> is the pair of its two numbers.\<close>

definition keysFor :: "UniformHash \<Rightarrow> ScreenBox \<Rightarrow> (int \<times> int) list" where
  "keysFor h b =
     (let x0 = \<lfloor>sb_x b / uh_cellW h\<rfloor>; x1 = \<lfloor>(sb_x b + sb_w b) / uh_cellW h\<rfloor>;
          y0 = \<lfloor>sb_y b / uh_cellH h\<rfloor>; y1 = \<lfloor>(sb_y b + sb_h b) / uh_cellH h\<rfloor>
      in concat (map (\<lambda>y. map (\<lambda>x. (x, y)) [x0..x1]) [y0..y1]))"

definition hash_bucket :: "UniformHash \<Rightarrow> int \<times> int \<Rightarrow> ScreenBox list" where
  "hash_bucket h k = (case omap_get (uh_cells h) k of None \<Rightarrow> [] | Some bs \<Rightarrow> bs)"

definition hash_insert :: "ScreenBox \<Rightarrow> UniformHash \<Rightarrow> UniformHash" where
  "hash_insert b h =
     h\<lparr>uh_cells := foldl (\<lambda>cells k. case omap_get cells k of None \<Rightarrow> omap_set k [b] cells
                              | Some bucket \<Rightarrow> omap_set k (bucket @ [b]) cells) (uh_cells h) (keysFor h b)\<rparr>"

definition isFree :: "UniformHash \<Rightarrow> ScreenBox \<Rightarrow> bool" where
  "isFree h b \<longleftrightarrow> list_all (\<lambda>k. list_all (\<lambda>c. \<not> boxes_overlap b c) (hash_bucket h k)) (keysFor h b)"

section \<open>Placement\<close>

definition label_clamp01 :: "real \<Rightarrow> real" where
  "label_clamp01 v = max 0 (min 1 v)"

definition label_slots :: "(real \<times> real) list" where
  "label_slots = concat (map (\<lambda>dt. map (\<lambda>perp. (dt, perp)) LABEL_PERP_OFFSETS) LABEL_T_OFFSETS)"

definition label_box :: "PlaceLabelsOptions \<Rightarrow> LabelCandidate \<Rightarrow> real \<times> real \<Rightarrow> ScreenBox" where
  "label_box opts c slot =
     (let (w, h) = po_measure opts c; t = label_clamp01 (lc_t c + fst slot);
          anchor = pointAtFraction (eg_flat (lc_geometry c)) t;
          screen = po_toScreen opts (pt (op_x anchor) (op_y anchor));
          nx = - sin (op_angle anchor); ny = cos (op_angle anchor)
      in \<lparr>sb_x = px screen + nx * snd slot - w / 2, sb_y = py screen + ny * snd slot - h / 2, sb_w = w, sb_h = h\<rparr>)"

definition dot_label :: "PlaceLabelsOptions \<Rightarrow> LabelCandidate \<Rightarrow> PlacedLabel" where
  "dot_label opts c =
     (let anchor = pointAtFraction (eg_flat (lc_geometry c)) (lc_t c);
          screen = po_toScreen opts (pt (op_x anchor) (op_y anchor))
      in \<lparr>pl_id = lc_id c, pl_box = \<lparr>sb_x = px screen, sb_y = py screen, sb_w = 3, sb_h = 3\<rparr>,
          pl_t = lc_t c, pl_dotFallback = True\<rparr>)"

definition place_label ::
  "PlaceLabelsOptions \<Rightarrow> UniformHash \<times> PlacedLabel list \<Rightarrow> LabelCandidate \<Rightarrow> UniformHash \<times> PlacedLabel list" where
  "place_label opts st c =
     (let (grid, placed) = st
      in case List.find (\<lambda>slot. isFree grid (label_box opts c slot)) label_slots of
           Some slot \<Rightarrow>
             (hash_insert (label_box opts c slot) grid,
              placed @ [\<lparr>pl_id = lc_id c, pl_box = label_box opts c slot, pl_t = label_clamp01 (lc_t c + fst slot),
                         pl_dotFallback = False\<rparr>])
         | None \<Rightarrow> (grid, placed @ [dot_label opts c]))"

definition considered_labels :: "LabelCandidate list \<Rightarrow> PlaceLabelsOptions \<Rightarrow> LabelCandidate list" where
  "considered_labels candidates opts =
     take (case po_budget opts of Some b \<Rightarrow> b | None \<Rightarrow> LABEL_BUDGET) (js_sort compareLabelPriority candidates)"

definition placeLabels :: "LabelCandidate list \<Rightarrow> PlaceLabelsOptions \<Rightarrow> PlacedLabel list" where
  "placeLabels candidates opts =
     (let grid = foldl (\<lambda>h b. hash_insert b h) (new_hash LABEL_CELL_W LABEL_CELL_H)
                   (case po_nodeBoxes opts of Some bs \<Rightarrow> bs | None \<Rightarrow> [])
      in snd (foldl (place_label opts) (grid, []) (considered_labels candidates opts)))"

section \<open>The hash is exact\<close>

definition proper_box :: "ScreenBox \<Rightarrow> bool" where
  "proper_box b \<longleftrightarrow> 0 \<le> sb_w b \<and> 0 \<le> sb_h b"

definition hash_holds :: "UniformHash \<Rightarrow> ScreenBox set \<Rightarrow> bool" where
  "hash_holds h S \<longleftrightarrow> 0 < uh_cellW h \<and> 0 < uh_cellH h
     \<and> (\<forall>k b. b \<in> set (hash_bucket h k) \<longleftrightarrow> b \<in> S \<and> k \<in> set (keysFor h b))"

lemma keysFor_iff:
  "(x, y) \<in> set (keysFor h b) \<longleftrightarrow>
     \<lfloor>sb_x b / uh_cellW h\<rfloor> \<le> x \<and> x \<le> \<lfloor>(sb_x b + sb_w b) / uh_cellW h\<rfloor>
     \<and> \<lfloor>sb_y b / uh_cellH h\<rfloor> \<le> y \<and> y \<le> \<lfloor>(sb_y b + sb_h b) / uh_cellH h\<rfloor>"
  by (auto simp: keysFor_def Let_def image_iff Bex_def)

lemma set_hash_bucket: "set (hash_bucket h k) = (case omap_get (uh_cells h) k of None \<Rightarrow> {} | Some bs \<Rightarrow> set bs)"
  by (simp add: hash_bucket_def split: option.split)

lemma hash_insert_sizes [simp]: "uh_cellW (hash_insert b h) = uh_cellW h" "uh_cellH (hash_insert b h) = uh_cellH h"
  by (simp_all add: hash_insert_def)

lemma keysFor_insert [simp]: "keysFor (hash_insert b h) = keysFor h"
  by (simp add: keysFor_def fun_eq_iff)

lemma insert_cells:
  "(case omap_get (foldl (\<lambda>cells k. case omap_get cells k of None \<Rightarrow> omap_set k [b] cells
        | Some bucket \<Rightarrow> omap_set k (bucket @ [b]) cells) cells ks) j of None \<Rightarrow> {} | Some bs \<Rightarrow> set bs)
   = (case omap_get cells j of None \<Rightarrow> {} | Some bs \<Rightarrow> set bs) \<union> (if j \<in> set ks then {b} else {})"
  by (induction ks arbitrary: cells) (auto split: option.splits)

lemma hash_insert_holds: "hash_holds h S \<Longrightarrow> hash_holds (hash_insert b h) (insert b S)"
proof -
  assume h: "hash_holds h S"
  have "set (hash_bucket (hash_insert b h) k) = set (hash_bucket h k) \<union> (if k \<in> set (keysFor h b) then {b} else {})" for k
    unfolding set_hash_bucket hash_insert_def using insert_cells [of b "uh_cells h" "keysFor h b" k] by simp
  then show ?thesis using h by (auto simp: hash_holds_def split: if_splits)
qed

lemma new_hash_holds: "0 < w \<Longrightarrow> 0 < v \<Longrightarrow> hash_holds (new_hash w v) {}"
  by (simp add: hash_holds_def new_hash_def hash_bucket_def)

lemma hash_inserts_hold: "hash_holds h S \<Longrightarrow> hash_holds (foldl (\<lambda>h b. hash_insert b h) h bs) (S \<union> set bs)"
proof (induction bs arbitrary: h S)
  case (Cons b bs)
  from Cons.IH [OF hash_insert_holds [OF Cons.prems]] show ?case by simp
qed simp

text \<open>Two boxes that overlap share a cell.\<close>

lemma overlap_shares_cell:
  assumes "boxes_overlap a b" "0 < uh_cellW h" "0 < uh_cellH h" "proper_box a" "proper_box b"
  shows "\<exists>k \<in> set (keysFor h a). k \<in> set (keysFor h b)"
proof -
  let ?x = "\<lfloor>max (sb_x a) (sb_x b) / uh_cellW h\<rfloor>" and ?y = "\<lfloor>max (sb_y a) (sb_y b) / uh_cellH h\<rfloor>"
  have "(?x, ?y) \<in> set (keysFor h a)" "(?x, ?y) \<in> set (keysFor h b)"
    unfolding keysFor_iff using assms
    by (auto simp: boxes_overlap_def proper_box_def intro!: floor_mono divide_right_mono)
  then show ?thesis by blast
qed

lemma isFree_exact:
  assumes "hash_holds h S" "\<forall>b \<in> S. proper_box b" "proper_box b"
  shows "isFree h b \<longleftrightarrow> (\<forall>c \<in> S. \<not> boxes_overlap b c)"
proof
  assume free: "isFree h b"
  show "\<forall>c \<in> S. \<not> boxes_overlap b c"
  proof (intro ballI notI)
    fix c assume c: "c \<in> S" "boxes_overlap b c"
    then obtain k where "k \<in> set (keysFor h b)" "k \<in> set (keysFor h c)"
      using overlap_shares_cell [of b c h] assms by (auto simp: hash_holds_def)
    moreover from this have "c \<in> set (hash_bucket h k)" using assms(1) c unfolding hash_holds_def by blast
    ultimately show False using free c by (auto simp: isFree_def list_all_iff)
  qed
qed (use assms(1) in \<open>auto simp: isFree_def list_all_iff hash_holds_def\<close>)

section \<open>Labels do not cover each other\<close>

definition shown_boxes :: "PlacedLabel list \<Rightarrow> ScreenBox list" where
  "shown_boxes ls = map pl_box (filter (\<lambda>l. \<not> pl_dotFallback l) ls)"

definition apart :: "ScreenBox \<Rightarrow> ScreenBox \<Rightarrow> bool" where
  "apart a b \<longleftrightarrow> \<not> boxes_overlap a b"

lemma apart_sym: "apart a b \<longleftrightarrow> apart b a"
  by (auto simp: apart_def boxes_overlap_def)

lemma place_label_ok:
  assumes "hash_holds grid (set nodes \<union> set (shown_boxes placed))"
    and "\<forall>b \<in> set nodes \<union> set (shown_boxes placed). proper_box b" "\<And>slot. proper_box (label_box opts c slot)"
    and "sorted_wrt apart (shown_boxes placed)" "\<forall>b \<in> set (shown_boxes placed). \<forall>n \<in> set nodes. apart b n"
    and "place_label opts (grid, placed) c = (grid', placed')"
  shows "hash_holds grid' (set nodes \<union> set (shown_boxes placed'))
    \<and> (\<forall>b \<in> set nodes \<union> set (shown_boxes placed'). proper_box b)
    \<and> sorted_wrt apart (shown_boxes placed') \<and> (\<forall>b \<in> set (shown_boxes placed'). \<forall>n \<in> set nodes. apart b n)"
proof (cases "List.find (\<lambda>slot. isFree grid (label_box opts c slot)) label_slots")
  case None
  then have "grid' = grid" "shown_boxes placed' = shown_boxes placed"
    using assms(6) by (auto simp: place_label_def shown_boxes_def dot_label_def Let_def)
  then show ?thesis using assms(1-5) by simp
next
  case (Some slot)
  let ?b = "label_box opts c slot"
  have "isFree grid ?b" using Some by (auto simp: find_Some_iff)
  then have free: "\<forall>x \<in> set nodes \<union> set (shown_boxes placed). apart ?b x"
    using isFree_exact [OF assms(1,2,3)] by (simp add: apart_def)
  have new: "shown_boxes placed' = shown_boxes placed @ [?b]" "grid' = hash_insert ?b grid"
    using assms(6) Some by (auto simp: place_label_def shown_boxes_def)
  have "hash_holds grid' (set nodes \<union> set (shown_boxes placed'))"
    using hash_insert_holds [OF assms(1), of ?b] new by simp
  then show ?thesis using assms free new by (auto simp: sorted_wrt_append apart_sym)
qed

lemma place_labels_fold:
  assumes "hash_holds grid (set nodes \<union> set (shown_boxes placed))"
    and "\<forall>b \<in> set nodes \<union> set (shown_boxes placed). proper_box b" "\<And>c slot. c \<in> set cs \<Longrightarrow> proper_box (label_box opts c slot)"
    and "sorted_wrt apart (shown_boxes placed)" "\<forall>b \<in> set (shown_boxes placed). \<forall>n \<in> set nodes. apart b n"
  shows "sorted_wrt apart (shown_boxes (snd (foldl (place_label opts) (grid, placed) cs)))
    \<and> (\<forall>b \<in> set (shown_boxes (snd (foldl (place_label opts) (grid, placed) cs))). \<forall>n \<in> set nodes. apart b n)"
  using assms
proof (induction cs arbitrary: grid placed)
  case (Cons c cs)
  obtain grid' placed' where p: "place_label opts (grid, placed) c = (grid', placed')" by fastforce
  have "proper_box (label_box opts c slot)" for slot using Cons.prems(3) by simp
  from place_label_ok [OF Cons.prems(1,2) this Cons.prems(4,5) p]
  show ?case using Cons.IH [of grid' placed'] Cons.prems(3) p by simp
qed simp

lemma placed_ids: "map pl_id (snd (foldl (place_label opts) (grid, placed) cs)) = map pl_id placed @ map lc_id cs"
proof (induction cs arbitrary: grid placed)
  case (Cons c cs)
  obtain grid' placed' where p: "place_label opts (grid, placed) c = (grid', placed')" by fastforce
  then have "map pl_id placed' = map pl_id placed @ [lc_id c]"
    by (auto simp: place_label_def dot_label_def Let_def split: option.splits)
  then show ?case using Cons.IH [of grid' placed'] p by simp
qed simp

lemma label_box_proper: "0 \<le> fst (po_measure opts c) \<and> 0 \<le> snd (po_measure opts c) \<Longrightarrow> proper_box (label_box opts c slot)"
  by (cases "po_measure opts c") (simp add: label_box_def proper_box_def Let_def)

text \<open>C12. Placement.
  Every considered candidate gets exactly one label, in priority order, and the labels drawn in full
  cover neither each other nor a node.
\<close>

theorem labels_do_not_overlap:
  assumes "\<forall>c \<in> set candidates. 0 \<le> fst (po_measure opts c) \<and> 0 \<le> snd (po_measure opts c)"
    and "\<forall>n \<in> set (case po_nodeBoxes opts of Some bs \<Rightarrow> bs | None \<Rightarrow> []). proper_box n"
  shows "map pl_id (placeLabels candidates opts) = map lc_id (considered_labels candidates opts)
    \<and> sorted_wrt (\<lambda>a b. compareLabelPriority a b \<le> 0) (considered_labels candidates opts)
    \<and> sorted_wrt apart (shown_boxes (placeLabels candidates opts))
    \<and> (\<forall>b \<in> set (shown_boxes (placeLabels candidates opts)).
         \<forall>n \<in> set (case po_nodeBoxes opts of Some bs \<Rightarrow> bs | None \<Rightarrow> []). apart b n)"
proof -
  let ?nodes = "case po_nodeBoxes opts of Some bs \<Rightarrow> bs | None \<Rightarrow> []"
  let ?cs = "considered_labels candidates opts"
  have cs: "set ?cs \<subseteq> set candidates"
    by (metis considered_labels_def set_js_sort set_take_subset)
  have grid: "hash_holds (foldl (\<lambda>h b. hash_insert b h) (new_hash LABEL_CELL_W LABEL_CELL_H) ?nodes)
      (set ?nodes \<union> set (shown_boxes []))"
    using hash_inserts_hold [OF new_hash_holds, of LABEL_CELL_W LABEL_CELL_H ?nodes]
    by (simp add: shown_boxes_def LABEL_CELL_W_def LABEL_CELL_H_def)
  have "sorted_wrt apart (shown_boxes (placeLabels candidates opts))
      \<and> (\<forall>b \<in> set (shown_boxes (placeLabels candidates opts)). \<forall>n \<in> set ?nodes. apart b n)"
    unfolding placeLabels_def Let_def
    using assms cs by (intro place_labels_fold [OF grid]) (auto intro: label_box_proper simp: shown_boxes_def)
  moreover have "sorted_wrt (\<lambda>a b. compareLabelPriority a b \<le> 0) ?cs"
    unfolding considered_labels_def by (intro sorted_wrt_take label_order.sorted_js_sort)
  ultimately show ?thesis by (simp add: placed_ids placeLabels_def Let_def)
qed

definition sample_label :: LabelCandidate where
  "sample_label =
     \<lparr>lc_id = ''e'', lc_text = [], lc_geometry =
        \<lparr>eg_kind = GK_line, eg_mode = RM_straight, eg_flat = [0, 0, 10, 0], eg_cmds = [], eg_bbox = None, eg_length = 10,
         eg_start = oriented 0 0 0, eg_end = oriented 10 0 0, eg_label = oriented 5 0 0, eg_degraded = False, eg_revision = 1\<rparr>,
      lc_t = 1 / 2, lc_selected = None, lc_hovered = None, lc_confidenceRank = None, lc_weight = None\<rparr>"

definition sample_options :: PlaceLabelsOptions where
  "sample_options =
     \<lparr>po_toScreen = (\<lambda>p. p), po_measure = (\<lambda>c. (10, 8)),
      po_nodeBoxes = Some [\<lparr>sb_x = 0, sb_y = 0, sb_w = 4, sb_h = 4\<rparr>], po_budget = None\<rparr>"

theorem labels_do_not_overlap_witness:
  "length (placeLabels [sample_label, sample_label] sample_options) = 2
   \<and> sorted_wrt apart (shown_boxes (placeLabels [sample_label, sample_label] sample_options))"
proof -
  have "\<forall>c \<in> set [sample_label, sample_label]. 0 \<le> fst (po_measure sample_options c) \<and> 0 \<le> snd (po_measure sample_options c)"
    "\<forall>n \<in> set (case po_nodeBoxes sample_options of Some bs \<Rightarrow> bs | None \<Rightarrow> []). proper_box n"
    by (simp_all add: sample_options_def proper_box_def)
  note placed = labels_do_not_overlap [OF this]
  have "length (considered_labels [sample_label, sample_label] sample_options) = 2"
    by (simp add: considered_labels_def sample_options_def js_sort_def LABEL_BUDGET_def)
  then have "length (placeLabels [sample_label, sample_label] sample_options) = 2"
    using placed by (metis length_map)
  then show ?thesis using placed by blast
qed

end
