(* ===== verification/Spec2Isabelle.thy ===== *)
theory Spec2Isabelle
  imports Prelude Sha256 NetPolicy TransformPlanner TransformHistory TransformRun IntegrationErrors IntegrationResolve IntegrationRegistry CanvasIndex CanvasSelection CanvasFsm CanvasGraphSpec RouteEdge RouteHit RouteLabels RouteCache
begin

text \<open>
  A verification library for the pure TypeScript core of an infinite-canvas workspace: the packages
  \<open>domain\<close> (hashing, network policy, routing of edges), \<open>transforms\<close> (routing and planning of enrichment
  transforms), \<open>integrations\<close> (running external tools and importing what they find) and
  \<open>canvas-engine\<close> (scene, index, interaction). Each theory translates one or a few
  source files, definition by definition, and proves what makes them correct.

  Parts and theories.

  \<^item> \<open>Prelude\<close>: the JavaScript library the source uses (\<open>Map\<close> as the insertion-ordered \<open>omap\<close>,
    \<open>new Set\<close> spreads, string operations) and the interface \<open>keyed_store\<close>.
  \<^item> \<open>Sha256\<close>: \<open>domain/src/files/sha256.ts\<close> on 32-bit words with its 64-byte buffer; equivalence with a
    functional FIPS 180-4 digest of the whole message, for every chunking.
  \<^item> \<open>NetPolicy\<close>: \<open>domain/src/net/urlValidator.ts\<close>, \<open>dnsPin.ts\<close>, \<open>safeFetch.ts\<close>. The URL parser,
    Unicode tables, resolver and transport are arguments; \<open>fetch_hops\<close> recurses on the hops left
    (limit + 1, so it always returns). Every connection goes to a pinned, unblocked address.
  \<^item> \<open>TransformTypes\<close>, \<open>TransformRouting\<close>, \<open>TransformPlanner\<close>: \<open>transforms/src/types.ts\<close>,
    \<open>manifest.ts\<close>, \<open>modes.ts\<close>, \<open>score.ts\<close>, \<open>registry.ts\<close>, \<open>router.ts\<close>, \<open>planner.ts\<close>. The
    registry is the interface \<open>transform_registry\<close>, interpreted on \<open>build_registry\<close>; the planner is
    its client.
  \<^item> \<open>TransformHistory\<close>: \<open>transforms/src/cache.ts\<close> and \<open>history.ts\<close>, both over \<open>Map\<close>; the cache refines
    a map with lifetimes, replay is a client of the router.
  \<^item> \<open>TransformRun\<close>: \<open>transforms/src/sdk/run.ts\<close> over the contract \<open>sdk/types.ts\<close>. The third-party engine is
    a record of what its functions return or throw and a trace of events that \<open>drive\<close> consumes; \<open>None\<close> is
    a trace on which the driver still waits.
  \<^item> \<open>JsValue\<close>, \<open>IntegrationErrors\<close>: values of unknown type with their JSON text, and
    \<open>integrations/src/errors.ts\<close>: the copy table, payloads and the retry schedule.
  \<^item> \<open>IntegrationNormalize\<close>, \<open>IntegrationResolve\<close>: \<open>extract/normalizers.ts\<close>, \<open>resolve/identity.ts\<close>,
    \<open>resolve/merge.ts\<close>, \<open>extract/confidence.ts\<close>: the canonical form of every kind of entity, its key, the
    node it is, and what happens to each field.
  \<^item> \<open>IntegrationManifest\<close>, \<open>IntegrationConsent\<close>: \<open>manifest.ts\<close> (the schemas as predicates, migration as a
    loop bounded by the version distance) and \<open>consent.ts\<close> (what a consent is bound to, which targets are
    legal), a client of \<open>Sha256\<close>.
  \<^item> \<open>IntegrationInput\<close>, \<open>IntegrationExtract\<close>, \<open>IntegrationProposal\<close>, \<open>IntegrationRegistry\<close>: the eight-stage
    pipeline of \<open>pipeline.ts\<close> with \<open>declarativeParser.ts\<close> and \<open>registry.ts\<close>. The mapper contracts are the
    interfaces \<open>node_mapper\<close> and \<open>import_mappers\<close>, interpreted on the default mappers; the
    end-to-end theorem on \<open>runParsePipeline\<close> rests on them.
  \<^item> \<open>RouteGeometry\<close>, \<open>RouteModes\<close>: \<open>domain/src/edges/routing\<close> \<open>types.ts\<close>, \<open>geometry.ts\<close>, \<open>separation.ts\<close>,
    \<open>ports.ts\<close>, \<open>straight.ts\<close>, \<open>curved.ts\<close>, \<open>selfloop.ts\<close>, \<open>smart.ts\<close>: the primitives and the shapes of edges that
    need no search.
  \<^item> \<open>RouteHeap\<close>, \<open>RouteOrthogonal\<close>, \<open>RouteSearch\<close>, \<open>RouteClear\<close>: \<open>orthogonal.ts\<close>. The heap provides the
    interface \<open>cost_queue\<close>; the search ends because every expansion spends the budget of
    \<open>EXPANSION_BUDGET\<close> and every other turn shortens the heap; its invariant gives soundness and
    completeness, and the post-processing keeps the path clear of obstacles.
  \<^item> \<open>RouteEdge\<close>, \<open>RouteHit\<close>, \<open>RouteLabels\<close>, \<open>RouteCache\<close>: \<open>route.ts\<close> with \<open>clip.ts\<close>, \<open>hit-test.ts\<close> with
    \<open>waypoints.ts\<close>, \<open>labels.ts\<close> (a client of \<open>js_comparator\<close>) and \<open>cache.ts\<close>.
  \<^item> \<open>CanvasTypes\<close>: \<open>canvas-engine/src/types.ts\<close> and \<open>constants.ts\<close>, the shared vocabulary.
  \<^item> \<open>CanvasIndex\<close>: \<open>scene/index-grid.ts\<close>; the interface \<open>spatial_index\<close>, interpreted as \<open>grid\<close>.
  \<^item> \<open>CanvasGraph\<close>, \<open>CanvasGraphInv\<close>, \<open>CanvasGraphSpec\<close>: \<open>scene/graph.ts\<close>, a client of \<open>grid\<close> and of the
    comparator contract \<open>js_comparator\<close> of \<open>JsSort\<close>; the model, its invariant, and what its clients rely on.
  \<^item> \<open>CanvasSnapping\<close>, \<open>CanvasSelection\<close>, \<open>CanvasFsm\<close>: \<open>interaction/snapping.ts\<close>, \<open>selection.ts\<close> with
    \<open>scheduler.ts\<close>, and \<open>interaction/fsm.ts\<close>, the reducer from events to states and effects.

  Conventions. Exceptions are \<open>Inl\<close> values, \<open>undefined\<close> and \<open>null\<close> are \<open>None\<close>. Objects with
  closures over mutable state are records passed through. Coordinates and scores are real numbers, so
  IEEE rounding is idealised; a number that may be \<open>NaN\<close> or infinite at an interface is a \<open>js_num\<close>.
  Characters are UTF-16 code units below 256. Listeners and clocks are recorded logs or sets of handles.

  Restrictions. A response body that fails midway through is outside \<open>NetPolicy\<close>. The bracketing theorem of
  the state machine is about orderly sessions (one pointer, no event that the machine drops a gesture
  on); the theorems on context menus show what happens otherwise. Snapshots given to the scene graph have
  unique ids.

  Not modelled: React views, canvas painting and camera animation, the server applications, the
  collaborative document (operations on a Yjs replica, a third-party CRDT), database access, literal
  catalogues of transforms, and the parts of the packages listed in the manifest as planned.
\<close>

end
